(* ===== verification/LazyPrelude.thy ===== *)
theory LazyPrelude
  imports Main "HOL-Library.Multiset"
begin

text \<open>
  Shared vocabulary of the development.

  \<^item> Results: a function of the program that may throw returns \<open>'e + 'a\<close>, with \<open>Inl\<close>
    for the thrown error.
  \<^item> Ordered maps: a JavaScript \<open>Map\<close> iterates its entries in the order their keys were first
    inserted, and \<open>set\<close> on a present key keeps the key's position. The model is an association
    list with \<open>omap_set\<close> and \<open>omap_delete\<close>; the interface \<open>js_map\<close> states what clients rely on.
  \<^item> Sorting: \<open>Array.prototype.sort\<close> is stable. The model \<open>js_sort\<close> is an insertion sort by a
    comparator returning a number; the interface \<open>comparator\<close> states what makes the result sorted.
\<close>

section \<open>Theorem collections\<close>

named_theorems omap_simps \<open>facts on ordered maps\<close>
named_theorems text_simps \<open>facts on JavaScript strings\<close>
named_theorems store_simps \<open>facts on the task store\<close>

section \<open>Results\<close>

type_synonym ('e, 'a) result = "'e + 'a"

fun bind_result :: "'e + 'a \<Rightarrow> ('a \<Rightarrow> 'e + 'b) \<Rightarrow> 'e + 'b" where
  "bind_result (Inl e) f = Inl e"
| "bind_result (Inr x) f = f x"

lemma bind_result_Inr_iff:
  "bind_result r f = Inr y \<longleftrightarrow> (\<exists>x. r = Inr x \<and> f x = Inr y)"
  by (cases r) auto

section \<open>Ordered maps\<close>

type_synonym ('k, 'v) omap = "('k \<times> 'v) list"

definition omap_get :: "('k, 'v) omap \<Rightarrow> 'k \<Rightarrow> 'v option" where
  "omap_get m k = map_of m k"

fun omap_set :: "('k, 'v) omap \<Rightarrow> 'k \<Rightarrow> 'v \<Rightarrow> ('k, 'v) omap" where
  "omap_set [] k v = [(k, v)]"
| "omap_set ((k', v') # m) k v = (if k' = k then (k, v) # m else (k', v') # omap_set m k v)"

fun omap_delete :: "('k, 'v) omap \<Rightarrow> 'k \<Rightarrow> ('k, 'v) omap" where
  "omap_delete [] k = []"
| "omap_delete ((k', v') # m) k = (if k' = k then m else (k', v') # omap_delete m k)"

definition omap_keys :: "('k, 'v) omap \<Rightarrow> 'k list" where
  "omap_keys m = map fst m"

definition omap_values :: "('k, 'v) omap \<Rightarrow> 'v list" where
  "omap_values m = map snd m"

definition omap_has :: "('k, 'v) omap \<Rightarrow> 'k \<Rightarrow> bool" where
  "omap_has m k \<longleftrightarrow> k \<in> set (omap_keys m)"

abbreviation omap_ok :: "('k, 'v) omap \<Rightarrow> bool" where
  "omap_ok m \<equiv> distinct (omap_keys m)"

lemma omap_get_simps [simp]:
  "omap_get [] k = None"
  "omap_get ((k', v) # m) k = (if k' = k then Some v else omap_get m k)"
  by (simp_all add: omap_get_def)

lemma omap_keys_simps [simp]:
  "omap_keys [] = []" "omap_keys ((k, v) # m) = k # omap_keys m"
  "omap_keys (m @ m') = omap_keys m @ omap_keys m'"
  by (simp_all add: omap_keys_def)

lemma omap_values_simps [simp]:
  "omap_values [] = []" "omap_values ((k, v) # m) = v # omap_values m"
  "omap_values (m @ m') = omap_values m @ omap_values m'"
  by (simp_all add: omap_values_def)

lemma omap_get_set [simp, omap_simps]:
  "omap_get (omap_set m k v) k' = (if k' = k then Some v else omap_get m k')"
  by (induction m k v rule: omap_set.induct) auto

lemma omap_get_append: "omap_get (m @ m') k = (case omap_get m k of Some v \<Rightarrow> Some v | None \<Rightarrow> omap_get m' k)"
  by (induction m) (auto split: if_splits)

lemma omap_get_None_iff: "omap_get m k = None \<longleftrightarrow> k \<notin> set (omap_keys m)"
  by (simp add: omap_get_def omap_keys_def map_of_eq_None_iff)

lemma omap_get_in: "omap_get m k = Some v \<Longrightarrow> (k, v) \<in> set m"
  by (simp add: omap_get_def map_of_SomeD)

lemma omap_get_in_keys: "omap_get m k = Some v \<Longrightarrow> k \<in> set (omap_keys m)"
  by (metis omap_get_None_iff option.distinct(1))

lemma omap_get_in_values: "omap_get m k = Some v \<Longrightarrow> v \<in> set (omap_values m)"
  using omap_get_in [of m k v] by (auto simp: omap_values_def rev_image_eqI)

lemma omap_in_get: "omap_ok m \<Longrightarrow> (k, v) \<in> set m \<Longrightarrow> omap_get m k = Some v"
  by (simp add: omap_get_def omap_keys_def)

lemma omap_in_keys: "(k, v) \<in> set m \<Longrightarrow> k \<in> set (omap_keys m)"
  by (auto simp: omap_keys_def rev_image_eqI)

lemma keys_omap_set [omap_simps]:
  "omap_keys (omap_set m k v) = (if k \<in> set (omap_keys m) then omap_keys m else omap_keys m @ [k])"
  by (induction m k v rule: omap_set.induct) auto

lemma set_keys_omap_set [simp]: "set (omap_keys (omap_set m k v)) = insert k (set (omap_keys m))"
  by (auto simp: keys_omap_set)

lemma omap_ok_set [simp, omap_simps]: "omap_ok (omap_set m k v) = omap_ok m"
  by (auto simp: keys_omap_set)

lemma omap_set_fresh: "k \<notin> set (omap_keys m) \<Longrightarrow> omap_set m k v = m @ [(k, v)]"
  by (induction m k v rule: omap_set.induct) auto

lemma values_omap_set: "set (omap_values (omap_set m k v)) \<subseteq> insert v (set (omap_values m))"
  by (induction m k v rule: omap_set.induct) auto

lemma keys_omap_delete1: "omap_keys (omap_delete m k) = remove1 k (omap_keys m)"
  by (induction m k rule: omap_delete.induct) auto

lemma omap_ok_delete [simp, omap_simps]: "omap_ok m \<Longrightarrow> omap_ok (omap_delete m k)"
  unfolding keys_omap_delete1 by (rule distinct_remove1)

lemma omap_get_delete [omap_simps]:
  "omap_ok m \<Longrightarrow> omap_get (omap_delete m k) k' = (if k' = k then None else omap_get m k')"
  by (induction m k rule: omap_delete.induct) (auto simp: omap_get_None_iff)

lemma keys_omap_delete [omap_simps]:
  "omap_ok m \<Longrightarrow> set (omap_keys (omap_delete m k)) = set (omap_keys m) - {k}"
  unfolding keys_omap_delete1 by (rule set_remove1_eq)

lemma omap_has_iff [omap_simps]: "omap_has m k \<longleftrightarrow> omap_get m k \<noteq> None"
  by (simp add: omap_has_def omap_get_None_iff)

lemma omap_values_get:
  "omap_ok m \<Longrightarrow> v \<in> set (omap_values m) \<longleftrightarrow> (\<exists>k. omap_get m k = Some v)"
proof
  assume ok: "omap_ok m" and "v \<in> set (omap_values m)"
  then obtain k where "(k, v) \<in> set m" by (auto simp: omap_values_def)
  with ok show "\<exists>k. omap_get m k = Some v" by (auto intro: omap_in_get)
qed (auto intro: omap_get_in_values)

text \<open>What a client of a \<open>Map\<close> relies on.\<close>

locale js_map =
  fixes get :: "'m \<Rightarrow> 'k \<Rightarrow> 'v option"
    and put :: "'m \<Rightarrow> 'k \<Rightarrow> 'v \<Rightarrow> 'm"
    and del :: "'m \<Rightarrow> 'k \<Rightarrow> 'm"
    and inv :: "'m \<Rightarrow> bool"
  assumes get_put: "inv m \<Longrightarrow> get (put m k v) k' = (if k' = k then Some v else get m k')"
    and get_del: "inv m \<Longrightarrow> get (del m k) k' = (if k' = k then None else get m k')"
    and inv_put: "inv m \<Longrightarrow> inv (put m k v)"
    and inv_del: "inv m \<Longrightarrow> inv (del m k)"
begin

lemma inv_fold_put: "inv m \<Longrightarrow> inv (foldl (\<lambda>m x. put m (f x) (g x)) m xs)"
  by (induction xs arbitrary: m) (auto intro: inv_put)

text \<open>Writing a list of entries one after the other: the last entry for a key wins.\<close>

lemma get_fold_put:
  "inv m \<Longrightarrow> get (foldl (\<lambda>m x. put m (f x) (g x)) m xs) k =
     (case filter (\<lambda>x. f x = k) xs of [] \<Rightarrow> get m k | ys \<Rightarrow> Some (g (last ys)))"
proof (induction xs rule: rev_induct)
  case (snoc x xs)
  then have "inv (foldl (\<lambda>m x. put m (f x) (g x)) m xs)" by (simp add: inv_fold_put)
  then show ?case
    using snoc by (auto simp: get_put split: list.splits)
qed simp

lemma get_fold_put_Some:
  "inv m \<Longrightarrow> x \<in> set xs \<Longrightarrow>
     \<exists>y \<in> set xs. f y = f x \<and> get (foldl (\<lambda>m x. put m (f x) (g x)) m xs) (f x) = Some (g y)"
proof -
  assume inv: "inv m" and x: "x \<in> set xs"
  let ?ys = "filter (\<lambda>y. f y = f x) xs"
  have ne: "?ys \<noteq> []" using x by (auto simp: filter_empty_conv)
  then have "last ?ys \<in> set ?ys" by (rule last_in_set)
  moreover have "get (foldl (\<lambda>m x. put m (f x) (g x)) m xs) (f x) = Some (g (last ?ys))"
    using ne by (simp add: get_fold_put [OF inv] split: list.splits)
  ultimately show ?thesis by auto
qed

end

interpretation om: js_map omap_get omap_set omap_delete omap_ok
  by unfold_locales (simp_all add: omap_get_delete)

section \<open>Sorting by a comparator\<close>

fun js_insert :: "('a \<Rightarrow> 'a \<Rightarrow> int) \<Rightarrow> 'a \<Rightarrow> 'a list \<Rightarrow> 'a list" where
  "js_insert cmp x [] = [x]"
| "js_insert cmp x (y # ys) = (if cmp x y \<le> 0 then x # y # ys else y # js_insert cmp x ys)"

fun js_sort :: "('a \<Rightarrow> 'a \<Rightarrow> int) \<Rightarrow> 'a list \<Rightarrow> 'a list" where
  "js_sort cmp [] = []"
| "js_sort cmp (x # xs) = js_insert cmp x (js_sort cmp xs)"

lemma mset_js_insert [simp]: "mset (js_insert cmp x xs) = add_mset x (mset xs)"
  by (induction cmp x xs rule: js_insert.induct) auto

lemma mset_js_sort [simp]: "mset (js_sort cmp xs) = mset xs"
  by (induction cmp xs rule: js_sort.induct) auto

lemma set_js_insert [simp]: "set (js_insert cmp x xs) = insert x (set xs)"
  by (induction cmp x xs rule: js_insert.induct) auto

lemma set_js_sort [simp]: "set (js_sort cmp xs) = set xs"
  by (induction cmp xs rule: js_sort.induct) auto

lemma length_js_sort [simp]: "length (js_sort cmp xs) = length xs"
  by (metis mset_js_sort size_mset)

lemma distinct_js_sort [simp]: "distinct (js_sort cmp xs) = distinct xs"
  by (metis mset_eq_imp_distinct_iff mset_js_sort)

lemma js_sort_singleton [simp]: "js_sort cmp [x] = [x]"
  by simp

text \<open>A comparator that orders its arguments: what \<open>sort\<close> requires of its callback.\<close>

locale comparator =
  fixes cmp :: "'a \<Rightarrow> 'a \<Rightarrow> int"
  assumes cmp_total: "cmp x y \<le> 0 \<or> cmp y x \<le> 0"
    and cmp_trans: "cmp x y \<le> 0 \<Longrightarrow> cmp y z \<le> 0 \<Longrightarrow> cmp x z \<le> 0"
begin

lemma sorted_insert:
  "sorted_wrt (\<lambda>x y. cmp x y \<le> 0) xs \<Longrightarrow> sorted_wrt (\<lambda>x y. cmp x y \<le> 0) (js_insert cmp x xs)"
proof (induction xs)
  case (Cons y ys)
  show ?case
  proof (cases "cmp x y \<le> 0")
    case True
    with Cons.prems show ?thesis by (auto intro: cmp_trans)
  next
    case False
    then have "cmp y x \<le> 0" using cmp_total [of x y] by blast
    with False Cons show ?thesis by auto
  qed
qed simp

lemma sorted_sort: "sorted_wrt (\<lambda>x y. cmp x y \<le> 0) (js_sort cmp xs)"
  by (induction xs) (auto intro: sorted_insert)

lemma hd_sort_least: "y \<in> set xs \<Longrightarrow> cmp (hd (js_sort cmp xs)) y \<le> 0"
proof -
  assume y: "y \<in> set xs"
  then have "y \<in> set (js_sort cmp xs)" by simp
  moreover have "cmp y y \<le> 0" using cmp_total by blast
  ultimately show ?thesis
    using sorted_sort [of xs] by (cases "js_sort cmp xs") auto
qed

text \<open>Entries the comparator cannot tell apart keep their order.\<close>

lemma filter_insert_stable:
  "P x \<Longrightarrow> (\<And>y. y \<in> set xs \<Longrightarrow> P y \<Longrightarrow> cmp x y \<le> 0) \<Longrightarrow>
     filter P (js_insert cmp x xs) = x # filter P xs"
  by (induction xs) auto

lemma filter_insert_skip: "\<not> P x \<Longrightarrow> filter P (js_insert cmp x xs) = filter P xs"
  by (induction xs) auto

lemma sort_stable:
  assumes "\<And>x y. P x \<Longrightarrow> P y \<Longrightarrow> cmp x y \<le> 0"
  shows "filter P (js_sort cmp xs) = filter P xs"
proof (induction xs)
  case (Cons x xs)
  then show ?case
    using assms by (cases "P x") (auto simp: filter_insert_stable filter_insert_skip)
qed simp

end

text \<open>Comparators built from a numeric key.\<close>

definition by_key :: "('a \<Rightarrow> int) \<Rightarrow> 'a \<Rightarrow> 'a \<Rightarrow> int" where
  "by_key f a b = f a - f b"

interpretation by_key: comparator "by_key f" for f
  by unfold_locales (auto simp: by_key_def)

text \<open>\<open>c || d\<close> on comparator results: the second decides where the first is 0.\<close>

definition then_by :: "('a \<Rightarrow> 'a \<Rightarrow> int) \<Rightarrow> ('a \<Rightarrow> 'a \<Rightarrow> int) \<Rightarrow> 'a \<Rightarrow> 'a \<Rightarrow> int" where
  "then_by c d a b = (if c a b \<noteq> 0 then c a b else d a b)"

lemma then_by_key_le_iff:
  "then_by (by_key f) c a b \<le> 0 \<longleftrightarrow> f a < f b \<or> (f a = f b \<and> c a b \<le> 0)"
  by (auto simp: then_by_def by_key_def)

lemma comparator_then_by: "comparator c \<Longrightarrow> comparator (then_by (by_key f) c)"
  unfolding comparator_def then_by_key_le_iff
  by (metis less_trans not_less_iff_gr_or_eq)

end
