(* ===== verification/TaskStates.thy ===== *)
theory TaskStates
  imports JsText "HOL-Library.Product_Lexorder"
begin

text \<open>
  The task state machine: \<open>src/src/types/index.ts\<close> (\<open>TaskStatus\<close>),
  \<open>src/src/task-state-machine.ts\<close> (classification, the transition table and its queries) and
  \<open>src/src/task-edit-rules.ts\<close> (what may still be edited in a status).

  \<open>VALID_TRANSITIONS\<close> is the table of the source, row by row; \<open>assertValidTransition\<close> is the
  function of the source with its three \<open>throw\<close>s as constructors of \<open>transition_error\<close>, which
  carry the values the message is composed of. \<open>status_step\<close> is the step relation of one task's
  status under an actor, and its reflexive transitive closure the statuses a task can get to.
\<close>

section \<open>Statuses\<close>

text \<open>In the order of the rows of \<open>VALID_TRANSITIONS\<close>, the order \<open>Object.entries\<close> visits them.\<close>

datatype TaskStatus = Backlog | Working | Blocked | Conflict | Interrupted | Submitted | Pairing
  | Merging | Zombie | Complete | Abandoned

definition all_statuses :: "TaskStatus list" where
  "all_statuses = [Backlog, Working, Blocked, Conflict, Interrupted, Submitted, Pairing, Merging,
     Zombie, Complete, Abandoned]"

instantiation TaskStatus :: enum
begin

definition "enum_TaskStatus = all_statuses"
definition "enum_all_TaskStatus P = list_all P all_statuses"
definition "enum_ex_TaskStatus P = list_ex P all_statuses"

instance
proof
  show univ: "UNIV = set (enum_class.enum :: TaskStatus list)"
    unfolding enum_TaskStatus_def all_statuses_def by (auto intro: TaskStatus.exhaust)
  show "distinct (enum_class.enum :: TaskStatus list)"
    by (simp add: enum_TaskStatus_def all_statuses_def)
  show "enum_class.enum_all P = Ball UNIV P" for P :: "TaskStatus \<Rightarrow> bool"
    unfolding univ by (simp add: enum_all_TaskStatus_def enum_TaskStatus_def list_all_iff)
  show "enum_class.enum_ex P = Bex UNIV P" for P :: "TaskStatus \<Rightarrow> bool"
    unfolding univ by (simp add: enum_ex_TaskStatus_def enum_TaskStatus_def list_ex_iff)
qed

end

lemma all_TaskStatus_iff: "(\<forall>s. P s) \<longleftrightarrow> list_all P all_statuses"
  by (metis (mono_tags) UNIV_I UNIV_enum enum_TaskStatus_def list_all_iff)

lemma all_statuses_all [simp]: "s \<in> set all_statuses"
  by (metis UNIV_I UNIV_enum enum_TaskStatus_def)

lemma distinct_all_statuses [simp]: "distinct all_statuses"
  by (simp add: all_statuses_def)

fun status_text :: "TaskStatus \<Rightarrow> string" where
  "status_text Backlog = ''backlog''"
| "status_text Working = ''working''"
| "status_text Blocked = ''blocked''"
| "status_text Conflict = ''conflict''"
| "status_text Interrupted = ''interrupted''"
| "status_text Submitted = ''submitted''"
| "status_text Pairing = ''pairing''"
| "status_text Merging = ''merging''"
| "status_text Zombie = ''zombie''"
| "status_text Complete = ''complete''"
| "status_text Abandoned = ''abandoned''"

section \<open>Classification\<close>

definition TERMINAL_STATUSES :: "TaskStatus list" where
  "TERMINAL_STATUSES = [Complete, Abandoned]"

definition isTerminalStatus :: "TaskStatus \<Rightarrow> bool" where
  "isTerminalStatus status \<longleftrightarrow> status \<in> set TERMINAL_STATUSES"

definition isActiveStatus :: "TaskStatus \<Rightarrow> bool" where
  "isActiveStatus status \<longleftrightarrow>
     status = Working \<or> status = Interrupted \<or> status = Pairing \<or> status = Merging"

definition isBlockedStatus :: "TaskStatus \<Rightarrow> bool" where
  "isBlockedStatus status \<longleftrightarrow> status = Blocked \<or> status = Conflict \<or> status = Submitted"

lemma isTerminalStatus_iff: "isTerminalStatus s \<longleftrightarrow> s = Complete \<or> s = Abandoned"
  by (auto simp: isTerminalStatus_def TERMINAL_STATUSES_def)

lemma isTerminalStatus_simps [simp]:
  "isTerminalStatus Complete" "isTerminalStatus Abandoned" "\<not> isTerminalStatus Backlog"
  "\<not> isTerminalStatus Working" "\<not> isTerminalStatus Blocked" "\<not> isTerminalStatus Conflict"
  "\<not> isTerminalStatus Interrupted" "\<not> isTerminalStatus Submitted" "\<not> isTerminalStatus Pairing"
  "\<not> isTerminalStatus Merging" "\<not> isTerminalStatus Zombie"
  by (simp_all add: isTerminalStatus_iff)

section \<open>The transition table\<close>

fun VALID_TRANSITIONS :: "TaskStatus \<Rightarrow> TaskStatus list" where
  "VALID_TRANSITIONS Backlog = [Working, Blocked, Abandoned]"
| "VALID_TRANSITIONS Working = [Blocked, Conflict, Interrupted, Merging, Submitted]"
| "VALID_TRANSITIONS Blocked =
     [Working, Conflict, Submitted, Merging, Pairing, Abandoned, Backlog]"
| "VALID_TRANSITIONS Conflict = [Working, Blocked, Submitted, Merging, Pairing, Abandoned]"
| "VALID_TRANSITIONS Interrupted = [Working, Merging, Pairing, Abandoned]"
| "VALID_TRANSITIONS Submitted = [Working, Merging, Pairing, Abandoned, Blocked]"
| "VALID_TRANSITIONS Pairing = [Blocked, Conflict]"
| "VALID_TRANSITIONS Merging = [Complete, Blocked, Conflict, Submitted]"
| "VALID_TRANSITIONS Zombie = [Complete]"
| "VALID_TRANSITIONS Complete = [Blocked, Backlog]"
| "VALID_TRANSITIONS Abandoned = [Blocked, Backlog]"

definition canTransition :: "TaskStatus \<Rightarrow> TaskStatus \<Rightarrow> bool" where
  "canTransition from to \<longleftrightarrow> to \<in> set (VALID_TRANSITIONS from)"

text \<open>The loop over \<open>Object.entries(VALID_TRANSITIONS)\<close>, pushing on \<open>result\<close>.\<close>

definition transitionsTo :: "TaskStatus \<Rightarrow> TaskStatus list" where
  "transitionsTo status =
     foldl (\<lambda>result (from, tos). if status \<in> set tos then result @ [from] else result) []
       (map (\<lambda>from. (from, VALID_TRANSITIONS from)) all_statuses)"

definition transitionsFrom :: "TaskStatus \<Rightarrow> TaskStatus list" where
  "transitionsFrom status = VALID_TRANSITIONS status"

datatype transition_error =
    OnlySystemZombie
  | TerminalToZombie TaskStatus
  | InvalidTransition TaskStatus TaskStatus "TaskStatus list"

definition assertValidTransition ::
  "TaskStatus \<Rightarrow> TaskStatus \<Rightarrow> string option \<Rightarrow> (transition_error, unit) result" where
  "assertValidTransition from to actor =
     (if from = to then Inr ()
      else if to = Zombie then
        (if actor \<noteq> Some ''system'' then Inl OnlySystemZombie
         else if from \<in> set TERMINAL_STATUSES then Inl (TerminalToZombie from)
         else Inr ())
      else if \<not> canTransition from to then Inl (InvalidTransition from to (transitionsFrom from))
      else Inr ())"

lemma canTransition_iff: "canTransition a b \<longleftrightarrow> b \<in> set (VALID_TRANSITIONS a)"
  by (simp add: canTransition_def)

lemma canTransition_irrefl: "\<not> canTransition s s"
  by (cases s) (simp_all add: canTransition_iff)

lemma canTransition_not_zombie: "\<not> canTransition s Zombie"
  by (cases s) (simp_all add: canTransition_iff)

lemma foldl_push_filter:
  "foldl (\<lambda>res x. if P x then res @ [f x] else res) acc xs = acc @ map f (filter P xs)"
  by (induction xs arbitrary: acc) auto

lemma transitionsTo_filter: "transitionsTo s = filter (\<lambda>a. canTransition a s) all_statuses"
proof -
  have "transitionsTo s =
      foldl (\<lambda>res x. if s \<in> set (snd x) then res @ [fst x] else res) []
        (map (\<lambda>a. (a, VALID_TRANSITIONS a)) all_statuses)"
    unfolding transitionsTo_def by (simp add: case_prod_unfold)
  also have "\<dots> = filter (\<lambda>a. canTransition a s) all_statuses"
    unfolding foldl_push_filter by (simp add: filter_map o_def canTransition_def)
  finally show ?thesis .
qed

lemma assertValidTransition_ok_iff:
  "assertValidTransition from to actor = Inr () \<longleftrightarrow>
     from = to \<or> canTransition from to \<or>
     (to = Zombie \<and> actor = Some ''system'' \<and> \<not> isTerminalStatus from)"
  by (auto simp: assertValidTransition_def isTerminalStatus_def canTransition_not_zombie)

text \<open>The forward lookup, the reverse lookup and the test agree on every pair of statuses,
  neither lookup lists a status twice, and neither lists the status itself.\<close>

theorem transition_lookups_dual:
  "(b \<in> set (transitionsFrom a)) = canTransition a b \<and>
   (a \<in> set (transitionsTo b)) = canTransition a b \<and>
   distinct (transitionsFrom a) \<and> distinct (transitionsTo b) \<and>
   a \<notin> set (transitionsFrom a) \<and> b \<notin> set (transitionsTo b)"
proof -
  have "distinct (VALID_TRANSITIONS a)" by (cases a) simp_all
  then show ?thesis
    by (simp add: transitionsTo_filter transitionsFrom_def canTransition_irrefl
        flip: canTransition_iff)
qed

text \<open>\<open>assertValidTransition\<close> on every branch. It passes exactly for the same status, for an
  edge of the table, and for the system's move of a non-terminal status to \<open>zombie\<close>; each refusal
  names its cause, the list of legal targets included.\<close>

theorem assertValidTransition_spec:
  "assertValidTransition from to actor =
     (if from = to \<or> canTransition from to \<or>
         (to = Zombie \<and> actor = Some ''system'' \<and> \<not> isTerminalStatus from) then Inr ()
      else if to \<noteq> Zombie then Inl (InvalidTransition from to (transitionsFrom from))
      else if actor = Some ''system'' then Inl (TerminalToZombie from)
      else Inl OnlySystemZombie)"
  by (auto simp: assertValidTransition_def isTerminalStatus_def canTransition_not_zombie)

section \<open>The statuses a task can get to\<close>

inductive status_step :: "string option \<Rightarrow> TaskStatus \<Rightarrow> TaskStatus \<Rightarrow> bool" for actor where
  status_step: "a \<noteq> b \<Longrightarrow> assertValidTransition a b actor = Inr () \<Longrightarrow> status_step actor a b"

code_pred status_step .

inductive_simps status_step_simps: "status_step actor a b"

abbreviation status_reaches :: "string option \<Rightarrow> TaskStatus \<Rightarrow> TaskStatus \<Rightarrow> bool" where
  "status_reaches actor \<equiv> (status_step actor)\<^sup>*\<^sup>*"

lemma status_step_iff:
  "status_step actor a b \<longleftrightarrow>
     canTransition a b \<or> (b = Zombie \<and> a \<noteq> Zombie \<and> actor = Some ''system'' \<and> \<not> isTerminalStatus a)"
  by (auto simp: status_step_simps assertValidTransition_ok_iff canTransition_irrefl)

lemma status_edge: "b \<in> set (VALID_TRANSITIONS a) \<Longrightarrow> status_step actor a b"
  by (simp add: status_step_iff canTransition_iff)

lemma backlog_reaches_working: "status_reaches actor Backlog Working"
  by (rule r_into_rtranclp) (simp add: status_edge)

lemma working_reaches:
  assumes "s \<noteq> Zombie"
  shows "status_reaches actor Working s"
proof -
  have step: "status_reaches actor a b \<Longrightarrow> c \<in> set (VALID_TRANSITIONS b) \<Longrightarrow> status_reaches actor a c"
    for a b c by (rule rtranclp.rtrancl_into_rtrancl) (auto intro: status_edge)
  have blocked: "status_reaches actor Working Blocked" by (rule step [OF rtranclp.rtrancl_refl]) simp
  have merging: "status_reaches actor Working Merging" by (rule step [OF rtranclp.rtrancl_refl]) simp
  have "status_reaches actor Working Complete" by (rule step [OF merging]) simp
  moreover have "s \<in> set (VALID_TRANSITIONS Working) \<Longrightarrow> status_reaches actor Working s"
    by (rule step [OF rtranclp.rtrancl_refl])
  moreover have "s \<in> set (VALID_TRANSITIONS Blocked) \<Longrightarrow> status_reaches actor Working s"
    by (rule step [OF blocked])
  ultimately show ?thesis using assms by (cases s) simp_all
qed

lemma reaches_working: "status_reaches actor s Working"
proof -
  have edge: "b \<in> set (VALID_TRANSITIONS a) \<Longrightarrow> status_reaches actor b Working \<Longrightarrow>
      status_reaches actor a Working" for a b
    by (rule converse_rtranclp_into_rtranclp) (auto intro: status_edge)
  have blocked: "status_reaches actor Blocked Working" by (rule edge [OF _ rtranclp.rtrancl_refl]) simp
  have "status_reaches actor Complete Working" by (rule edge [OF _ blocked]) simp
  then have "status_reaches actor Zombie Working" by (rule edge [rotated]) simp
  moreover have "Working \<in> set (VALID_TRANSITIONS s) \<Longrightarrow> ?thesis"
    by (rule edge [OF _ rtranclp.rtrancl_refl])
  moreover have "Blocked \<in> set (VALID_TRANSITIONS s) \<Longrightarrow> ?thesis"
    by (rule edge [OF _ blocked])
  ultimately show ?thesis by (cases s) simp_all
qed

lemma no_zombie_without_system:
  "status_reaches actor a b \<Longrightarrow> actor \<noteq> Some ''system'' \<Longrightarrow> a \<noteq> Zombie \<Longrightarrow> b \<noteq> Zombie"
  by (induction rule: rtranclp_induct) (auto simp: status_step_iff canTransition_not_zombie)

text \<open>C29: no status is a trap and no status is dead. Whoever acts, a task in any status can get to
  any status other than \<open>zombie\<close>, and it gets to \<open>zombie\<close> only if it was there or the system moved
  it.\<close>

theorem status_reachability:
  "status_reaches actor a b \<longleftrightarrow> (if b = Zombie then a = Zombie \<or> actor = Some ''system'' else True)"
proof (cases "b = Zombie")
  case False
  then have "status_reaches actor a b"
    by (rule rtranclp_trans [OF reaches_working working_reaches])
  with False show ?thesis by simp
next
  case True
  have "status_step (Some ''system'') Working Zombie" by (simp add: status_step_iff)
  then have "status_reaches (Some ''system'') a Zombie"
    by (rule rtranclp.rtrancl_into_rtrancl [OF reaches_working])
  then have "a = Zombie \<or> actor = Some ''system'' \<Longrightarrow> status_reaches actor a Zombie"
    by (elim disjE) simp_all
  moreover have "status_reaches actor a Zombie \<Longrightarrow> a = Zombie \<or> actor = Some ''system''"
    using no_zombie_without_system by blast
  ultimately show ?thesis unfolding True if_P [OF refl] by blast
qed



section \<open>What may be edited\<close>

record TaskEditability =
  ed_terminal :: bool
  ed_started :: bool
  ed_canEditLockedFields :: bool
  ed_canEditMidFlightFields :: bool

definition taskEditability :: "TaskStatus \<Rightarrow> nat \<Rightarrow> TaskEditability" where
  "taskEditability status turnCount =
     (let ter = isTerminalStatus status; sta = 0 < turnCount
      in \<lparr>ed_terminal = ter, ed_started = sta, ed_canEditLockedFields = \<not> ter \<and> \<not> sta,
          ed_canEditMidFlightFields = \<not> ter\<rparr>)"

text \<open>The two sentences \<open>lockedFieldsReason\<close> may return, by what they are composed of.\<close>

datatype locked_reason = TaskIsTerminal TaskStatus | AlreadyRun string

definition lockedFieldsReason :: "TaskStatus \<Rightarrow> nat \<Rightarrow> locked_reason option" where
  "lockedFieldsReason status turnCount =
     (let editability = taskEditability status turnCount
      in if ed_terminal editability then Some (TaskIsTerminal status)
         else if \<not> ed_started editability then None
         else Some (AlreadyRun (if turnCount = 1 then ''1 turn'' else show_nat turnCount @ '' turns'')))"

lemma lockedFieldsReason_None_iff:
  "lockedFieldsReason s n = None \<longleftrightarrow> ed_canEditLockedFields (taskEditability s n)"
  by (simp add: lockedFieldsReason_def taskEditability_def Let_def)

end
