(* ===== verification/TaskIdentity.thy ===== *)
theory TaskIdentity
  imports TaskStates
begin

text \<open>
  The task record and how a task is named: \<open>src/src/types/index.ts\<close> (\<open>Task\<close>, \<open>Actor\<close>),
  \<open>src/src/actor-ref.ts\<close>, \<open>src/src/task/identity.ts\<close>, \<open>src/src/task/base-pin.ts\<close>,
  \<open>src/src/utils/tags.ts\<close>, \<open>src/src/git/branch-prefix.ts\<close> and the projections of
  \<open>src/src/task-target.ts\<close>.

  A task's metadata is an ordered map of strings; \<open>null\<close> and \<open>{}\<close> are both the empty map, which is
  how every reader of the source treats them. The branch prefix, a process-global of the source,
  is an argument.
\<close>

section \<open>Actors\<close>

datatype Actor = Human | Builder | Agent | System | Supervisor

fun actor_text :: "Actor \<Rightarrow> string" where
  "actor_text Human = ''human''"
| "actor_text Builder = ''builder''"
| "actor_text Agent = ''agent''"
| "actor_text System = ''system''"
| "actor_text Supervisor = ''supervisor''"

lemma actor_text_system [simp]: "actor_text a = ''system'' \<longleftrightarrow> a = System"
  by (cases a) simp_all

text \<open>A bare role, or a role with the person behind it.\<close>

datatype ActorInput = Role Actor | Person Actor "string option" "string option"

definition actorRole :: "ActorInput option \<Rightarrow> Actor option" where
  "actorRole actor = (case actor of None \<Rightarrow> None | Some (Role r) \<Rightarrow> Some r | Some (Person r _ _) \<Rightarrow> Some r)"

text \<open>\<open>''\<close> counts as absent.\<close>

definition nonempty :: "string option \<Rightarrow> string option" where
  "nonempty s = (case s of None \<Rightarrow> None | Some t \<Rightarrow> if t = [] then None else Some t)"

definition actorEmail :: "ActorInput option \<Rightarrow> string option" where
  "actorEmail actor = (case actor of Some (Person _ e _) \<Rightarrow> nonempty e | _ \<Rightarrow> None)"

definition actorName :: "ActorInput option \<Rightarrow> string option" where
  "actorName actor = (case actor of Some (Person _ _ n) \<Rightarrow> nonempty n | _ \<Rightarrow> None)"

definition actorFields :: "ActorInput option \<Rightarrow> Actor option \<times> string option \<times> string option" where
  "actorFields actor = (actorRole actor, actorEmail actor, actorName actor)"

definition withActorPerson :: "Actor \<Rightarrow> ActorInput option \<Rightarrow> ActorInput" where
  "withActorPerson role source =
     (let email = actorEmail source; name = actorName source
      in if email = None \<and> name = None then Role role else Person role email name)"

definition attributionLabel :: "string option \<Rightarrow> string option \<Rightarrow> string option \<Rightarrow> string" where
  "attributionLabel role email name =
     (let person = (case email of None \<Rightarrow> [] | Some e \<Rightarrow> trim e);
          display = (case name of None \<Rightarrow> [] | Some n \<Rightarrow> trim n)
      in if person \<noteq> [] then (if display \<noteq> [] then display @ '' <'' @ person @ ''>'' else person)
         else (case role of None \<Rightarrow> [] | Some r \<Rightarrow> r))"

definition canonicalPersonEmail :: "string \<Rightarrow> string" where
  "canonicalPersonEmail value = to_lower (trim value)"

lemma nonempty_None [simp]: "nonempty None = None"
  by (simp add: nonempty_def)

lemma nonempty_idem [simp]: "nonempty (nonempty s) = nonempty s"
  by (auto simp: nonempty_def split: option.splits)

text \<open>Re-attaching the person of a source to a role gives a row of that role and exactly that
  person, and doing it twice changes nothing.\<close>

lemma withActorPerson_fields:
  "actorFields (Some (withActorPerson role source)) = (Some role, actorEmail source, actorName source) \<and>
   withActorPerson role (Some (withActorPerson r source)) = withActorPerson role source"
proof -
  have e: "nonempty (actorEmail source) = actorEmail source" "nonempty (actorName source) = actorName source"
    by (auto simp: actorEmail_def actorName_def split: option.splits ActorInput.splits)
  then show ?thesis
    by (auto simp: actorFields_def withActorPerson_def actorRole_def Let_def actorEmail_def
        actorName_def split: option.splits)
qed

section \<open>The task record\<close>

datatype TaskTarget = ToTask string | ToBranch string

record Task =
  t_id :: string
  t_code :: "string option"
  t_goal :: string
  t_prompt :: string
  t_type :: string
  t_status :: TaskStatus
  t_created_at :: int
  t_completed_at :: "int option"
  t_target :: TaskTarget
  t_branched_from_sha :: "string option"
  t_close_reason :: "string option"
  t_model :: "string option"
  t_agent_id :: string
  t_runner_type :: "string option"
  t_metadata :: "(string, string) omap"
  t_tags :: "string list"
  t_pending_sync :: int

definition VALID_TASK_TYPES :: "string list" where
  "VALID_TASK_TYPES = [''task'', ''fix'', ''spike'', ''refactor'', ''test'', ''audit'', ''migrate'',
     ''document'', ''tidy'', ''rework'', ''feature'', ''release'', ''cluster'']"

section \<open>Hyphenation, tags and codes\<close>

definition is_code_char :: "char \<Rightarrow> bool" where
  "is_code_char c \<longleftrightarrow> is_lower_az c \<or> is_digit c"

definition is_hyphen :: "char \<Rightarrow> bool" where
  "is_hyphen c \<longleftrightarrow> c = CHR ''-''"

text \<open>\<open>replace(/[^a-z0-9]+/g, '-')\<close>: every run of other characters becomes one hyphen.\<close>

fun hyphenate :: "string \<Rightarrow> string" where
  "hyphenate [] = []"
| "hyphenate (c # s) =
     (if is_code_char c then c # hyphenate s
      else CHR ''-'' # hyphenate (dropWhile (\<lambda>c. \<not> is_code_char c) s))"

definition strip_end :: "(char \<Rightarrow> bool) \<Rightarrow> string \<Rightarrow> string" where
  "strip_end P s = rev (dropWhile P (rev s))"

definition normalizeTag :: "string \<Rightarrow> string" where
  "normalizeTag raw = strip_end is_hyphen (dropWhile is_hyphen (hyphenate (to_lower raw)))"

datatype tag_error = InvalidTag string

definition normalizeTagOrThrow :: "string \<Rightarrow> (tag_error, string) result" where
  "normalizeTagOrThrow raw =
     (let tag = normalizeTag raw in if length tag = 0 then Inl (InvalidTag raw) else Inr tag)"

text \<open>What a canonical tag is: alphanumerics with single hyphens between them.\<close>

fun single_hyphens :: "string \<Rightarrow> bool" where
  "single_hyphens [] = True"
| "single_hyphens [c] = (is_code_char c \<or> is_hyphen c)"
| "single_hyphens (c # d # s) =
     ((is_code_char c \<or> (is_hyphen c \<and> is_code_char d)) \<and> single_hyphens (d # s))"

definition canonical_tag :: "string \<Rightarrow> bool" where
  "canonical_tag s \<longleftrightarrow> single_hyphens s \<and> (s = [] \<or> (is_code_char (hd s) \<and> is_code_char (last s)))"

lemma is_code_char_not_hyphen [simp]: "is_code_char c \<Longrightarrow> \<not> is_hyphen c"
  by (auto simp: is_code_char_def is_hyphen_def is_lower_az_def is_digit_def)

lemma lower_char_code [simp]: "is_code_char c \<Longrightarrow> lower_char c = c"
  by (auto simp: lower_char_def is_code_char_def is_lower_az_def is_digit_def Let_def)

lemma lower_char_hyphen [simp]: "is_hyphen c \<Longrightarrow> lower_char c = c"
  by (auto simp: lower_char_def is_hyphen_def Let_def)

lemma single_hyphens_Cons:
  "single_hyphens (c # s) \<longleftrightarrow>
     single_hyphens s \<and> (is_code_char c \<or> (is_hyphen c \<and> (s = [] \<or> is_code_char (hd s))))"
  by (cases s) auto

lemma single_hyphens_append: "single_hyphens (a @ b) \<Longrightarrow> single_hyphens a \<and> single_hyphens b"
proof (induction a)
  case (Cons c a)
  then show ?case by (cases a) (auto simp: single_hyphens_Cons)
qed simp

lemma hyphenate_Nil_iff [simp]: "hyphenate s = [] \<longleftrightarrow> s = []"
  by (cases s) auto

lemma hd_hyphenate_dropWhile:
  "hyphenate (dropWhile (\<lambda>c. \<not> is_code_char c) s) = [] \<or>
     is_code_char (hd (hyphenate (dropWhile (\<lambda>c. \<not> is_code_char c) s)))"
  by (induction s) auto

lemma single_hyphens_hyphenate: "single_hyphens (hyphenate s)"
proof (induction s rule: hyphenate.induct)
  case (2 c s)
  then show ?case
    using hd_hyphenate_dropWhile [of s]
    by (cases "is_code_char c") (simp_all add: single_hyphens_Cons is_hyphen_def del: hyphenate_Nil_iff)
qed simp

lemma hyphenate_single_hyphens: "single_hyphens s \<Longrightarrow> hyphenate s = s"
proof (induction s)
  case (Cons c s)
  then show ?case
    by (cases s) (auto simp: single_hyphens_Cons is_hyphen_def)
qed simp

lemma to_lower_single_hyphens: "single_hyphens s \<Longrightarrow> to_lower s = s"
  by (induction s) (auto simp: single_hyphens_Cons to_lower_def)

lemma strip_end_snoc: "strip_end P (s @ [c]) = (if P c then strip_end P s else s @ [c])"
  by (simp add: strip_end_def)

lemma strip_end_Nil [simp]: "strip_end P [] = []"
  by (simp add: strip_end_def)

lemma strip_end_prefix: "\<exists>t. s = strip_end P s @ t"
  unfolding strip_end_def by (metis rev_append rev_rev_ident takeWhile_dropWhile_id)

lemma strip_end_id: "s = [] \<or> \<not> P (last s) \<Longrightarrow> strip_end P s = s"
  by (cases s rule: rev_cases) (auto simp: strip_end_snoc)

lemma last_strip_end: "strip_end P s \<noteq> [] \<Longrightarrow> \<not> P (last (strip_end P s))"
  by (induction s rule: rev_induct) (auto simp: strip_end_snoc split: if_splits)

lemma hd_strip_end: "strip_end P s \<noteq> [] \<Longrightarrow> hd (strip_end P s) = hd s"
  using strip_end_prefix [of s P] by (metis hd_append2)

lemma single_hyphens_dropWhile: "single_hyphens s \<Longrightarrow> single_hyphens (dropWhile is_hyphen s)"
  by (metis single_hyphens_append takeWhile_dropWhile_id)

lemma single_hyphens_chars: "single_hyphens s \<Longrightarrow> c \<in> set s \<Longrightarrow> is_code_char c \<or> is_hyphen c"
  by (induction s) (auto simp: single_hyphens_Cons)

lemma canonical_strip_end:
  assumes "single_hyphens s" and "s = [] \<or> is_code_char (hd s)"
  shows "canonical_tag (strip_end is_hyphen s)"
proof -
  let ?t = "strip_end is_hyphen s"
  obtain u where u: "s = ?t @ u" using strip_end_prefix by blast
  have sh: "single_hyphens ?t" using assms(1) u single_hyphens_append by metis
  moreover have "is_code_char (last ?t)" if "?t \<noteq> []"
    using single_hyphens_chars [OF sh last_in_set [OF that]] last_strip_end [OF that] by blast
  moreover have "is_code_char (hd ?t)" if "?t \<noteq> []"
    using assms(2) hd_strip_end [OF that] u that by auto
  ultimately show ?thesis by (auto simp: canonical_tag_def)
qed

lemma canonical_normalizeTag: "canonical_tag (normalizeTag raw)"
  unfolding normalizeTag_def
proof (rule canonical_strip_end)
  let ?h = "hyphenate (to_lower raw)"
  show sh: "single_hyphens (dropWhile is_hyphen ?h)"
    by (intro single_hyphens_dropWhile single_hyphens_hyphenate)
  show "dropWhile is_hyphen ?h = [] \<or> is_code_char (hd (dropWhile is_hyphen ?h))"
    using hd_dropWhile [of is_hyphen ?h] single_hyphens_chars [OF sh] by (metis hd_in_set)
qed

lemma normalizeTag_canonical: "canonical_tag s \<Longrightarrow> normalizeTag s = s"
proof (cases s)
  case (Cons c t)
  assume "canonical_tag s"
  then have sh: "single_hyphens s" and hd: "is_code_char c" and last: "is_code_char (last s)"
    using Cons by (auto simp: canonical_tag_def)
  then have "dropWhile is_hyphen s = s" using Cons by simp
  then show ?thesis
    using sh last by (simp add: normalizeTag_def to_lower_single_hyphens hyphenate_single_hyphens strip_end_id)
qed (simp add: normalizeTag_def)

text \<open>Normalizing a tag gives the canonical tags and nothing else, keeps a canonical tag as it is,
  and is therefore idempotent; \<open>normalizeTagOrThrow\<close> refuses exactly the input in which nothing is
  left.\<close>

theorem normalizeTag_canonical_idem:
  "canonical_tag (normalizeTag raw) \<and> (canonical_tag raw = (normalizeTag raw = raw)) \<and>
   normalizeTag (normalizeTag raw) = normalizeTag raw \<and>
   normalizeTagOrThrow raw =
     (if normalizeTag raw = [] then Inl (InvalidTag raw) else Inr (normalizeTag raw))"
  using canonical_normalizeTag [of raw] normalizeTag_canonical
  by (auto simp: normalizeTagOrThrow_def)


subsection \<open>Task codes\<close>

definition MAX_TASK_CODE_LENGTH :: nat where
  "MAX_TASK_CODE_LENGTH = 63"

definition RESERVED_TASK_PATH_SEGMENTS :: "string list" where
  "RESERVED_TASK_PATH_SEGMENTS = [''new'', ''link'']"

definition isReservedTaskPathSegment :: "string \<Rightarrow> bool" where
  "isReservedTaskPathSegment value \<longleftrightarrow> value \<in> set RESERVED_TASK_PATH_SEGMENTS"

datatype code_error = CodeTooShort | CodeTooLong nat | CodeHasDots string | CodeBadFormat
  | CodeReservedPrefix | CodeReservedSegment string

text \<open>The class test of \<open>/^[a-z0-9](?:[a-z0-9-]*[a-z0-9])?$/\<close>.\<close>

definition code_format :: "string \<Rightarrow> bool" where
  "code_format s \<longleftrightarrow> s \<noteq> [] \<and> is_code_char (hd s) \<and> is_code_char (last s) \<and>
     list_all (\<lambda>c. is_code_char c \<or> is_hyphen c) s"

text \<open>\<open>replace(/\.+/g, '-')\<close>, the spelling the dot message suggests.\<close>

fun dots_to_hyphens :: "string \<Rightarrow> string" where
  "dots_to_hyphens [] = []"
| "dots_to_hyphens (c # s) =
     (if c = CHR ''.'' then CHR ''-'' # dots_to_hyphens (dropWhile (\<lambda>c. c = CHR ''.'') s)
      else c # dots_to_hyphens s)"

definition validateCode :: "string \<Rightarrow> code_error option" where
  "validateCode code =
     (if length code < 2 then Some CodeTooShort
      else if length code > MAX_TASK_CODE_LENGTH then Some (CodeTooLong (length code))
      else if CHR ''.'' \<in> set code then Some (CodeHasDots (dots_to_hyphens code))
      else if \<not> code_format code then Some CodeBadFormat
      else if starts_with code ''lazy-'' then Some CodeReservedPrefix
      else if isReservedTaskPathSegment code then Some (CodeReservedSegment code)
      else None)"

definition deriveCode :: "string \<Rightarrow> string option" where
  "deriveCode input =
     (let derived = strip_end is_hyphen (take MAX_TASK_CODE_LENGTH
            (strip_end is_hyphen (dropWhile is_hyphen (hyphenate (to_lower input)))))
      in if validateCode derived \<noteq> None then None else Some derived)"

lemma canonical_take: "canonical_tag s \<Longrightarrow> canonical_tag (strip_end is_hyphen (take n s))"
proof (rule canonical_strip_end)
  assume c: "canonical_tag s"
  then show "single_hyphens (take n s)"
    unfolding canonical_tag_def by (metis append_take_drop_id single_hyphens_append)
  show "take n s = [] \<or> is_code_char (hd (take n s))"
    using c by (cases s; cases n) (auto simp: canonical_tag_def)
qed

lemma length_strip_end: "length (strip_end P s) \<le> length s"
  using strip_end_prefix [of s P] by (metis length_append le_add1)

text \<open>A code derived from a branch name or title is always acceptable to \<open>validateCode\<close>, is at most
  63 characters of alphanumerics with single hyphens between them (so a DNS label), and deriving
  again from it gives the same code.\<close>

theorem deriveCode_valid:
  "deriveCode input = Some code \<Longrightarrow>
     validateCode code = None \<and> canonical_tag code \<and> 2 \<le> length code \<and> length code \<le> 63 \<and>
     deriveCode code = Some code"
proof -
  assume d: "deriveCode input = Some code"
  then have v: "validateCode code = None"
    by (auto simp: deriveCode_def Let_def split: if_splits)
  then have len: "2 \<le> length code" "length code \<le> 63"
    by (auto simp: validateCode_def MAX_TASK_CODE_LENGTH_def split: if_splits)
  have can: "canonical_tag code"
    using d canonical_take [OF canonical_normalizeTag [unfolded normalizeTag_def]]
    by (auto simp: deriveCode_def Let_def split: if_splits)
  have "strip_end is_hyphen code = code"
    using can by (intro strip_end_id) (auto simp: canonical_tag_def)
  then have "deriveCode code = Some code"
    using v len normalizeTag_canonical [OF can]
    by (simp add: deriveCode_def normalizeTag_def MAX_TASK_CODE_LENGTH_def Let_def)
  with v len can show ?thesis by blast
qed

lemma deriveCode_valid_witness:
  "deriveCode ''Fix: v1.0'' = Some ''fix-v1-0'' \<and> validateCode ''fix-v1-0'' = None"
proof -
  have "deriveCode ''Fix: v1.0'' = Some ''fix-v1-0''" by code_simp
  with deriveCode_valid show ?thesis by blast
qed

section \<open>The branch namespace\<close>

definition DEFAULT_BRANCH_PREFIX :: string where
  "DEFAULT_BRANCH_PREFIX = ''lazy''"

definition cleanBranchPrefix :: "string option \<Rightarrow> string" where
  "cleanBranchPrefix raw =
     strip_end (\<lambda>c. c = CHR ''/'') (trim (case raw of None \<Rightarrow> [] | Some s \<Rightarrow> s))"

definition normalizeBranchPrefix :: "string option \<Rightarrow> string" where
  "normalizeBranchPrefix raw =
     (let cleaned = cleanBranchPrefix raw in if cleaned = [] then DEFAULT_BRANCH_PREFIX else cleaned)"

definition taskBranchPrefix :: "string \<Rightarrow> string" where
  "taskBranchPrefix branchPrefix = branchPrefix @ ''/''"

definition taskBranchFor :: "string \<Rightarrow> string \<Rightarrow> string" where
  "taskBranchFor branchPrefix ref = taskBranchPrefix branchPrefix @ ref"

definition looksLikeTaskBranch :: "string \<Rightarrow> string \<Rightarrow> bool" where
  "looksLikeTaskBranch branchPrefix branch \<longleftrightarrow>
     starts_with branch (taskBranchPrefix branchPrefix) \<or>
     starts_with branch (DEFAULT_BRANCH_PREFIX @ ''/'')"

definition taskRefFromBranch :: "string \<Rightarrow> string \<Rightarrow> string" where
  "taskRefFromBranch branchPrefix branch =
     (let configured = taskBranchPrefix branchPrefix; builtin = DEFAULT_BRANCH_PREFIX @ ''/''
      in if starts_with branch configured then drop (length configured) branch
         else if starts_with branch builtin then drop (length builtin) branch
         else branch)"

text \<open>The ref of a task is read back from the branch it names, and the branch is recognised as a
  task branch, also one named under the built-in prefix.\<close>

lemma task_branch_roundtrip:
  "taskRefFromBranch p (taskBranchFor p ref) = ref"
  "looksLikeTaskBranch p (taskBranchFor p ref)"
  "looksLikeTaskBranch p (taskBranchFor DEFAULT_BRANCH_PREFIX ref)"
proof -
  have "starts_with (p @ ''/'' @ ref) (p @ ''/'')"
    unfolding starts_with_iff by simp
  then show "taskRefFromBranch p (taskBranchFor p ref) = ref" "looksLikeTaskBranch p (taskBranchFor p ref)"
    by (simp_all add: taskRefFromBranch_def taskBranchFor_def looksLikeTaskBranch_def
        taskBranchPrefix_def Let_def)
qed (simp add: taskBranchFor_def looksLikeTaskBranch_def taskBranchPrefix_def DEFAULT_BRANCH_PREFIX_def)

section \<open>Targets\<close>

datatype target_error = EmptyParentId | EmptyBranch | TaskBranchAsTarget string

definition taskTarget :: "string \<Rightarrow> (target_error, TaskTarget) result" where
  "taskTarget parentTaskId = (if parentTaskId = [] then Inl EmptyParentId else Inr (ToTask parentTaskId))"

definition branchTarget :: "string \<Rightarrow> string \<Rightarrow> (target_error, TaskTarget) result" where
  "branchTarget branchPrefix branch =
     (let trimmed = trim branch
      in if trimmed = [] then Inl EmptyBranch
         else if looksLikeTaskBranch branchPrefix trimmed then Inl (TaskBranchAsTarget branch)
         else Inr (ToBranch trimmed))"

definition targetFromLegacy :: "string option \<Rightarrow> string option \<Rightarrow> TaskTarget" where
  "targetFromLegacy parentTaskId remoteTargetBranch =
     (case nonempty parentTaskId of
        Some p \<Rightarrow> ToTask p
      | None \<Rightarrow> ToBranch (case remoteTargetBranch of None \<Rightarrow> [] | Some b \<Rightarrow> b))"

fun targetToLegacy :: "TaskTarget \<Rightarrow> string option \<times> string option" where
  "targetToLegacy (ToTask p) = (Some p, None)"
| "targetToLegacy (ToBranch b) = (None, if b = [] then None else Some b)"

definition parentTaskIdOf :: "Task \<Rightarrow> string option" where
  "parentTaskIdOf task = (case t_target task of ToTask p \<Rightarrow> Some p | ToBranch _ \<Rightarrow> None)"

definition targetBranchOf :: "Task \<Rightarrow> string option" where
  "targetBranchOf task =
     (case t_target task of ToTask _ \<Rightarrow> None | ToBranch b \<Rightarrow> if b = [] then None else Some b)"

definition integrationBranchOf :: "string \<Rightarrow> Task \<Rightarrow> string option" where
  "integrationBranchOf branchPrefix task =
     (case targetBranchOf task of
        None \<Rightarrow> None
      | Some stored \<Rightarrow> if looksLikeTaskBranch branchPrefix stored then None else Some stored)"

text \<open>A target survives the legacy two-field shape on disk, unless it is a task target with an empty
  parent id, which the smart constructors never build; and a branch target they build is an
  integration branch, never a task branch.\<close>

theorem target_legacy_roundtrip:
  "(targetFromLegacy (fst (targetToLegacy t)) (snd (targetToLegacy t)) = t) = (t \<noteq> ToTask []) \<and>
   taskTarget i \<noteq> Inr (ToTask []) \<and>
   (case branchTarget p b of
      Inl e \<Rightarrow> trim b = [] \<or> looksLikeTaskBranch p (trim b)
    | Inr x \<Rightarrow> x = ToBranch (trim b) \<and> integrationBranchOf p (task\<lparr>t_target := x\<rparr>) = Some (trim b))"
  by (cases t)
     (auto simp: targetFromLegacy_def nonempty_def taskTarget_def branchTarget_def Let_def
       integrationBranchOf_def targetBranchOf_def)

section \<open>Refs\<close>

definition BASE_PIN_KEY :: string where
  "BASE_PIN_KEY = ''pinned_base_sha''"

definition pinnedBaseOf :: "Task \<Rightarrow> string option" where
  "pinnedBaseOf task = nonempty (omap_get (t_metadata task) BASE_PIN_KEY)"

definition shortId :: "string \<Rightarrow> string" where
  "shortId i = take 8 i"

definition displayId :: "Task \<Rightarrow> string" where
  "displayId task = (case t_code task of Some c \<Rightarrow> c | None \<Rightarrow> shortId (t_id task))"

definition taskRef :: "Task \<Rightarrow> string" where
  "taskRef task = (case omap_get (t_metadata task) ''task_ref'' of Some r \<Rightarrow> r | None \<Rightarrow> shortId (t_id task))"

definition taskAuditForms :: "Task \<Rightarrow> string list" where
  "taskAuditForms task =
     rev (remdups (rev (filter (\<lambda>f. trim f \<noteq> [])
       ([t_id task, shortId (t_id task), displayId task, taskRef task] @
        (case t_code task of None \<Rightarrow> [] | Some c \<Rightarrow> [c])))))"

definition getBranchName :: "string \<Rightarrow> Task \<Rightarrow> string" where
  "getBranchName branchPrefix task = taskBranchFor branchPrefix (taskRef task)"

definition buildDisplayIdMap :: "Task list \<Rightarrow> string \<Rightarrow> string" where
  "buildDisplayIdMap tasks taskId =
     (case omap_get (foldl (\<lambda>m t. omap_set m (t_id t) (displayId t)) [] tasks) taskId of
        Some d \<Rightarrow> d | None \<Rightarrow> shortId taskId)"

text \<open>The proleptic Gregorian date of a timestamp in UTC: year, month and day of \<open>new Date(ts)\<close>.\<close>

definition utc_date :: "int \<Rightarrow> int \<times> int \<times> int" where
  "utc_date ts =
     (let z = ts div 86400000 + 719468;
          era = z div 146097;
          doe = z mod 146097;
          yoe = (doe - doe div 1460 + doe div 36524 - doe div 146096) div 365;
          doy = doe - (365 * yoe + yoe div 4 - yoe div 100);
          mp = (5 * doy + 2) div 153;
          d = doy - (153 * mp + 2) div 5 + 1;
          m = (if mp < 10 then mp + 3 else mp - 9);
          y = yoe + era * 400 + (if m \<le> 2 then 1 else 0)
      in (y, m, d))"

definition show_int :: "int \<Rightarrow> string" where
  "show_int n = (if n < 0 then CHR ''-'' # show_nat (nat (- n)) else show_nat (nat n))"

definition pad2 :: "string \<Rightarrow> string" where
  "pad2 s = replicate (2 - length s) (CHR ''0'') @ s"

definition last2 :: "string \<Rightarrow> string" where
  "last2 s = drop (length s - 2) s"

definition formatDateForRef :: "int \<Rightarrow> string" where
  "formatDateForRef ts =
     (case utc_date ts of (y, m, d) \<Rightarrow>
        last2 (show_int y) @ ''-'' @ pad2 (show_int m) @ ''-'' @ pad2 (show_int d))"

text \<open>The code is tested for truth, so an empty code counts as none.\<close>

definition deriveTaskRef :: "Task \<Rightarrow> Task list \<Rightarrow> string" where
  "deriveTaskRef task allTasks =
     (case nonempty (t_code task) of
        None \<Rightarrow> shortId (t_id task)
      | Some code \<Rightarrow>
          (let sameCode = filter (\<lambda>t. t_id t \<noteq> t_id task \<and>
                 (t_code t = Some code \<or> omap_get (t_metadata t) ''task_ref'' = Some code)) allTasks;
               refTaken = (\<lambda>ref. list_ex (\<lambda>t. t_id t \<noteq> t_id task \<and>
                 omap_get (t_metadata t) ''task_ref'' = Some ref) allTasks);
               dateStr = formatDateForRef (t_created_at task)
           in if sameCode = [] then code
              else if filter (\<lambda>t. formatDateForRef (t_created_at t) = dateStr) sameCode = []
                      \<and> \<not> refTaken (code @ ''-'' @ dateStr) then code @ ''-'' @ dateStr
              else code @ ''-'' @ dateStr @ ''-'' @ shortId (t_id task)))"

text \<open>C31: a derived ref is never one another task owns, short of the last form, which carries the task's
  own short id; without a code it is the short id.\<close>

theorem deriveTaskRef_fresh:
  "other \<in> set allTasks \<Longrightarrow> t_id other \<noteq> t_id task \<Longrightarrow>
   omap_get (t_metadata other) ''task_ref'' = Some (deriveTaskRef task allTasks) \<Longrightarrow>
     \<exists>pre. deriveTaskRef task allTasks = pre @ shortId (t_id task) \<and>
       (pre = [] \<or> (\<exists>code. t_code task = Some code \<and>
          pre = code @ ''-'' @ formatDateForRef (t_created_at task) @ ''-'' \<and>
          (\<exists>t \<in> set allTasks. t_id t \<noteq> t_id task \<and>
             (t_code t = Some code \<or> omap_get (t_metadata t) ''task_ref'' = Some code))))"
proof -
  assume a: "other \<in> set allTasks" "t_id other \<noteq> t_id task"
    "omap_get (t_metadata other) ''task_ref'' = Some (deriveTaskRef task allTasks)"
  show ?thesis
  proof (cases "nonempty (t_code task)")
    case None
    then show ?thesis by (auto simp: deriveTaskRef_def)
  next
    case (Some code)
    then have code: "t_code task = Some code" by (auto simp: nonempty_def split: option.splits if_splits)
    let ?d = "formatDateForRef (t_created_at task)"
    let ?same = "\<lambda>t. t_id t \<noteq> t_id task \<and>
      (t_code t = Some code \<or> omap_get (t_metadata t) ''task_ref'' = Some code)"
    have ne: "filter ?same allTasks \<noteq> []"
    proof
      assume e: "filter ?same allTasks = []"
      then have "deriveTaskRef task allTasks = code" using Some by (simp add: deriveTaskRef_def Let_def)
      with a e show False by (auto simp: filter_empty_conv)
    qed
    let ?taken = "list_ex (\<lambda>t. t_id t \<noteq> t_id task \<and>
      omap_get (t_metadata t) ''task_ref'' = Some (code @ ''-'' @ ?d)) allTasks"
    have cases: "deriveTaskRef task allTasks = code @ ''-'' @ ?d \<and> \<not> ?taken \<or>
        deriveTaskRef task allTasks = code @ ''-'' @ ?d @ ''-'' @ shortId (t_id task)"
      using ne Some unfolding deriveTaskRef_def by (simp add: Let_def)
    have "?taken" if "deriveTaskRef task allTasks = code @ ''-'' @ ?d"
      using a that unfolding list_ex_iff by auto
    with cases have "deriveTaskRef task allTasks = (code @ ''-'' @ ?d @ ''-'') @ shortId (t_id task)"
      by auto
    moreover have "\<exists>t \<in> set allTasks. ?same t" using ne by (auto simp: filter_empty_conv)
    ultimately show ?thesis using code by blast
  qed
qed

definition blank_task :: Task where
  "blank_task = \<lparr>t_id = [], t_code = None, t_goal = [], t_prompt = [], t_type = ''task'',
     t_status = Backlog, t_created_at = 0, t_completed_at = None, t_target = ToBranch [],
     t_branched_from_sha = None, t_close_reason = None, t_model = None, t_agent_id = ''claude-code'',
     t_runner_type = None, t_metadata = [], t_tags = [], t_pending_sync = 0\<rparr>"

lemma deriveTaskRef_fresh_witness:
  "let other = blank_task\<lparr>t_id := ''bbbbbbbb-2'', t_code := Some ''ab'',
         t_metadata := [(''task_ref'', ''ab-70-01-01-aaaaaaaa'')]\<rparr>;
       task = blank_task\<lparr>t_id := ''aaaaaaaa-1'', t_code := Some ''ab''\<rparr>
   in \<exists>pre. deriveTaskRef task [other] = pre @ shortId (t_id task) \<and>
       (pre = [] \<or> (\<exists>code. t_code task = Some code \<and>
          pre = code @ ''-'' @ formatDateForRef (t_created_at task) @ ''-'' \<and>
          (\<exists>t \<in> set [other]. t_id t \<noteq> t_id task \<and>
             (t_code t = Some code \<or> omap_get (t_metadata t) ''task_ref'' = Some code))))"
proof -
  have date: "formatDateForRef 0 = ''70-01-01''" by code_simp
  show ?thesis
    unfolding Let_def
    by (rule deriveTaskRef_fresh [where other = "blank_task\<lparr>t_id := ''bbbbbbbb-2'', t_code := Some ''ab'',
         t_metadata := [(''task_ref'', ''ab-70-01-01-aaaaaaaa'')]\<rparr>"])
       (simp_all add: blank_task_def deriveTaskRef_def shortId_def nonempty_def date)
qed

end
