(* ===== verification/TaskTree.thy ===== *)
theory TaskTree
  imports TaskIdentity
begin

text \<open>
  The task hierarchy: \<open>collectSubtreeIds\<close>, \<open>descendantCounts\<close> and \<open>pruneTasksToDepth\<close> of
  \<open>src/src/task-target.ts\<close>. A task's parent is a link in its target; nothing in the store stops the
  links from forming a cycle, so every walk of the source carries a set of visited ids, and every
  walk here terminates by it.

  The specification is the relation \<open>child_of\<close> on ids: the subtree of a task is what the relation
  reaches from it, and the number of descendants is the size of that set less the task itself.
\<close>

section \<open>Parent links\<close>

definition parent_link :: "Task \<Rightarrow> string option" where
  "parent_link task = nonempty (parentTaskIdOf task)"

text \<open>\<open>childrenByParent\<close>: the loop that groups the tasks by their parent id.\<close>

definition childrenByParent :: "Task list \<Rightarrow> (string, Task list) omap" where
  "childrenByParent allTasks =
     foldl (\<lambda>m task. case parent_link task of
         None \<Rightarrow> m
       | Some p \<Rightarrow> omap_set m p ((case omap_get m p of Some siblings \<Rightarrow> siblings | None \<Rightarrow> []) @ [task]))
       [] allTasks"

definition children_in :: "(string, Task list) omap \<Rightarrow> string \<Rightarrow> Task list" where
  "children_in m p = (case omap_get m p of Some ts \<Rightarrow> ts | None \<Rightarrow> [])"

lemma children_in_childrenByParent:
  "children_in (childrenByParent allTasks) p = filter (\<lambda>t. parent_link t = Some p) allTasks"
proof (induction allTasks rule: rev_induct)
  case (snoc t ts)
  then show ?case
    by (auto simp: childrenByParent_def children_in_def split: option.splits)
qed (simp add: childrenByParent_def children_in_def)

lemma set_children_in: "set (children_in m p) \<subseteq> (\<Union>ts \<in> set (omap_values m). set ts)"
proof (cases "omap_get m p")
  case (Some ts)
  then have "ts \<in> set (omap_values m)" by (rule omap_get_in_values)
  with Some show ?thesis by (auto simp: children_in_def)
qed (simp add: children_in_def)

inductive child_of :: "Task list \<Rightarrow> string \<Rightarrow> string \<Rightarrow> bool" for allTasks where
  child_of: "t \<in> set allTasks \<Longrightarrow> parent_link t = Some p \<Longrightarrow> child_of allTasks p (t_id t)"

inductive_simps child_of_iff: "child_of allTasks p c"

abbreviation descends :: "Task list \<Rightarrow> string \<Rightarrow> string \<Rightarrow> bool" where
  "descends allTasks \<equiv> (child_of allTasks)\<^sup>*\<^sup>*"

section \<open>The subtree of a task\<close>

text \<open>The body of the inner \<open>for\<close>: a child not seen yet goes to the ids and to the queue.\<close>

definition visit_children :: "Task list \<Rightarrow> string list \<times> string list \<Rightarrow> string list \<times> string list" where
  "visit_children children st =
     foldl (\<lambda>(ids, queue) child.
        if t_id child \<in> set ids then (ids, queue) else (ids @ [t_id child], queue @ [t_id child]))
       st children"

lemma visit_children_Nil [simp]: "visit_children [] st = st"
  by (simp add: visit_children_def)

lemma visit_children_Cons [simp]:
  "visit_children (c # cs) (ids, queue) =
     (if t_id c \<in> set ids then visit_children cs (ids, queue)
      else visit_children cs (ids @ [t_id c], queue @ [t_id c]))"
  by (simp add: visit_children_def)

text \<open>What a round adds: the same new ids to both, all of them ids of the children.\<close>

lemma visit_children_adds:
  "\<exists>new. visit_children cs (ids, queue) = (ids @ new, queue @ new) \<and> distinct new \<and>
     set new = t_id ` set cs - set ids"
proof (induction cs arbitrary: ids queue)
  case (Cons c cs)
  show ?case
  proof (cases "t_id c \<in> set ids")
    case True
    with Cons.IH [of ids queue] show ?thesis by auto
  next
    case False
    obtain new where new: "visit_children cs (ids @ [t_id c], queue @ [t_id c]) =
        ((ids @ [t_id c]) @ new, (queue @ [t_id c]) @ new)" "distinct new"
        "set new = t_id ` set cs - set (ids @ [t_id c])"
      using Cons.IH by blast
    with False show ?thesis by (intro exI [of _ "t_id c # new"]) auto
  qed
qed auto

lemma visit_children_obtain:
  assumes "visit_children cs (ids, queue) = (ids', queue')"
  obtains new where "ids' = ids @ new" "queue' = queue @ new" "distinct new"
    "set new = t_id ` set cs - set ids"
  using visit_children_adds [of cs ids queue] assms by auto

definition tree_ids :: "(string, Task list) omap \<Rightarrow> string set" where
  "tree_ids m = t_id ` (\<Union>ts \<in> set (omap_values m). set ts)"

lemma finite_tree_ids [simp]: "finite (tree_ids m)"
  by (simp add: tree_ids_def)

function subtree_loop ::
  "(string, Task list) omap \<Rightarrow> string list \<Rightarrow> string list \<Rightarrow> string list" where
  "subtree_loop m ids queue =
     (if queue = [] then ids
      else let (ids', queue') = visit_children (children_in m (last queue)) (ids, butlast queue)
           in subtree_loop m ids' queue')"
  by pat_completeness auto

lemma visit_children_measure:
  assumes v: "visit_children (children_in m (last queue)) (ids, butlast queue) = (ids', queue')"
    and ne: "queue \<noteq> []"
  shows "2 * card (tree_ids m - set ids') + length queue' < 2 * card (tree_ids m - set ids) + length queue"
proof -
  obtain new where new: "ids' = ids @ new" "queue' = butlast queue @ new" "distinct new"
      "set new = t_id ` set (children_in m (last queue)) - set ids"
    using v by (rule visit_children_obtain)
  have "set new \<subseteq> tree_ids m - set ids"
    using new(4) set_children_in [of m "last queue"] by (fastforce simp: tree_ids_def)
  then have "card (tree_ids m - set ids) = card ((tree_ids m - set ids) - set new) + card (set new)"
    by (metis card_Diff_subset card_mono finite_Diff finite_tree_ids finite_set le_add_diff_inverse2)
  moreover have "(tree_ids m - set ids) - set new = tree_ids m - set ids'"
    using new(1) by auto
  moreover have "card (set new) = length new" using new(3) by (rule distinct_card)
  moreover have "length queue = Suc (length (butlast queue))" using ne by simp
  ultimately show ?thesis using new(2) by (simp del: length_butlast)
qed

termination subtree_loop
  by (relation "measure (\<lambda>(m, ids, queue). 2 * card (tree_ids m - set ids) + length queue)")
     (auto simp: visit_children_measure [OF sym] split: prod.splits)

declare subtree_loop.simps [simp del]

definition collectSubtreeIds :: "string \<Rightarrow> Task list \<Rightarrow> string list" where
  "collectSubtreeIds rootId allTasks = subtree_loop (childrenByParent allTasks) [rootId] [rootId]"

text \<open>The invariant of the loop: every id collected descends from the root, and of every id that has
  left the queue all children are collected.\<close>

definition subtree_inv :: "Task list \<Rightarrow> string \<Rightarrow> string list \<Rightarrow> string list \<Rightarrow> bool" where
  "subtree_inv allTasks root ids queue \<longleftrightarrow>
     root \<in> set ids \<and> distinct ids \<and> set queue \<subseteq> set ids \<and>
     (\<forall>i \<in> set ids. descends allTasks root i) \<and>
     (\<forall>i \<in> set ids - set queue. \<forall>c. child_of allTasks i c \<longrightarrow> c \<in> set ids)"

lemma ids_children_in:
  "t_id ` set (children_in (childrenByParent allTasks) p) = {c. child_of allTasks p c}"
  by (auto simp: children_in_childrenByParent child_of_iff)

lemma subtree_inv_step:
  assumes inv: "subtree_inv allTasks root ids queue" and ne: "queue \<noteq> []"
    and v: "visit_children (children_in (childrenByParent allTasks) (last queue)) (ids, butlast queue)
      = (ids', queue')"
  shows "subtree_inv allTasks root ids' queue'"
proof -
  obtain new where new: "ids' = ids @ new" "queue' = butlast queue @ new" "distinct new"
      "set new = {c. child_of allTasks (last queue) c} - set ids"
    using visit_children_obtain [OF v] unfolding ids_children_in by metis
  have q: "set queue = insert (last queue) (set (butlast queue))"
    using arg_cong [OF append_butlast_last_id [OF ne], of set] by auto
  have root: "root \<in> set ids" and dist: "distinct ids" and sub: "set queue \<subseteq> set ids"
    and desc: "\<And>i. i \<in> set ids \<Longrightarrow> descends allTasks root i"
    and closed: "\<And>i c. i \<in> set ids \<Longrightarrow> i \<notin> set queue \<Longrightarrow> child_of allTasks i c \<Longrightarrow> c \<in> set ids"
    using inv unfolding subtree_inv_def by blast+
  have "descends allTasks root (last queue)" using desc sub q by blast
  then have dnew: "descends allTasks root c" if "c \<in> set new" for c
    using that new(4) by (simp add: rtranclp.rtrancl_into_rtrancl)
  have cnew: "c \<in> set ids'" if "i \<in> set ids'" "i \<notin> set queue'" "child_of allTasks i c" for i c
  proof (cases "i = last queue")
    case True
    then show ?thesis using that new by simp
  next
    case False
    then have "i \<in> set ids" "i \<notin> set queue" using that new q by auto
    then show ?thesis using closed [of i c] that new by simp
  qed
  show ?thesis
    unfolding subtree_inv_def
  proof (intro conjI ballI allI impI)
    show "root \<in> set ids'" "distinct ids'" using root dist new by auto
    show "set queue' \<subseteq> set ids'" using sub q new by auto
    show "descends allTasks root i" if "i \<in> set ids'" for i
      using that desc dnew new(1) by auto
    show "c \<in> set ids'" if "i \<in> set ids' - set queue'" "child_of allTasks i c" for i c
      using that cnew by blast
  qed
qed

lemma subtree_inv_done:
  assumes inv: "subtree_inv allTasks root ids []"
  shows "distinct ids \<and> set ids = {i. descends allTasks root i}"
proof -
  have "i \<in> set ids" if "descends allTasks root i" for i
    using that
  proof (induction rule: rtranclp_induct)
    case base
    show ?case using inv unfolding subtree_inv_def by blast
  next
    case (step y z)
    then show ?case using inv unfolding subtree_inv_def by simp
  qed
  then show ?thesis using inv unfolding subtree_inv_def by blast
qed

lemma subtree_loop_correct:
  "m = childrenByParent allTasks \<Longrightarrow> subtree_inv allTasks root ids queue \<Longrightarrow>
     distinct (subtree_loop m ids queue) \<and> set (subtree_loop m ids queue) = {i. descends allTasks root i}"
proof (induction m ids queue rule: subtree_loop.induct)
  case (1 m ids queue)
  note m = 1(2) and inv = 1(3)
  show ?case
  proof (cases "queue = []")
    case True
    then have "subtree_loop m ids queue = ids" by (subst subtree_loop.simps) simp
    with subtree_inv_done inv True show ?thesis by simp
  next
    case False
    obtain ids' queue' where v: "visit_children (children_in m (last queue)) (ids, butlast queue)
        = (ids', queue')" by fastforce
    have "subtree_loop m ids queue = subtree_loop m ids' queue'"
      using False v by (subst subtree_loop.simps) simp
    moreover have "subtree_inv allTasks root ids' queue'"
      using subtree_inv_step [OF inv False] v m by blast
    ultimately show ?thesis
      using 1(1) [OF False v [symmetric] refl m] by simp
  qed
qed

lemma collectSubtreeIds_correct':
  "set (collectSubtreeIds rootId allTasks) = {i. descends allTasks rootId i}"
  "distinct (collectSubtreeIds rootId allTasks)"
proof -
  have "subtree_inv allTasks rootId [rootId] [rootId]" by (simp add: subtree_inv_def)
  then show "set (collectSubtreeIds rootId allTasks) = {i. descends allTasks rootId i}"
    "distinct (collectSubtreeIds rootId allTasks)"
    using subtree_loop_correct [OF refl] unfolding collectSubtreeIds_def by blast+
qed

text \<open>C32: the ids collected are exactly the task and everything that descends from it, each once,
  whatever cycles the parent links form.\<close>

theorem collectSubtreeIds_correct:
  "set (collectSubtreeIds rootId allTasks) = {i. descends allTasks rootId i} \<and>
   distinct (collectSubtreeIds rootId allTasks)"
  by (simp add: collectSubtreeIds_correct')

section \<open>Descendant counts\<close>

text \<open>The \<open>while\<close> that walks a task's ancestors up, crediting each. The ids it may still see are those
  of \<open>parentOf\<close> and the one at hand.\<close>

definition credit :: "(string, nat) omap \<Rightarrow> string \<Rightarrow> (string, nat) omap" where
  "credit counts a = (case omap_get counts a of None \<Rightarrow> counts | Some n \<Rightarrow> omap_set counts a (n + 1))"

function walk_up ::
  "(string, string) omap \<Rightarrow> string list \<Rightarrow> string option \<Rightarrow> (string, nat) omap \<Rightarrow> (string, nat) omap" where
  "walk_up parentOf seen None counts = counts"
| "walk_up parentOf seen (Some a) counts =
     (if a = [] \<or> a \<in> set seen then counts
      else walk_up parentOf (seen @ [a]) (omap_get parentOf a) (credit counts a))"
  by pat_completeness auto

definition walk_measure :: "(string, string) omap \<Rightarrow> string list \<Rightarrow> string option \<Rightarrow> nat" where
  "walk_measure parentOf seen anc = card ((set (omap_values parentOf) \<union> set_option anc) - set seen)"

lemma walk_measure_decreases:
  assumes "a \<notin> set seen"
  shows "walk_measure parentOf (seen @ [a]) (omap_get parentOf a) < walk_measure parentOf seen (Some a)"
  unfolding walk_measure_def
proof (rule psubset_card_mono)
  have "set_option (omap_get parentOf a) \<subseteq> set (omap_values parentOf)"
  proof
    fix b
    assume "b \<in> set_option (omap_get parentOf a)"
    then have "omap_get parentOf a = Some b" by (cases "omap_get parentOf a") simp_all
    then show "b \<in> set (omap_values parentOf)" by (rule omap_get_in_values)
  qed
  then show "(set (omap_values parentOf) \<union> set_option (omap_get parentOf a)) - set (seen @ [a])
      \<subset> (set (omap_values parentOf) \<union> set_option (Some a)) - set seen"
    using assms by auto
qed simp

termination walk_up
  by (relation "measure (\<lambda>(parentOf, seen, anc, counts). walk_measure parentOf seen anc)")
     (simp_all add: walk_measure_decreases)

definition descendantCounts :: "Task list \<Rightarrow> (string, nat) omap" where
  "descendantCounts allTasks =
     (let (parentOf, counts) = foldl (\<lambda>(parentOf, counts) task.
            ((case parent_link task of None \<Rightarrow> parentOf | Some p \<Rightarrow> omap_set parentOf (t_id task) p),
             omap_set counts (t_id task) 0)) ([], []) allTasks
      in foldl (\<lambda>counts task. walk_up parentOf [t_id task] (omap_get parentOf (t_id task)) counts)
           counts allTasks)"

text \<open>The ancestors a walk credits, as a list.\<close>

function walk_list :: "(string, string) omap \<Rightarrow> string list \<Rightarrow> string option \<Rightarrow> string list" where
  "walk_list parentOf seen None = []"
| "walk_list parentOf seen (Some a) =
     (if a = [] \<or> a \<in> set seen then []
      else a # walk_list parentOf (seen @ [a]) (omap_get parentOf a))"
  by pat_completeness auto

termination walk_list
  by (relation "measure (\<lambda>(parentOf, seen, anc). walk_measure parentOf seen anc)")
     (simp_all add: walk_measure_decreases)

lemma walk_up_foldl: "walk_up parentOf seen anc counts = foldl credit counts (walk_list parentOf seen anc)"
  by (induction parentOf seen anc counts rule: walk_up.induct) auto

lemma get_credit: "omap_get (credit counts a) r = map_option (\<lambda>n. n + (if r = a then 1 else 0)) (omap_get counts r)"
  by (auto simp: credit_def option.map_ident split: option.splits)

lemma get_foldl_credit:
  "omap_get (foldl credit counts as) r = map_option (\<lambda>n. n + count_list as r) (omap_get counts r)"
  by (induction as arbitrary: counts) (auto simp: get_credit option.map_comp o_def option.map_ident)

abbreviation up_from :: "(string, string) omap \<Rightarrow> string \<Rightarrow> string \<Rightarrow> bool" where
  "up_from parentOf \<equiv> (\<lambda>x a. omap_get parentOf x = Some a)\<^sup>*\<^sup>*"

lemma up_from_unfold:
  "up_from parentOf a b \<longleftrightarrow> b = a \<or> (\<exists>c. omap_get parentOf a = Some c \<and> up_from parentOf c b)"
proof
  assume "up_from parentOf a b"
  then show "b = a \<or> (\<exists>c. omap_get parentOf a = Some c \<and> up_from parentOf c b)"
    by (cases rule: converse_rtranclpE) simp_all
next
  assume "b = a \<or> (\<exists>c. omap_get parentOf a = Some c \<and> up_from parentOf c b)"
  then show "up_from parentOf a b"
    by (elim disjE exE conjE) (simp, rule converse_rtranclp_into_rtranclp)
qed

text \<open>What is walked: everything above that has not been seen, once, as long as what was seen leads
  nowhere else.\<close>

lemma walk_list_set:
  "(\<forall>s \<in> set seen. set_option (omap_get parentOf s) \<subseteq> set seen \<union> set_option anc) \<Longrightarrow>
   (\<forall>p \<in> set (omap_values parentOf). p \<noteq> []) \<Longrightarrow> anc \<noteq> Some [] \<Longrightarrow>
     set (walk_list parentOf seen anc) = {b. \<exists>a. anc = Some a \<and> up_from parentOf a b} - set seen \<and>
     distinct (walk_list parentOf seen anc)"
proof (induction parentOf seen anc rule: walk_list.induct)
  case (2 parentOf seen a)
  show ?case
  proof (cases "a \<in> set seen")
    case True
    then have closed: "\<forall>s \<in> set seen. set_option (omap_get parentOf s) \<subseteq> set seen" using 2(2) by auto
    have "b \<in> set seen" if "up_from parentOf a b" for b
      using that True closed by (induction rule: rtranclp_induct) auto
    then show ?thesis using True by auto
  next
    case False
    let ?f = "omap_get parentOf a"
    have f: "?f \<noteq> Some []" using 2(3) omap_get_in_values [of parentOf a] by fastforce
    have "set (walk_list parentOf (seen @ [a]) ?f) =
        {b. \<exists>c. ?f = Some c \<and> up_from parentOf c b} - set (seen @ [a]) \<and>
        distinct (walk_list parentOf (seen @ [a]) ?f)"
      using 2 False f by (intro "2.IH") auto
    then show ?thesis
      using False 2(4) by (auto simp: up_from_unfold [of parentOf a])
  qed
qed simp

text \<open>The two maps the first loop builds.\<close>

definition link_step ::
  "(string, string) omap \<times> (string, nat) omap \<Rightarrow> Task \<Rightarrow> (string, string) omap \<times> (string, nat) omap" where
  "link_step st task =
     ((case parent_link task of None \<Rightarrow> fst st | Some p \<Rightarrow> omap_set (fst st) (t_id task) p),
      omap_set (snd st) (t_id task) 0)"

lemma parent_link_ne: "parent_link t \<noteq> Some []"
  by (auto simp: parent_link_def nonempty_def split: option.splits if_splits)

lemma link_step_simps:
  "fst (link_step st t) = (case parent_link t of None \<Rightarrow> fst st | Some p \<Rightarrow> omap_set (fst st) (t_id t) p)"
  "snd (link_step st t) = omap_set (snd st) (t_id t) 0"
  by (simp_all add: link_step_def)

lemma link_values: "p \<in> set (omap_values (fst (foldl link_step ([], []) ts))) \<Longrightarrow> p \<noteq> []"
proof (induction ts arbitrary: p rule: rev_induct)
  case (snoc t ts)
  define st where "st = foldl link_step ([], []) ts"
  have IH: "p \<in> set (omap_values (fst st)) \<Longrightarrow> p \<noteq> []" using snoc.IH st_def by simp
  have p: "p \<in> set (omap_values (fst (link_step st t)))" using snoc.prems st_def by simp
  show ?case
  proof (cases "parent_link t")
    case None
    with IH p show ?thesis by (simp add: link_step_simps)
  next
    case (Some q)
    then have "p = q \<or> p \<in> set (omap_values (fst st))"
      using p values_omap_set [of "fst st" "t_id t" q] by (auto simp add: link_step_simps)
    then show ?thesis using IH Some parent_link_ne [of t] by auto
  qed
qed simp

lemma link_counts:
  "omap_get (snd (foldl link_step ([], []) ts)) x = (if x \<in> t_id ` set ts then Some 0 else None)"
  by (induction ts rule: rev_induct) (auto simp: link_step_simps)

lemma link_parents:
  "distinct (map t_id ts) \<Longrightarrow>
     omap_get (fst (foldl link_step ([], []) ts)) x = Some a \<longleftrightarrow>
     (\<exists>t \<in> set ts. t_id t = x \<and> parent_link t = Some a)"
proof (induction ts rule: rev_induct)
  case (snoc t ts)
  define st where "st = foldl link_step ([], []) ts"
  have IH: "omap_get (fst st) x = Some a \<longleftrightarrow> (\<exists>t \<in> set ts. t_id t = x \<and> parent_link t = Some a)"
    using snoc st_def by simp
  have "t_id t \<notin> t_id ` set ts" using snoc.prems by simp
  then have fresh: "\<And>u. u \<in> set ts \<Longrightarrow> t_id u \<noteq> t_id t" by (metis imageI)
  have "omap_get (fst (link_step st t)) x = Some a \<longleftrightarrow>
      (if x = t_id t \<and> parent_link t \<noteq> None then parent_link t = Some a else omap_get (fst st) x = Some a)"
    by (auto simp: link_step_simps split: option.split)
  moreover have "(\<exists>u \<in> set (ts @ [t]). t_id u = x \<and> parent_link u = Some a) \<longleftrightarrow>
      (t_id t = x \<and> parent_link t = Some a) \<or> (\<exists>u \<in> set ts. t_id u = x \<and> parent_link u = Some a)"
    by auto
  moreover have "\<not> (\<exists>u \<in> set ts. t_id u = x \<and> parent_link u = Some a)" if "x = t_id t"
    using fresh that by blast
  ultimately show ?case
    using IH unfolding st_def foldl_append by (cases "x = t_id t") auto
qed simp

text \<open>The second loop adds, for every task, one to each ancestor it walks over.\<close>

lemma get_walks:
  "omap_get (foldl (\<lambda>counts t. walk_up po [t_id t] (omap_get po (t_id t)) counts) counts ts) r =
     map_option (\<lambda>n. n + (\<Sum>t \<leftarrow> ts. count_list (walk_list po [t_id t] (omap_get po (t_id t))) r))
       (omap_get counts r)"
  by (induction ts arbitrary: counts)
     (auto simp: walk_up_foldl get_foldl_credit option.map_comp o_def option.map_ident add.assoc)

lemma descendantCounts_unfold:
  "descendantCounts allTasks =
     foldl (\<lambda>counts t. walk_up (fst (foldl link_step ([], []) allTasks)) [t_id t]
         (omap_get (fst (foldl link_step ([], []) allTasks)) (t_id t)) counts)
       (snd (foldl link_step ([], []) allTasks)) allTasks"
proof -
  have "(\<lambda>(parentOf, counts) task.
          ((case parent_link task of None \<Rightarrow> parentOf | Some p \<Rightarrow> omap_set parentOf (t_id task) p),
            omap_set counts (t_id task) 0)) = link_step"
    by (simp add: link_step_def fun_eq_iff split: option.split)
  then show ?thesis unfolding descendantCounts_def by (simp add: case_prod_unfold Let_def)
qed

lemma count_list_distinct: "distinct xs \<Longrightarrow> count_list xs r = (if r \<in> set xs then 1 else 0)"
  by (induction xs) auto

lemma descends_up:
  assumes "\<And>x a. (f x = Some a) = child_of ts a x"
  shows "(\<lambda>x a. f x = Some a)\<^sup>*\<^sup>* x a = descends ts a x"
proof -
  have "(\<lambda>x a. f x = Some a) = (child_of ts)\<inverse>\<inverse>" using assms by (auto simp: fun_eq_iff)
  then show ?thesis by (simp add: rtranclp_conversep)
qed

lemma walk_credits:
  assumes d: "distinct (map t_id ts)" and po: "po = fst (foldl link_step ([], []) ts)"
  shows "count_list (walk_list po [x] (omap_get po x)) r = (if descends ts r x \<and> r \<noteq> x then 1 else 0)"
proof -
  have vals: "\<forall>p \<in> set (omap_values po). p \<noteq> []" using link_values po by auto
  have ne: "omap_get po x \<noteq> Some []"
  proof
    assume "omap_get po x = Some []"
    then have "[] \<in> set (omap_values po)" by (rule omap_get_in_values)
    with vals show False by blast
  qed
  have "(omap_get po y = Some a) = child_of ts a y" for y a
    using link_parents [OF d, of y a] po by (auto simp: child_of_iff)
  then have up: "up_from po y a = descends ts a y" for y a by (rule descends_up)
  have w: "set (walk_list po [x] (omap_get po x)) =
      {b. \<exists>a. omap_get po x = Some a \<and> up_from po a b} - set [x]"
    "distinct (walk_list po [x] (omap_get po x))"
    using walk_list_set [of "[x]" po "omap_get po x"] vals ne by auto
  have "r \<in> set (walk_list po [x] (omap_get po x)) \<longleftrightarrow> descends ts r x \<and> r \<noteq> x"
    unfolding w(1) up [symmetric] using up_from_unfold [of po x r] by auto
  then show ?thesis using count_list_distinct [OF w(2)] by simp
qed

lemma sum_list_count:
  "distinct (map f xs) \<Longrightarrow> (\<Sum>x \<leftarrow> xs. if P (f x) then 1 else (0::nat)) = card {i \<in> f ` set xs. P i}"
proof (induction xs)
  case (Cons x xs)
  have "{i \<in> f ` set (x # xs). P i} =
      (if P (f x) then insert (f x) {i \<in> f ` set xs. P i} else {i \<in> f ` set xs. P i})" by auto
  with Cons show ?case by simp
qed simp

lemma descends_id: "descends ts r i \<Longrightarrow> i = r \<or> i \<in> t_id ` set ts"
  by (erule rtranclp.cases) (auto simp: child_of_iff)

text \<open>for tasks with distinct ids, the one-pass descendant count of every task is the size of the
  subtree collected for it, less the task itself, also when parent links form cycles; a task not
  passed in has no entry.\<close>

theorem descendantCounts_subtree:
  "distinct (map t_id allTasks) \<Longrightarrow>
     omap_get (descendantCounts allTasks) r =
       (if r \<in> t_id ` set allTasks then Some (length (collectSubtreeIds r allTasks) - 1) else None)"
proof -
  assume d: "distinct (map t_id allTasks)"
  let ?cnt = "\<Sum>t \<leftarrow> allTasks. if descends allTasks r (t_id t) \<and> r \<noteq> t_id t then 1 else (0::nat)"
  have "omap_get (descendantCounts allTasks) r =
      (if r \<in> t_id ` set allTasks then Some ?cnt else None)"
    unfolding descendantCounts_unfold get_walks link_counts
    by (simp add: walk_credits [OF d refl])
  moreover have "?cnt = length (collectSubtreeIds r allTasks) - 1"
  proof -
    have "?cnt = card {i \<in> t_id ` set allTasks. descends allTasks r i \<and> r \<noteq> i}"
      by (rule sum_list_count [OF d])
    also have "{i \<in> t_id ` set allTasks. descends allTasks r i \<and> r \<noteq> i} =
        set (collectSubtreeIds r allTasks) - {r}"
      using descends_id collectSubtreeIds_correct' by auto
    finally show ?thesis
      using collectSubtreeIds_correct' [of r allTasks]
      by (metis card_Diff_singleton distinct_card mem_Collect_eq rtranclp.rtrancl_refl)
  qed
  ultimately show ?thesis by simp
qed

lemma descendantCounts_subtree_witness:
  "let a = blank_task\<lparr>t_id := ''a'', t_target := ToTask ''b''\<rparr>;
       b = blank_task\<lparr>t_id := ''b'', t_target := ToTask ''a''\<rparr>
   in omap_get (descendantCounts [a, b]) ''a'' = Some (length (collectSubtreeIds ''a'' [a, b]) - 1)"
  using descendantCounts_subtree [of "[blank_task\<lparr>t_id := ''a'', t_target := ToTask ''b''\<rparr>,
    blank_task\<lparr>t_id := ''b'', t_target := ToTask ''a''\<rparr>]" "''a''"]
  by (simp add: Let_def)

end
