(* ===== verification/TaskIndex.thy ===== *)
theory TaskIndex
  imports TaskTree
begin

text \<open>
  The in-memory index of the task store, \<open>TaskStoreIndex\<close> of \<open>src/src/storage/file-storage.ts\<close>:
  \<open>indexSetParent\<close>, \<open>indexSetCode\<close>, \<open>indexSetRef\<close>, \<open>indexSetSession\<close>, \<open>indexForgetTask\<close>, and the
  building and reconciling of the index from the task directories.

  A JavaScript \<open>Set\<close> is a list without repetition in insertion order. Each pair of maps of the index
  (task to code, code to tasks) is a relation kept in both directions; \<open>link_ok\<close> says the two
  directions agree, and the interface \<open>two_way\<close> is what the operations promise about such a pair.
\<close>

section \<open>Sets of holders\<close>

definition holders :: "(string, string list) omap \<Rightarrow> string \<Rightarrow> string list" where
  "holders m k = (case omap_get m k of None \<Rightarrow> [] | Some hs \<Rightarrow> hs)"

text \<open>\<open>holders?.delete(id)\<close>, and where the code does so the entry of an emptied set goes too.\<close>

definition holders_remove ::
  "bool \<Rightarrow> (string, string list) omap \<Rightarrow> string \<Rightarrow> string \<Rightarrow> (string, string list) omap" where
  "holders_remove dropEmpty m k i =
     (case omap_get m k of
        None \<Rightarrow> m
      | Some hs \<Rightarrow> (let hs' = removeAll i hs
                   in if dropEmpty \<and> hs' = [] then omap_delete m k else omap_set m k hs'))"

definition holders_add :: "(string, string list) omap \<Rightarrow> string \<Rightarrow> string \<Rightarrow> (string, string list) omap" where
  "holders_add m k i =
     (case omap_get m k of
        None \<Rightarrow> omap_set m k [i]
      | Some hs \<Rightarrow> if i \<in> set hs then m else omap_set m k (hs @ [i]))"

type_synonym two_maps = "(string, string option) omap \<times> (string, string list) omap"

text \<open>The value a task has now, as the truth test of the code sees it.\<close>

definition link_of :: "two_maps \<Rightarrow> string \<Rightarrow> string option" where
  "link_of m i = (case omap_get (fst m) i of None \<Rightarrow> None | Some v \<Rightarrow> nonempty v)"

definition unlink :: "bool \<Rightarrow> two_maps \<Rightarrow> string \<Rightarrow> (string, string list) omap" where
  "unlink dropEmpty m i =
     (case link_of m i of None \<Rightarrow> snd m | Some previous \<Rightarrow> holders_remove dropEmpty (snd m) previous i)"

definition set_link :: "bool \<Rightarrow> two_maps \<Rightarrow> string \<Rightarrow> string option \<Rightarrow> two_maps" where
  "set_link dropEmpty m i v =
     (let bwd = unlink dropEmpty m i
      in (omap_set (fst m) i v, case nonempty v of None \<Rightarrow> bwd | Some k \<Rightarrow> holders_add bwd k i))"

definition forget_link :: "bool \<Rightarrow> two_maps \<Rightarrow> string \<Rightarrow> two_maps" where
  "forget_link dropEmpty m i = (omap_delete (fst m) i, unlink dropEmpty m i)"

definition link_ok :: "two_maps \<Rightarrow> bool" where
  "link_ok m \<longleftrightarrow> omap_ok (fst m) \<and> omap_ok (snd m) \<and>
     (\<forall>k. distinct (holders (snd m) k)) \<and>
     (\<forall>k i. i \<in> set (holders (snd m) k) \<longleftrightarrow> link_of m i = Some k)"

lemma link_okD:
  assumes "link_ok m"
  shows "omap_ok (fst m)" "omap_ok (snd m)" "distinct (holders (snd m) k)"
    "i \<in> set (holders (snd m) k) \<longleftrightarrow> link_of m i = Some k"
  using assms unfolding link_ok_def by simp_all

lemma holders_simps:
  "holders (omap_set m k hs) k' = (if k' = k then hs else holders m k')"
  "omap_ok m \<Longrightarrow> holders (omap_delete m k) k' = (if k' = k then [] else holders m k')"
  by (simp_all add: holders_def omap_get_delete)

lemma holders_remove:
  "omap_ok m \<Longrightarrow> holders (holders_remove d m k i) k' =
     (if k' = k then removeAll i (holders m k) else holders m k')"
  "omap_ok m \<Longrightarrow> omap_ok (holders_remove d m k i)"
  by (auto simp: holders_remove_def holders_simps Let_def split: option.splits)
     (auto simp: holders_def)

lemma holders_add:
  "holders (holders_add m k i) k' =
     (if k' = k \<and> i \<notin> set (holders m k) then holders m k @ [i] else holders m k')"
  "omap_ok m \<Longrightarrow> omap_ok (holders_add m k i)"
  by (auto simp: holders_add_def holders_simps split: option.splits) (auto simp: holders_def)

lemma unlink_ok:
  assumes ok: "link_ok m"
  shows "omap_ok (unlink d m i)"
    and "holders (unlink d m i) k = removeAll i (holders (snd m) k)"
proof -
  note D = link_okD [OF ok]
  show "omap_ok (unlink d m i)"
    using D(2) by (auto simp: unlink_def holders_remove split: option.splits)
  show "holders (unlink d m i) k = removeAll i (holders (snd m) k)"
  proof (cases "link_of m i")
    case None
    then have "i \<notin> set (holders (snd m) k)" using D(4) by simp
    with None show ?thesis by (simp add: unlink_def)
  next
    case (Some p)
    then have "i \<notin> set (holders (snd m) k)" if "k \<noteq> p" using D(4) that by simp
    with Some D(2) show ?thesis by (auto simp: unlink_def holders_remove)
  qed
qed

lemma link_of_set: "link_of (set_link d m i v) j = (if j = i then nonempty v else link_of m j)"
  by (simp add: link_of_def set_link_def Let_def)

lemma link_ok_set: "link_ok m \<Longrightarrow> link_ok (set_link d m i v)"
proof -
  assume ok: "link_ok m"
  note D = link_okD [OF ok] and U = unlink_ok [OF ok]
  let ?bwd = "snd (set_link d m i v)"
  have h: "holders ?bwd k =
      (if nonempty v = Some k then removeAll i (holders (snd m) k) @ [i] else removeAll i (holders (snd m) k))" for k
    by (auto simp: set_link_def Let_def holders_add U split: option.splits)
  have "omap_ok ?bwd" using U(1) by (auto simp: set_link_def Let_def holders_add split: option.splits)
  moreover have "omap_ok (fst (set_link d m i v))" using D(1) by (simp add: set_link_def Let_def)
  moreover have "distinct (holders ?bwd k)" for k using D(3) by (simp add: h distinct_removeAll)
  moreover have "j \<in> set (holders ?bwd k) \<longleftrightarrow> link_of (set_link d m i v) j = Some k" for j k
    unfolding h link_of_set using D(4) by auto
  ultimately show ?thesis unfolding link_ok_def by blast
qed

lemma link_ok_forget: "link_ok m \<Longrightarrow> link_ok (forget_link d m i)"
  and link_of_forget: "link_ok m \<Longrightarrow> link_of (forget_link d m i) j = (if j = i then None else link_of m j)"
proof -
  assume ok: "link_ok m"
  note D = link_okD [OF ok] and U = unlink_ok [OF ok]
  show l: "link_of (forget_link d m i) j = (if j = i then None else link_of m j)" for j
    using D(1) by (simp add: link_of_def forget_link_def omap_get_delete)
  show "link_ok (forget_link d m i)"
    unfolding link_ok_def l using U D by (auto simp: forget_link_def distinct_removeAll)
qed

text \<open>What the store relies on of such a pair: assignment and forgetting act on the one task, and the
  reverse direction always agrees with the forward one.\<close>

locale two_way =
  fixes lookup :: "'m \<Rightarrow> 'i \<Rightarrow> 'k option"
    and members :: "'m \<Rightarrow> 'k \<Rightarrow> 'i list"
    and assign :: "'m \<Rightarrow> 'i \<Rightarrow> 'v \<Rightarrow> 'm"
    and forget :: "'m \<Rightarrow> 'i \<Rightarrow> 'm"
    and val :: "'v \<Rightarrow> 'k option"
    and ok :: "'m \<Rightarrow> bool"
  assumes lookup_assign: "lookup (assign m i v) j = (if j = i then val v else lookup m j)"
    and lookup_forget: "ok m \<Longrightarrow> lookup (forget m i) j = (if j = i then None else lookup m j)"
    and members_lookup: "ok m \<Longrightarrow> i \<in> set (members m k) \<longleftrightarrow> lookup m i = Some k"
    and members_distinct: "ok m \<Longrightarrow> distinct (members m k)"
    and ok_assign: "ok m \<Longrightarrow> ok (assign m i v)"
    and ok_forget: "ok m \<Longrightarrow> ok (forget m i)"
begin

lemma members_after_assign:
  "ok m \<Longrightarrow> set (members (assign m i v) k) =
     (if val v = Some k then insert i (set (members m k)) else set (members m k) - {i})"
  by (auto simp: members_lookup ok_assign lookup_assign split: if_splits)

lemma ok_fold_forget: "ok m \<Longrightarrow> ok (foldl forget m is)"
  by (induction "is" arbitrary: m) (simp_all add: ok_forget)

lemma members_fold_forget:
  "ok m \<Longrightarrow> set (members (foldl forget m is) k) = set (members m k) - set is"
proof (induction "is" arbitrary: m)
  case (Cons i "is")
  then have "set (members (forget m i) k) = set (members m k) - {i}"
    by (auto simp: members_lookup ok_forget lookup_forget split: if_splits)
  with Cons show ?case by (auto simp: ok_forget)
qed simp

end

interpretation link: two_way link_of "\<lambda>m. holders (snd m)" "set_link d" "forget_link d" nonempty link_ok for d
  by unfold_locales (simp_all add: link_of_set link_of_forget link_okD link_ok_set link_ok_forget)

section \<open>The index\<close>

record TaskStoreIndex =
  ix_parents :: two_maps
  ix_codes :: two_maps
  ix_refs :: two_maps
  ix_sessionToTask :: "(string, string) omap"
  ix_taskToSession :: "(string, string) omap"

definition empty_index :: TaskStoreIndex where
  "empty_index = \<lparr>ix_parents = ([], []), ix_codes = ([], []), ix_refs = ([], []),
     ix_sessionToTask = [], ix_taskToSession = []\<rparr>"

text \<open>\<open>index.parentOf.keys()\<close>: the tasks the index knows.\<close>

definition index_ids :: "TaskStoreIndex \<Rightarrow> string list" where
  "index_ids ix = omap_keys (fst (ix_parents ix))"

definition indexSetParent :: "TaskStoreIndex \<Rightarrow> string \<Rightarrow> string option \<Rightarrow> TaskStoreIndex" where
  "indexSetParent ix taskId parentId = ix\<lparr>ix_parents := set_link False (ix_parents ix) taskId parentId\<rparr>"

definition indexSetCode :: "TaskStoreIndex \<Rightarrow> string \<Rightarrow> string option \<Rightarrow> TaskStoreIndex" where
  "indexSetCode ix taskId code = ix\<lparr>ix_codes := set_link True (ix_codes ix) taskId code\<rparr>"

definition indexSetRef :: "TaskStoreIndex \<Rightarrow> string \<Rightarrow> string option \<Rightarrow> TaskStoreIndex" where
  "indexSetRef ix taskId ref = ix\<lparr>ix_refs := set_link True (ix_refs ix) taskId ref\<rparr>"

definition indexSetSession :: "TaskStoreIndex \<Rightarrow> string \<Rightarrow> string \<Rightarrow> TaskStoreIndex" where
  "indexSetSession ix taskId sessionId =
     (let s2t = (case nonempty (omap_get (ix_taskToSession ix) taskId) of
           Some previous \<Rightarrow> if previous \<noteq> sessionId then omap_delete (ix_sessionToTask ix) previous
                            else ix_sessionToTask ix
         | None \<Rightarrow> ix_sessionToTask ix)
      in ix\<lparr>ix_taskToSession := omap_set (ix_taskToSession ix) taskId sessionId,
            ix_sessionToTask := omap_set s2t sessionId taskId\<rparr>)"

definition indexForgetTask :: "TaskStoreIndex \<Rightarrow> string \<Rightarrow> TaskStoreIndex" where
  "indexForgetTask ix taskId =
     ix\<lparr>ix_parents := forget_link True (ix_parents ix) taskId,
        ix_codes := forget_link True (ix_codes ix) taskId,
        ix_refs := forget_link True (ix_refs ix) taskId,
        ix_sessionToTask := (case nonempty (omap_get (ix_taskToSession ix) taskId) of
            Some s \<Rightarrow> omap_delete (ix_sessionToTask ix) s | None \<Rightarrow> ix_sessionToTask ix),
        ix_taskToSession := omap_delete (ix_taskToSession ix) taskId\<rparr>"

text \<open>What one task directory holds that the index reads: the task and the id of its session.\<close>

record IndexedDir =
  xd_task :: Task
  xd_session :: "string option"

definition indexTaskDir :: "TaskStoreIndex \<Rightarrow> string \<times> IndexedDir \<Rightarrow> TaskStoreIndex" where
  "indexTaskDir ix d =
     (let (dir, td) = d; task = xd_task td;
          ix1 = indexSetParent ix dir (parentTaskIdOf task);
          ix2 = indexSetCode ix1 dir (t_code task);
          ix3 = indexSetRef ix2 dir (omap_get (t_metadata task) ''task_ref'')
      in case xd_session td of None \<Rightarrow> ix3 | Some s \<Rightarrow> indexSetSession ix3 dir s)"

definition isTaskDirName :: "string \<Rightarrow> bool" where
  "isTaskDirName dir \<longleftrightarrow> \<not> str_includes dir ''.tmp'' \<and> \<not> str_includes dir ''.backup''"

definition buildIndex :: "(string, IndexedDir) omap \<Rightarrow> TaskStoreIndex" where
  "buildIndex dirs = foldl indexTaskDir empty_index (filter (\<lambda>d. isTaskDirName (fst d)) dirs)"

definition reconcileIndex :: "(string, IndexedDir) omap \<Rightarrow> TaskStoreIndex \<Rightarrow> TaskStoreIndex" where
  "reconcileIndex dirs ix =
     (let known = index_ids ix;
          real = filter (\<lambda>d. isTaskDirName (fst d)) dirs;
          ix' = foldl (\<lambda>ix d. if fst d \<in> set (index_ids ix) then ix else indexTaskDir ix d) ix real
      in foldl (\<lambda>ix taskId. if taskId \<in> set (map fst real) then ix else indexForgetTask ix taskId) ix' known)"

text \<open>What the index says of one task, and what it should say.\<close>

type_synonym index_entry = "bool \<times> string option \<times> string option \<times> string option \<times> string option"

definition entry_of :: "TaskStoreIndex \<Rightarrow> string \<Rightarrow> index_entry" where
  "entry_of ix i = (i \<in> set (index_ids ix), link_of (ix_parents ix) i, link_of (ix_codes ix) i,
     link_of (ix_refs ix) i, omap_get (ix_taskToSession ix) i)"

definition no_entry :: index_entry where
  "no_entry = (False, None, None, None, None)"

definition dir_entry :: "IndexedDir \<Rightarrow> index_entry" where
  "dir_entry td = (True, parent_link (xd_task td), nonempty (t_code (xd_task td)),
     nonempty (omap_get (t_metadata (xd_task td)) ''task_ref''), xd_session td)"

definition index_ok :: "TaskStoreIndex \<Rightarrow> bool" where
  "index_ok ix \<longleftrightarrow> link_ok (ix_parents ix) \<and> link_ok (ix_codes ix) \<and> link_ok (ix_refs ix) \<and>
     omap_ok (ix_taskToSession ix) \<and> omap_ok (ix_sessionToTask ix) \<and>
     (\<forall>s t. omap_get (ix_sessionToTask ix) s = Some t \<longrightarrow> omap_get (ix_taskToSession ix) t = Some s) \<and>
     (\<forall>t. omap_get (ix_taskToSession ix) t \<noteq> Some []) \<and>
     (\<forall>i. i \<notin> set (index_ids ix) \<longrightarrow> entry_of ix i = no_entry)"

lemma index_okD:
  assumes "index_ok ix"
  shows "link_ok (ix_parents ix)" "link_ok (ix_codes ix)" "link_ok (ix_refs ix)"
    "omap_ok (ix_taskToSession ix)" "omap_ok (ix_sessionToTask ix)"
    "omap_get (ix_sessionToTask ix) s = Some t \<Longrightarrow> omap_get (ix_taskToSession ix) t = Some s"
    "omap_get (ix_taskToSession ix) t \<noteq> Some []"
    "i \<notin> set (index_ids ix) \<Longrightarrow> entry_of ix i = no_entry"
  using assms unfolding index_ok_def by blast+

lemma index_ids_set_link: "set (omap_keys (fst (set_link d m i v))) = insert i (set (omap_keys (fst m)))"
  by (auto simp: set_link_def Let_def keys_omap_set)

lemma index_ids_forget_link:
  "link_ok m \<Longrightarrow> set (omap_keys (fst (forget_link d m i))) = set (omap_keys (fst m)) - {i}"
  using link_okD(1) by (simp add: forget_link_def keys_omap_delete)

text \<open>The two session maps alone.\<close>

definition sessions_ok :: "TaskStoreIndex \<Rightarrow> bool" where
  "sessions_ok ix \<longleftrightarrow> omap_ok (ix_taskToSession ix) \<and> omap_ok (ix_sessionToTask ix) \<and>
     (\<forall>s t. omap_get (ix_sessionToTask ix) s = Some t \<longrightarrow> omap_get (ix_taskToSession ix) t = Some s) \<and>
     (\<forall>t. omap_get (ix_taskToSession ix) t \<noteq> Some [])"

lemma sessions_ok_set:
  assumes ok: "sessions_ok ix" and s: "s \<noteq> []"
  shows "sessions_ok (indexSetSession ix i s)"
proof -
  let ?old = "omap_get (ix_taskToSession ix) i"
  have inv: "omap_get (ix_sessionToTask ix) x = Some t \<Longrightarrow> omap_get (ix_taskToSession ix) t = Some x" for x t
    using ok by (simp add: sessions_ok_def)
  have okm: "omap_ok (ix_sessionToTask ix)" using ok by (simp add: sessions_ok_def)
  have old: "?old = None \<or> nonempty ?old = ?old" by (auto simp: nonempty_def sessions_ok_def split: option.splits)
     (use ok in \<open>simp add: sessions_ok_def\<close>)
  show ?thesis
    using ok s old okm inv unfolding sessions_ok_def indexSetSession_def
    by (cases ?old) (auto simp: Let_def omap_get_delete split: if_splits)
qed

lemma sessions_ok_forget:
  assumes ok: "sessions_ok ix"
  shows "sessions_ok (indexForgetTask ix i)"
proof -
  let ?old = "omap_get (ix_taskToSession ix) i"
  have old: "nonempty ?old = ?old"
    using ok by (auto simp: nonempty_def sessions_ok_def split: option.splits)
  have inv: "omap_get (ix_sessionToTask ix) x = Some t \<Longrightarrow> omap_get (ix_taskToSession ix) t = Some x" for x t
    using ok by (simp add: sessions_ok_def)
  show ?thesis
    using ok old inv unfolding sessions_ok_def indexForgetTask_def
    by (cases ?old) (auto simp: omap_get_delete split: if_splits)
qed

lemma index_ok_sessions:
  "index_ok ix \<longleftrightarrow> link_ok (ix_parents ix) \<and> link_ok (ix_codes ix) \<and> link_ok (ix_refs ix) \<and>
     sessions_ok ix \<and> (\<forall>i. i \<notin> set (index_ids ix) \<longrightarrow> entry_of ix i = no_entry)"
  by (auto simp: index_ok_def sessions_ok_def)

lemma entry_of_indexTaskDir:
  assumes ok: "index_ok ix" and new: "i \<notin> set (index_ids ix)"
  shows "entry_of (indexTaskDir ix (i, td)) j = (if j = i then dir_entry td else entry_of ix j)"
proof -
  have none: "omap_get (ix_taskToSession ix) i = None"
    using index_okD(8) [OF ok new] by (simp add: entry_of_def no_entry_def)
  show ?thesis
    by (cases "xd_session td")
       (auto simp: entry_of_def indexTaskDir_def Let_def dir_entry_def index_ids_def index_ids_set_link
         indexSetParent_def indexSetCode_def indexSetRef_def indexSetSession_def link_of_set
         parent_link_def none)
qed

lemma index_ok_indexTaskDir:
  assumes ok: "index_ok ix" and new: "i \<notin> set (index_ids ix)" and s: "xd_session td \<noteq> Some []"
  shows "index_ok (indexTaskDir ix (i, td))"
proof -
  let ?ix3 = "indexSetRef (indexSetCode (indexSetParent ix i (parentTaskIdOf (xd_task td))) i
    (t_code (xd_task td))) i (omap_get (t_metadata (xd_task td)) ''task_ref'')"
  let ?ix = "indexTaskDir ix (i, td)"
  have "sessions_ok ?ix3"
    using ok by (simp add: index_ok_sessions sessions_ok_def indexSetParent_def indexSetCode_def indexSetRef_def)
  then have "sessions_ok ?ix"
    using s by (cases "xd_session td") (simp_all add: indexTaskDir_def Let_def sessions_ok_set)
  moreover have "link_ok (ix_parents ?ix)" "link_ok (ix_codes ?ix)" "link_ok (ix_refs ?ix)"
    using index_okD(1-3) [OF ok]
    by (simp_all add: indexTaskDir_def Let_def indexSetParent_def indexSetCode_def indexSetRef_def
        indexSetSession_def link_ok_set split: option.split)
  moreover have "entry_of ?ix j = no_entry" if "j \<notin> set (index_ids ?ix)" for j
  proof -
    have "fst (entry_of ?ix j) = False" using that by (simp add: entry_of_def)
    then have "j \<noteq> i" and "fst (entry_of ix j) = False"
      unfolding entry_of_indexTaskDir [OF ok new] by (auto simp: dir_entry_def split: if_splits)
    then show ?thesis
      unfolding entry_of_indexTaskDir [OF ok new] using index_okD(8) [OF ok] by (simp add: entry_of_def)
  qed
  ultimately show ?thesis by (simp add: index_ok_sessions)
qed

lemma entry_of_forget:
  "index_ok ix \<Longrightarrow> entry_of (indexForgetTask ix i) j = (if j = i then no_entry else entry_of ix j)"
  using index_okD(1-5) [of ix]
  by (simp add: entry_of_def indexForgetTask_def no_entry_def index_ids_def index_ids_forget_link
      link_of_forget omap_get_delete)

lemma index_ok_forget: "index_ok ix \<Longrightarrow> index_ok (indexForgetTask ix i)"
proof -
  assume ok: "index_ok ix"
  let ?ix = "indexForgetTask ix i"
  have "link_ok (ix_parents ?ix)" "link_ok (ix_codes ?ix)" "link_ok (ix_refs ?ix)"
    using index_okD(1-3) [OF ok] by (simp_all add: indexForgetTask_def link_ok_forget)
  moreover have "entry_of ?ix j = no_entry" if "j \<notin> set (index_ids ?ix)" for j
  proof (cases "j = i")
    case False
    then have "fst (entry_of ?ix j) = fst (entry_of ix j)" by (simp add: entry_of_forget [OF ok])
    then have "j \<notin> set (index_ids ix)" using that by (simp add: entry_of_def)
    then show ?thesis using False index_okD(8) [OF ok] by (simp add: entry_of_forget [OF ok])
  qed (simp add: entry_of_forget [OF ok])
  ultimately show ?thesis using ok sessions_ok_forget by (simp add: index_ok_sessions)
qed

lemma index_ok_empty: "index_ok empty_index"
  by (simp add: index_ok_def empty_index_def link_ok_def holders_def link_of_def entry_of_def
      no_entry_def index_ids_def)

lemma index_ids_empty [simp]: "index_ids empty_index = []"
  by (simp add: index_ids_def empty_index_def)

section \<open>Building and reconciling\<close>

definition real_dirs :: "(string, IndexedDir) omap \<Rightarrow> (string, IndexedDir) omap" where
  "real_dirs dirs = filter (\<lambda>d. isTaskDirName (fst d)) dirs"

definition dirs_ok :: "(string, IndexedDir) omap \<Rightarrow> bool" where
  "dirs_ok dirs \<longleftrightarrow> omap_ok dirs \<and> (\<forall>d \<in> set dirs. xd_session (snd d) \<noteq> Some [])"

definition wanted_entry :: "(string, IndexedDir) omap \<Rightarrow> string \<Rightarrow> index_entry" where
  "wanted_entry dirs i = (case omap_get dirs i of None \<Rightarrow> no_entry | Some td \<Rightarrow> dir_entry td)"

text \<open>The index says of every task exactly what its directory holds.\<close>

definition index_mirrors :: "(string, IndexedDir) omap \<Rightarrow> TaskStoreIndex \<Rightarrow> bool" where
  "index_mirrors dirs ix \<longleftrightarrow> index_ok ix \<and> (\<forall>i. entry_of ix i = wanted_entry (real_dirs dirs) i)"

lemma dirs_ok_real: "dirs_ok dirs \<Longrightarrow> dirs_ok (real_dirs dirs)"
  by (auto simp: dirs_ok_def real_dirs_def omap_keys_def distinct_map intro: inj_on_subset)

lemma index_ids_entry: "i \<in> set (index_ids ix) \<longleftrightarrow> fst (entry_of ix i)"
  by (simp add: entry_of_def)

lemma add_dirs:
  assumes "index_ok ix" and "dirs_ok ds"
  shows "index_ok (foldl (\<lambda>ix d. if fst d \<in> set (index_ids ix) then ix else indexTaskDir ix d) ix ds) \<and>
    (\<forall>j. entry_of (foldl (\<lambda>ix d. if fst d \<in> set (index_ids ix) then ix else indexTaskDir ix d) ix ds) j =
      (if j \<in> set (index_ids ix) then entry_of ix j else wanted_entry ds j))"
  using assms
proof (induction ds arbitrary: ix)
  case Nil
  then show ?case by (auto simp: wanted_entry_def index_okD(8))
next
  case (Cons d ds)
  obtain i td where d: "d = (i, td)" by fastforce
  have ds: "dirs_ok ds" and s: "xd_session td \<noteq> Some []" and i: "omap_get ds i = None"
    using Cons.prems(2) d by (auto simp: dirs_ok_def omap_get_None_iff)
  show ?case
  proof (cases "i \<in> set (index_ids ix)")
    case True
    then show ?thesis using Cons.IH [OF Cons.prems(1) ds] d by (auto simp: wanted_entry_def)
  next
    case False
    note E = entry_of_indexTaskDir [OF Cons.prems(1) False, of td]
    have "j \<in> set (index_ids (indexTaskDir ix (i, td))) \<longleftrightarrow> j = i \<or> j \<in> set (index_ids ix)" for j
      unfolding index_ids_entry E by (simp add: dir_entry_def)
    then show ?thesis
      using Cons.IH [OF index_ok_indexTaskDir [OF Cons.prems(1) False s] ds] False d i
      by (auto simp: E wanted_entry_def)
  qed
qed

lemma drop_dirs:
  assumes "index_ok ix"
  shows "index_ok (foldl (\<lambda>ix i. if P i then ix else indexForgetTask ix i) ix is) \<and>
    (\<forall>j. entry_of (foldl (\<lambda>ix i. if P i then ix else indexForgetTask ix i) ix is) j =
      (if j \<in> set is \<and> \<not> P j then no_entry else entry_of ix j))"
  using assms
proof (induction "is" arbitrary: ix)
  case (Cons i "is")
  then show ?case
    using Cons.IH [OF index_ok_forget [OF Cons.prems], of i] Cons.IH [OF Cons.prems]
    by (auto simp: entry_of_forget)
qed simp

lemma add_dirs_fresh:
  "index_ok ix \<Longrightarrow> dirs_ok ds \<Longrightarrow> (\<forall>d \<in> set ds. fst d \<notin> set (index_ids ix)) \<Longrightarrow>
     foldl (\<lambda>ix d. if fst d \<in> set (index_ids ix) then ix else indexTaskDir ix d) ix ds = foldl indexTaskDir ix ds"
proof (induction ds arbitrary: ix)
  case (Cons d ds)
  obtain i td where d: "d = (i, td)" by fastforce
  have new: "i \<notin> set (index_ids ix)" and s: "xd_session td \<noteq> Some []" using Cons.prems d by (auto simp: dirs_ok_def)
  have "\<forall>e \<in> set ds. fst e \<noteq> i" using Cons.prems(2) d by (auto simp: dirs_ok_def dest: omap_in_keys)
  then have "\<forall>e \<in> set ds. fst e \<notin> set (index_ids (indexTaskDir ix d))"
    using Cons.prems(3) d by (auto simp: index_ids_entry entry_of_indexTaskDir [OF Cons.prems(1) new])
  moreover have "dirs_ok ds" using Cons.prems(2) d by (simp add: dirs_ok_def)
  ultimately show ?case
    using Cons.IH [OF index_ok_indexTaskDir [OF Cons.prems(1) new s]] new d by simp
qed simp

lemma reconcile_build_mirrors:
  "dirs_ok dirs \<Longrightarrow> index_ok ix \<Longrightarrow>
   (\<forall>i td. omap_get (real_dirs dirs) i = Some td \<longrightarrow> i \<in> set (index_ids ix) \<longrightarrow> entry_of ix i = dir_entry td) \<Longrightarrow>
     index_mirrors dirs (reconcileIndex dirs ix) \<and> index_mirrors dirs (buildIndex dirs)"
proof -
  assume dirs: "dirs_ok dirs" and ok: "index_ok ix"
    and agree: "\<forall>i td. omap_get (real_dirs dirs) i = Some td \<longrightarrow> i \<in> set (index_ids ix) \<longrightarrow> entry_of ix i = dir_entry td"
  note real = dirs_ok_real [OF dirs]
  have gen: "index_mirrors dirs (reconcileIndex dirs ix)"
    if ok: "index_ok ix" and agree: "\<forall>i td. omap_get (real_dirs dirs) i = Some td \<longrightarrow>
        i \<in> set (index_ids ix) \<longrightarrow> entry_of ix i = dir_entry td" for ix
  proof -
    have "wanted_entry (real_dirs dirs) j =
        (if j \<in> set (index_ids ix) \<and> j \<notin> set (omap_keys (real_dirs dirs)) then no_entry
         else if j \<in> set (index_ids ix) then entry_of ix j else wanted_entry (real_dirs dirs) j)" for j
      using agree by (auto simp: wanted_entry_def omap_get_None_iff dest: omap_get_in_keys split: option.split)
    then show ?thesis
      using add_dirs [OF ok real] drop_dirs
      by (simp add: index_mirrors_def reconcileIndex_def Let_def real_dirs_def [symmetric] omap_keys_def
          cong: if_cong)
  qed
  have "index_mirrors dirs (buildIndex dirs)"
  proof -
    have "buildIndex dirs = reconcileIndex dirs empty_index"
      using add_dirs_fresh [OF index_ok_empty real]
      by (simp add: buildIndex_def reconcileIndex_def Let_def real_dirs_def [symmetric] index_ids_def empty_index_def)
    then show ?thesis using gen [OF index_ok_empty] by (simp add: index_ids_def empty_index_def)
  qed
  then show ?thesis using gen [OF ok agree] by blast
qed

text \<open>C12: reconciling brings an index that is right about the tasks it shares with the directory listing
  to exactly what the directories hold: new directories are folded in, vanished ones dropped, write
  staging ignored. Building from nothing gives such an index too.\<close>

theorem reconcileIndex_mirrors:
  "dirs_ok dirs \<Longrightarrow> index_ok ix \<Longrightarrow>
   (\<forall>i td. omap_get (real_dirs dirs) i = Some td \<longrightarrow> i \<in> set (index_ids ix) \<longrightarrow> entry_of ix i = dir_entry td) \<Longrightarrow>
     index_mirrors dirs (reconcileIndex dirs ix) \<and> index_mirrors dirs (buildIndex dirs)"
  by (rule reconcile_build_mirrors)

lemma reconcileIndex_mirrors_witness:
  "let dirs = [(''t1'', \<lparr>xd_task = blank_task\<lparr>t_id := ''t1'', t_code := Some ''ab''\<rparr>, xd_session = Some ''s1''\<rparr>),
               (''t2.tmp-1'', \<lparr>xd_task = blank_task, xd_session = None\<rparr>)]
   in index_mirrors dirs (reconcileIndex dirs empty_index) \<and> index_mirrors dirs (buildIndex dirs)"
  unfolding Let_def
  by (rule reconcileIndex_mirrors)
     (simp_all add: index_ok_empty dirs_ok_def)

end
