(* ===== verification/TaskStore.thy ===== *)
theory TaskStore
  imports TaskIndex
begin

text \<open>
  The task part of \<open>src/src/storage/file-storage.ts\<close>: resolving an identifier, creating a task, every
  operation that updates one, and the self-healing pass of \<open>listTasksWithOptions\<close>.

  The store is the list of task directories in listing order, each with the files these operations
  read and write (\<open>task.json\<close>, \<open>status-changelog.json\<close>, \<open>prompt-history.json\<close>,
  \<open>tag-history.json\<close>, \<open>session.json\<close>), together with the in-memory index and the slugs of running
  commits. An operation under \<open>lock.withLock\<close> is one atomic step \<open>Store \<Rightarrow> (store_error, Store)
  result\<close>: it returns the new store, or the error it throws, in which case the files are unchanged.
  The clock and fresh ids are arguments, as are the secret values \<open>redactSecretValues\<close> scrubs.
\<close>

section \<open>Data\<close>

record StatusChange =
  sc_status :: TaskStatus
  sc_timestamp :: int
  sc_actor :: "Actor option \<times> string option \<times> string option"
  sc_reason :: "string option"

record TaskPromptVersion =
  pv_id :: string
  pv_task_id :: string
  pv_version :: int
  pv_content :: string
  pv_created_at :: int
  pv_session_id :: "string option"

datatype TagAction = Tag | Untag

record TagEvent =
  te_tag :: string
  te_action :: TagAction
  te_timestamp :: int
  te_actor :: "Actor option \<times> string option \<times> string option"

datatype SessionOutcome = Accepted | Rejected

record Session =
  s_id :: string
  s_task_id :: string
  s_agent_id :: string
  s_started_at :: int
  s_ended_at :: "int option"
  s_outcome :: "SessionOutcome option"
  s_git_branch :: string
  s_git_start_sha :: string
  s_agent_session_id :: "string option"

record TaskDir =
  d_task :: Task
  d_changes :: "StatusChange list"
  d_versions :: "TaskPromptVersion list"
  d_tag_events :: "TagEvent list"
  d_session :: "Session option"

record Store =
  st_dirs :: "(string, TaskDir) omap"
  st_index :: TaskStoreIndex
  st_runs :: "string list"

datatype store_error =
    Transition transition_error
  | AlreadyTerminal string TaskStatus string
  | DuplicateCode string string TaskStatus
  | CodeOfCommitRun string
  | ParentAndBranch
  | BadTag tag_error
  | TaskNotFound string

fun lift_transition :: "(transition_error, unit) result \<Rightarrow> (store_error, unit) result" where
  "lift_transition (Inl e) = Inl (Transition e)"
| "lift_transition (Inr u) = Inr u"

text \<open>What the index reads of the directories.\<close>

definition indexed :: "TaskDir \<Rightarrow> IndexedDir" where
  "indexed td = \<lparr>xd_task = d_task td, xd_session = map_option s_id (d_session td)\<rparr>"

definition dir_view :: "Store \<Rightarrow> (string, IndexedDir) omap" where
  "dir_view st = map (\<lambda>(i, td). (i, indexed td)) (st_dirs st)"

section \<open>Redaction\<close>

definition REDACTED :: string where
  "REDACTED = ''<redacted>''"

text \<open>\<open>text.split(value).join(REDACTED)\<close>; a scrubbed value is never empty.\<close>

function replace_all :: "string \<Rightarrow> string \<Rightarrow> string \<Rightarrow> string" where
  "replace_all p r s =
     (if s = [] \<or> p = [] then s
      else if starts_with s p then r @ replace_all p r (drop (length p) s)
      else hd s # replace_all p r (tl s))"
  by pat_completeness auto
termination by (relation "measure (\<lambda>(p, r, s). length s)") auto

declare replace_all.simps [simp del]

definition redactSecretValues :: "string list \<Rightarrow> string \<Rightarrow> string" where
  "redactSecretValues values s =
     (if s = [] then s
      else foldl (\<lambda>out v. if str_includes out v then replace_all v REDACTED out else out) s values)"

section \<open>Resolving an identifier\<close>

definition is_hex_lower :: "char \<Rightarrow> bool" where
  "is_hex_lower c \<longleftrightarrow> is_digit c \<or> c \<in> set ''abcdef''"

definition is_hex :: "char \<Rightarrow> bool" where
  "is_hex c \<longleftrightarrow> is_hex_lower c \<or> c \<in> set ''ABCDEF''"

text \<open>\<open>UUID_PATTERN\<close>: 8-4-4-4-12 hexadecimal digits.\<close>

definition is_uuid :: "string \<Rightarrow> bool" where
  "is_uuid s \<longleftrightarrow> length s = 36 \<and>
     list_all (\<lambda>i. if i \<in> {8, 13, 18, 23} then s ! i = CHR ''-'' else is_hex (s ! i)) [0..<36]"

text \<open>Both tests are evaluated on the bits of a character and along the text.\<close>

lemma is_hex_code [code]:
  "is_hex (Char b0 b1 b2 b3 b4 b5 b6 b7) \<longleftrightarrow>
     \<not> b7 \<and> (if b6 then \<not> b4 \<and> \<not> b3 \<and> (b0 \<or> b1 \<or> b2) \<and> \<not> (b0 \<and> b1 \<and> b2)
             else b5 \<and> b4 \<and> (b3 \<longrightarrow> \<not> b1 \<and> \<not> b2))"
  by (cases b0; cases b1; cases b2; cases b3; cases b4; cases b5; cases b6; cases b7)
     (simp_all add: is_hex_def is_hex_lower_def is_digit_def of_char_def)

definition uuid_dashes :: "bool list" where
  "uuid_dashes =
     [False, False, False, False, False, False, False, False, True, False, False, False, False, True,
      False, False, False, False, True, False, False, False, False, True, False, False, False, False,
      False, False, False, False, False, False, False, False]"

lemma is_uuid_code [code]:
  "is_uuid s \<longleftrightarrow> list_all2 (\<lambda>dash c. if dash then c = CHR ''-'' else is_hex c) uuid_dashes s"
proof (cases "length s = 36")
  case True
  have "uuid_dashes ! i \<longleftrightarrow> i \<in> {8, 13, 18, 23}" if "i < 36" for i
    using that by (simp add: uuid_dashes_def nth_Cons' numeral_eq_Suc)
  with True show ?thesis
    by (auto simp: is_uuid_def list_all2_conv_all_nth list_all_iff uuid_dashes_def)
next
  case False
  then show ?thesis by (auto simp: is_uuid_def uuid_dashes_def dest: list_all2_lengthD)
qed

record FindResult =
  fr_id :: "string option"
  fr_ambiguous :: "string list option"

definition found :: "string \<Rightarrow> FindResult" where
  "found i = \<lparr>fr_id = Some i, fr_ambiguous = None\<rparr>"

definition not_found :: FindResult where
  "not_found = \<lparr>fr_id = None, fr_ambiguous = None\<rparr>"

text \<open>\<open>readTask\<close> of a task directory.\<close>

definition readTask :: "Store \<Rightarrow> string \<Rightarrow> Task option" where
  "readTask st i = map_option d_task (omap_get (st_dirs st) i)"

definition readTasksWithCode :: "Store \<Rightarrow> string list \<Rightarrow> string \<Rightarrow> (string \<times> Task) list" where
  "readTasksWithCode st taskIds code =
     concat (map (\<lambda>i. case readTask st i of
         None \<Rightarrow> [] | Some task \<Rightarrow> if t_code task = Some code then [(i, task)] else []) taskIds)"

definition created_desc :: "Task \<Rightarrow> Task \<Rightarrow> int" where
  "created_desc a b = t_created_at b - t_created_at a"

text \<open>The disambiguation of several tasks with one code.\<close>

definition chooseByCode :: "Task list \<Rightarrow> FindResult" where
  "chooseByCode codeTasks =
     (case codeTasks of
        [] \<Rightarrow> not_found
      | [t] \<Rightarrow> found (t_id t)
      | _ \<Rightarrow>
        (let nonTerminal = filter (\<lambda>t. \<not> isTerminalStatus (t_status t)) codeTasks;
             ter = filter (\<lambda>t. isTerminalStatus (t_status t)) codeTasks
         in case nonTerminal of
              [t] \<Rightarrow> found (t_id t)
            | t # u # us \<Rightarrow> \<lparr>fr_id = None, fr_ambiguous = Some (map t_id nonTerminal)\<rparr>
            | [] \<Rightarrow> found (t_id (hd (js_sort created_desc ter)))))"

definition ensureIndex :: "Store \<Rightarrow> Store" where
  "ensureIndex st = st\<lparr>st_index := reconcileIndex (dir_view st) (st_index st)\<rparr>"

definition findTaskIdWithDetails :: "Store \<Rightarrow> string \<Rightarrow> Store \<times> FindResult" where
  "findTaskIdWithDetails st input =
     (if is_uuid input then (st, found input)
      else
        let st1 = ensureIndex st;
            index = st_index st1;
            cleanDirs = index_ids index;
            prefixMatches = filter (\<lambda>d. starts_with d input) cleanDirs
        in if length prefixMatches = 1 then (st1, found (hd prefixMatches))
           else if input \<noteq> [] \<and> list_all is_hex_lower input \<and> prefixMatches \<noteq> [] then (st1, not_found)
           else
             let candidates = readTasksWithCode st1 (holders (snd (ix_codes index)) input) input
             in if candidates \<noteq> [] then (st1, chooseByCode (map snd candidates))
                else
                  let scanned = readTasksWithCode st1 cleanDirs input;
                      index' = foldl (\<lambda>ix (i, t). indexSetCode ix (t_id t) (t_code t)) index scanned
                  in (st1\<lparr>st_index := index'\<rparr>, chooseByCode (map snd scanned)))"

definition findTaskIdByPrefix :: "Store \<Rightarrow> string \<Rightarrow> Store \<times> string option" where
  "findTaskIdByPrefix st input = (let (st', r) = findTaskIdWithDetails st input in (st', fr_id r))"

definition getTask :: "Store \<Rightarrow> string \<Rightarrow> Task option" where
  "getTask st taskId =
     (case findTaskIdByPrefix st taskId of (st', None) \<Rightarrow> None | (st', Some i) \<Rightarrow> readTask st' i)"

text \<open>The task, or the tasks the identifier is ambiguous between.\<close>

definition resolveTask :: "Store \<Rightarrow> string \<Rightarrow> Task option \<times> Task list option" where
  "resolveTask st input =
     (let (st', r) = findTaskIdWithDetails st input
      in case nonempty (fr_id r) of
           Some i \<Rightarrow> (readTask st' i, None)
         | None \<Rightarrow>
           (case fr_ambiguous r of
              Some (i # is) \<Rightarrow> (None, Some (List.map_filter (readTask st') (i # is)))
            | _ \<Rightarrow> (None, None)))"

definition listTasks :: "Store \<Rightarrow> Task list" where
  "listTasks st =
     js_sort created_desc (map (\<lambda>(i, td). d_task td) (filter (\<lambda>(i, td). isTaskDirName i) (st_dirs st)))"

section \<open>What a resolution answers\<close>

text \<open>The contract of resolving a code among the tasks that carry it: the one live task, or the most
  recent finished one when none is live, or the live ones when they are several.\<close>

definition code_resolution :: "Task set \<Rightarrow> FindResult \<Rightarrow> bool" where
  "code_resolution T r \<longleftrightarrow>
     (let live = {t \<in> T. \<not> isTerminalStatus (t_status t)}
      in case fr_ambiguous r of
           Some is \<Rightarrow> fr_id r = None \<and> set is = t_id ` live \<and> 2 \<le> length is \<and> distinct is
         | None \<Rightarrow>
           (case fr_id r of
              None \<Rightarrow> T = {}
            | Some i \<Rightarrow> \<exists>t \<in> T. t_id t = i \<and>
                (live = {t} \<or> (live = {} \<and> (\<forall>u \<in> T. t_created_at u \<le> t_created_at t)))))"

interpretation created_desc: comparator created_desc
  by unfold_locales (auto simp: created_desc_def)

lemma hd_created_desc:
  assumes "ts \<noteq> []"
  shows "hd (js_sort created_desc ts) \<in> set ts"
    and "u \<in> set ts \<Longrightarrow> t_created_at u \<le> t_created_at (hd (js_sort created_desc ts))"
proof -
  have "js_sort created_desc ts \<noteq> []" using assms by (metis length_0_conv length_js_sort)
  then show "hd (js_sort created_desc ts) \<in> set ts" using set_js_sort [of created_desc ts] by (metis hd_in_set)
  show "u \<in> set ts \<Longrightarrow> t_created_at u \<le> t_created_at (hd (js_sort created_desc ts))"
    using created_desc.hd_sort_least [of u ts] by (simp add: created_desc_def)
qed

lemma chooseByCode_resolution:
  assumes d: "distinct (map t_id ts)"
  shows "code_resolution (set ts) (chooseByCode ts)"
proof -
  let ?live = "filter (\<lambda>t. \<not> isTerminalStatus (t_status t)) ts"
  let ?fin = "filter (\<lambda>t. isTerminalStatus (t_status t)) ts"
  have live: "{t \<in> set ts. \<not> isTerminalStatus (t_status t)} = set ?live" by auto
  have dl: "distinct (map t_id ?live)" using d by (rule distinct_map_filter)
  consider "ts = []" | t where "ts = [t]" | t u us where "ts = t # u # us"
    by (metis neq_Nil_conv)
  then show ?thesis
  proof cases
    case 3
    then have choose: "chooseByCode ts = (case ?live of
        [t] \<Rightarrow> found (t_id t)
      | t # u # us \<Rightarrow> \<lparr>fr_id = None, fr_ambiguous = Some (map t_id ?live)\<rparr>
      | [] \<Rightarrow> found (t_id (hd (js_sort created_desc ?fin))))"
      by (simp only: chooseByCode_def Let_def list.case)
    consider "?live = []" | t where "?live = [t]" | t u us where "?live = t # u # us"
      by (metis neq_Nil_conv)
    then show ?thesis
    proof cases
      case 1
      then have "?fin = ts" by (auto simp: filter_empty_conv intro: filter_True)
      with 1 show ?thesis
        using hd_created_desc [of ts] \<open>ts = _\<close> unfolding code_resolution_def live Let_def choose
        by (auto simp: found_def)
    next
      case 2
      have "t \<in> set ?live" unfolding 2 by simp
      then have "t \<in> set ts" by simp
      with 2 show ?thesis unfolding code_resolution_def live Let_def choose
        by (auto simp: found_def)
    next
      case (3 t u us)
      show ?thesis using dl unfolding code_resolution_def live Let_def choose 3 by simp
    qed
  qed (auto simp: chooseByCode_def code_resolution_def found_def not_found_def Let_def)
qed

section \<open>Operations on one task\<close>

definition change_entry :: "string list \<Rightarrow> TaskStatus \<Rightarrow> int \<Rightarrow> ActorInput option \<Rightarrow> string option \<Rightarrow> StatusChange" where
  "change_entry secrets status timestamp actor reason =
     \<lparr>sc_status = status, sc_timestamp = timestamp, sc_actor = actorFields actor,
      sc_reason = map_option (redactSecretValues secrets) (nonempty reason)\<rparr>"

definition readAndAppendStatusChange ::
  "string list \<Rightarrow> TaskDir \<Rightarrow> TaskStatus \<Rightarrow> int \<Rightarrow> ActorInput option \<Rightarrow> string option \<Rightarrow> StatusChange list" where
  "readAndAppendStatusChange secrets td status timestamp actor reason =
     d_changes td @ [change_entry secrets status timestamp actor reason]"

definition assertNotTerminal :: "Task \<Rightarrow> string \<Rightarrow> TaskStatus option \<Rightarrow> (store_error, unit) result" where
  "assertNotTerminal task operation targetStatus =
     (if targetStatus = Some (t_status task) then Inr ()
      else if isTerminalStatus (t_status task)
      then Inl (AlreadyTerminal (take 8 (t_id task)) (t_status task) operation)
      else Inr ())"

text \<open>The frame of the update operations: resolve, read, compute, write, then tell the index. An
  identifier that resolves to nothing leaves the files alone.\<close>

definition update_task ::
  "(string \<Rightarrow> TaskDir \<Rightarrow> TaskStoreIndex \<Rightarrow> TaskStoreIndex) \<Rightarrow>
   (string \<Rightarrow> TaskDir \<Rightarrow> (store_error, TaskDir) result) \<Rightarrow> string \<Rightarrow> Store \<Rightarrow> (store_error, Store) result" where
  "update_task tell f taskId st =
     (case findTaskIdByPrefix st taskId of
        (st', None) \<Rightarrow> Inr st'
      | (st', Some fullId) \<Rightarrow>
          (case omap_get (st_dirs st') fullId of
             None \<Rightarrow> Inr st'
           | Some td \<Rightarrow>
               bind_result (f fullId td) (\<lambda>td'.
                 Inr (st'\<lparr>st_dirs := omap_set (st_dirs st') fullId td',
                          st_index := tell fullId td' (st_index st')\<rparr>))))"

definition tell_nothing :: "string \<Rightarrow> TaskDir \<Rightarrow> TaskStoreIndex \<Rightarrow> TaskStoreIndex" where
  "tell_nothing i td ix = ix"

definition set_task :: "(Task \<Rightarrow> Task) \<Rightarrow> TaskDir \<Rightarrow> TaskDir" where
  "set_task f td = td\<lparr>d_task := f (d_task td)\<rparr>"

text \<open>A guarded field update: the body shared by \<open>updateTaskGoal\<close> and its siblings.\<close>

definition guarded_update ::
  "string \<Rightarrow> (Task \<Rightarrow> Task) \<Rightarrow> string \<Rightarrow> TaskDir \<Rightarrow> (store_error, TaskDir) result" where
  "guarded_update operation f fullId td =
     bind_result (assertNotTerminal (d_task td) operation None) (\<lambda>_. Inr (set_task f td))"

definition status_update ::
  "string list \<Rightarrow> int \<Rightarrow> TaskStatus \<Rightarrow> ActorInput option \<Rightarrow> string option \<Rightarrow> string \<Rightarrow> TaskDir \<Rightarrow>
   (store_error, TaskDir) result" where
  "status_update secrets now status actor reason fullId td =
      (if t_status (d_task td) = status then Inr td
       else bind_result (lift_transition (assertValidTransition (t_status (d_task td)) status
                (map_option actor_text (actorRole actor)))) (\<lambda>_.
         let task = (d_task td)\<lparr>t_status := status\<rparr>;
             task' = (if isTerminalStatus status \<and> (t_completed_at task = None \<or> t_completed_at task = Some 0)
                      then task\<lparr>t_completed_at := Some now\<rparr> else task)
         in Inr (td\<lparr>d_task := task',
                    d_changes := readAndAppendStatusChange secrets td status now actor reason\<rparr>)))"

definition updateTaskStatus ::
  "string list \<Rightarrow> int \<Rightarrow> TaskStatus \<Rightarrow> ActorInput option \<Rightarrow> string option \<Rightarrow> string \<Rightarrow> Store \<Rightarrow> (store_error, Store) result" where
  "updateTaskStatus secrets now status actor reason =
     update_task tell_nothing (status_update secrets now status actor reason)"

definition updateTaskGoal :: "string \<Rightarrow> string \<Rightarrow> Store \<Rightarrow> (store_error, Store) result" where
  "updateTaskGoal goal = update_task tell_nothing (guarded_update ''update goal'' (t_goal_update (\<lambda>_. goal)))"

definition updateTaskBranchedFromSha :: "string \<Rightarrow> string \<Rightarrow> Store \<Rightarrow> (store_error, Store) result" where
  "updateTaskBranchedFromSha sha =
     update_task tell_nothing (guarded_update ''update branched_from_sha'' (t_branched_from_sha_update (\<lambda>_. Some sha)))"

definition updateTaskModel :: "string \<Rightarrow> string \<Rightarrow> Store \<Rightarrow> (store_error, Store) result" where
  "updateTaskModel model = update_task tell_nothing (guarded_update ''update model'' (t_model_update (\<lambda>_. Some model)))"

definition updateTaskRunnerType :: "string option \<Rightarrow> string \<Rightarrow> Store \<Rightarrow> (store_error, Store) result" where
  "updateTaskRunnerType runnerType =
     update_task tell_nothing (guarded_update ''update runner type'' (t_runner_type_update (\<lambda>_. runnerType)))"

definition updateTaskType :: "string \<Rightarrow> string \<Rightarrow> Store \<Rightarrow> (store_error, Store) result" where
  "updateTaskType type = update_task tell_nothing (guarded_update ''update type'' (t_type_update (\<lambda>_. type)))"

definition updateTaskAgent :: "string \<Rightarrow> string \<Rightarrow> Store \<Rightarrow> (store_error, Store) result" where
  "updateTaskAgent agentId = update_task tell_nothing (guarded_update ''update agent'' (t_agent_id_update (\<lambda>_. agentId)))"

definition updateTaskTarget :: "TaskTarget \<Rightarrow> string \<Rightarrow> Store \<Rightarrow> (store_error, Store) result" where
  "updateTaskTarget target =
     update_task (\<lambda>i td ix. indexSetParent ix i (parentTaskIdOf (d_task td)))
       (guarded_update ''update target'' (t_target_update (\<lambda>_. target)))"

definition resetTaskPendingSync :: "string \<Rightarrow> Store \<Rightarrow> (store_error, Store) result" where
  "resetTaskPendingSync = update_task tell_nothing (\<lambda>_ td. Inr (set_task (t_pending_sync_update (\<lambda>_. 0)) td))"

definition incrementTaskPendingSync :: "string \<Rightarrow> Store \<Rightarrow> (store_error, Store) result" where
  "incrementTaskPendingSync = update_task tell_nothing (\<lambda>_ td. Inr (set_task (t_pending_sync_update (\<lambda>n. n + 1)) td))"

definition abandon_update ::
  "string list \<Rightarrow> int \<Rightarrow> string \<Rightarrow> ActorInput option \<Rightarrow> string \<Rightarrow> TaskDir \<Rightarrow> (store_error, TaskDir) result" where
  "abandon_update secrets now reason actor fullId td =
     bind_result (lift_transition (assertValidTransition (t_status (d_task td)) Abandoned None)) (\<lambda>_.
       Inr (td\<lparr>d_task := (d_task td)\<lparr>t_status := Abandoned, t_close_reason := Some reason,
                                      t_completed_at := Some now\<rparr>,
               d_changes := readAndAppendStatusChange secrets td Abandoned now actor None\<rparr>))"

definition abandonTask ::
  "string list \<Rightarrow> int \<Rightarrow> string \<Rightarrow> ActorInput option \<Rightarrow> string \<Rightarrow> Store \<Rightarrow> (store_error, Store) result" where
  "abandonTask secrets now reason actor = update_task tell_nothing (abandon_update secrets now reason actor)"

definition reopen_update ::
  "string list \<Rightarrow> int \<Rightarrow> ActorInput option \<Rightarrow> string \<Rightarrow> TaskDir \<Rightarrow> (store_error, TaskDir) result" where
  "reopen_update secrets now actor fullId td =
     (let newStatus = (if d_session td \<noteq> None then Blocked else Backlog)
      in bind_result (lift_transition (assertValidTransition (t_status (d_task td)) newStatus None)) (\<lambda>_.
           Inr (td\<lparr>d_task := (d_task td)\<lparr>t_status := newStatus, t_completed_at := None\<rparr>,
                   d_changes := readAndAppendStatusChange secrets td newStatus now actor None\<rparr>)))"

definition reopenTask ::
  "string list \<Rightarrow> int \<Rightarrow> ActorInput option \<Rightarrow> string \<Rightarrow> Store \<Rightarrow> (store_error, Store) result" where
  "reopenTask secrets now actor = update_task tell_nothing (reopen_update secrets now actor)"

definition metadata_tell :: "string \<Rightarrow> string \<Rightarrow> string \<Rightarrow> TaskDir \<Rightarrow> TaskStoreIndex \<Rightarrow> TaskStoreIndex" where
  "metadata_tell key value i td ix = (if key = ''task_ref'' then indexSetRef ix i (Some value) else ix)"

definition updateTaskMetadata :: "string \<Rightarrow> string \<Rightarrow> string \<Rightarrow> Store \<Rightarrow> (store_error, Store) result" where
  "updateTaskMetadata key value =
     update_task (metadata_tell key value)
       (\<lambda>_ td. Inr (set_task (t_metadata_update (\<lambda>m. omap_set m key value)) td))"

definition getTaskMetadata :: "Store \<Rightarrow> string \<Rightarrow> string \<Rightarrow> string option" where
  "getTaskMetadata st taskId key =
     (case findTaskIdByPrefix st taskId of
        (st', None) \<Rightarrow> None
      | (st', Some i) \<Rightarrow> (case readTask st' i of None \<Rightarrow> None | Some task \<Rightarrow> omap_get (t_metadata task) key))"

definition refFollowsCode :: "TaskDir \<Rightarrow> bool" where
  "refFollowsCode td \<longleftrightarrow>
     t_status (d_task td) = Backlog \<and> pinnedBaseOf (d_task td) = None \<and> d_session td = None"

definition code_tell :: "string option \<Rightarrow> string \<Rightarrow> TaskDir \<Rightarrow> TaskStoreIndex \<Rightarrow> TaskStoreIndex" where
  "code_tell code i td ix =
     (let ix' = indexSetCode ix i code
      in if refFollowsCode td then indexSetRef ix' i (omap_get (t_metadata (d_task td)) ''task_ref'') else ix')"

definition code_update ::
  "string list \<Rightarrow> Task list \<Rightarrow> string option \<Rightarrow> string \<Rightarrow> TaskDir \<Rightarrow> (store_error, TaskDir) result" where
  "code_update runs allTasks code fullId td =
     bind_result
       (case nonempty code of
          Some c \<Rightarrow> if code \<noteq> t_code (d_task td) \<and> c \<in> set runs then Inl (CodeOfCommitRun c) else Inr ()
        | None \<Rightarrow> Inr ())
       (\<lambda>_. let task = (d_task td)\<lparr>t_code := code\<rparr>
            in Inr (td\<lparr>d_task :=
                 (if refFollowsCode td
                  then task\<lparr>t_metadata := omap_set (t_metadata task) ''task_ref'' (deriveTaskRef task allTasks)\<rparr>
                  else task)\<rparr>))"

definition updateTaskCode :: "string option \<Rightarrow> string \<Rightarrow> Store \<Rightarrow> (store_error, Store) result" where
  "updateTaskCode code taskId st =
     update_task (code_tell code) (code_update (st_runs st) (listTasks st) code) taskId st"

definition updateTaskPrompt ::
  "string \<Rightarrow> int \<Rightarrow> string \<Rightarrow> string option \<Rightarrow> string \<Rightarrow> Store \<Rightarrow> (store_error, Store) result" where
  "updateTaskPrompt versionId now content sessionId taskId st =
     (case findTaskIdByPrefix st taskId of
        (st', None) \<Rightarrow> Inl (TaskNotFound taskId)
      | (st', Some fullId) \<Rightarrow>
        (case omap_get (st_dirs st') fullId of
           None \<Rightarrow> Inl (TaskNotFound taskId)
         | Some td \<Rightarrow>
           bind_result (assertNotTerminal (d_task td) ''update prompt'' None) (\<lambda>_.
             let maxVersion = foldl (\<lambda>mx v. max mx (pv_version v)) 0 (d_versions td);
                 version = \<lparr>pv_id = versionId, pv_task_id = fullId, pv_version = maxVersion + 1,
                   pv_content = content, pv_created_at = now, pv_session_id = sessionId\<rparr>
             in Inr (st'\<lparr>st_dirs := omap_set (st_dirs st') fullId
                  (td\<lparr>d_task := (d_task td)\<lparr>t_prompt := content\<rparr>, d_versions := d_versions td @ [version]\<rparr>)\<rparr>))))"

definition tag_entry :: "string \<Rightarrow> TagAction \<Rightarrow> int \<Rightarrow> ActorInput option \<Rightarrow> TagEvent" where
  "tag_entry tag action now actor =
     \<lparr>te_tag = tag, te_action = action, te_timestamp = now, te_actor = actorFields actor\<rparr>"

text \<open>\<open>addTaskTag\<close> and \<open>removeTaskTag\<close>; an unknown task is an error.\<close>

definition update_tags ::
  "(string list \<Rightarrow> string \<Rightarrow> bool) \<Rightarrow> (string list \<Rightarrow> string \<Rightarrow> string list) \<Rightarrow> TagAction \<Rightarrow> int \<Rightarrow> string \<Rightarrow>
   ActorInput option \<Rightarrow> string \<Rightarrow> Store \<Rightarrow> (store_error, Store) result" where
  "update_tags skip change action now tag actor taskId st =
     (case normalizeTagOrThrow tag of
        Inl e \<Rightarrow> Inl (BadTag e)
      | Inr normalized \<Rightarrow>
        (case findTaskIdByPrefix st taskId of
           (st', None) \<Rightarrow> Inl (TaskNotFound taskId)
         | (st', Some fullId) \<Rightarrow>
           (case omap_get (st_dirs st') fullId of
              None \<Rightarrow> Inl (TaskNotFound taskId)
            | Some td \<Rightarrow>
              if skip (t_tags (d_task td)) normalized then Inr st'
              else Inr (st'\<lparr>st_dirs := omap_set (st_dirs st') fullId
                (td\<lparr>d_task := (d_task td)\<lparr>t_tags := change (t_tags (d_task td)) normalized\<rparr>,
                    d_tag_events := d_tag_events td @ [tag_entry normalized action now actor]\<rparr>)\<rparr>))))"

definition addTaskTag :: "int \<Rightarrow> string \<Rightarrow> ActorInput option \<Rightarrow> string \<Rightarrow> Store \<Rightarrow> (store_error, Store) result" where
  "addTaskTag = update_tags (\<lambda>tags t. t \<in> set tags) (\<lambda>tags t. tags @ [t]) Tag"

definition removeTaskTag :: "int \<Rightarrow> string \<Rightarrow> ActorInput option \<Rightarrow> string \<Rightarrow> Store \<Rightarrow> (store_error, Store) result" where
  "removeTaskTag = update_tags (\<lambda>tags t. t \<notin> set tags) (\<lambda>tags t. filter (\<lambda>u. u \<noteq> t) tags) Untag"

section \<open>Creating tasks and sessions\<close>

record NewTaskInitialState =
  init_targetBranch :: "string option"
  init_prompt :: "string option"
  init_model :: "string option"
  init_metadata :: "(string, string) omap"
  init_tags :: "string list"

definition normalize_all :: "string list \<Rightarrow> (store_error, string list) result" where
  "normalize_all tags =
     foldr (\<lambda>t acc. case normalizeTagOrThrow t of
         Inl e \<Rightarrow> Inl (BadTag e) | Inr n \<Rightarrow> bind_result acc (\<lambda>ns. Inr (n # ns)))
       tags (Inr [])"

text \<open>\<open>[...new Set(xs)]\<close>.\<close>

definition unique :: "string list \<Rightarrow> string list" where
  "unique xs = rev (remdups (rev xs))"

text \<open>\<open>existing.find(t => t.code === code && !isTerminalStatus(t.status))\<close>, then the running commits.\<close>

definition refuse_code :: "Store \<Rightarrow> string option \<Rightarrow> (store_error, unit) result" where
  "refuse_code st code =
     (case nonempty code of
        None \<Rightarrow> Inr ()
      | Some c \<Rightarrow>
        (case List.find (\<lambda>t. t_code t = code \<and> \<not> isTerminalStatus (t_status t)) (listTasks st) of
           Some t \<Rightarrow> Inl (DuplicateCode c (take 8 (t_id t)) (t_status t))
         | None \<Rightarrow> if c \<in> set (st_runs st) then Inl (CodeOfCommitRun c) else Inr ()))"

definition new_task ::
  "Store \<Rightarrow> string \<Rightarrow> int \<Rightarrow> string \<Rightarrow> string option \<Rightarrow> string option \<Rightarrow> string option \<Rightarrow> string option \<Rightarrow>
   string option \<Rightarrow> NewTaskInitialState \<Rightarrow> string list \<Rightarrow> Task" where
  "new_task st newId now goal parentTaskId branchedFromSha code type agentId init tags =
     (let agent = (case agentId of Some a \<Rightarrow> a | None \<Rightarrow> ''claude-code'');
          parent = (case nonempty parentTaskId of None \<Rightarrow> None | Some p \<Rightarrow> getTask st p);
          parentModel = (case parent of Some p \<Rightarrow> if t_agent_id p = agent then t_model p else None | None \<Rightarrow> None);
          task = \<lparr>t_id = newId, t_code = code, t_goal = goal,
            t_prompt = (case init_prompt init of Some p \<Rightarrow> p | None \<Rightarrow> []),
            t_type = (case type of Some t \<Rightarrow> t | None \<Rightarrow> ''task''), t_status = Backlog,
            t_created_at = now, t_completed_at = None,
            t_target = targetFromLegacy parentTaskId (init_targetBranch init),
            t_branched_from_sha = branchedFromSha, t_close_reason = None,
            t_model = (case init_model init of Some m \<Rightarrow> Some m | None \<Rightarrow> parentModel),
            t_agent_id = agent, t_runner_type = None, t_metadata = init_metadata init,
            t_tags = tags, t_pending_sync = 0\<rparr>;
          existing = (if nonempty code = None then [] else listTasks st)
      in if nonempty (omap_get (t_metadata task) ''task_ref'') = None
         then task\<lparr>t_metadata := omap_set (t_metadata task) ''task_ref'' (deriveTaskRef task existing)\<rparr>
         else task)"

definition createTask ::
  "string \<Rightarrow> string \<Rightarrow> int \<Rightarrow> string \<Rightarrow> string option \<Rightarrow> string option \<Rightarrow> string option \<Rightarrow> string option \<Rightarrow>
   string option \<Rightarrow> ActorInput option \<Rightarrow> NewTaskInitialState \<Rightarrow> Store \<Rightarrow> (store_error, Store) result" where
  "createTask newId versionId now goal parentTaskId branchedFromSha code type agentId actor init st =
     (if nonempty (init_targetBranch init) \<noteq> None \<and> nonempty parentTaskId \<noteq> None then Inl ParentAndBranch
      else bind_result (normalize_all (init_tags init)) (\<lambda>normalized.
        let tags = unique normalized
        in bind_result (refuse_code st code) (\<lambda>_.
             let task = new_task st newId now goal parentTaskId branchedFromSha code type agentId init tags;
                 td = \<lparr>d_task = task,
                   d_changes = [\<lparr>sc_status = Backlog, sc_timestamp = now, sc_actor = actorFields actor, sc_reason = None\<rparr>],
                   d_versions = (case nonempty (init_prompt init) of None \<Rightarrow> []
                     | Some p \<Rightarrow> [\<lparr>pv_id = versionId, pv_task_id = newId, pv_version = 1, pv_content = p,
                                  pv_created_at = now, pv_session_id = None\<rparr>]),
                   d_tag_events = map (\<lambda>t. tag_entry t Tag now actor) tags,
                   d_session = None\<rparr>;
                 ix1 = indexSetParent (st_index st) newId (parentTaskIdOf task);
                 ix2 = indexSetCode ix1 newId (t_code task);
                 ix3 = indexSetRef ix2 newId (omap_get (t_metadata task) ''task_ref'')
             in Inr (st\<lparr>st_dirs := omap_set (st_dirs st) newId td, st_index := ix3\<rparr>))))"

text \<open>A session replaces whatever session the task had. For an identifier in the shape of an id the source
  writes \<open>session.json\<close> without asking whether the task exists: no task appears, but the index then
  holds the session. \<open>endSession\<close> works by the session's own id, the
  index's exact hit.\<close>

definition createSession ::
  "string \<Rightarrow> int \<Rightarrow> string \<Rightarrow> string \<Rightarrow> string \<Rightarrow> string option \<Rightarrow> string \<Rightarrow> Store \<Rightarrow> (store_error, Store) result" where
  "createSession sessionId now agentId gitBranch gitStartSha claudeSessionId taskId st =
     (case findTaskIdByPrefix st taskId of
        (st', None) \<Rightarrow> Inl (TaskNotFound taskId)
      | (st', Some fullId) \<Rightarrow>
        (case omap_get (st_dirs st') fullId of
           None \<Rightarrow> Inr (st'\<lparr>st_index := indexSetSession (st_index st') fullId sessionId\<rparr>)
         | Some td \<Rightarrow>
           Inr (st'\<lparr>st_dirs := omap_set (st_dirs st') fullId
               (td\<lparr>d_session := Some \<lparr>s_id = sessionId, s_task_id = fullId, s_agent_id = agentId,
                  s_started_at = now, s_ended_at = None, s_outcome = None, s_git_branch = gitBranch,
                  s_git_start_sha = gitStartSha, s_agent_session_id = claudeSessionId\<rparr>\<rparr>),
             st_index := indexSetSession (st_index st') fullId sessionId\<rparr>)))"

definition endSession :: "string \<Rightarrow> int \<Rightarrow> SessionOutcome \<Rightarrow> Store \<Rightarrow> Store" where
  "endSession sessionId now outcome st =
     (case omap_get (ix_sessionToTask (st_index st)) sessionId of
        None \<Rightarrow> st
      | Some taskId \<Rightarrow>
        (case omap_get (st_dirs st) taskId of
           None \<Rightarrow> st
         | Some td \<Rightarrow>
           (case d_session td of
              None \<Rightarrow> st
            | Some s \<Rightarrow> st\<lparr>st_dirs := omap_set (st_dirs st) taskId
                (td\<lparr>d_session := Some (s\<lparr>s_ended_at := Some now, s_outcome := Some outcome\<rparr>)\<rparr>)\<rparr>)))"

section \<open>Self-healing\<close>

definition ACCEPT_IN_FLIGHT_KEY :: string where
  "ACCEPT_IN_FLIGHT_KEY = ''accept_in_flight_from''"

definition accept_in_flight :: "Task \<Rightarrow> bool" where
  "accept_in_flight task \<longleftrightarrow> nonempty (omap_get (t_metadata task) ACCEPT_IN_FLIGHT_KEY) \<noteq> None"

text \<open>One candidate of the sweep in \<open>listTasksWithOptions\<close>. \<open>task\<close> and \<open>session\<close> were read before the lock
  was taken, so they may be older than the store; the decision is made again on the fresh read. The
  result is the store and the task as the query reports it.\<close>

definition heal_task :: "string list \<Rightarrow> int \<Rightarrow> Task \<Rightarrow> Session option \<Rightarrow> Store \<Rightarrow> Store \<times> Task" where
  "heal_task secrets now task session st =
     (case session of
        None \<Rightarrow> (st, task)
      | Some s \<Rightarrow>
        (case (s_ended_at s, s_outcome s) of
           (Some ended, Some outcome) \<Rightarrow>
             if isTerminalStatus (t_status task) \<or> t_status task = Working \<or> ended = 0 \<or> accept_in_flight task
             then (st, task)
             else
               let newStatus = (if outcome = Accepted then Complete else Abandoned)
               in (case omap_get (st_dirs st) (t_id task) of
                     None \<Rightarrow> (st, task)
                   | Some td \<Rightarrow>
                     let current = d_task td
                     in if isTerminalStatus (t_status current) \<or> t_status current = Working \<or> accept_in_flight current
                        then (st, current)
                        else
                          let completed = (case t_completed_at current of Some c \<Rightarrow> Some c | None \<Rightarrow> Some ended);
                              td' = td\<lparr>d_task := current\<lparr>t_status := newStatus, t_completed_at := completed\<rparr>,
                                       d_changes := readAndAppendStatusChange secrets td newStatus now None None\<rparr>
                          in (st\<lparr>st_dirs := omap_set (st_dirs st) (t_id task) td'\<rparr>,
                              task\<lparr>t_status := newStatus, t_completed_at := completed\<rparr>))
         | _ \<Rightarrow> (st, task)))"

section \<open>The invariant of the store\<close>

text \<open>An entry may follow another in the changelog of a task when the state machine allows it, or when
  the self-healing pass finished a task whose session had ended.\<close>

definition change_allowed :: "TaskStatus \<Rightarrow> TaskStatus \<Rightarrow> bool" where
  "change_allowed a b \<longleftrightarrow> a = b \<or> canTransition a b \<or> (b = Zombie \<and> \<not> isTerminalStatus a) \<or>
     (isTerminalStatus b \<and> \<not> isTerminalStatus a \<and> a \<noteq> Working)"

fun history_ok :: "StatusChange list \<Rightarrow> bool" where
  "history_ok [] = False"
| "history_ok [c] = True"
| "history_ok (c # d # cs) = (change_allowed (sc_status c) (sc_status d) \<and> history_ok (d # cs))"

definition replay_tags :: "TagEvent list \<Rightarrow> string list" where
  "replay_tags events =
     foldl (\<lambda>tags e. if te_action e = Tag then tags @ [te_tag e] else filter (\<lambda>t. t \<noteq> te_tag e) tags)
       [] events"

definition dir_ok :: "string \<Rightarrow> TaskDir \<Rightarrow> bool" where
  "dir_ok i td \<longleftrightarrow> t_id (d_task td) = i \<and> isTaskDirName i \<and>
     history_ok (d_changes td) \<and> sc_status (hd (d_changes td)) = Backlog \<and>
     sc_status (last (d_changes td)) = t_status (d_task td) \<and>
     (isTerminalStatus (t_status (d_task td)) \<longrightarrow> t_completed_at (d_task td) \<noteq> None) \<and>
     sorted_wrt (<) (map pv_version (d_versions td)) \<and>
     t_prompt (d_task td) = (if d_versions td = [] then [] else pv_content (last (d_versions td))) \<and>
     distinct (t_tags (d_task td)) \<and> replay_tags (d_tag_events td) = t_tags (d_task td) \<and>
     map_option s_id (d_session td) \<noteq> Some []"

definition store_ok :: "Store \<Rightarrow> bool" where
  "store_ok st \<longleftrightarrow> omap_ok (st_dirs st) \<and> (\<forall>(i, td) \<in> set (st_dirs st). dir_ok i td) \<and>
     index_mirrors (dir_view st) (st_index st)"

section \<open>The index stays right\<close>

definition store_entry :: "Store \<Rightarrow> string \<Rightarrow> index_entry" where
  "store_entry st i = (case omap_get (st_dirs st) i of None \<Rightarrow> no_entry | Some td \<Rightarrow> dir_entry (indexed td))"

lemma omap_get_map_values: "omap_get (map (\<lambda>(i, x). (i, f x)) m) k = map_option f (omap_get m k)"
  by (induction m) auto

lemma omap_keys_map_values [simp]: "omap_keys (map (\<lambda>(i, x). (i, f x)) m) = omap_keys m"
  by (induction m) auto

lemma real_dirs_view:
  assumes "\<forall>(i, td) \<in> set (st_dirs st). dir_ok i td"
  shows "real_dirs (dir_view st) = dir_view st"
  using assms by (auto simp: real_dirs_def dir_view_def dir_ok_def intro!: filter_True)

lemma store_okD:
  assumes "store_ok st"
  shows "omap_ok (st_dirs st)" "omap_get (st_dirs st) i = Some td \<Longrightarrow> dir_ok i td"
    "index_ok (st_index st)" "entry_of (st_index st) j = store_entry st j"
proof -
  show "omap_ok (st_dirs st)" using assms by (simp add: store_ok_def)
  show "omap_get (st_dirs st) i = Some td \<Longrightarrow> dir_ok i td"
    using assms by (auto simp: store_ok_def dest: omap_get_in)
  show "index_ok (st_index st)" using assms by (simp add: store_ok_def index_mirrors_def)
  have "real_dirs (dir_view st) = dir_view st"
    using assms by (intro real_dirs_view) (simp add: store_ok_def)
  then show "entry_of (st_index st) j = store_entry st j"
    using assms by (simp add: store_ok_def index_mirrors_def wanted_entry_def store_entry_def dir_view_def
        omap_get_map_values split: option.split)
qed

lemma store_okI:
  assumes "omap_ok (st_dirs st)" and "\<And>i td. omap_get (st_dirs st) i = Some td \<Longrightarrow> dir_ok i td"
    and "index_ok (st_index st)" and "\<And>j. entry_of (st_index st) j = store_entry st j"
  shows "store_ok st"
proof -
  have dirs: "\<forall>(i, td) \<in> set (st_dirs st). dir_ok i td"
    using assms(1,2) by (auto intro: omap_in_get)
  show ?thesis
    using assms(1,3,4) dirs real_dirs_view [OF dirs]
    by (simp add: store_ok_def index_mirrors_def wanted_entry_def store_entry_def dir_view_def
        omap_get_map_values split: option.split)
qed

lemma store_ok_ids: "store_ok st \<Longrightarrow> i \<in> set (index_ids (st_index st)) \<longleftrightarrow> omap_get (st_dirs st) i \<noteq> None"
  unfolding index_ids_entry store_okD(4)
  by (auto simp: store_entry_def no_entry_def dir_entry_def split: option.split)

lemma store_ok_reindex:
  "store_ok st \<Longrightarrow> index_ok ix \<Longrightarrow> (\<And>j. entry_of ix j = entry_of (st_index st) j) \<Longrightarrow> store_ok (st\<lparr>st_index := ix\<rparr>)"
  by (rule store_okI) (simp_all add: store_okD store_entry_def)

lemma store_ok_put:
  assumes ok: "store_ok st" and new: "dir_ok i td'" and ix: "index_ok ix"
    and e: "\<And>j. entry_of ix j = (if j = i then dir_entry (indexed td') else entry_of (st_index st) j)"
  shows "store_ok (st\<lparr>st_dirs := omap_set (st_dirs st) i td', st_index := ix\<rparr>)"
  by (rule store_okI)
     (use store_okD [OF ok] new ix in \<open>auto simp: e store_entry_def split: if_splits\<close>)

text \<open>The single assignments, on an entry.\<close>

lemma entry_of_set:
  "entry_of (indexSetParent ix i k) j = (case entry_of ix j of (h, p, c, r, s) \<Rightarrow>
     (h \<or> j = i, if j = i then nonempty k else p, c, r, s))"
  "entry_of (indexSetCode ix i k) j = (case entry_of ix j of (h, p, c, r, s) \<Rightarrow> (h, p, if j = i then nonempty k else c, r, s))"
  "entry_of (indexSetRef ix i k) j = (case entry_of ix j of (h, p, c, r, s) \<Rightarrow> (h, p, c, if j = i then nonempty k else r, s))"
  "entry_of (indexSetSession ix i v) j = (case entry_of ix j of (h, p, c, r, s) \<Rightarrow> (h, p, c, r, if j = i then Some v else s))"
  by (auto simp: entry_of_def index_ids_def index_ids_set_link indexSetParent_def indexSetCode_def
      indexSetRef_def indexSetSession_def link_of_set Let_def)

lemma index_ids_set [simp]:
  "set (index_ids (indexSetParent ix i p)) = insert i (set (index_ids ix))"
  "index_ids (indexSetCode ix i k) = index_ids ix" "index_ids (indexSetRef ix i k) = index_ids ix"
  "index_ids (indexSetSession ix i v) = index_ids ix"
  by (simp_all add: index_ids_def index_ids_set_link indexSetParent_def indexSetCode_def indexSetRef_def
      indexSetSession_def Let_def)

lemma index_ok_set:
  assumes ok: "index_ok ix"
  shows "index_ok (indexSetParent ix i p)"
    and "i \<in> set (index_ids ix) \<Longrightarrow> index_ok (indexSetCode ix i k)"
    and "i \<in> set (index_ids ix) \<Longrightarrow> index_ok (indexSetRef ix i k)"
    and "i \<in> set (index_ids ix) \<Longrightarrow> v \<noteq> [] \<Longrightarrow> index_ok (indexSetSession ix i v)"
proof -
  note D = index_okD [OF ok]
  have no: "j \<notin> set (index_ids ix) \<Longrightarrow> entry_of ix j = no_entry \<and> link_of (ix_parents ix) j = None" for j
    using D(8) by (simp add: entry_of_def no_entry_def)
  have s: "sessions_ok ix" using ok by (simp add: index_ok_sessions)
  show "index_ok (indexSetParent ix i p)"
    using D(1-3) s no by (auto simp: index_ok_sessions entry_of_set no_entry_def)
       (simp_all add: indexSetParent_def link_ok_set sessions_ok_def)
  show "i \<in> set (index_ids ix) \<Longrightarrow> index_ok (indexSetCode ix i k)"
    using D(1-3) s no by (auto simp: index_ok_sessions entry_of_set no_entry_def)
       (simp_all add: indexSetCode_def link_ok_set sessions_ok_def)
  show "i \<in> set (index_ids ix) \<Longrightarrow> index_ok (indexSetRef ix i k)"
    using D(1-3) s no by (auto simp: index_ok_sessions entry_of_set no_entry_def)
       (simp_all add: indexSetRef_def link_ok_set sessions_ok_def)
  show "i \<in> set (index_ids ix) \<Longrightarrow> v \<noteq> [] \<Longrightarrow> index_ok (indexSetSession ix i v)"
    using D(1-3) sessions_ok_set [OF s] no by (auto simp: index_ok_sessions entry_of_set no_entry_def)
       (simp_all add: indexSetSession_def Let_def)
qed

lemma dirs_ok_view: "store_ok st \<Longrightarrow> dirs_ok (dir_view st)"
proof -
  assume ok: "store_ok st"
  have "xd_session (indexed td) \<noteq> Some []" if "(i, td) \<in> set (st_dirs st)" for i td
    using that ok by (auto simp: store_ok_def dir_ok_def indexed_def)
  then show ?thesis using store_okD(1) [OF ok] by (auto simp: dirs_ok_def dir_view_def)
qed

lemma store_ok_ensureIndex: "store_ok st \<Longrightarrow> store_ok (ensureIndex st)"
proof -
  assume ok: "store_ok st"
  then have real: "real_dirs (dir_view st) = dir_view st" by (intro real_dirs_view) (simp add: store_ok_def)
  have w: "wanted_entry (dir_view st) j = store_entry st j" for j
    by (simp add: wanted_entry_def store_entry_def dir_view_def omap_get_map_values split: option.split)
  have "entry_of (st_index st) i = dir_entry td" if "omap_get (dir_view st) i = Some td" for i td
    using store_okD(4) [OF ok, of i] that w [of i] by (simp add: wanted_entry_def)
  then have "index_mirrors (dir_view st) (reconcileIndex (dir_view st) (st_index st))"
    using reconcile_build_mirrors [OF dirs_ok_view [OF ok] store_okD(3) [OF ok]] real by simp
  then have m: "index_ok (reconcileIndex (dir_view st) (st_index st))"
    "entry_of (reconcileIndex (dir_view st) (st_index st)) j = entry_of (st_index st) j" for j
    using store_okD(4) [OF ok] by (simp_all add: index_mirrors_def real w)
  show ?thesis unfolding ensureIndex_def by (rule store_ok_reindex [OF ok m])
qed

lemma readTasksWithCode_mem:
  "(i, t) \<in> set (readTasksWithCode st is code) \<longleftrightarrow>
     i \<in> set is \<and> readTask st i = Some t \<and> t_code t = Some code"
  by (auto simp: readTasksWithCode_def split: option.splits if_splits)

lemma readTask_id: "store_ok st \<Longrightarrow> readTask st i = Some t \<Longrightarrow> t_id t = i"
  by (auto simp: readTask_def dir_ok_def dest: store_okD(2))

text \<open>Repairing the index from a scan changes nothing when the index is right.\<close>

lemma entry_of_repair:
  assumes ok: "store_ok st" and t: "\<forall>(i, t) \<in> set ps. readTask st i = Some t"
    and ix: "index_ok ix" "\<And>j. entry_of ix j = entry_of (st_index st) j"
  shows "index_ok (foldl (\<lambda>ix (i, t). indexSetCode ix (t_id t) (t_code t)) ix ps) \<and>
    (\<forall>j. entry_of (foldl (\<lambda>ix (i, t). indexSetCode ix (t_id t) (t_code t)) ix ps) j = entry_of (st_index st) j)"
  using t ix
proof (induction ps arbitrary: ix)
  case (Cons p ps)
  obtain i t where p: "p = (i, t)" by fastforce
  have r: "readTask st i = Some t" using Cons.prems(1) p by simp
  have i: "t_id t = i" using readTask_id [OF ok r] .
  obtain td where td: "omap_get (st_dirs st) i = Some td" "d_task td = t"
    using r by (auto simp: readTask_def)
  have e: "entry_of ix i = dir_entry (indexed td)"
    using Cons.prems(3) store_okD(4) [OF ok] td by (simp add: store_entry_def)
  then have mem: "i \<in> set (index_ids ix)" by (simp add: index_ids_entry dir_entry_def)
  have "entry_of (indexSetCode ix i (t_code t)) j = entry_of ix j" for j
    using e td by (cases "entry_of ix j") (auto simp: entry_of_set dir_entry_def indexed_def)
  then show ?case
    using Cons.IH [OF _ index_ok_set(2) [OF Cons.prems(2) mem, of "t_code t"]] Cons.prems p i by simp
qed simp

lemma find_keeps:
  assumes "findTaskIdWithDetails st input = (st', r)" and ok: "store_ok st"
  shows "store_ok st'" and "st_dirs st' = st_dirs st" and "st_runs st' = st_runs st"
proof -
  let ?e = "ensureIndex st"
  let ?scan = "readTasksWithCode ?e (index_ids (st_index ?e)) input"
  let ?ix = "foldl (\<lambda>ix (i, t). indexSetCode ix (t_id t) (t_code t)) (st_index ?e) ?scan"
  have oke: "store_ok ?e" using ok by (rule store_ok_ensureIndex)
  have "\<forall>(i, t) \<in> set ?scan. readTask ?e i = Some t" by (auto simp: readTasksWithCode_mem)
  then have "store_ok (?e\<lparr>st_index := ?ix\<rparr>)"
    using entry_of_repair [OF oke _ store_okD(3) [OF oke]] by (intro store_ok_reindex [OF oke]) auto
  moreover have "st' \<in> {st, ?e, ?e\<lparr>st_index := ?ix\<rparr>}"
    using assms(1) by (auto simp: findTaskIdWithDetails_def Let_def split: if_splits)
  moreover have "st_dirs ?e = st_dirs st" "st_runs ?e = st_runs st" by (simp_all add: ensureIndex_def)
  ultimately show "store_ok st'" "st_dirs st' = st_dirs st" "st_runs st' = st_runs st"
    using ok oke by auto
qed

lemma findTaskIdByPrefix_keeps:
  assumes "findTaskIdByPrefix st input = (st', r)" and "store_ok st"
  shows "store_ok st'" and "st_dirs st' = st_dirs st" and "st_runs st' = st_runs st"
proof -
  obtain r' where "findTaskIdWithDetails st input = (st', r')"
    using assms(1) by (cases "findTaskIdWithDetails st input") (simp add: findTaskIdByPrefix_def)
  then show "store_ok st'" "st_dirs st' = st_dirs st" "st_runs st' = st_runs st"
    using assms(2) by (rule find_keeps)+
qed

text \<open>Which tasks the code lookup considers: all that carry the code, whether the index answered or the
  full scan did.\<close>

definition tasks_with_code :: "Store \<Rightarrow> string \<Rightarrow> Task set" where
  "tasks_with_code st code = {t. \<exists>i. readTask st i = Some t \<and> t_code t = Some code}"

lemma distinct_readTasks:
  assumes ok: "store_ok st" and "distinct is"
  shows "distinct (map (\<lambda>p. t_id (snd p)) (readTasksWithCode st is code))"
  using assms(2)
proof (induction "is")
  case (Cons i "is")
  let ?f = "map (\<lambda>p. t_id (snd p))"
  have IH: "distinct (?f (readTasksWithCode st is code))" using Cons by simp
  have sub: "set (?f (readTasksWithCode st is code)) \<subseteq> set is"
    using readTask_id [OF ok] by (auto simp: readTasksWithCode_mem)
  have split: "readTasksWithCode st (i # is) code = (case readTask st i of
      None \<Rightarrow> [] | Some t \<Rightarrow> if t_code t = Some code then [(i, t)] else []) @ readTasksWithCode st is code"
    by (simp add: readTasksWithCode_def)
  show ?case
  proof (cases "readTask st i")
    case None
    with IH show ?thesis by (simp add: split)
  next
    case (Some t)
    then have "t_id t = i" by (rule readTask_id [OF ok])
    with IH sub Cons.prems Some show ?thesis by (auto simp: split)
  qed
qed (simp add: readTasksWithCode_def)

lemma choose_read:
  assumes ok: "store_ok st" and "distinct is"
    and all: "\<And>i t. readTask st i = Some t \<Longrightarrow> t_code t = Some code \<Longrightarrow> i \<in> set is"
  shows "code_resolution (tasks_with_code st code) (chooseByCode (map snd (readTasksWithCode st is code)))"
proof -
  have "set (map snd (readTasksWithCode st is code)) = tasks_with_code st code"
  proof
    show "tasks_with_code st code \<subseteq> set (map snd (readTasksWithCode st is code))"
    proof
      fix t
      assume "t \<in> tasks_with_code st code"
      then obtain i where "(i, t) \<in> set (readTasksWithCode st is code)"
        using all by (auto simp: tasks_with_code_def readTasksWithCode_mem)
      then show "t \<in> set (map snd (readTasksWithCode st is code))" by (metis image_eqI set_map snd_conv)
    qed
  qed (auto simp: tasks_with_code_def readTasksWithCode_mem)
  then show ?thesis
    using chooseByCode_resolution [of "map snd (readTasksWithCode st is code)"]
      distinct_readTasks [OF ok assms(2), of code] by (simp add: o_def)
qed

lemma holders_codes:
  assumes ok: "store_ok st" and c: "code \<noteq> []"
    and r: "readTask st i = Some t" "t_code t = Some code"
  shows "i \<in> set (holders (snd (ix_codes (st_index st))) code)"
proof -
  obtain td where "omap_get (st_dirs st) i = Some td" "d_task td = t" using r(1) by (auto simp: readTask_def)
  then have "entry_of (st_index st) i = dir_entry (indexed td)" and "t_code (d_task td) = Some code"
    using store_okD(4) [OF ok] r(2) by (simp_all add: store_entry_def)
  then have "link_of (ix_codes (st_index st)) i = Some code"
    using c by (simp add: entry_of_def dir_entry_def indexed_def nonempty_def)
  then show ?thesis using link_okD(4) [OF index_okD(2) [OF store_okD(3) [OF ok]]] by blast
qed

lemma lookup_resolution:
  assumes ok: "store_ok st" and uuid: "\<not> is_uuid input"
    and pre: "\<forall>i \<in> set (omap_keys (st_dirs st)). \<not> starts_with i input"
  shows "code_resolution (tasks_with_code st input) (snd (findTaskIdWithDetails st input))"
proof -
  let ?e = "ensureIndex st" and ?ids = "index_ids (st_index (ensureIndex st))"
  let ?hs = "holders (snd (ix_codes (st_index ?e))) input"
  have oke: "store_ok ?e" and dirs: "st_dirs ?e = st_dirs st"
    using ok by (simp_all add: store_ok_ensureIndex) (simp add: ensureIndex_def)
  have ids: "i \<in> set ?ids \<longleftrightarrow> omap_get (st_dirs st) i \<noteq> None" for i
    using store_ok_ids [OF oke] dirs by simp
  have T: "tasks_with_code ?e input = tasks_with_code st input"
    by (simp add: tasks_with_code_def readTask_def dirs)
  have none: "filter (\<lambda>d. starts_with d input) ?ids = []"
    using pre ids by (auto simp: filter_empty_conv omap_get_None_iff)
  have dh: "distinct ?hs" and di: "distinct ?ids"
    using link_okD [OF index_okD(2) [OF store_okD(3) [OF oke]]]
      link_okD [OF index_okD(1) [OF store_okD(3) [OF oke]]] by (simp_all add: index_ids_def)
  have ne: "input \<noteq> []" if "readTask ?e i = Some t" for i t
    using that pre dirs by (auto simp: readTask_def dest: omap_get_in_keys)
  have "code_resolution (tasks_with_code ?e input) (chooseByCode (map snd (readTasksWithCode ?e ?hs input)))"
    by (rule choose_read [OF oke dh]) (use holders_codes [OF oke] ne in blast)
  moreover have "code_resolution (tasks_with_code ?e input) (chooseByCode (map snd (readTasksWithCode ?e ?ids input)))"
    by (rule choose_read [OF oke di]) (auto simp: ids readTask_def dirs)
  ultimately show ?thesis
    using uuid none by (simp add: findTaskIdWithDetails_def Let_def T)
qed

text \<open>C17: an identifier that is no id and no prefix of one resolves by code to the one live task that
  carries it, else to the most recently created finished one; to nothing when no task carries it; and
  when several live tasks do, it is reported as ambiguous between exactly those.\<close>

theorem findTaskId_by_code:
  "store_ok st \<Longrightarrow> \<not> is_uuid input \<Longrightarrow>
   (\<forall>i \<in> set (omap_keys (st_dirs st)). \<not> starts_with i input) \<Longrightarrow>
     code_resolution (tasks_with_code st input) (snd (findTaskIdWithDetails st input))"
  by (rule lookup_resolution)

section \<open>Every operation keeps the invariant\<close>

text \<open>The contract of an update: what it does to the directory keeps the directory well-formed and only
  appends to its changelog, and what it tells the index is what it did.\<close>

definition dir_extends :: "TaskDir \<Rightarrow> TaskDir \<Rightarrow> bool" where
  "dir_extends td td' \<longleftrightarrow> (\<exists>a. d_changes td' = d_changes td @ a) \<and> (\<exists>b. d_versions td' = d_versions td @ b) \<and>
     (\<exists>c. d_tag_events td' = d_tag_events td @ c) \<and> t_created_at (d_task td') = t_created_at (d_task td)"

lemma dir_extends_refl [simp]: "dir_extends td td"
  by (simp add: dir_extends_def)

lemma dir_extends_trans: "dir_extends a b \<Longrightarrow> dir_extends b c \<Longrightarrow> dir_extends a c"
  by (auto simp: dir_extends_def)

locale task_update =
  fixes tell :: "string \<Rightarrow> TaskDir \<Rightarrow> TaskStoreIndex \<Rightarrow> TaskStoreIndex"
    and f :: "string \<Rightarrow> TaskDir \<Rightarrow> (store_error, TaskDir) result"
  assumes f_keeps: "dir_ok i td \<Longrightarrow> f i td = Inr td' \<Longrightarrow> dir_ok i td'"
    and f_appends: "f i td = Inr td' \<Longrightarrow> dir_extends td td'"
    and tell_keeps: "index_ok ix \<Longrightarrow> entry_of ix i = dir_entry (indexed td) \<Longrightarrow> dir_ok i td \<Longrightarrow>
      f i td = Inr td' \<Longrightarrow> index_ok (tell i td' ix) \<and>
        (\<forall>j. entry_of (tell i td' ix) j = (if j = i then dir_entry (indexed td') else entry_of ix j))"
begin

lemma cases:
  assumes "update_task tell f taskId st = Inr st'" and "store_ok st"
  obtains (skip) "store_ok st'" "st_dirs st' = st_dirs st" "st_runs st' = st_runs st"
  | (wrote) st1 fullId td td' where "findTaskIdByPrefix st taskId = (st1, Some fullId)" "store_ok st1"
      "omap_get (st_dirs st) fullId = Some td" "f fullId td = Inr td'"
      "st' = st1\<lparr>st_dirs := omap_set (st_dirs st) fullId td', st_index := tell fullId td' (st_index st1)\<rparr>"
      "st_runs st1 = st_runs st"
proof -
  obtain st1 r where find: "findTaskIdByPrefix st taskId = (st1, r)" by fastforce
  note keep = findTaskIdByPrefix_keeps [OF find assms(2)]
  show ?thesis
  proof (cases r)
    case None
    then show ?thesis using assms(1) find keep skip by (simp add: update_task_def)
  next
    case (Some fullId)
    show ?thesis
    proof (cases "omap_get (st_dirs st) fullId")
      case None
      then show ?thesis using assms(1) find keep skip Some by (simp add: update_task_def)
    next
      case (Some td)
      then obtain td' where "f fullId td = Inr td'"
        "st' = st1\<lparr>st_dirs := omap_set (st_dirs st) fullId td', st_index := tell fullId td' (st_index st1)\<rparr>"
        using assms(1) find keep \<open>r = _\<close> by (auto simp: update_task_def bind_result_Inr_iff)
      then show ?thesis using wrote find keep Some \<open>r = _\<close> by blast
    qed
  qed
qed

lemma keeps_store_ok:
  assumes "update_task tell f taskId st = Inr st'" and ok: "store_ok st"
  shows "store_ok st'"
  using assms
proof (cases rule: cases)
  case (wrote st1 fullId td td')
  have dirs1: "st_dirs st1 = st_dirs st" using findTaskIdByPrefix_keeps [OF wrote(1) ok] by blast
  have dok: "dir_ok fullId td" using store_okD(2) [OF ok wrote(3)] .
  have "entry_of (st_index st1) fullId = dir_entry (indexed td)"
    using store_okD(4) [OF wrote(2)] wrote(3) dirs1 by (simp add: store_entry_def)
  then show ?thesis
    using store_ok_put [OF wrote(2) f_keeps [OF dok wrote(4)]]
      tell_keeps [OF store_okD(3) [OF wrote(2)] _ dok wrote(4)] wrote(5) dirs1 by simp
qed

text \<open>An update touches at most one directory, and only appends to its changelog.\<close>

lemma frame:
  assumes "update_task tell f taskId st = Inr st'" and ok: "store_ok st"
    and "omap_get (st_dirs st) i = Some td"
  shows "\<exists>td'. omap_get (st_dirs st') i = Some td' \<and> dir_extends td td'"
  using assms(1,2)
proof (cases rule: cases)
  case skip
  then show ?thesis using assms(3) by auto
next
  case (wrote st1 fullId td0 td')
  then show ?thesis using assms(3) f_appends [OF wrote(4)] by (cases "i = fullId") auto
qed

end

text \<open>When nothing the index reads changes, it need not be told.\<close>

lemma tell_nothing_ok:
  "index_ok ix \<Longrightarrow> entry_of ix i = dir_entry (indexed td) \<Longrightarrow> dir_entry (indexed td') = dir_entry (indexed td) \<Longrightarrow>
     index_ok (tell_nothing i td' ix) \<and>
       (\<forall>j. entry_of (tell_nothing i td' ix) j = (if j = i then dir_entry (indexed td') else entry_of ix j))"
  by (simp add: tell_nothing_def)

text \<open>The fields the invariant speaks about, kept by a field update.\<close>

definition frames :: "(Task \<Rightarrow> Task) \<Rightarrow> bool" where
  "frames g \<longleftrightarrow> (\<forall>t. t_id (g t) = t_id t \<and> t_status (g t) = t_status t \<and> t_completed_at (g t) = t_completed_at t \<and>
     t_prompt (g t) = t_prompt t \<and> t_tags (g t) = t_tags t \<and> t_created_at (g t) = t_created_at t)"

lemma set_task_simps [simp]:
  "d_changes (set_task g td) = d_changes td" "d_task (set_task g td) = g (d_task td)"
  "d_versions (set_task g td) = d_versions td" "d_tag_events (set_task g td) = d_tag_events td"
  "d_session (set_task g td) = d_session td"
  by (simp_all add: set_task_def)

lemma dir_ok_set_task: "frames g \<Longrightarrow> dir_ok i td \<Longrightarrow> dir_ok i (set_task g td)"
  by (simp add: dir_ok_def frames_def)

lemma guarded_update_Inr:
  "guarded_update op g i td = Inr td' \<longleftrightarrow> \<not> isTerminalStatus (t_status (d_task td)) \<and> td' = set_task g td"
  by (auto simp: guarded_update_def assertNotTerminal_def)

definition index_blind :: "(Task \<Rightarrow> Task) \<Rightarrow> bool" where
  "index_blind g \<longleftrightarrow> (\<forall>t. t_target (g t) = t_target t \<and> t_code (g t) = t_code t \<and>
     omap_get (t_metadata (g t)) ''task_ref'' = omap_get (t_metadata t) ''task_ref'')"

lemma dir_entry_set_task: "index_blind g \<Longrightarrow> dir_entry (indexed (set_task g td)) = dir_entry (indexed td)"
  by (simp add: index_blind_def dir_entry_def indexed_def set_task_def parent_link_def parentTaskIdOf_def)

lemma task_update_guarded:
  "frames g \<Longrightarrow> index_blind g \<Longrightarrow> task_update tell_nothing (guarded_update op g)"
  using tell_nothing_ok
  by unfold_locales (auto simp: guarded_update_Inr dir_ok_set_task dir_entry_set_task dir_extends_def frames_def)

lemma task_update_free:
  "frames g \<Longrightarrow> index_blind g \<Longrightarrow> task_update tell_nothing (\<lambda>_ td. Inr (set_task g td))"
  using tell_nothing_ok
  by unfold_locales (auto simp: dir_ok_set_task dir_entry_set_task dir_extends_def frames_def)

text \<open>A status write: the new status and its changelog entry go in together.\<close>

lemma history_ok_snoc:
  "history_ok cs \<Longrightarrow> change_allowed (sc_status (last cs)) (sc_status c) \<Longrightarrow> history_ok (cs @ [c])"
  by (induction cs rule: history_ok.induct) auto

lemma history_ok_ne: "history_ok cs \<Longrightarrow> cs \<noteq> []"
  by (cases cs) auto

lemma dir_ok_status:
  assumes ok: "dir_ok i td" and step: "change_allowed (t_status (d_task td)) status"
    and t: "t_id t = i" "t_status t = status" "isTerminalStatus status \<Longrightarrow> t_completed_at t \<noteq> None"
      "t_prompt t = t_prompt (d_task td)" "t_tags t = t_tags (d_task td)" and c: "sc_status c = status"
  shows "dir_ok i (td\<lparr>d_task := t, d_changes := d_changes td @ [c]\<rparr>)"
proof -
  have h: "history_ok (d_changes td)" "sc_status (last (d_changes td)) = t_status (d_task td)"
    using ok by (simp_all add: dir_ok_def)
  then have "history_ok (d_changes td @ [c])" using step c by (intro history_ok_snoc) simp_all
  moreover have "hd (d_changes td @ [c]) = hd (d_changes td)" using history_ok_ne [OF h(1)] by simp
  ultimately show ?thesis using ok t c by (simp add: dir_ok_def)
qed

lemma assertValidTransition_change:
  "lift_transition (assertValidTransition a b actor) = Inr u \<Longrightarrow> change_allowed a b"
  by (cases "assertValidTransition a b actor")
     (auto simp: change_allowed_def assertValidTransition_ok_iff)

lemma status_entry [simp]: "sc_status (change_entry secrets s now actor reason) = s"
  by (simp add: change_entry_def)

lemma dir_entry_frame:
  "t_target t = t_target (d_task td) \<Longrightarrow> t_code t = t_code (d_task td) \<Longrightarrow> t_metadata t = t_metadata (d_task td) \<Longrightarrow>
     dir_entry (indexed (td\<lparr>d_task := t, d_changes := cs\<rparr>)) = dir_entry (indexed td)"
  by (simp add: dir_entry_def indexed_def parent_link_def parentTaskIdOf_def)

lemma task_update_status:
  assumes keep: "\<And>td t. fT td = Inr t \<Longrightarrow> t_id t = t_id (d_task td) \<and> change_allowed (t_status (d_task td)) (t_status t) \<and>
      (isTerminalStatus (t_status t) \<longrightarrow> t_completed_at t \<noteq> None) \<and> t_prompt t = t_prompt (d_task td) \<and>
      t_tags t = t_tags (d_task td) \<and> t_target t = t_target (d_task td) \<and> t_code t = t_code (d_task td) \<and>
      t_metadata t = t_metadata (d_task td) \<and> t_created_at t = t_created_at (d_task td)"
    and c: "\<And>td t. fT td = Inr t \<Longrightarrow> sc_status (c td) = t_status t"
    and f: "\<And>i td. f i td = (if skip td then Inr td
      else bind_result (fT td) (\<lambda>t. Inr (td\<lparr>d_task := t, d_changes := d_changes td @ [c td]\<rparr>)))"
  shows "task_update tell_nothing f"
proof
  fix i td td'
  assume ok: "dir_ok i td" and r: "f i td = Inr td'"
  show "dir_ok i td'"
  proof (cases "skip td")
    case False
    then obtain t where t: "fT td = Inr t" "td' = td\<lparr>d_task := t, d_changes := d_changes td @ [c td]\<rparr>"
      using r by (auto simp: f bind_result_Inr_iff)
    have "t_id (d_task td) = i" using ok by (simp add: dir_ok_def)
    then show ?thesis unfolding t(2) using keep [OF t(1)] c [OF t(1)] by (intro dir_ok_status [OF ok]) auto
  qed (use ok r f in simp)
next
  fix i td td'
  assume "f i td = Inr td'"
  then show "dir_extends td td'" using keep by (auto simp: f bind_result_Inr_iff dir_extends_def split: if_splits)
next
  fix ix i td td'
  assume "index_ok ix" "entry_of ix i = dir_entry (indexed td)" "dir_ok i td" and r: "f i td = Inr td'"
  moreover have "dir_entry (indexed td') = dir_entry (indexed td)"
    using r keep by (auto simp: f bind_result_Inr_iff dir_entry_frame split: if_splits)
  ultimately show "index_ok (tell_nothing i td' ix) \<and>
      (\<forall>j. entry_of (tell_nothing i td' ix) j = (if j = i then dir_entry (indexed td') else entry_of ix j))"
    by (intro tell_nothing_ok)
qed

lemmas field_simps_store = frames_def index_blind_def BASE_PIN_KEY_def

interpretation upd_goal: task_update tell_nothing "guarded_update nm (t_goal_update (\<lambda>_. x))" for nm x
  by (rule task_update_guarded) (simp_all add: frames_def index_blind_def)
interpretation upd_sha: task_update tell_nothing "guarded_update nm (t_branched_from_sha_update (\<lambda>_. x))" for nm x
  by (rule task_update_guarded) (simp_all add: frames_def index_blind_def)
interpretation upd_model: task_update tell_nothing "guarded_update nm (t_model_update (\<lambda>_. x))" for nm x
  by (rule task_update_guarded) (simp_all add: frames_def index_blind_def)
interpretation upd_runner: task_update tell_nothing "guarded_update nm (t_runner_type_update (\<lambda>_. x))" for nm x
  by (rule task_update_guarded) (simp_all add: frames_def index_blind_def)
interpretation upd_type: task_update tell_nothing "guarded_update nm (t_type_update (\<lambda>_. x))" for nm x
  by (rule task_update_guarded) (simp_all add: frames_def index_blind_def)
interpretation upd_agent: task_update tell_nothing "guarded_update nm (t_agent_id_update (\<lambda>_. x))" for nm x
  by (rule task_update_guarded) (simp_all add: frames_def index_blind_def)
interpretation upd_sync: task_update tell_nothing "\<lambda>_ td. Inr (set_task (t_pending_sync_update g) td)" for g
  by (rule task_update_free) (simp_all add: frames_def index_blind_def)

interpretation upd_target: task_update "\<lambda>i td ix. indexSetParent ix i (parentTaskIdOf (d_task td))"
  "guarded_update nm (t_target_update (\<lambda>_. x))" for nm x
proof
  fix ix i td td'
  assume ok: "index_ok ix" and e: "entry_of ix i = dir_entry (indexed td)"
    and r: "guarded_update nm (t_target_update (\<lambda>_. x)) i td = Inr td'"
  then show "index_ok (indexSetParent ix i (parentTaskIdOf (d_task td'))) \<and>
      (\<forall>j. entry_of (indexSetParent ix i (parentTaskIdOf (d_task td'))) j =
        (if j = i then dir_entry (indexed td') else entry_of ix j))"
    by (auto simp: guarded_update_Inr index_ok_set entry_of_set dir_entry_def indexed_def parent_link_def
        split: prod.splits)
qed (auto simp: guarded_update_Inr dir_ok_set_task frames_def dir_extends_def)

interpretation upd_meta: task_update "metadata_tell key val"
  "\<lambda>_ td. Inr (set_task (t_metadata_update (\<lambda>m. omap_set m key val)) td)" for key val
proof
  fix ix i td and td' :: TaskDir
  assume ok: "index_ok ix" and e: "entry_of ix i = dir_entry (indexed td)"
    and r: "(Inr (set_task (t_metadata_update (\<lambda>m. omap_set m key val)) td) :: (store_error, TaskDir) result) = Inr td'"
  have "i \<in> set (index_ids ix)" using e by (simp add: index_ids_entry dir_entry_def)
  then show "index_ok (metadata_tell key val i td' ix) \<and>
      (\<forall>j. entry_of (metadata_tell key val i td' ix) j =
        (if j = i then dir_entry (indexed td') else entry_of ix j))"
    using ok e r by (auto simp: metadata_tell_def index_ok_set entry_of_set dir_entry_def indexed_def parent_link_def
        parentTaskIdOf_def split: prod.splits)
qed (auto simp: dir_ok_set_task frames_def dir_extends_def)

interpretation upd_code: task_update "code_tell code" "code_update runs allTasks code" for runs allTasks code
proof
  fix ix i td td'
  assume ok: "index_ok ix" and e: "entry_of ix i = dir_entry (indexed td)"
    and r: "code_update runs allTasks code i td = Inr td'"
  have "i \<in> set (index_ids ix)" using e by (simp add: index_ids_entry dir_entry_def)
  moreover have "td' = td\<lparr>d_task := (if refFollowsCode td
      then (d_task td)\<lparr>t_code := code, t_metadata := omap_set (t_metadata (d_task td)) ''task_ref''
        (deriveTaskRef ((d_task td)\<lparr>t_code := code\<rparr>) allTasks)\<rparr>
      else (d_task td)\<lparr>t_code := code\<rparr>)\<rparr>"
    using r by (auto simp: code_update_def bind_result_Inr_iff Let_def)
  moreover from this have "refFollowsCode td' = refFollowsCode td"
    by (simp add: refFollowsCode_def pinnedBaseOf_def BASE_PIN_KEY_def)
  ultimately show "index_ok (code_tell code i td' ix) \<and>
      (\<forall>j. entry_of (code_tell code i td' ix) j = (if j = i then dir_entry (indexed td') else entry_of ix j))"
    using ok e by (auto simp: code_tell_def Let_def index_ok_set entry_of_set dir_entry_def indexed_def
        parent_link_def parentTaskIdOf_def split: prod.splits)
qed (auto simp: code_update_def bind_result_Inr_iff dir_ok_def dir_extends_def Let_def)

interpretation upd_status: task_update tell_nothing "status_update secrets now status actor reason"
  for secrets now status actor reason
proof (rule task_update_status)
  let ?fT = "\<lambda>td. bind_result (lift_transition (assertValidTransition (t_status (d_task td)) status
      (map_option actor_text (actorRole actor)))) (\<lambda>_.
        let task = (d_task td)\<lparr>t_status := status\<rparr>
        in Inr (if isTerminalStatus status \<and> (t_completed_at task = None \<or> t_completed_at task = Some 0)
                then task\<lparr>t_completed_at := Some now\<rparr> else task))"
  let ?c = "\<lambda>td :: TaskDir. change_entry secrets status now actor reason"
  show "status_update secrets now status actor reason i td =
      (if t_status (d_task td) = status then Inr td
       else bind_result (?fT td) (\<lambda>t. Inr (td\<lparr>d_task := t, d_changes := d_changes td @ [?c td]\<rparr>)))" for i td
    by (cases "lift_transition (assertValidTransition (t_status (d_task td)) status (map_option actor_text (actorRole actor)))")
       (simp_all add: status_update_def readAndAppendStatusChange_def Let_def)
qed (auto simp: bind_result_Inr_iff Let_def dest: assertValidTransition_change)

interpretation upd_abandon: task_update tell_nothing "abandon_update secrets now reason actor"
  for secrets now reason actor
proof (rule task_update_status)
  let ?fT = "\<lambda>td. bind_result (lift_transition (assertValidTransition (t_status (d_task td)) Abandoned None)) (\<lambda>_.
      Inr ((d_task td)\<lparr>t_status := Abandoned, t_close_reason := Some reason, t_completed_at := Some now\<rparr>))"
  let ?c = "\<lambda>td :: TaskDir. change_entry secrets Abandoned now actor None"
  show "abandon_update secrets now reason actor i td =
      (if False then Inr td
       else bind_result (?fT td) (\<lambda>t. Inr (td\<lparr>d_task := t, d_changes := d_changes td @ [?c td]\<rparr>)))" for i td
    by (cases "lift_transition (assertValidTransition (t_status (d_task td)) Abandoned None)")
       (simp_all add: abandon_update_def readAndAppendStatusChange_def)
qed (auto simp: bind_result_Inr_iff dest: assertValidTransition_change)

interpretation upd_reopen: task_update tell_nothing "reopen_update secrets now actor"
  for secrets now actor
proof (rule task_update_status)
  let ?new = "\<lambda>td. if d_session td \<noteq> None then Blocked else Backlog"
  let ?fT = "\<lambda>td. bind_result (lift_transition (assertValidTransition (t_status (d_task td)) (?new td) None)) (\<lambda>_.
      Inr ((d_task td)\<lparr>t_status := ?new td, t_completed_at := None\<rparr>))"
  let ?c = "\<lambda>td. change_entry secrets (?new td) now actor None"
  show "reopen_update secrets now actor i td =
      (if False then Inr td
       else bind_result (?fT td) (\<lambda>t. Inr (td\<lparr>d_task := t, d_changes := d_changes td @ [?c td]\<rparr>)))" for i td
    by (cases "lift_transition (assertValidTransition (t_status (d_task td)) (?new td) None)")
       (simp_all add: reopen_update_def readAndAppendStatusChange_def Let_def)
qed (auto simp: bind_result_Inr_iff dest: assertValidTransition_change split: if_splits)

section \<open>The other writes\<close>

lemma store_ok_write:
  assumes ok: "store_ok st" and td: "omap_get (st_dirs st) i = Some td" and new: "dir_ok i td'"
    and e: "dir_entry (indexed td') = dir_entry (indexed td)"
  shows "store_ok (st\<lparr>st_dirs := omap_set (st_dirs st) i td'\<rparr>)"
proof -
  have "store_ok (st\<lparr>st_dirs := omap_set (st_dirs st) i td', st_index := st_index st\<rparr>)"
    by (rule store_ok_put [OF ok new store_okD(3) [OF ok]])
       (use e td store_okD(4) [OF ok] in \<open>simp add: store_entry_def\<close>)
  then show ?thesis by simp
qed

lemma max_version_ge: "n \<le> foldl (\<lambda>mx v. max mx (pv_version v)) n vs"
proof (induction vs arbitrary: n)
  case (Cons v vs)
  show ?case using Cons [of "max n (pv_version v)"] by simp
qed simp

lemma max_version_above: "v \<in> set vs \<Longrightarrow> pv_version v \<le> foldl (\<lambda>mx v. max mx (pv_version v)) n vs"
proof (induction vs arbitrary: n)
  case (Cons w vs)
  show ?case using Cons max_version_ge [of "max n (pv_version w)" vs] by auto
qed simp

lemma updateTaskPrompt_cases:
  assumes r: "updateTaskPrompt versionId now content sessionId taskId st = Inr st'" and ok: "store_ok st"
  obtains st1 fullId td where "findTaskIdByPrefix st taskId = (st1, Some fullId)" "store_ok st1"
    "st_dirs st1 = st_dirs st" "omap_get (st_dirs st) fullId = Some td"
    "\<not> isTerminalStatus (t_status (d_task td))"
    "st' = st1\<lparr>st_dirs := omap_set (st_dirs st) fullId
       (td\<lparr>d_task := (d_task td)\<lparr>t_prompt := content\<rparr>, d_versions := d_versions td @
         [\<lparr>pv_id = versionId, pv_task_id = fullId,
           pv_version = foldl (\<lambda>mx v. max mx (pv_version v)) 0 (d_versions td) + 1,
           pv_content = content, pv_created_at = now, pv_session_id = sessionId\<rparr>]\<rparr>)\<rparr>"
proof -
  obtain st1 q where find: "findTaskIdByPrefix st taskId = (st1, q)" by fastforce
  note keep = findTaskIdByPrefix_keeps [OF find ok]
  obtain fullId td where *: "q = Some fullId" "omap_get (st_dirs st) fullId = Some td"
    using r find keep by (auto simp: updateTaskPrompt_def split: option.splits)
  then show ?thesis
    using that r find keep
    by (auto simp: updateTaskPrompt_def bind_result_Inr_iff assertNotTerminal_def Let_def split: if_splits)
qed

lemma updateTaskPrompt_keeps:
  assumes "updateTaskPrompt versionId now content sessionId taskId st = Inr st'" and ok: "store_ok st"
  shows "store_ok st'"
  using assms
proof (cases rule: updateTaskPrompt_cases)
  case (1 st1 fullId td)
  let ?v = "foldl (\<lambda>mx v. max mx (pv_version v)) 0 (d_versions td) + 1"
  have "\<forall>v \<in> set (d_versions td). pv_version v < ?v"
    using max_version_above [of _ "d_versions td" 0] by fastforce
  then show ?thesis
    using store_ok_write [OF 1(2), of fullId td] store_okD(2) [OF ok 1(4)] 1
    by (auto simp: dir_ok_def sorted_wrt_append dir_entry_def indexed_def parent_link_def parentTaskIdOf_def)
qed

lemma replay_tags_snoc:
  "replay_tags (es @ [e]) = (if te_action e = Tag then replay_tags es @ [te_tag e]
     else filter (\<lambda>t. t \<noteq> te_tag e) (replay_tags es))"
  by (simp add: replay_tags_def)

lemma update_tags_keeps:
  assumes r: "update_tags skip change action now tag actor taskId st = Inr st'" and ok: "store_ok st"
    and ch: "\<And>tags t. \<not> skip tags t \<Longrightarrow> distinct tags \<Longrightarrow>
      distinct (if action = Tag then tags @ [t] else filter (\<lambda>u. u \<noteq> t) tags) \<and>
      change tags t = (if action = Tag then tags @ [t] else filter (\<lambda>u. u \<noteq> t) tags)"
  shows "store_ok st'"
proof -
  obtain normalized where n: "normalizeTagOrThrow tag = Inr normalized"
    using r by (auto simp: update_tags_def split: sum.splits)
  obtain st1 q where find: "findTaskIdByPrefix st taskId = (st1, q)" by fastforce
  note keep = findTaskIdByPrefix_keeps [OF find ok]
  obtain fullId td where q: "q = Some fullId" "omap_get (st_dirs st) fullId = Some td"
    using r n find keep by (auto simp: update_tags_def split: option.splits)
  show ?thesis
  proof (cases "skip (t_tags (d_task td)) normalized")
    case True
    then show ?thesis using r n find keep q by (simp add: update_tags_def)
  next
    case False
    let ?td = "td\<lparr>d_task := (d_task td)\<lparr>t_tags := change (t_tags (d_task td)) normalized\<rparr>,
      d_tag_events := d_tag_events td @ [tag_entry normalized action now actor]\<rparr>"
    have "dir_ok fullId ?td"
      using store_okD(2) [OF ok q(2)] ch [OF False]
      by (cases action) (simp_all add: dir_ok_def replay_tags_snoc tag_entry_def)
    then show ?thesis
      using store_ok_write [OF keep(1), of fullId td ?td] False r n find keep q
      by (simp add: update_tags_def dir_entry_def indexed_def parent_link_def parentTaskIdOf_def)
  qed
qed

lemma addTaskTag_keeps: "addTaskTag now tag actor taskId st = Inr st' \<Longrightarrow> store_ok st \<Longrightarrow> store_ok st'"
  unfolding addTaskTag_def by (erule update_tags_keeps) auto

lemma removeTaskTag_keeps: "removeTaskTag now tag actor taskId st = Inr st' \<Longrightarrow> store_ok st \<Longrightarrow> store_ok st'"
  unfolding removeTaskTag_def by (erule update_tags_keeps) auto

lemma set_unique: "set (unique xs) = set xs" and distinct_unique: "distinct (unique xs)"
  by (simp_all add: unique_def)

lemma replay_all_tags:
  "distinct (acc @ tags) \<Longrightarrow>
     foldl (\<lambda>tags e. if te_action e = Tag then tags @ [te_tag e] else filter (\<lambda>t. t \<noteq> te_tag e) tags) acc
       (map (\<lambda>t. tag_entry t Tag now actor) tags) = acc @ tags"
  by (induction tags arbitrary: acc) (simp_all add: tag_entry_def)

lemma createTask_keeps:
  assumes r: "createTask newId versionId now goal parentTaskId branchedFromSha code type agentId actor init st = Inr st'"
    and ok: "store_ok st" and fresh: "omap_get (st_dirs st) newId = None" "isTaskDirName newId"
  shows "store_ok st'"
proof -
  obtain tags where tags: "normalize_all (init_tags init) = Inr tags" "refuse_code st code = Inr ()"
    using r by (auto simp: createTask_def bind_result_Inr_iff Let_def split: if_splits)
  let ?task = "new_task st newId now goal parentTaskId branchedFromSha code type agentId init (unique tags)"
  let ?td = "\<lparr>d_task = ?task,
     d_changes = [\<lparr>sc_status = Backlog, sc_timestamp = now, sc_actor = actorFields actor, sc_reason = None\<rparr>],
     d_versions = (case nonempty (init_prompt init) of None \<Rightarrow> []
       | Some p \<Rightarrow> [\<lparr>pv_id = versionId, pv_task_id = newId, pv_version = 1, pv_content = p,
                    pv_created_at = now, pv_session_id = None\<rparr>]),
     d_tag_events = map (\<lambda>t. tag_entry t Tag now actor) (unique tags), d_session = None\<rparr>"
  let ?ix2 = "indexSetCode (indexSetParent (st_index st) newId (parentTaskIdOf ?task)) newId (t_code ?task)"
  let ?ix = "indexSetRef ?ix2 newId (omap_get (t_metadata ?task) ''task_ref'')"
  have t: "t_id ?task = newId" "t_status ?task = Backlog" "t_tags ?task = unique tags"
    "t_prompt ?task = (case init_prompt init of Some p \<Rightarrow> p | None \<Rightarrow> [])"
    by (simp_all add: new_task_def Let_def)
  have "replay_tags (map (\<lambda>t. tag_entry t Tag now actor) (unique tags)) = unique tags"
    using replay_all_tags [of "[]" "unique tags"] by (simp add: replay_tags_def distinct_unique)
  then have dok: "dir_ok newId ?td"
    using t fresh(2) by (auto simp: dir_ok_def distinct_unique nonempty_def split: option.split)
  have e: "entry_of (st_index st) newId = no_entry" using store_okD(4) [OF ok] fresh(1) by (simp add: store_entry_def)
  have ixok: "index_ok ?ix" by (intro index_ok_set) (simp_all add: store_okD(3) [OF ok])
  have "st' = st\<lparr>st_dirs := omap_set (st_dirs st) newId ?td, st_index := ?ix\<rparr>"
    using r tags by (auto simp: createTask_def Let_def split: if_splits)
  moreover have "entry_of ?ix j = (if j = newId then dir_entry (indexed ?td) else entry_of (st_index st) j)" for j
    using e by (auto simp: entry_of_set no_entry_def dir_entry_def indexed_def parent_link_def split: prod.splits)
  ultimately show ?thesis using store_ok_put [OF ok dok ixok] by simp
qed

lemma createSession_keeps:
  assumes r: "createSession sessionId now agentId gitBranch gitStartSha claude taskId st = Inr st'"
    and ok: "store_ok st" and sid: "sessionId \<noteq> []" and known: "getTask st taskId \<noteq> None"
  shows "store_ok st'"
proof -
  obtain st1 q where find: "findTaskIdByPrefix st taskId = (st1, q)" by fastforce
  note keep = findTaskIdByPrefix_keeps [OF find ok]
  obtain fullId td where q: "q = Some fullId" "omap_get (st_dirs st) fullId = Some td"
    using known find keep by (auto simp: getTask_def readTask_def split: option.splits)
  let ?s = "\<lparr>s_id = sessionId, s_task_id = fullId, s_agent_id = agentId, s_started_at = now,
    s_ended_at = None, s_outcome = None, s_git_branch = gitBranch, s_git_start_sha = gitStartSha,
    s_agent_session_id = claude\<rparr>"
  let ?td = "td\<lparr>d_session := Some ?s\<rparr>"
  have dok: "dir_ok fullId ?td" using store_okD(2) [OF ok q(2)] sid by (simp add: dir_ok_def)
  have e: "entry_of (st_index st1) fullId = dir_entry (indexed td)"
    using store_okD(4) [OF keep(1)] q keep by (simp add: store_entry_def)
  then have mem: "fullId \<in> set (index_ids (st_index st1))" by (simp add: index_ids_entry dir_entry_def)
  have "st' = st1\<lparr>st_dirs := omap_set (st_dirs st1) fullId ?td,
      st_index := indexSetSession (st_index st1) fullId sessionId\<rparr>"
    using r find q keep by (simp add: createSession_def)
  moreover have "entry_of (indexSetSession (st_index st1) fullId sessionId) j =
      (if j = fullId then dir_entry (indexed ?td) else entry_of (st_index st1) j)" for j
    using e by (auto simp: entry_of_set dir_entry_def indexed_def split: prod.splits)
  ultimately show ?thesis
    using store_ok_put [OF keep(1) dok index_ok_set(4) [OF store_okD(3) [OF keep(1)] mem sid]] by simp
qed

lemma endSession_keeps: "store_ok st \<Longrightarrow> store_ok (endSession sessionId now outcome st)"
  unfolding endSession_def
  by (auto split: option.split intro!: store_ok_write dest: store_okD(2)
      simp: dir_ok_def dir_entry_def indexed_def)

lemma heal_keeps:
  assumes ok: "store_ok st"
  shows "store_ok (fst (heal_task secrets now task session st))"
proof -
  have "store_ok (st\<lparr>st_dirs := omap_set (st_dirs st) (t_id task)
      (td\<lparr>d_task := t, d_changes := readAndAppendStatusChange secrets td s now None None\<rparr>)\<rparr>)"
    if "omap_get (st_dirs st) (t_id task) = Some td" "\<not> isTerminalStatus (t_status (d_task td))"
      "t_status (d_task td) \<noteq> Working" "isTerminalStatus s"
      "t = (d_task td)\<lparr>t_status := s, t_completed_at := Some c\<rparr>" for td t s c
  proof (rule store_ok_write [OF ok that(1)])
    have dok: "dir_ok (t_id task) td" using store_okD(2) [OF ok that(1)] .
    moreover have "t_id (d_task td) = t_id task" using dok by (simp add: dir_ok_def)
    ultimately show "dir_ok (t_id task)
        (td\<lparr>d_task := t, d_changes := readAndAppendStatusChange secrets td s now None None\<rparr>)"
      unfolding readAndAppendStatusChange_def using that(2-5)
      by (intro dir_ok_status [OF dok]) (auto simp: change_allowed_def)
  qed (simp add: dir_entry_frame that(5))
  then show ?thesis
    using ok unfolding heal_task_def
    by (auto simp: Let_def split: option.split)
qed

section \<open>Reachable stores\<close>

definition empty_store :: Store where
  "empty_store = \<lparr>st_dirs = [], st_index = empty_index, st_runs = []\<rparr>"

text \<open>One step of the store: an operation that returns. A new task's id is fresh and no staging name, as
  \<open>randomUUID\<close> guarantees; a session is opened for a task that exists; commits may start and stop
  running.\<close>

inductive store_step :: "Store \<Rightarrow> Store \<Rightarrow> bool" where
  create: "createTask newId versionId now goal parent sha code type agentId actor init st = Inr st' \<Longrightarrow>
     omap_get (st_dirs st) newId = None \<Longrightarrow> isTaskDirName newId \<Longrightarrow> store_step st st'"
| status: "updateTaskStatus secrets now s actor reason i st = Inr st' \<Longrightarrow> store_step st st'"
| abandon: "abandonTask secrets now why actor i st = Inr st' \<Longrightarrow> store_step st st'"
| reopen: "reopenTask secrets now actor i st = Inr st' \<Longrightarrow> store_step st st'"
| goal: "updateTaskGoal g i st = Inr st' \<Longrightarrow> store_step st st'"
| code: "updateTaskCode c i st = Inr st' \<Longrightarrow> store_step st st'"
| target: "updateTaskTarget t i st = Inr st' \<Longrightarrow> store_step st st'"
| sha: "updateTaskBranchedFromSha x i st = Inr st' \<Longrightarrow> store_step st st'"
| model: "updateTaskModel x i st = Inr st' \<Longrightarrow> store_step st st'"
| runner: "updateTaskRunnerType r i st = Inr st' \<Longrightarrow> store_step st st'"
| type: "updateTaskType x i st = Inr st' \<Longrightarrow> store_step st st'"
| agent: "updateTaskAgent x i st = Inr st' \<Longrightarrow> store_step st st'"
| sync_reset: "resetTaskPendingSync i st = Inr st' \<Longrightarrow> store_step st st'"
| sync_incr: "incrementTaskPendingSync i st = Inr st' \<Longrightarrow> store_step st st'"
| metadata: "updateTaskMetadata k v i st = Inr st' \<Longrightarrow> store_step st st'"
| prompt: "updateTaskPrompt vid now x sid i st = Inr st' \<Longrightarrow> store_step st st'"
| tag: "addTaskTag now x actor i st = Inr st' \<Longrightarrow> store_step st st'"
| untag: "removeTaskTag now x actor i st = Inr st' \<Longrightarrow> store_step st st'"
| session: "createSession sid now a b g c i st = Inr st' \<Longrightarrow> sid \<noteq> [] \<Longrightarrow> getTask st i \<noteq> None \<Longrightarrow> store_step st st'"
| end_session: "store_step st (endSession sid now outcome st)"
| heal: "store_step st (fst (heal_task secrets now t sess st))"
| lookup: "store_step st (fst (findTaskIdWithDetails st x))"
| runs: "store_step st (st\<lparr>st_runs := rs\<rparr>)"

lemma store_ok_runs: "store_ok st \<Longrightarrow> store_ok (st\<lparr>st_runs := rs\<rparr>)"
  by (simp add: store_ok_def dir_view_def)

lemmas update_defs = updateTaskStatus_def abandonTask_def reopenTask_def updateTaskGoal_def updateTaskCode_def
  updateTaskTarget_def updateTaskBranchedFromSha_def updateTaskModel_def updateTaskRunnerType_def
  updateTaskType_def updateTaskAgent_def resetTaskPendingSync_def incrementTaskPendingSync_def
  updateTaskMetadata_def

lemmas update_keeps = upd_status.keeps_store_ok upd_abandon.keeps_store_ok upd_reopen.keeps_store_ok
  upd_goal.keeps_store_ok upd_code.keeps_store_ok upd_target.keeps_store_ok upd_sha.keeps_store_ok
  upd_model.keeps_store_ok upd_runner.keeps_store_ok upd_type.keeps_store_ok upd_agent.keeps_store_ok
  upd_sync.keeps_store_ok upd_meta.keeps_store_ok

lemmas update_frame = upd_status.frame upd_abandon.frame upd_reopen.frame
  upd_goal.frame upd_code.frame upd_target.frame upd_sha.frame upd_model.frame upd_runner.frame
  upd_type.frame upd_agent.frame upd_sync.frame upd_meta.frame

lemma store_step_keeps:
  assumes "store_step st st'" and ok: "store_ok st"
  shows "store_ok st'"
  using assms(1)
proof cases
  case (create newId versionId now goal parent sha code type agentId actor init)
  then show ?thesis using createTask_keeps ok by blast
next
  case (session sid now a b g c i)
  then show ?thesis using createSession_keeps ok by blast
next
  case (prompt vid now x sid i)
  then show ?thesis using updateTaskPrompt_keeps ok by blast
next
  case (lookup x)
  then show ?thesis using find_keeps(1) [OF _ ok] by (cases "findTaskIdWithDetails st x") auto
qed (use ok in \<open>auto simp: update_defs intro: update_keeps addTaskTag_keeps removeTaskTag_keeps
       endSession_keeps heal_keeps store_ok_runs\<close>)

lemma store_ok_empty: "store_ok empty_store"
  by (simp add: store_ok_def empty_store_def index_mirrors_def index_ok_empty dir_view_def real_dirs_def
      wanted_entry_def index_okD(8))

lemma reachable_ok: "store_step\<^sup>*\<^sup>* empty_store st \<Longrightarrow> store_ok st"
  by (induction rule: rtranclp_induct) (auto intro: store_ok_empty store_step_keeps)

text \<open>C2: in every store the operations can reach, whatever their order and arguments, each task's
  changelog starts in \<open>backlog\<close>, moves only as the state machine or the self-healing pass allow and
  ends in the task's status; a finished task has its completion time; prompt versions increase and the
  last one is the prompt; the tags are what replaying the tag history gives, each once; and the index
  holds exactly what the directories do.\<close>

theorem reachable_store_ok: "store_step\<^sup>*\<^sup>* empty_store st \<Longrightarrow> store_ok st"
  by (rule reachable_ok)

text \<open>What no step ever does: lose a task, or rewrite an entry of one of its three histories.\<close>

definition store_extends :: "Store \<Rightarrow> Store \<Rightarrow> bool" where
  "store_extends st st' \<longleftrightarrow> (\<forall>i td. omap_get (st_dirs st) i = Some td \<longrightarrow>
     (\<exists>td'. omap_get (st_dirs st') i = Some td' \<and> dir_extends td td'))"

lemma store_extends_put:
  "st_dirs st1 = st_dirs st \<Longrightarrow> omap_get (st_dirs st) i = Some td \<Longrightarrow> dir_extends td td' \<Longrightarrow>
     st_dirs st' = omap_set (st_dirs st1) i td' \<Longrightarrow> store_extends st st'"
  by (auto simp: store_extends_def)

lemma store_extends_same: "st_dirs st' = st_dirs st \<Longrightarrow> store_extends st st'"
  by (simp add: store_extends_def)

lemma update_tags_extends:
  assumes r: "update_tags skip change action now tag actor taskId st = Inr st'" and ok: "store_ok st"
  shows "store_extends st st'"
proof -
  obtain normalized where n: "normalizeTagOrThrow tag = Inr normalized"
    using r by (auto simp: update_tags_def split: sum.splits)
  obtain st1 q where find: "findTaskIdByPrefix st taskId = (st1, q)" by fastforce
  note keep = findTaskIdByPrefix_keeps [OF find ok]
  obtain fullId td where q: "q = Some fullId" "omap_get (st_dirs st) fullId = Some td"
    using r n find keep by (auto simp: update_tags_def split: option.splits)
  show ?thesis
    using r n find keep q
    by (auto simp: update_tags_def store_extends_def dir_extends_def split: if_splits)
qed

lemma store_step_extends:
  assumes "store_step st st'" and ok: "store_ok st"
  shows "store_extends st st'"
  using assms(1)
proof cases
  case (create newId versionId now goal parent sha code type agentId actor init)
  then show ?thesis
    by (auto simp: store_extends_def createTask_def bind_result_Inr_iff Let_def split: if_splits)
next
  case (prompt vid now x sid i)
  from prompt(1) ok show ?thesis
    by (cases rule: updateTaskPrompt_cases) (auto simp: dir_extends_def intro!: store_extends_put)
next
  case (session sid now a b g c i)
  obtain st1 q where find: "findTaskIdByPrefix st i = (st1, q)" by fastforce
  note keep = findTaskIdByPrefix_keeps [OF find ok]
  show ?thesis
    using session find keep
    by (auto simp: createSession_def store_extends_def dir_extends_def split: option.splits)
next
  case (lookup x)
  then show ?thesis
    using find_keeps(2) [OF _ ok] by (cases "findTaskIdWithDetails st x") (auto intro: store_extends_same)
next
  case (end_session sid now outcome)
  then show ?thesis
    by (auto simp: endSession_def store_extends_def dir_extends_def split: option.splits)
next
  case (heal secrets now t sess)
  then show ?thesis
    by (auto simp: heal_task_def store_extends_def dir_extends_def readAndAppendStatusChange_def Let_def
        split: option.splits if_splits)
next
  case (tag now x actor i)
  then show ?thesis using update_tags_extends ok by (simp add: addTaskTag_def)
next
  case (untag now x actor i)
  then show ?thesis using update_tags_extends ok by (simp add: removeTaskTag_def)
qed (use ok update_frame in \<open>auto simp: update_defs store_extends_def\<close>)

lemma store_extends_trans: "store_extends a b \<Longrightarrow> store_extends b c \<Longrightarrow> store_extends a c"
  unfolding store_extends_def by (meson dir_extends_trans)


section \<open>Finished tasks are frozen\<close>

lemma getTask_found:
  assumes "getTask st taskId = Some task" and ok: "store_ok st"
  obtains st1 fullId td where "findTaskIdByPrefix st taskId = (st1, Some fullId)"
    "omap_get (st_dirs st1) fullId = Some td" "d_task td = task"
proof -
  obtain st1 q where find: "findTaskIdByPrefix st taskId = (st1, q)" by fastforce
  then show ?thesis
    using assms(1) that by (auto simp: getTask_def readTask_def split: option.splits)
qed

lemma guarded_frozen:
  assumes "getTask st taskId = Some task" and "store_ok st" and "isTerminalStatus (t_status task)"
  shows "update_task tell (guarded_update nm g) taskId st =
     Inl (AlreadyTerminal (take 8 (t_id task)) (t_status task) nm)"
proof -
  obtain st1 fullId td where "findTaskIdByPrefix st taskId = (st1, Some fullId)"
    "omap_get (st_dirs st1) fullId = Some td" "d_task td = task"
    using getTask_found [OF assms(1,2)] .
  with assms(3) show ?thesis by (simp add: update_task_def guarded_update_def assertNotTerminal_def)
qed

text \<open>C33: on a finished task every core-field update and every prompt update is refused, naming the task,
  its status and the operation, and abandoning a completed task is refused too.\<close>

theorem terminal_frozen:
  "store_ok st \<Longrightarrow> getTask st i = Some task \<Longrightarrow> isTerminalStatus (t_status task) \<Longrightarrow>
   (let refused = (\<lambda>nm. Inl (AlreadyTerminal (take 8 (t_id task)) (t_status task) nm))
    in updateTaskGoal g i st = refused ''update goal'' \<and>
       updateTaskTarget tgt i st = refused ''update target'' \<and>
       updateTaskBranchedFromSha sha i st = refused ''update branched_from_sha'' \<and>
       updateTaskModel m i st = refused ''update model'' \<and>
       updateTaskRunnerType r i st = refused ''update runner type'' \<and>
       updateTaskType ty i st = refused ''update type'' \<and>
       updateTaskAgent a i st = refused ''update agent'' \<and>
       updateTaskPrompt vid now c sid i st = refused ''update prompt'' \<and>
       (t_status task \<noteq> Abandoned \<longrightarrow> abandonTask secrets now why actor i st =
          Inl (Transition (InvalidTransition Complete Abandoned [Blocked, Backlog]))))"
proof -
  assume ok: "store_ok st" and t: "getTask st i = Some task" and fin: "isTerminalStatus (t_status task)"
  obtain st1 fullId td where f: "findTaskIdByPrefix st i = (st1, Some fullId)"
    "omap_get (st_dirs st1) fullId = Some td" "d_task td = task"
    using getTask_found [OF t ok] .
  have "updateTaskPrompt vid now c sid i st = Inl (AlreadyTerminal (take 8 (t_id task)) (t_status task) ''update prompt'')"
    using f fin by (simp add: updateTaskPrompt_def assertNotTerminal_def)
  moreover have "t_status task \<noteq> Abandoned \<Longrightarrow> abandonTask secrets now why actor i st =
      Inl (Transition (InvalidTransition Complete Abandoned [Blocked, Backlog]))"
    using f fin by (auto simp: abandonTask_def update_task_def abandon_update_def isTerminalStatus_iff
        assertValidTransition_def canTransition_iff transitionsFrom_def)
  ultimately show ?thesis
    by (simp add: Let_def update_defs(4,6-11) guarded_frozen [OF t ok fin])
qed

section \<open>Metadata as a store of values\<close>

text \<open>What the daemon's counters rely on: writing a key of a task is read back, and disturbs no other key
  and no other task. A task is named by its full id.\<close>

locale metadata_store =
  fixes known :: "'s \<Rightarrow> 'i \<Rightarrow> bool"
    and get :: "'s \<Rightarrow> 'i \<Rightarrow> 'k \<Rightarrow> 'v option"
    and put :: "'k \<Rightarrow> 'v \<Rightarrow> 'i \<Rightarrow> 's \<Rightarrow> 'e + 's"
  assumes put_returns: "known s i \<Longrightarrow> \<exists>s'. put k v i s = Inr s'"
    and known_put: "known s i \<Longrightarrow> put k v i s = Inr s' \<Longrightarrow> known s' j = known s j"
    and get_put: "known s i \<Longrightarrow> known s j \<Longrightarrow> put k v i s = Inr s' \<Longrightarrow>
      get s' j k' = (if j = i \<and> k' = k then Some v else get s j k')"
begin

lemma get_put_same: "known s i \<Longrightarrow> put k v i s = Inr s' \<Longrightarrow> get s' i k = Some v"
  by (simp add: get_put)

lemma put_put:
  "known s i \<Longrightarrow> put k v i s = Inr s1 \<Longrightarrow> put k w i s1 = Inr s2 \<Longrightarrow> known s j \<Longrightarrow>
     get s2 j k' = (if j = i \<and> k' = k then Some w else get s j k')"
proof -
  assume i: "known s i" and p: "put k v i s = Inr s1" "put k w i s1 = Inr s2" and j: "known s j"
  then have "known s1 i" "known s1 j" using known_put [OF i p(1)] by simp_all
  from get_put [OF this p(2)] get_put [OF i j p(1)] show ?thesis by simp
qed

end

definition known_task :: "Store \<Rightarrow> string \<Rightarrow> bool" where
  "known_task st i \<longleftrightarrow> is_uuid i \<and> omap_get (st_dirs st) i \<noteq> None"

lemma find_uuid: "is_uuid i \<Longrightarrow> findTaskIdByPrefix st i = (st, Some i)"
  by (simp add: findTaskIdByPrefix_def findTaskIdWithDetails_def found_def)

interpretation meta: metadata_store known_task getTaskMetadata updateTaskMetadata
proof
  fix st i k v
  assume "known_task st i"
  then show "\<exists>st'. updateTaskMetadata k v i st = Inr st'"
    by (auto simp: updateTaskMetadata_def update_task_def known_task_def find_uuid split: if_splits)
next
  fix st st' i j k v
  assume "known_task st i" "updateTaskMetadata k v i st = Inr st'"
  then show "known_task st' j = known_task st j"
    by (auto simp: updateTaskMetadata_def update_task_def known_task_def find_uuid split: if_splits)
next
  fix st st' i j k k' v
  assume "known_task st i" "known_task st j" "updateTaskMetadata k v i st = Inr st'"
  then show "getTaskMetadata st' j k' = (if j = i \<and> k' = k then Some v else getTaskMetadata st j k')"
    by (auto simp: updateTaskMetadata_def update_task_def known_task_def find_uuid getTaskMetadata_def readTask_def)
qed

section \<open>A concrete store\<close>

definition no_initial :: NewTaskInitialState where
  "no_initial = \<lparr>init_targetBranch = None, init_prompt = Some ''do it'', init_model = None,
     init_metadata = [], init_tags = [''Alpha'']\<rparr>"

definition sample_id :: string where
  "sample_id = ''00000000-0000-4000-8000-000000000001''"

definition sample_store :: Store where
  "sample_store = (case createTask sample_id ''v1'' 5 ''goal'' None None (Some ''fix-it'') None None
      (Some (Role Human)) no_initial empty_store of Inr st \<Rightarrow> st | Inl _ \<Rightarrow> empty_store)"

definition done_store :: Store where
  "done_store = (case abandonTask [] 9 ''not needed'' None ''fix-it'' sample_store of Inr st \<Rightarrow> st | Inl _ \<Rightarrow> empty_store)"

text \<open>The stores written out, so that evaluations start from them.\<close>

lemma sample_store_code [code]:
  "sample_store =
   \<lparr>st_dirs =
       [(sample_id,
         \<lparr>d_task =
            \<lparr>t_id = sample_id, t_code = Some ''fix-it'', t_goal = ''goal'',
               t_prompt = ''do it'', t_type = ''task'', t_status = Backlog, t_created_at = 5, t_completed_at = None,
               t_target = ToBranch [], t_branched_from_sha = None, t_close_reason = None, t_model = None,
               t_agent_id = ''claude-code'', t_runner_type = None, t_metadata = [(''task_ref'', ''fix-it'')],
               t_tags = [''alpha''], t_pending_sync = 0\<rparr>,
            d_changes =
              [\<lparr>sc_status = Backlog, sc_timestamp = 5, sc_actor = (Some Human, None, None), sc_reason = None\<rparr>],
            d_versions =
              [\<lparr>pv_id = ''v1'', pv_task_id = sample_id, pv_version = 1,
                  pv_content = ''do it'', pv_created_at = 5, pv_session_id = None\<rparr>],
            d_tag_events =
              [\<lparr>te_tag = ''alpha'', te_action = Tag, te_timestamp = 5, te_actor = (Some Human, None, None)\<rparr>],
            d_session = None\<rparr>)],
       st_index =
         \<lparr>ix_parents = ([(sample_id, None)], []),
            ix_codes =
              ([(sample_id, Some ''fix-it'')],
               [(''fix-it'', [sample_id])]),
            ix_refs =
              ([(sample_id, Some ''fix-it'')],
               [(''fix-it'', [sample_id])]),
            ix_sessionToTask = [], ix_taskToSession = []\<rparr>,
       st_runs = []\<rparr>"
  by code_simp

lemma done_store_code [code]:
  "done_store =
   \<lparr>st_dirs =
       [(sample_id,
         \<lparr>d_task =
            \<lparr>t_id = sample_id, t_code = Some ''fix-it'', t_goal = ''goal'',
               t_prompt = ''do it'', t_type = ''task'', t_status = Abandoned, t_created_at = 5,
               t_completed_at = Some 9, t_target = ToBranch [], t_branched_from_sha = None,
               t_close_reason = Some ''not needed'', t_model = None, t_agent_id = ''claude-code'',
               t_runner_type = None, t_metadata = [(''task_ref'', ''fix-it'')], t_tags = [''alpha''],
               t_pending_sync = 0\<rparr>,
            d_changes =
              [\<lparr>sc_status = Backlog, sc_timestamp = 5, sc_actor = (Some Human, None, None), sc_reason = None\<rparr>,
               \<lparr>sc_status = Abandoned, sc_timestamp = 9, sc_actor = (None, None, None), sc_reason = None\<rparr>],
            d_versions =
              [\<lparr>pv_id = ''v1'', pv_task_id = sample_id, pv_version = 1,
                  pv_content = ''do it'', pv_created_at = 5, pv_session_id = None\<rparr>],
            d_tag_events =
              [\<lparr>te_tag = ''alpha'', te_action = Tag, te_timestamp = 5, te_actor = (Some Human, None, None)\<rparr>],
            d_session = None\<rparr>)],
       st_index =
         \<lparr>ix_parents = ([(sample_id, None)], []),
            ix_codes =
              ([(sample_id, Some ''fix-it'')],
               [(''fix-it'', [sample_id])]),
            ix_refs =
              ([(sample_id, Some ''fix-it'')],
               [(''fix-it'', [sample_id])]),
            ix_sessionToTask = [], ix_taskToSession = []\<rparr>,
       st_runs = []\<rparr>"
  by code_simp

lemma sample_created:
  "createTask sample_id ''v1'' 5 ''goal'' None None (Some ''fix-it'') None None
     (Some (Role Human)) no_initial empty_store = Inr sample_store"
  by code_simp

lemma done_abandoned: "abandonTask [] 9 ''not needed'' None ''fix-it'' sample_store = Inr done_store"
  by code_simp

lemma sample_step: "store_step empty_store sample_store"
  by (rule store_step.create [OF sample_created]) (simp add: empty_store_def, code_simp)

lemma done_step: "store_step sample_store done_store"
  by (rule store_step.abandon [OF done_abandoned])

lemma done_reachable: "store_step\<^sup>*\<^sup>* empty_store done_store"
  using sample_step done_step by (meson rtranclp.rtrancl_into_rtrancl rtranclp.rtrancl_refl)

lemma reachable_store_ok_witness: "store_ok done_store"
  by (rule reachable_store_ok [OF done_reachable])


lemma terminal_frozen_witness:
  "\<exists>task. getTask done_store ''fix-it'' = Some task \<and>
     updateTaskGoal ''other'' ''fix-it'' done_store = Inl (AlreadyTerminal ''00000000'' Abandoned ''update goal'')"
proof -
  have "(case getTask done_store ''fix-it'' of None \<Rightarrow> False
      | Some task \<Rightarrow> isTerminalStatus (t_status task) \<and> take 8 (t_id task) = ''00000000'' \<and> t_status task = Abandoned)"
    by code_simp
  then obtain task where t: "getTask done_store ''fix-it'' = Some task" "isTerminalStatus (t_status task)"
    "take 8 (t_id task) = ''00000000''" "t_status task = Abandoned"
    by (auto split: option.splits)
  show ?thesis
    using terminal_frozen [OF reachable_ok [OF done_reachable] t(1,2)] t by (auto simp: Let_def)
qed

lemma findTaskId_by_code_witness:
  "code_resolution (tasks_with_code done_store ''fix-it'') (snd (findTaskIdWithDetails done_store ''fix-it''))"
proof (rule findTaskId_by_code)
  show "store_ok done_store" by (rule reachable_ok [OF done_reachable])
  show "\<not> is_uuid ''fix-it''" by code_simp
  show "\<forall>i \<in> set (omap_keys (st_dirs done_store)). \<not> starts_with i ''fix-it''" by code_simp
qed

end
