(* ===== verification/AutoReact.thy ===== *)
theory AutoReact
  imports TaskStore
begin

text \<open>
  The automatic-turn budget, \<open>src/src/daemon/auto-react-budget.ts\<close>: per-task counters kept as task
  metadata, the daily budget and the global pause kept as files, the six gates of
  \<open>shouldAutoReact\<close> in their order, and the bookkeeping of a turn that was started.

  The state is the task store with the two files (\<open>None\<close> for a missing or unreadable file). The
  clock \<open>now\<close> and the local calendar day \<open>today\<close> are arguments. The client's view of the store is
  the interface \<open>metadata_store\<close>; \<open>put_meta\<close> writes one key of a task.
\<close>

section \<open>State\<close>

datatype AutoReactTrigger = CiFailure | UpstreamSync | CommentTrigger | ChildCompleted | ChildAdded | Crash | AutoReview

definition AUTO_REACT_TRIGGERS :: "AutoReactTrigger list" where
  "AUTO_REACT_TRIGGERS = [CiFailure, UpstreamSync, CommentTrigger, ChildCompleted, ChildAdded, Crash, AutoReview]"

fun trigger_text :: "AutoReactTrigger \<Rightarrow> string" where
  "trigger_text CiFailure = ''ci_failure''"
| "trigger_text UpstreamSync = ''upstream_sync''"
| "trigger_text CommentTrigger = ''comment''"
| "trigger_text ChildCompleted = ''child_completed''"
| "trigger_text ChildAdded = ''child_added''"
| "trigger_text Crash = ''crash''"
| "trigger_text AutoReview = ''auto_review''"

definition COUNTER_PREFIX :: string where "COUNTER_PREFIX = ''auto_react_count_''"
definition TIMESTAMP_PREFIX :: string where "TIMESTAMP_PREFIX = ''auto_react_last_''"
definition PAUSED_KEY :: string where "PAUSED_KEY = ''auto_react_paused''"
definition PAUSED_REASON_KEY :: string where "PAUSED_REASON_KEY = ''auto_react_paused_reason''"
definition FINAL_REVIEW_ROUND_KEY :: string where "FINAL_REVIEW_ROUND_KEY = ''final_review_round''"
definition FINAL_REVIEW_CAP :: int where "FINAL_REVIEW_CAP = 2"
definition CONSECUTIVE_AUTO_TURNS_KEY :: string where "CONSECUTIVE_AUTO_TURNS_KEY = ''consecutive_auto_turns''"

record AutoReactLogEntry =
  le_ts :: int
  le_taskId :: string
  le_taskCode :: "string option"
  le_trigger :: AutoReactTrigger

record DailyBudgetState =
  db_date :: string
  db_used :: int
  db_capOverride :: "int option"
  db_log :: "AutoReactLogEntry list"

record GlobalPauseState =
  gp_paused :: bool
  gp_paused_at :: "int option"
  gp_reason :: "string option"
  gp_expires_at :: "int option"

record World =
  w_store :: Store
  w_budget :: "DailyBudgetState option"
  w_pause :: "GlobalPauseState option"

section \<open>Metadata counters\<close>

text \<open>\<open>await storage.updateTaskMetadata(taskId, key, value)\<close>; it never throws.\<close>

definition put_meta :: "World \<Rightarrow> string \<Rightarrow> string \<Rightarrow> string \<Rightarrow> World" where
  "put_meta w i key value =
     (case updateTaskMetadata key value i (w_store w) of Inr st \<Rightarrow> w\<lparr>w_store := st\<rparr> | Inl _ \<Rightarrow> w)"

definition get_meta :: "World \<Rightarrow> string \<Rightarrow> string \<Rightarrow> string option" where
  "get_meta w i key = getTaskMetadata (w_store w) i key"

text \<open>\<open>value ? parseInt(value, 10) || 0 : 0\<close>.\<close>

definition count_of :: "string option \<Rightarrow> int" where
  "count_of v = (case nonempty v of None \<Rightarrow> 0 | Some s \<Rightarrow> (case parse_int s of None \<Rightarrow> 0 | Some n \<Rightarrow> n))"

definition show_number :: "int \<Rightarrow> string" where
  "show_number n = show_int n"

definition getAutoReactCount :: "World \<Rightarrow> string \<Rightarrow> AutoReactTrigger \<Rightarrow> int" where
  "getAutoReactCount w i trigger = count_of (get_meta w i (COUNTER_PREFIX @ trigger_text trigger))"

definition incrementAutoReactCount :: "int \<Rightarrow> World \<Rightarrow> string \<Rightarrow> AutoReactTrigger \<Rightarrow> World" where
  "incrementAutoReactCount now w i trigger =
     (let newCount = getAutoReactCount w i trigger + 1;
          w1 = put_meta w i (COUNTER_PREFIX @ trigger_text trigger) (show_number newCount)
      in put_meta w1 i (TIMESTAMP_PREFIX @ trigger_text trigger) (show_number now))"

text \<open>\<open>0\<close> is falsy, so a timestamp of 0 reads as none.\<close>

definition getLastAutoReactTimestamp :: "World \<Rightarrow> string \<Rightarrow> AutoReactTrigger \<Rightarrow> int option" where
  "getLastAutoReactTimestamp w i trigger =
     (let n = count_of (get_meta w i (TIMESTAMP_PREFIX @ trigger_text trigger))
      in if n = 0 then None else Some n)"

definition getFinalReviewRound :: "World \<Rightarrow> string \<Rightarrow> int" where
  "getFinalReviewRound w i = count_of (get_meta w i FINAL_REVIEW_ROUND_KEY)"

definition incrementFinalReviewRound :: "World \<Rightarrow> string \<Rightarrow> World" where
  "incrementFinalReviewRound w i =
     put_meta w i FINAL_REVIEW_ROUND_KEY (show_number (getFinalReviewRound w i + 1))"

definition resetFinalReviewRound :: "World \<Rightarrow> string \<Rightarrow> World" where
  "resetFinalReviewRound w i = put_meta w i FINAL_REVIEW_ROUND_KEY []"

definition getConsecutiveAutoTurns :: "World \<Rightarrow> string \<Rightarrow> int" where
  "getConsecutiveAutoTurns w i = count_of (get_meta w i CONSECUTIVE_AUTO_TURNS_KEY)"

definition incrementConsecutiveAutoTurns :: "World \<Rightarrow> string \<Rightarrow> World" where
  "incrementConsecutiveAutoTurns w i =
     put_meta w i CONSECUTIVE_AUTO_TURNS_KEY (show_number (getConsecutiveAutoTurns w i + 1))"

definition resetConsecutiveAutoTurns :: "World \<Rightarrow> string \<Rightarrow> World" where
  "resetConsecutiveAutoTurns w i = put_meta w i CONSECUTIVE_AUTO_TURNS_KEY []"

definition pauseAutoReact :: "World \<Rightarrow> string \<Rightarrow> string \<Rightarrow> World" where
  "pauseAutoReact w i reason = put_meta (put_meta w i PAUSED_KEY ''true'') i PAUSED_REASON_KEY reason"

definition isAutoReactPaused :: "World \<Rightarrow> string \<Rightarrow> bool" where
  "isAutoReactPaused w i \<longleftrightarrow> get_meta w i PAUSED_KEY = Some ''true''"

definition getAutoReactPausedReason :: "World \<Rightarrow> string \<Rightarrow> string option" where
  "getAutoReactPausedReason w i = nonempty (get_meta w i PAUSED_REASON_KEY)"

definition resetAutoReactCounters :: "World \<Rightarrow> string \<Rightarrow> World" where
  "resetAutoReactCounters w i =
     (let w1 = foldl (\<lambda>w t. put_meta (put_meta w i (COUNTER_PREFIX @ trigger_text t) [])
                 i (TIMESTAMP_PREFIX @ trigger_text t) []) w AUTO_REACT_TRIGGERS;
          w2 = resetFinalReviewRound w1 i;
          w3 = put_meta w2 i PAUSED_KEY [];
          w4 = put_meta w3 i PAUSED_REASON_KEY []
      in resetConsecutiveAutoTurns w4 i)"

section \<open>Backoff\<close>

datatype Backoff = NoBackoff | Linear | Exponential

definition EXPONENTIAL_DELAYS_MS :: "int list" where "EXPONENTIAL_DELAYS_MS = [0, 60000, 300000]"
definition LINEAR_DELAYS_MS :: "int list" where "LINEAR_DELAYS_MS = [0, 60000, 120000]"

definition calculateBackoffDelay :: "Backoff \<Rightarrow> int \<Rightarrow> int" where
  "calculateBackoffDelay strategy currentCount =
     (if strategy = NoBackoff \<or> currentCount \<le> 0 then 0
      else let delays = (if strategy = Exponential then EXPONENTIAL_DELAYS_MS else LINEAR_DELAYS_MS)
           in delays ! nat (min currentCount (int (length delays) - 1)))"

text \<open>\<open>None\<close> when the turn may start, else the milliseconds that remain.\<close>

definition checkBackoff :: "int \<Rightarrow> World \<Rightarrow> string \<Rightarrow> AutoReactTrigger \<Rightarrow> Backoff \<Rightarrow> int option" where
  "checkBackoff now w i trigger strategy =
     (let requiredDelay = calculateBackoffDelay strategy (getAutoReactCount w i trigger)
      in if requiredDelay = 0 then None
         else case getLastAutoReactTimestamp w i trigger of
                None \<Rightarrow> None
              | Some lastTimestamp \<Rightarrow>
                  let elapsed = now - lastTimestamp
                  in if elapsed \<ge> requiredDelay then None else Some (requiredDelay - elapsed))"

section \<open>The daily budget\<close>

definition readDailyBudget :: "string \<Rightarrow> World \<Rightarrow> DailyBudgetState" where
  "readDailyBudget today w =
     (case w_budget w of
        Some state \<Rightarrow> if db_date state = today then state
                      else \<lparr>db_date = today, db_used = 0, db_capOverride = None, db_log = []\<rparr>
      | None \<Rightarrow> \<lparr>db_date = today, db_used = 0, db_capOverride = None, db_log = []\<rparr>)"

definition incrementDailyBudget :: "string \<Rightarrow> World \<Rightarrow> AutoReactLogEntry option \<Rightarrow> World" where
  "incrementDailyBudget today w entry =
     (let state = readDailyBudget today w;
          state1 = state\<lparr>db_used := db_used state + 1\<rparr>;
          state2 = (case entry of None \<Rightarrow> state1 | Some e \<Rightarrow> state1\<lparr>db_log := db_log state1 @ [e]\<rparr>)
      in w\<lparr>w_budget := Some state2\<rparr>)"

definition effectiveDailyLimit :: "DailyBudgetState \<Rightarrow> int \<Rightarrow> int" where
  "effectiveDailyLimit state configuredLimit =
     (case db_capOverride state of Some c \<Rightarrow> c | None \<Rightarrow> configuredLimit)"

datatype CapDelta = Absolute int | Relative int

definition adjustDailyCap :: "string \<Rightarrow> World \<Rightarrow> int \<Rightarrow> CapDelta \<Rightarrow> World \<times> int" where
  "adjustDailyCap today w configuredLimit delta =
     (let state = readDailyBudget today w;
          current = effectiveDailyLimit state configuredLimit;
          next = (case delta of Absolute v \<Rightarrow> v | Relative v \<Rightarrow> current + v);
          cap = max 0 next
      in (w\<lparr>w_budget := Some (state\<lparr>db_capOverride := Some cap\<rparr>)\<rparr>, cap))"

definition isDailyBudgetExhausted :: "string \<Rightarrow> World \<Rightarrow> int \<Rightarrow> bool" where
  "isDailyBudgetExhausted today w limit =
     (let state = readDailyBudget today w in db_used state \<ge> effectiveDailyLimit state limit)"

section \<open>The global pause\<close>

record GlobalPauseStatus =
  gs_paused :: bool
  gs_reason :: "string option"
  gs_expiresAt :: "int option"

definition not_paused :: GlobalPauseStatus where
  "not_paused = \<lparr>gs_paused = False, gs_reason = None, gs_expiresAt = None\<rparr>"

definition setGlobalAutoReactPaused ::
  "int \<Rightarrow> World \<Rightarrow> bool \<Rightarrow> string option \<Rightarrow> int option \<Rightarrow> World" where
  "setGlobalAutoReactPaused now w paused reason expiresAt =
     w\<lparr>w_pause := Some (if paused
        then \<lparr>gp_paused = True, gp_paused_at = Some now, gp_reason = reason, gp_expires_at = expiresAt\<rparr>
        else \<lparr>gp_paused = False, gp_paused_at = None, gp_reason = None, gp_expires_at = None\<rparr>)\<rparr>"

definition isGlobalAutoReactPaused :: "int \<Rightarrow> World \<Rightarrow> World \<times> GlobalPauseStatus" where
  "isGlobalAutoReactPaused now w =
     (case w_pause w of
        None \<Rightarrow> (w, not_paused)
      | Some state \<Rightarrow>
          if gp_paused state then
            (case gp_expires_at state of
               Some e \<Rightarrow> if now \<ge> e then (setGlobalAutoReactPaused now w False None None, not_paused)
                         else (w, \<lparr>gs_paused = True, gs_reason = gp_reason state, gs_expiresAt = Some e\<rparr>)
             | None \<Rightarrow> (w, \<lparr>gs_paused = True, gs_reason = gp_reason state, gs_expiresAt = None\<rparr>))
          else (w, not_paused))"

definition pauseGlobalAutoReactUntilMidnight ::
  "int \<Rightarrow> int \<Rightarrow> World \<Rightarrow> string option \<Rightarrow> World \<times> int" where
  "pauseGlobalAutoReactUntilMidnight now midnight w reason =
     (setGlobalAutoReactPaused now w True reason (Some midnight), midnight)"

section \<open>The gates\<close>

definition checkAutoTurnBudget :: "World \<Rightarrow> string \<Rightarrow> int \<Rightarrow> string option \<times> int" where
  "checkAutoTurnBudget w i maxAutoTurns =
     (let count = getConsecutiveAutoTurns w i
      in (if count \<ge> maxAutoTurns
          then Some (''Auto-turn budget exhausted ('' @ show_int count @ ''/'' @ show_int maxAutoTurns @
                     ''). Waiting for human review.'')
          else None, count))"

datatype AutoReactGate = GlobalPause | TaskPaused | AutoTurnBudget | DailyBudget | TriggerLimit | BackoffGate

record AutoReactDecision =
  ad_allowed :: bool
  ad_reason :: "string option"
  ad_gate :: "AutoReactGate option"
  ad_backoffRemainingMs :: "int option"
  ad_dailyBudget :: "(int \<times> int \<times> int) option"

definition allowed :: AutoReactDecision where
  "allowed = \<lparr>ad_allowed = True, ad_reason = None, ad_gate = None, ad_backoffRemainingMs = None, ad_dailyBudget = None\<rparr>"

definition refused :: "AutoReactGate \<Rightarrow> string \<Rightarrow> AutoReactDecision" where
  "refused g reason =
     \<lparr>ad_allowed = False, ad_reason = Some reason, ad_gate = Some g, ad_backoffRemainingMs = None, ad_dailyBudget = None\<rparr>"

record AutoReactConfig =
  auto_react_max_retries :: int
  auto_react_backoff :: Backoff
  auto_react_daily_budget :: int
  max_auto_turns :: int

text \<open>\<open>replace('_', ' ')\<close> with a string pattern: the first underscore only.\<close>

fun replace_first_underscore :: "string \<Rightarrow> string" where
  "replace_first_underscore [] = []"
| "replace_first_underscore (c # s) = (if c = CHR ''_'' then CHR '' '' # s else c # replace_first_underscore s)"

definition or_text :: "string option \<Rightarrow> string \<Rightarrow> string" where
  "or_text s d = (case nonempty s of Some t \<Rightarrow> t | None \<Rightarrow> d)"

definition shouldAutoReact ::
  "int \<Rightarrow> string \<Rightarrow> World \<Rightarrow> string \<Rightarrow> AutoReactTrigger \<Rightarrow> AutoReactConfig \<Rightarrow> World \<times> AutoReactDecision" where
  "shouldAutoReact now today w i trigger config =
     (let (w, globalPause) = isGlobalAutoReactPaused now w
      in if gs_paused globalPause
         then (w, refused GlobalPause (or_text (gs_reason globalPause) ''Auto-react globally paused''))
      else if isAutoReactPaused w i
         then (w, refused TaskPaused (or_text (getAutoReactPausedReason w i) ''Auto-react paused''))
      else case fst (checkAutoTurnBudget w i (max_auto_turns config)) of
        Some reason \<Rightarrow> (pauseAutoReact w i reason, refused AutoTurnBudget reason)
      | None \<Rightarrow>
        if isDailyBudgetExhausted today w (auto_react_daily_budget config)
        then let budget = readDailyBudget today w;
                 limit = effectiveDailyLimit budget (auto_react_daily_budget config)
             in (w, (refused DailyBudget (''Daily auto-react budget exhausted ('' @ show_int (db_used budget) @ ''/''
                   @ show_int limit @ '')''))\<lparr>ad_dailyBudget :=
                      Some (db_used budget, limit, auto_react_daily_budget config)\<rparr>)
        else
          let count = getAutoReactCount w i trigger
          in if count \<ge> auto_react_max_retries config
             then let reason = ''Auto-react paused: '' @ show_int count @ '' '' @
                        replace_first_underscore (trigger_text trigger) @ '' retries exhausted''
                  in (pauseAutoReact w i reason, refused TriggerLimit reason)
             else case checkBackoff now w i trigger (auto_react_backoff config) of
               Some remainingMs \<Rightarrow>
                 (let secs = (remainingMs + 999) div 1000
                  in (w, (refused BackoffGate (''Backoff: '' @ show_int secs @ ''s remaining''))
                           \<lparr>ad_backoffRemainingMs := Some remainingMs\<rparr>))
             | None \<Rightarrow> (w, allowed))"

definition recordAutoReact :: "int \<Rightarrow> string \<Rightarrow> World \<Rightarrow> string \<Rightarrow> AutoReactTrigger \<Rightarrow> World" where
  "recordAutoReact now today w i trigger =
     (let w1 = incrementAutoReactCount now w i trigger;
          taskCode = (case getTask (w_store w1) i of Some task \<Rightarrow> t_code task | None \<Rightarrow> None);
          w2 = incrementDailyBudget today w1 (Some \<lparr>le_ts = now, le_taskId = take 8 i, le_taskCode = taskCode,
                 le_trigger = trigger\<rparr>)
      in incrementConsecutiveAutoTurns w2 i)"

record AutoReactSummary =
  as_paused :: bool
  as_reason :: "string option"
  as_counts :: "(AutoReactTrigger \<times> int) list"
  as_consecutive :: int

definition getAutoReactSummary :: "World \<Rightarrow> string \<Rightarrow> AutoReactSummary" where
  "getAutoReactSummary w i =
     (let paused = isAutoReactPaused w i
      in \<lparr>as_paused = paused, as_reason = (if paused then getAutoReactPausedReason w i else None),
          as_counts = map (\<lambda>t. (t, getAutoReactCount w i t)) AUTO_REACT_TRIGGERS,
          as_consecutive = getConsecutiveAutoTurns w i\<rparr>)"

section \<open>Laws of the counters\<close>

definition known :: "World \<Rightarrow> string \<Rightarrow> bool" where
  "known w i \<longleftrightarrow> known_task (w_store w) i"

lemma put_meta_frame [simp]: "w_budget (put_meta w i k v) = w_budget w" "w_pause (put_meta w i k v) = w_pause w"
  by (simp_all add: put_meta_def split: sum.split)

lemma known_put_meta [simp]: "known w i \<Longrightarrow> known (put_meta w i k v) j = known w j"
  using meta.put_returns [of "w_store w" i k v]
  by (auto simp: known_def put_meta_def meta.known_put)

lemma get_put_meta:
  "known w i \<Longrightarrow> known w j \<Longrightarrow> get_meta (put_meta w i k v) j k' = (if j = i \<and> k' = k then Some v else get_meta w j k')"
  using meta.put_returns [of "w_store w" i k v]
  by (auto simp: known_def put_meta_def get_meta_def meta.get_put)

lemma trigger_text_inj [simp]: "trigger_text a = trigger_text b \<longleftrightarrow> a = b"
  by (cases a; cases b) simp_all

lemma keys_differ [simp]:
  "COUNTER_PREFIX @ s \<noteq> TIMESTAMP_PREFIX @ t" "TIMESTAMP_PREFIX @ t \<noteq> COUNTER_PREFIX @ s"
  "COUNTER_PREFIX @ s \<noteq> PAUSED_KEY" "COUNTER_PREFIX @ s \<noteq> PAUSED_REASON_KEY"
  "COUNTER_PREFIX @ s \<noteq> FINAL_REVIEW_ROUND_KEY" "COUNTER_PREFIX @ s \<noteq> CONSECUTIVE_AUTO_TURNS_KEY"
  "TIMESTAMP_PREFIX @ s \<noteq> PAUSED_KEY" "TIMESTAMP_PREFIX @ s \<noteq> PAUSED_REASON_KEY"
  "TIMESTAMP_PREFIX @ s \<noteq> FINAL_REVIEW_ROUND_KEY" "TIMESTAMP_PREFIX @ s \<noteq> CONSECUTIVE_AUTO_TURNS_KEY"
  "PAUSED_KEY \<noteq> PAUSED_REASON_KEY" "PAUSED_KEY \<noteq> FINAL_REVIEW_ROUND_KEY"
  "PAUSED_KEY \<noteq> CONSECUTIVE_AUTO_TURNS_KEY" "PAUSED_REASON_KEY \<noteq> FINAL_REVIEW_ROUND_KEY"
  "PAUSED_REASON_KEY \<noteq> CONSECUTIVE_AUTO_TURNS_KEY" "FINAL_REVIEW_ROUND_KEY \<noteq> CONSECUTIVE_AUTO_TURNS_KEY"
  by (simp_all add: COUNTER_PREFIX_def TIMESTAMP_PREFIX_def PAUSED_KEY_def PAUSED_REASON_KEY_def
      FINAL_REVIEW_ROUND_KEY_def CONSECUTIVE_AUTO_TURNS_KEY_def)

lemmas keys_differ' [simp] = keys_differ [symmetric]

lemma count_of_empty [simp]: "count_of (Some []) = 0" "count_of None = 0"
  by (simp_all add: count_of_def nonempty_def)

lemma parse_int_show_int [simp]: "parse_int (show_int n) = Some n"
proof (cases "n < 0")
  case True
  let ?ds = "show_nat (nat (- n))"
  have "takeWhile is_digit ?ds = ?ds" using show_nat_digits by (simp add: takeWhile_eq_all_conv)
  moreover have "\<not> is_space (CHR ''-'')" by (simp add: is_space_def)
  ultimately show ?thesis using True
    by (simp add: show_int_def parse_int_def trim_start_def Let_def del: takeWhile_eq_all_conv)
qed (simp add: show_int_def)

lemma show_int_ne [simp]: "show_int n \<noteq> []"
  by (simp add: show_int_def)

lemma count_of_show [simp]: "count_of (Some (show_number n)) = n"
  by (simp add: count_of_def nonempty_def show_number_def)

lemmas counter_defs = getAutoReactCount_def getConsecutiveAutoTurns_def getFinalReviewRound_def
  isAutoReactPaused_def getAutoReactPausedReason_def getLastAutoReactTimestamp_def

text \<open>Pausing a task, on every reading of the counters.\<close>

lemma after_pause:
  assumes "known w i" "known w j"
  shows "getAutoReactCount (pauseAutoReact w i r) j t = getAutoReactCount w j t"
    and "getConsecutiveAutoTurns (pauseAutoReact w i r) j = getConsecutiveAutoTurns w j"
    and "isAutoReactPaused (pauseAutoReact w i r) j = (j = i \<or> isAutoReactPaused w j)"
    and "getAutoReactPausedReason (pauseAutoReact w i r) j =
      (if j = i then nonempty (Some r) else getAutoReactPausedReason w j)"
  using assms by (auto simp: pauseAutoReact_def counter_defs get_put_meta)

lemma get_meta_budget [simp]: "get_meta (w\<lparr>w_budget := b\<rparr>) i k = get_meta w i k"
  "get_meta (w\<lparr>w_pause := p\<rparr>) i k = get_meta w i k"
  by (simp_all add: get_meta_def)

lemma known_budget [simp]: "known (w\<lparr>w_budget := b\<rparr>) i = known w i" "known (w\<lparr>w_pause := p\<rparr>) i = known w i"
  by (simp_all add: known_def)

lemma known_record [simp]: "known w i \<Longrightarrow> known (recordAutoReact now today w i t) j = known w j"
  by (simp add: recordAutoReact_def incrementAutoReactCount_def incrementConsecutiveAutoTurns_def
      incrementDailyBudget_def Let_def)

lemma put_meta_budget: "put_meta (w\<lparr>w_budget := b\<rparr>) i k v = (put_meta w i k v)\<lparr>w_budget := b\<rparr>"
  by (simp add: put_meta_def split: sum.split)

text \<open>A recorded turn adds one to the trigger's counter, to the consecutive turns and to the day.\<close>

lemma after_record:
  assumes "known w i" "known w j"
  shows "getAutoReactCount (recordAutoReact now today w i t) j u =
      getAutoReactCount w j u + (if j = i \<and> u = t then 1 else 0)"
    and "getConsecutiveAutoTurns (recordAutoReact now today w i t) j =
      getConsecutiveAutoTurns w j + (if j = i then 1 else 0)"
    and "isAutoReactPaused (recordAutoReact now today w i t) j = isAutoReactPaused w j"
    and "db_used (readDailyBudget today (recordAutoReact now today w i t)) = db_used (readDailyBudget today w) + 1"
  using assms
  by (auto simp: recordAutoReact_def incrementAutoReactCount_def incrementConsecutiveAutoTurns_def
      incrementDailyBudget_def Let_def counter_defs get_put_meta put_meta_budget)
     (auto simp: readDailyBudget_def split: option.split)

lemma known_fold_reset:
  "known w i \<Longrightarrow> known (foldl (\<lambda>w t. put_meta (put_meta w i (f t) []) i (g t) []) w ts) j = known w j"
  by (induction ts arbitrary: w) simp_all

lemma get_fold_reset:
  "known w i \<Longrightarrow> known w j \<Longrightarrow>
     get_meta (foldl (\<lambda>w t. put_meta (put_meta w i (f t) []) i (g t) []) w ts) j k =
       (if j = i \<and> (\<exists>t \<in> set ts. k = f t \<or> k = g t) then Some [] else get_meta w j k)"
  by (induction ts arbitrary: w) (auto simp: get_put_meta)

lemma all_triggers: "t \<in> set AUTO_REACT_TRIGGERS"
  by (cases t) (simp_all add: AUTO_REACT_TRIGGERS_def)

lemma known_reset: "known w i \<Longrightarrow> known (resetAutoReactCounters w i) j = known w j"
  by (simp add: resetAutoReactCounters_def Let_def resetFinalReviewRound_def resetConsecutiveAutoTurns_def
      known_fold_reset)

lemma get_after_reset:
  assumes "known w i" "known w j"
  shows "get_meta (resetAutoReactCounters w i) j k =
     (if j = i \<and> ((\<exists>t. k = COUNTER_PREFIX @ trigger_text t \<or> k = TIMESTAMP_PREFIX @ trigger_text t) \<or>
          k \<in> {FINAL_REVIEW_ROUND_KEY, PAUSED_KEY, PAUSED_REASON_KEY, CONSECUTIVE_AUTO_TURNS_KEY})
      then Some [] else get_meta w j k)"
  using assms all_triggers
  by (auto simp: resetAutoReactCounters_def Let_def resetFinalReviewRound_def resetConsecutiveAutoTurns_def
      known_fold_reset get_put_meta get_fold_reset)

lemma nonempty_Nil [simp]: "nonempty (Some []) = None"
  by (simp add: nonempty_def)

lemma after_reset:
  assumes "known w i" "known w j"
  shows "getAutoReactCount (resetAutoReactCounters w i) j t = (if j = i then 0 else getAutoReactCount w j t)"
    and "getConsecutiveAutoTurns (resetAutoReactCounters w i) j = (if j = i then 0 else getConsecutiveAutoTurns w j)"
    and "getFinalReviewRound (resetAutoReactCounters w i) j = (if j = i then 0 else getFinalReviewRound w j)"
    and "isAutoReactPaused (resetAutoReactCounters w i) j = (j \<noteq> i \<and> isAutoReactPaused w j)"
    and "getAutoReactPausedReason (resetAutoReactCounters w i) j =
      (if j = i then None else getAutoReactPausedReason w j)"
    and "getLastAutoReactTimestamp (resetAutoReactCounters w i) j t =
      (if j = i then None else getLastAutoReactTimestamp w j t)"
  using assms by (auto simp: counter_defs get_after_reset)

section \<open>What the gates decide\<close>

definition globally_paused :: "int \<Rightarrow> World \<Rightarrow> bool" where
  "globally_paused now w \<longleftrightarrow> (case w_pause w of
     None \<Rightarrow> False
   | Some s \<Rightarrow> gp_paused s \<and> (case gp_expires_at s of None \<Rightarrow> True | Some e \<Rightarrow> now < e))"

lemma isGlobalAutoReactPaused_result:
  "gs_paused (snd (isGlobalAutoReactPaused now w)) = globally_paused now w"
  "w_store (fst (isGlobalAutoReactPaused now w)) = w_store w"
  "w_budget (fst (isGlobalAutoReactPaused now w)) = w_budget w"
  by (auto simp: isGlobalAutoReactPaused_def globally_paused_def not_paused_def setGlobalAutoReactPaused_def
      split: option.split)

text \<open>The readings depend on the store and the budget only.\<close>

lemma readings_cong:
  assumes "w_store w' = w_store w" "w_budget w' = w_budget w"
  shows "getAutoReactCount w' i t = getAutoReactCount w i t"
    "getConsecutiveAutoTurns w' i = getConsecutiveAutoTurns w i" "isAutoReactPaused w' i = isAutoReactPaused w i"
    "getAutoReactPausedReason w' i = getAutoReactPausedReason w i"
    "getLastAutoReactTimestamp w' i t = getLastAutoReactTimestamp w i t"
    "readDailyBudget today w' = readDailyBudget today w"
    "checkBackoff now w' i t strategy = checkBackoff now w i t strategy"
    "isDailyBudgetExhausted today w' n = isDailyBudgetExhausted today w n"
  using assms by (simp_all add: counter_defs get_meta_def readDailyBudget_def checkBackoff_def
      isDailyBudgetExhausted_def Let_def)

lemma readings_global:
  "getAutoReactCount (fst (isGlobalAutoReactPaused now w)) i t = getAutoReactCount w i t"
  "getConsecutiveAutoTurns (fst (isGlobalAutoReactPaused now w)) i = getConsecutiveAutoTurns w i"
  "isAutoReactPaused (fst (isGlobalAutoReactPaused now w)) i = isAutoReactPaused w i"
  "getAutoReactPausedReason (fst (isGlobalAutoReactPaused now w)) i = getAutoReactPausedReason w i"
  "checkBackoff now (fst (isGlobalAutoReactPaused now w)) i t strategy = checkBackoff now w i t strategy"
  "isDailyBudgetExhausted today (fst (isGlobalAutoReactPaused now w)) n = isDailyBudgetExhausted today w n"
  "known (fst (isGlobalAutoReactPaused now w)) i = known w i"
  "readDailyBudget today (fst (isGlobalAutoReactPaused now w)) = readDailyBudget today w"
  by (simp_all add: readings_cong [OF isGlobalAutoReactPaused_result(2,3)] isGlobalAutoReactPaused_result known_def)

text \<open>The gates in the order they are asked, each with whether it refuses.\<close>

definition gates ::
  "int \<Rightarrow> string \<Rightarrow> World \<Rightarrow> string \<Rightarrow> AutoReactTrigger \<Rightarrow> AutoReactConfig \<Rightarrow> (AutoReactGate \<times> bool) list" where
  "gates now today w i trigger config =
     [(GlobalPause, globally_paused now w),
      (TaskPaused, isAutoReactPaused w i),
      (AutoTurnBudget, max_auto_turns config \<le> getConsecutiveAutoTurns w i),
      (DailyBudget, effectiveDailyLimit (readDailyBudget today w) (auto_react_daily_budget config)
         \<le> db_used (readDailyBudget today w)),
      (TriggerLimit, auto_react_max_retries config \<le> getAutoReactCount w i trigger),
      (BackoffGate, checkBackoff now w i trigger (auto_react_backoff config) \<noteq> None)]"

lemma shouldAutoReact_gate:
  "ad_gate (snd (shouldAutoReact now today w i trigger config)) =
     map_option fst (List.find snd (gates now today w i trigger config))"
  "ad_allowed (snd (shouldAutoReact now today w i trigger config)) =
     (ad_gate (snd (shouldAutoReact now today w i trigger config)) = None)"
  by (auto simp: shouldAutoReact_def gates_def case_prod_unfold isGlobalAutoReactPaused_result readings_global
      refused_def allowed_def checkAutoTurnBudget_def isDailyBudgetExhausted_def Let_def split: option.split)


text \<open>The delay demanded before the next turn never shrinks as turns are counted, never exceeds five
  minutes, and is zero for a first turn; a refusal for backoff names a positive wait, after which the
  same gate passes.\<close>

theorem backoff_bounds:
  "(m \<le> n \<longrightarrow> calculateBackoffDelay s m \<le> calculateBackoffDelay s n) \<and>
   0 \<le> calculateBackoffDelay s n \<and> calculateBackoffDelay s n \<le> 300000 \<and> calculateBackoffDelay s 0 = 0 \<and>
   (\<forall>ms. checkBackoff now w i t s = Some ms \<longrightarrow> 0 < ms \<and> (\<forall>d \<ge> ms. checkBackoff (now + d) w i t s = None))"
proof -
  have cases: "calculateBackoffDelay s n = (if s = NoBackoff \<or> n \<le> 0 then 0 else if n = 1 then 60000
      else if s = Exponential then 300000 else 120000)" for n
  proof -
    have "nat (min n 2) = (if n = 1 then 1 else 2)" if "0 < n" using that by auto
    then show ?thesis
      by (auto simp: calculateBackoffDelay_def EXPONENTIAL_DELAYS_MS_def LINEAR_DELAYS_MS_def Let_def)
  qed
  show ?thesis
    by (auto simp: cases checkBackoff_def Let_def split: option.splits if_splits)
qed

lemma backoff_bounds_witness:
  "calculateBackoffDelay Linear 1 \<le> calculateBackoffDelay Linear 4 \<and> calculateBackoffDelay Linear 4 \<le> 300000"
  using backoff_bounds [of 1 4 Linear] by simp

section \<open>Runs of the daemon\<close>

text \<open>What happens to the budget over time: a turn the gates allow is recorded, a refused one is not, a
  person resets a task's counters, an operator moves today's cap or the global pause. Time and day are
  whatever they are at each step.\<close>

inductive react_step :: "AutoReactConfig \<Rightarrow> World \<Rightarrow> World \<Rightarrow> bool" for config where
  turn: "known w i \<Longrightarrow> shouldAutoReact now today w i t config = (w1, d) \<Longrightarrow> ad_allowed d \<Longrightarrow>
     react_step config w (recordAutoReact now today w1 i t)"
| refusal: "known w i \<Longrightarrow> shouldAutoReact now today w i t config = (w1, d) \<Longrightarrow> \<not> ad_allowed d \<Longrightarrow> react_step config w w1"
| reset: "known w i \<Longrightarrow> react_step config w (resetAutoReactCounters w i)"
| cap: "react_step config w (fst (adjustDailyCap today w n delta))"
| global: "react_step config w (setGlobalAutoReactPaused now w b reason expiry)"

definition within_limits :: "AutoReactConfig \<Rightarrow> World \<Rightarrow> bool" where
  "within_limits config w \<longleftrightarrow> (\<forall>i. known w i \<longrightarrow>
     getConsecutiveAutoTurns w i \<le> max 0 (max_auto_turns config) \<and>
     (\<forall>t. getAutoReactCount w i t \<le> max 0 (auto_react_max_retries config)))"

lemma allowed_gates:
  assumes "shouldAutoReact now today w i t config = (w1, d)" and "ad_allowed d"
  shows "getConsecutiveAutoTurns w i < max_auto_turns config" "getAutoReactCount w i t < auto_react_max_retries config"
    "db_used (readDailyBudget today w) < effectiveDailyLimit (readDailyBudget today w) (auto_react_daily_budget config)"
    "w1 = fst (isGlobalAutoReactPaused now w)"
proof -
  have "List.find snd (gates now today w i t config) = None"
    using assms shouldAutoReact_gate [of now today w i t config] by simp
  then show "getConsecutiveAutoTurns w i < max_auto_turns config" "getAutoReactCount w i t < auto_react_max_retries config"
    "db_used (readDailyBudget today w) < effectiveDailyLimit (readDailyBudget today w) (auto_react_daily_budget config)"
    by (auto simp: gates_def split: if_splits)
  show "w1 = fst (isGlobalAutoReactPaused now w)"
    using assms by (auto simp: shouldAutoReact_def case_prod_unfold refused_def Let_def split: if_splits option.splits)
qed

lemma refused_world:
  assumes "shouldAutoReact now today w i t config = (w1, d)"
  shows "w1 = fst (isGlobalAutoReactPaused now w) \<or> (\<exists>r. w1 = pauseAutoReact (fst (isGlobalAutoReactPaused now w)) i r)"
  using assms by (auto simp: shouldAutoReact_def case_prod_unfold Let_def split: if_splits option.splits)

lemma known_pause [simp]: "known w i \<Longrightarrow> known (pauseAutoReact w i r) j = known w j"
  by (simp add: pauseAutoReact_def)

lemma react_step_limits:
  assumes "react_step config w w'" and inv: "within_limits config w"
  shows "within_limits config w'"
  using assms(1)
proof cases
  case (turn i now today t w1 d)
  note g = allowed_gates [OF turn(3,4)]
  have "known w1 i" using turn(2) by (simp add: g(4) readings_global)
  then show ?thesis
    using inv g(1,2) unfolding turn(1)
    by (auto simp: within_limits_def after_record g(4) readings_global)
next
  case (refusal i now today t d)
  let ?g = "fst (isGlobalAutoReactPaused now w)"
  have k: "known ?g i" using refusal(1) by (simp add: readings_global)
  from refused_world [OF refusal(2)] show ?thesis
    using inv k by (auto simp: within_limits_def after_pause readings_global)
next
  case (reset i)
  then show ?thesis using inv by (auto simp: within_limits_def known_reset after_reset)
next
  case (cap today n delta)
  then show ?thesis
    using inv by (simp add: within_limits_def adjustDailyCap_def Let_def counter_defs)
next
  case (global now b reason expiry)
  then show ?thesis
    using inv by (simp add: within_limits_def setGlobalAutoReactPaused_def counter_defs)
qed



section \<open>A concrete run\<close>

definition sample_world :: World where
  "sample_world = \<lparr>w_store = sample_store, w_budget = None, w_pause = None\<rparr>"

definition sample_config :: AutoReactConfig where
  "sample_config = \<lparr>auto_react_max_retries = 1, auto_react_backoff = Linear, auto_react_daily_budget = 5, max_auto_turns = 3\<rparr>"

definition turned_world :: World where
  "turned_world = recordAutoReact 1000 ''2026-01-01'' (fst (shouldAutoReact 1000 ''2026-01-01'' sample_world sample_id Crash sample_config)) sample_id Crash"

lemma known_sample: "known sample_world i \<longleftrightarrow> i = sample_id"
proof -
  have "omap_keys (st_dirs sample_store) = [sample_id]" and "is_uuid sample_id" by code_simp+
  then show ?thesis by (auto simp: known_def known_task_def sample_world_def omap_get_None_iff)
qed

lemma sample_within: "within_limits sample_config sample_world"
proof -
  have "list_all (\<lambda>t. getAutoReactCount sample_world sample_id t = 0) AUTO_REACT_TRIGGERS"
    and "getConsecutiveAutoTurns sample_world sample_id = 0" by code_simp+
  then show ?thesis
    using all_triggers by (auto simp: within_limits_def known_sample list_all_iff)
qed

lemma sample_turn: "react_step sample_config sample_world turned_world"
proof -
  have "ad_allowed (snd (shouldAutoReact 1000 ''2026-01-01'' sample_world sample_id Crash sample_config))" by code_simp
  then show ?thesis
    unfolding turned_world_def by (intro react_step.turn [OF _ prod.collapse [symmetric]]) (simp_all add: known_sample)
qed



end
