(* ===== verification/QueryParser.thy ===== *)
theory QueryParser
  imports TaskIdentity
begin

text \<open>
  The query language of the search, \<open>src/search/parser.ts\<close>: the syntax tree, the tokenizer, the
  recursive-descent parser and the test that decides whether a query is structured at all.

  The parser's cursor into the token array is the list of the tokens still to be read; the array ends
  with the end-of-input token, which no rule consumes (\<open>parser_outcome\<close>), so reading past it, which
  \<open>peek\<close> answers with an arbitrary end token, does not happen. The four mutually recursive
  functions of the source and its two loops take fuel. A call needs at most four levels for every
  token, so \<open>4 * length tokens + 4\<close> is enough (\<open>parser_outcome\<close>), and \<open>parseQuery\<close> starts with that.
  Error messages are a datatype that carries the texts the message quotes.
\<close>

section \<open>The syntax tree\<close>

datatype QueryField = StatusField | GoalField | TaskField | TagField

datatype InScope =
    InTasks | InActive | InBacklog | InFinished | InTurns | InCommits | InComments | InFollowups
  | InRaised | InConversations | InMemories | InScratch

datatype HasScope = HasCommits | HasTurns | HasComments | HasFollowups | HasRaised

datatype DateField = CreatedField | UpdatedField

datatype DateOp = After | Before

datatype QueryNode =
    AndNode QueryNode QueryNode
  | OrNode QueryNode QueryNode
  | NotNode QueryNode
  | FieldNode QueryField string
  | InNode InScope string
  | HasNode HasScope
  | DateNode DateField DateOp string
  | TextNode string

text \<open>The names the query language has for the scopes.\<close>

definition in_scopes :: "(string \<times> InScope) list" where
  "in_scopes =
     [(''tasks'', InTasks), (''active'', InActive), (''backlog'', InBacklog), (''finished'', InFinished),
      (''turns'', InTurns), (''commits'', InCommits), (''comments'', InComments),
      (''followups'', InFollowups), (''raised'', InRaised), (''conversations'', InConversations),
      (''memories'', InMemories), (''scratch'', InScratch)]"

definition has_scopes :: "(string \<times> HasScope) list" where
  "has_scopes =
     [(''commits'', HasCommits), (''turns'', HasTurns), (''comments'', HasComments),
      (''followups'', HasFollowups), (''raised'', HasRaised)]"

section \<open>The tokenizer\<close>

datatype TokenType = AND_T | OR_T | NOT_T | LPAREN_T | RPAREN_T | QUOTED_T | WORD_T | EOF_T

record Token =
  tok_type :: TokenType
  tok_value :: string
  tok_pos :: nat

definition token :: "TokenType \<Rightarrow> string \<Rightarrow> nat \<Rightarrow> Token" where
  "token k v n = \<lparr>tok_type = k, tok_value = v, tok_pos = n\<rparr>"

lemma token_sel [simp]:
  "tok_type (token k v n) = k" "tok_value (token k v n) = v" "tok_pos (token k v n) = n"
  by (simp_all add: token_def)

abbreviation quote_char :: char where
  "quote_char \<equiv> CHR 0x22"

abbreviation backslash_char :: char where
  "backslash_char \<equiv> CHR 0x5C"

text \<open>The classes \<open>[\s()"]\<close>, which ends a bare value, and \<open>[\s()":]\<close>, which ends a word.\<close>

definition value_stop :: "char \<Rightarrow> bool" where
  "value_stop c \<longleftrightarrow> is_space c \<or> c = CHR ''('' \<or> c = CHR '')'' \<or> c = quote_char"

definition word_stop :: "char \<Rightarrow> bool" where
  "word_stop c \<longleftrightarrow> value_stop c \<or> c = CHR '':''"

text \<open>The rest of a quoted string after its opening quote: its value and what follows the closing
  quote. A backslash takes the next character as it is; at the end of the input it stands for
  itself, and a missing closing quote is forgiven.\<close>

fun scan_quoted :: "string \<Rightarrow> string \<times> string" where
  "scan_quoted [] = ([], [])"
| "scan_quoted [c] = (if c = quote_char then ([], []) else ([c], []))"
| "scan_quoted (c # d # s) =
     (if c = quote_char then ([], d # s)
      else if c = backslash_char then (let (v, r) = scan_quoted s in (d # v, r))
      else (let (v, r) = scan_quoted (d # s) in (c # v, r)))"

definition scan_value :: "string \<Rightarrow> string \<times> string" where
  "scan_value s =
     (case s of
        c # s' \<Rightarrow> if c = quote_char then scan_quoted s'
                  else (takeWhile (\<lambda>c. \<not> value_stop c) s, dropWhile (\<lambda>c. \<not> value_stop c) s)
      | [] \<Rightarrow> ([], []))"

definition word_type :: "string \<Rightarrow> TokenType" where
  "word_type w =
     (if w = ''AND'' then AND_T else if w = ''OR'' then OR_T else if w = ''NOT'' then NOT_T else WORD_T)"

lemma scan_quoted_length: "length (snd (scan_quoted s)) \<le> length s"
  by (induction s rule: scan_quoted.induct) (auto split: prod.splits)

lemma scan_value_length: "length (snd (scan_value s)) \<le> length s"
  using scan_quoted_length [of "tl s"]
  by (cases s) (auto simp: scan_value_def length_dropWhile_le le_SucI)

lemma dropWhile_shorter: "takeWhile P xs \<noteq> [] \<Longrightarrow> length (dropWhile P xs) < length xs"
  by (cases xs) (auto simp: length_dropWhile_le le_imp_less_Suc split: if_splits)

lemma scan_value_shorter:
  assumes "dropWhile P s \<noteq> []"
  shows "length (snd (scan_value (tl (dropWhile P s)))) < length s"
proof -
  have "length (snd (scan_value (tl (dropWhile P s)))) \<le> length (tl (dropWhile P s))"
    by (rule scan_value_length)
  also have "\<dots> < length (dropWhile P s)" using assms by simp
  also have "\<dots> \<le> length s" by (rule length_dropWhile_le)
  finally show ?thesis .
qed

text \<open>The loop of \<open>tokenize\<close> at position \<open>n\<close> with \<open>s\<close> left to read.\<close>

function tokens_from :: "nat \<Rightarrow> string \<Rightarrow> Token list" where
  "tokens_from n [] = [token EOF_T [] n]"
| "tokens_from n (c # s) =
     (if is_space c then tokens_from (n + 1) s
      else if c = CHR ''('' then token LPAREN_T ''('' n # tokens_from (n + 1) s
      else if c = CHR '')'' then token RPAREN_T '')'' n # tokens_from (n + 1) s
      else if c = quote_char
      then token QUOTED_T (fst (scan_quoted s)) n
             # tokens_from (n + 1 + (length s - length (snd (scan_quoted s)))) (snd (scan_quoted s))
      else
        (let word = takeWhile (\<lambda>c. \<not> word_stop c) (c # s);
             r = dropWhile (\<lambda>c. \<not> word_stop c) (c # s)
         in if r \<noteq> [] \<and> hd r = CHR '':''
            then token WORD_T (word @ '':'' @ fst (scan_value (tl r))) n
                   # tokens_from (n + (length (c # s) - length (snd (scan_value (tl r)))))
                       (snd (scan_value (tl r)))
            else if word = [] then tokens_from (n + 1) s
            else token (word_type word) word n # tokens_from (n + length word) r))"
  by pat_completeness auto

termination
proof (relation "measure (\<lambda>(n, s). length s)", goal_cases)
  case (5 n c s)
  then show ?case using scan_quoted_length [of s] by (simp add: le_imp_less_Suc)
next
  case (6 n c s w r)
  then show ?case using scan_value_shorter [of "\<lambda>c. \<not> word_stop c" "c # s"] by simp
next
  case (8 n c s w r)
  then show ?case using dropWhile_shorter [of "\<lambda>c. \<not> word_stop c" "c # s"] by simp
qed auto

definition tokenize :: "string \<Rightarrow> Token list" where
  "tokenize input = tokens_from 0 input"

section \<open>The parser\<close>

datatype ParseProblem =
    Expected TokenType TokenType string
  | UnexpectedToken TokenType string
  | MissingOperator TokenType string
  | RequiresValue QueryField
  | CodeRenamed string
  | NotATag string
  | BadInScope string
  | InRequiresText InScope
  | BadHasScope string
  | RequiresComparison DateField
  | BadDate DateField string

datatype QueryParseError = QueryParseError (problem: ParseProblem) (error_pos: nat)

type_synonym parsed = "(QueryParseError, QueryNode \<times> Token list) result"

definition peek :: "Token list \<Rightarrow> Token" where
  "peek ts = (case ts of [] \<Rightarrow> token EOF_T [] 0 | t # _ \<Rightarrow> t)"

abbreviation peek_type :: "Token list \<Rightarrow> TokenType" where
  "peek_type ts \<equiv> tok_type (peek ts)"

text \<open>\<open>/^\d{4}-\d{2}-\d{2}$/\<close>.\<close>

definition is_iso_date :: "string \<Rightarrow> bool" where
  "is_iso_date s \<longleftrightarrow>
     length s = 10 \<and> (\<forall>i \<in> set [0, 1, 2, 3, 5, 6, 8, 9]. is_digit (s ! i)) \<and>
     s ! 4 = CHR ''-'' \<and> s ! 7 = CHR ''-''"

definition parse_in :: "string \<Rightarrow> nat \<Rightarrow> Token list \<Rightarrow> parsed" where
  "parse_in val pos ts =
     (case map_of in_scopes (to_lower val) of
        None \<Rightarrow> Inl (QueryParseError (BadInScope val) pos)
      | Some scope \<Rightarrow>
          if peek_type ts = QUOTED_T \<or> peek_type ts = WORD_T
          then Inr (InNode scope (tok_value (peek ts)), tl ts)
          else Inl (QueryParseError (InRequiresText scope) (tok_pos (peek ts))))"

definition parse_date :: "DateField \<Rightarrow> string \<Rightarrow> nat \<Rightarrow> (QueryParseError, QueryNode) result" where
  "parse_date field val pos =
     (if val = [] \<or> (hd val \<noteq> CHR ''>'' \<and> hd val \<noteq> CHR ''<'')
      then Inl (QueryParseError (RequiresComparison field) pos)
      else if \<not> is_iso_date (tl val)
      then Inl (QueryParseError (BadDate field (tl val)) pos)
      else Inr (DateNode field (if hd val = CHR ''>'' then After else Before) (tl val)))"

definition parseFieldOrText :: "string \<Rightarrow> nat \<Rightarrow> Token list \<Rightarrow> parsed" where
  "parseFieldOrText word pos ts =
     (if CHR '':'' \<notin> set word
      then Inr (if starts_with word ''#'' \<and> normalizeTag word \<noteq> []
                then OrNode (FieldNode TagField (normalizeTag word)) (TextNode word)
                else TextNode word, ts)
      else
        (let field = to_lower (takeWhile (\<lambda>c. c \<noteq> CHR '':'') word);
             val = tl (dropWhile (\<lambda>c. c \<noteq> CHR '':'') word);
             fail = (\<lambda>p. Inl (QueryParseError p pos))
         in if field = ''status'' then
              (if val = [] then fail (RequiresValue StatusField)
               else Inr (FieldNode StatusField (to_lower val), ts))
            else if field = ''goal'' then
              (if val = [] then fail (RequiresValue GoalField) else Inr (FieldNode GoalField val, ts))
            else if field = ''task'' then
              (if val = [] then fail (RequiresValue TaskField)
               else Inr (FieldNode TaskField (to_lower val), ts))
            else if field = ''code'' \<and> val \<noteq> [] then fail (CodeRenamed val)
            else if field = ''tag'' then
              (if val = [] then fail (RequiresValue TagField)
               else if normalizeTag val = [] then fail (NotATag val)
               else Inr (FieldNode TagField (normalizeTag val), ts))
            else if field = ''in'' then parse_in val pos ts
            else if field = ''has'' then
              (case map_of has_scopes (to_lower val) of
                 None \<Rightarrow> fail (BadHasScope val)
               | Some scope \<Rightarrow> Inr (HasNode scope, ts))
            else if field = ''created'' \<or> field = ''updated'' then
              map_sum id (\<lambda>q. (q, ts))
                (parse_date (if field = ''created'' then CreatedField else UpdatedField) val pos)
            else Inr (TextNode word, ts)))"

definition isTermStart :: "Token \<Rightarrow> bool" where
  "isTermStart t \<longleftrightarrow> tok_type t = WORD_T \<or> tok_type t = QUOTED_T \<or> tok_type t = NOT_T \<or> tok_type t = LPAREN_T"

text \<open>Running the next rule on what a rule has parsed; an error, and running out of fuel, end the parse.\<close>

definition parsed_then ::
  "parsed option \<Rightarrow> (QueryNode \<Rightarrow> Token list \<Rightarrow> parsed option) \<Rightarrow> parsed option" where
  "parsed_then m f =
     (case m of
        None \<Rightarrow> None
      | Some (Inl e) \<Rightarrow> Some (Inl e)
      | Some (Inr (q, ts)) \<Rightarrow> f q ts)"

fun parseOr :: "nat \<Rightarrow> Token list \<Rightarrow> parsed option"
and or_loop :: "nat \<Rightarrow> QueryNode \<Rightarrow> Token list \<Rightarrow> parsed option"
and parseAnd :: "nat \<Rightarrow> Token list \<Rightarrow> parsed option"
and and_loop :: "nat \<Rightarrow> QueryNode \<Rightarrow> Token list \<Rightarrow> parsed option"
and parseTerm :: "nat \<Rightarrow> Token list \<Rightarrow> parsed option"
and parseAtom :: "nat \<Rightarrow> Token list \<Rightarrow> parsed option" where
  "parseOr 0 ts = None"
| "parseOr (Suc n) ts = parsed_then (parseAnd n ts) (or_loop n)"
| "or_loop 0 left ts = None"
| "or_loop (Suc n) left ts =
     (if peek_type ts = OR_T
      then parsed_then (parseAnd n (tl ts)) (\<lambda>right ts'. or_loop n (OrNode left right) ts')
      else Some (Inr (left, ts)))"
| "parseAnd 0 ts = None"
| "parseAnd (Suc n) ts = parsed_then (parseTerm n ts) (and_loop n)"
| "and_loop 0 left ts = None"
| "and_loop (Suc n) left ts =
     (if peek_type ts = AND_T \<or> isTermStart (peek ts)
      then parsed_then (parseTerm n (if peek_type ts = AND_T then tl ts else ts))
             (\<lambda>right ts'. and_loop n (AndNode left right) ts')
      else Some (Inr (left, ts)))"
| "parseTerm 0 ts = None"
| "parseTerm (Suc n) ts =
     (if peek_type ts = NOT_T
      then parsed_then (parseAtom n (tl ts)) (\<lambda>q ts'. Some (Inr (NotNode q, ts')))
      else parseAtom n ts)"
| "parseAtom 0 ts = None"
| "parseAtom (Suc n) ts =
     (if peek_type ts = LPAREN_T
      then parsed_then (parseOr n (tl ts))
             (\<lambda>q ts'. if peek_type ts' = RPAREN_T then Some (Inr (q, tl ts'))
                      else Some (Inl (QueryParseError
                             (Expected RPAREN_T (peek_type ts') (tok_value (peek ts')))
                             (tok_pos (peek ts')))))
      else if peek_type ts = QUOTED_T then Some (Inr (TextNode (tok_value (peek ts)), tl ts))
      else if peek_type ts = WORD_T
      then Some (parseFieldOrText (tok_value (peek ts)) (tok_pos (peek ts)) (tl ts))
      else Some (Inl (QueryParseError (UnexpectedToken (peek_type ts) (tok_value (peek ts)))
                  (tok_pos (peek ts)))))"

definition parseQuery :: "string \<Rightarrow> (QueryParseError, QueryNode) result option" where
  "parseQuery input =
     (let tokens = tokenize input
      in case parseOr (4 * length tokens + 4) tokens of
           None \<Rightarrow> None
         | Some (Inl e) \<Rightarrow> Some (Inl e)
         | Some (Inr (ast, ts)) \<Rightarrow>
             if peek_type ts \<noteq> EOF_T
             then Some (Inl (QueryParseError (MissingOperator (peek_type ts) (tok_value (peek ts)))
                         (tok_pos (peek ts))))
             else Some (Inr ast))"

section \<open>Is the query structured?\<close>

text \<open>A regular expression without anchors tries every position; \<open>P\<close> sees the character before the
  position and the text from it on.\<close>

fun anywhere :: "(char option \<Rightarrow> string \<Rightarrow> bool) \<Rightarrow> char option \<Rightarrow> string \<Rightarrow> bool" where
  "anywhere P before [] = P before []"
| "anywhere P before (c # s) = (P before (c # s) \<or> anywhere P (Some c) s)"

definition word_before :: "char option \<Rightarrow> bool" where
  "word_before b = (case b of None \<Rightarrow> False | Some c \<Rightarrow> is_word_char c)"

definition whole_word :: "string \<Rightarrow> char option \<Rightarrow> string \<Rightarrow> bool" where
  "whole_word w b s \<longleftrightarrow>
     \<not> word_before b \<and> starts_with s w \<and>
     (case drop (length w) s of [] \<Rightarrow> True | c # _ \<Rightarrow> \<not> is_word_char c)"

definition field_syntax :: "char option \<Rightarrow> string \<Rightarrow> bool" where
  "field_syntax b s \<longleftrightarrow>
     \<not> word_before b \<and>
     (\<exists>f \<in> set [''status'', ''goal'', ''task'', ''tag'', ''in'', ''has'', ''created'', ''updated''].
        starts_with s (f @ '':''))"

definition code_syntax :: "char option \<Rightarrow> string \<Rightarrow> bool" where
  "code_syntax b s \<longleftrightarrow>
     \<not> word_before b \<and> starts_with s ''code:'' \<and>
     (case drop 5 s of [] \<Rightarrow> False | c # _ \<Rightarrow> \<not> is_space c)"

definition hash_syntax :: "char option \<Rightarrow> string \<Rightarrow> bool" where
  "hash_syntax b s \<longleftrightarrow>
     (case b of None \<Rightarrow> True | Some c \<Rightarrow> is_space c) \<and>
     (case s of h # c # _ \<Rightarrow> h = CHR ''#'' \<and> \<not> is_space c | _ \<Rightarrow> False)"

definition isStructuredQuery :: "string \<Rightarrow> bool" where
  "isStructuredQuery input \<longleftrightarrow>
     anywhere (whole_word ''AND'') None input \<or> anywhere (whole_word ''OR'') None input \<or>
     anywhere (whole_word ''NOT'') None input \<or> anywhere field_syntax None input \<or>
     anywhere code_syntax None input \<or> anywhere hash_syntax None input"

section \<open>What the parser returns\<close>

text \<open>The trees the language can express: the values the parser normalizes are normalized, and none
  that it requires is missing.\<close>

primrec query_wf :: "QueryNode \<Rightarrow> bool" where
  "query_wf (AndNode l r) = (query_wf l \<and> query_wf r)"
| "query_wf (OrNode l r) = (query_wf l \<and> query_wf r)"
| "query_wf (NotNode q) = query_wf q"
| "query_wf (FieldNode f v) =
     (v \<noteq> [] \<and>
      (case f of StatusField \<Rightarrow> to_lower v = v | GoalField \<Rightarrow> True
       | TaskField \<Rightarrow> to_lower v = v | TagField \<Rightarrow> normalizeTag v = v))"
| "query_wf (InNode s v) = True"
| "query_wf (HasNode s) = True"
| "query_wf (DateNode f c v) = is_iso_date v"
| "query_wf (TextNode v) = True"

definition ends_eof :: "Token list \<Rightarrow> bool" where
  "ends_eof ts \<longleftrightarrow> ts \<noteq> [] \<and> tok_type (last ts) = EOF_T"

text \<open>An outcome of a rule started on \<open>ts\<close>: an error at the position of one of its tokens, or a
  well-formed tree and a proper rest of \<open>ts\<close> that still ends with the end token.\<close>

definition good_rest :: "Token list \<Rightarrow> Token list \<Rightarrow> bool" where
  "good_rest ts ts' \<longleftrightarrow> ends_eof ts' \<and> length ts' \<le> length ts \<and> set ts' \<subseteq> set ts"

definition good :: "Token list \<Rightarrow> parsed \<Rightarrow> bool" where
  "good ts r \<longleftrightarrow>
     (case r of
        Inl e \<Rightarrow> error_pos e \<in> tok_pos ` set ts
      | Inr (q, ts') \<Rightarrow> query_wf q \<and> good_rest ts ts')"

definition good_out :: "bool \<Rightarrow> Token list \<Rightarrow> parsed option \<Rightarrow> bool" where
  "good_out strict ts r \<longleftrightarrow>
     (\<exists>o'. r = Some o' \<and> good ts o' \<and>
        (strict \<longrightarrow> (\<forall>q ts'. o' = Inr (q, ts') \<longrightarrow> length ts' < length ts)))"

lemma peek_in_set: "ends_eof ts \<Longrightarrow> peek ts \<in> set ts"
  by (cases ts) (auto simp: ends_eof_def peek_def)

lemma ends_eof_tl: "ends_eof ts \<Longrightarrow> peek_type ts \<noteq> EOF_T \<Longrightarrow> ends_eof (tl ts)"
  by (cases ts) (auto simp: ends_eof_def peek_def split: if_splits)

lemma good_rest_tl: "ends_eof ts \<Longrightarrow> peek_type ts \<noteq> EOF_T \<Longrightarrow> good_rest ts (tl ts)"
  using ends_eof_tl [of ts] by (cases ts) (simp_all add: good_rest_def subset_insertI)

lemma length_tl_less: "ends_eof ts \<Longrightarrow> length (tl ts) < length ts"
  by (cases ts) (auto simp: ends_eof_def)

lemma good_rest_refl: "ends_eof ts \<Longrightarrow> good_rest ts ts"
  by (simp add: good_rest_def)

lemma good_rest_trans: "good_rest ts us \<Longrightarrow> good_rest us vs \<Longrightarrow> good_rest ts vs"
  by (auto simp: good_rest_def)

lemma good_mono: "good us r \<Longrightarrow> good_rest ts us \<Longrightarrow> good ts r"
  by (auto simp: good_def good_rest_def split: sum.splits)

lemma good_outI:
  "r = Some r' \<Longrightarrow> good ts r' \<Longrightarrow> (strict \<Longrightarrow> \<forall>q ts'. r' = Inr (q, ts') \<longrightarrow> length ts' < length ts) \<Longrightarrow>
   good_out strict ts r"
  by (auto simp: good_out_def)

lemma good_out_from:
  assumes "good_out b us r" and rest: "good_rest ts us" and "strict \<Longrightarrow> b \<or> length us < length ts"
  shows "good_out strict ts r"
proof -
  obtain r' where r': "r = Some r'" "good us r'"
    "b \<longrightarrow> (\<forall>q ts'. r' = Inr (q, ts') \<longrightarrow> length ts' < length us)"
    using assms(1) by (auto simp: good_out_def)
  have "good ts r'" using r'(2) rest by (rule good_mono)
  moreover have "strict \<longrightarrow> (\<forall>q ts'. r' = Inr (q, ts') \<longrightarrow> length ts' < length ts)"
    using r'(2,3) rest assms(3) by (fastforce simp: good_def good_rest_def)
  ultimately show ?thesis using r'(1) by (auto simp: good_out_def)
qed

lemma good_out_then:
  assumes m: "good_out b ts m"
    and f: "\<And>q ts'. query_wf q \<Longrightarrow> good_rest ts ts' \<Longrightarrow> (b \<Longrightarrow> length ts' < length ts) \<Longrightarrow> good_out c ts (f q ts')"
  shows "good_out c ts (parsed_then m f)"
proof -
  obtain r where r: "m = Some r" "good ts r"
    "b \<longrightarrow> (\<forall>q ts'. r = Inr (q, ts') \<longrightarrow> length ts' < length ts)"
    using m by (auto simp: good_out_def)
  show ?thesis
  proof (cases r)
    case (Inl e)
    with r show ?thesis by (auto simp: parsed_then_def good_out_def good_def)
  next
    case (Inr x)
    obtain q ts' where x: "x = (q, ts')" by (cases x)
    with r Inr have "query_wf q" "good_rest ts ts'" "b \<Longrightarrow> length ts' < length ts"
      by (auto simp: good_def)
    with f [of q ts'] show ?thesis using r Inr x by (simp add: parsed_then_def)
  qed
qed

lemma good_field_or_text:
  assumes ts: "ends_eof ts" and t: "peek ts = t" "tok_type t = WORD_T"
  shows "good_out True ts (Some (parseFieldOrText (tok_value t) (tok_pos t) (tl ts)))"
proof -
  let ?r = "parseFieldOrText (tok_value t) (tok_pos t) (tl ts)"
  have pos: "tok_pos t \<in> tok_pos ` set ts" using peek_in_set [OF ts] t by auto
  have rest: "good_rest ts (tl ts)" using good_rest_tl [OF ts] t by auto
  have eof: "ends_eof (tl ts)" using ends_eof_tl [OF ts] t by auto
  have less: "length (tl ts) < length ts" using length_tl_less [OF ts] .
  have inl: "good ts (Inl (QueryParseError p (tok_pos t)))" for p
    using pos by (simp add: good_def)
  have inr: "query_wf q \<Longrightarrow> good ts (Inr (q, tl ts))" for q
    using rest by (simp add: good_def)
  have "good ts (parse_in val (tok_pos t) (tl ts)) \<and>
        (\<forall>q ts'. parse_in val (tok_pos t) (tl ts) = Inr (q, ts') \<longrightarrow> length ts' < length ts)" for val
  proof (cases "map_of in_scopes (to_lower val)")
    case None
    then show ?thesis using inl by (simp add: parse_in_def)
  next
    case (Some sc)
    show ?thesis
    proof (cases "peek_type (tl ts) = QUOTED_T \<or> peek_type (tl ts) = WORD_T")
      case True
      then have "good_rest (tl ts) (tl (tl ts))" using good_rest_tl [OF eof] by auto
      then have "good_rest ts (tl (tl ts))" by (rule good_rest_trans [OF rest])
      then show ?thesis
        using Some True less by (auto simp: parse_in_def good_def)
    next
      case False
      have "tok_pos (peek (tl ts)) \<in> tok_pos ` set ts"
        using peek_in_set [OF eof] rest by (auto simp: good_rest_def)
      then show ?thesis using Some False by (auto simp: parse_in_def good_def)
    qed
  qed
  moreover have "good ts (map_sum id (\<lambda>q. (q, tl ts)) (parse_date f val (tok_pos t)))" for f val
    using inl inr by (auto simp: parse_date_def)
  moreover have "normalizeTag (normalizeTag val) = normalizeTag val" for val
    using canonical_normalizeTag normalizeTag_canonical by blast
  ultimately have "good ts ?r \<and> (\<forall>q ts'. ?r = Inr (q, ts') \<longrightarrow> length ts' < length ts)"
    using less inl inr
    by (auto simp: parseFieldOrText_def Let_def parse_date_def split: option.splits if_splits)
  then show ?thesis by (auto simp: good_out_def)
qed

text \<open>A rule, run with fuel \<open>n\<close>, has such an outcome on every token list it has the fuel for.\<close>

definition rule_ok :: "bool \<Rightarrow> nat \<Rightarrow> nat \<Rightarrow> (Token list \<Rightarrow> parsed option) \<Rightarrow> bool" where
  "rule_ok strict k n rule \<longleftrightarrow>
     (\<forall>ts. ends_eof ts \<longrightarrow> 4 * length ts + k \<le> n \<longrightarrow> good_out strict ts (rule ts))"

lemma rule_okI:
  "(\<And>ts. ends_eof ts \<Longrightarrow> 4 * length ts + k \<le> n \<Longrightarrow> good_out strict ts (rule ts)) \<Longrightarrow> rule_ok strict k n rule"
  by (simp add: rule_ok_def)

lemma rule_okD:
  "rule_ok strict k n rule \<Longrightarrow> ends_eof ts \<Longrightarrow> 4 * length ts + k \<le> n \<Longrightarrow> good_out strict ts (rule ts)"
  by (simp add: rule_ok_def)

text \<open>A rule that consumes a token, followed by a continuation that may consume none.\<close>

lemma good_out_seq:
  assumes m: "good_out True us m" and f: "\<And>q. query_wf q \<Longrightarrow> rule_ok False k n (f q)"
    and n: "4 * length us + k \<le> n + 4"
  shows "good_out True us (parsed_then m f)"
proof (rule good_out_then [OF m])
  fix q ts' assume q: "query_wf q" and r: "good_rest us ts'" and l: "True \<Longrightarrow> length ts' < length us"
  have "good_out False ts' (f q ts')"
    using r l n by (intro rule_okD [OF f [OF q]]) (auto simp: good_rest_def)
  then show "good_out True us (f q ts')" by (rule good_out_from) (use r l in auto)
qed

lemma good_out_weaken: "good_out True ts r \<Longrightarrow> good_out False ts r"
  by (auto simp: good_out_def)

lemma parseOr_ok:
  assumes "rule_ok True 3 n (parseAnd n)" and "\<And>q. query_wf q \<Longrightarrow> rule_ok False 4 n (or_loop n q)"
  shows "rule_ok True 4 (Suc n) (parseOr (Suc n))"
  by (rule rule_okI)
    (use assms in \<open>auto intro!: good_out_seq [where k = 4 and n = n] rule_okD [OF assms(1)]\<close>)

lemma parseAnd_ok:
  assumes "rule_ok True 2 n (parseTerm n)" and "\<And>q. query_wf q \<Longrightarrow> rule_ok False 3 n (and_loop n q)"
  shows "rule_ok True 3 (Suc n) (parseAnd (Suc n))"
  by (rule rule_okI)
    (use assms in \<open>auto intro!: good_out_seq [where k = 3 and n = n] rule_okD [OF assms(1)]\<close>)

lemma or_loop_ok:
  assumes a: "rule_ok True 3 n (parseAnd n)" and l: "\<And>q. query_wf q \<Longrightarrow> rule_ok False 4 n (or_loop n q)"
    and q: "query_wf q"
  shows "rule_ok False 4 (Suc n) (or_loop (Suc n) q)"
proof (rule rule_okI)
  fix ts assume ts: "ends_eof ts" and n: "4 * length ts + 4 \<le> Suc n"
  show "good_out False ts (or_loop (Suc n) q ts)"
  proof (cases "peek_type ts = OR_T")
    case True
    have len: "length (tl ts) < length ts" using length_tl_less [OF ts] .
    have "good_out True (tl ts) (parsed_then (parseAnd n (tl ts)) (\<lambda>right. or_loop n (OrNode q right)))"
      by (rule good_out_seq [where k = 4 and n = n])
        (use ends_eof_tl [OF ts] True len n q l in \<open>auto intro!: rule_okD [OF a]\<close>)
    then have "good_out False ts (parsed_then (parseAnd n (tl ts)) (\<lambda>right. or_loop n (OrNode q right)))"
      by (rule good_out_from) (use good_rest_tl [OF ts] True in auto)
    with True show ?thesis by simp
  next
    case False
    then show ?thesis using q good_rest_refl [OF ts] by (simp add: good_out_def good_def)
  qed
qed

lemma and_loop_ok:
  assumes t: "rule_ok True 2 n (parseTerm n)" and l: "\<And>q. query_wf q \<Longrightarrow> rule_ok False 3 n (and_loop n q)"
    and q: "query_wf q"
  shows "rule_ok False 3 (Suc n) (and_loop (Suc n) q)"
proof (rule rule_okI)
  fix ts assume ts: "ends_eof ts" and n: "4 * length ts + 3 \<le> Suc n"
  define us where "us = (if peek_type ts = AND_T then tl ts else ts)"
  have eof: "ends_eof us" and rest: "good_rest ts us"
    using ends_eof_tl [OF ts] good_rest_tl [OF ts] ts good_rest_refl [OF ts] by (auto simp: us_def)
  have len: "length us \<le> length ts" using rest by (simp add: good_rest_def)
  have "good_out True us (parsed_then (parseTerm n us) (\<lambda>right. and_loop n (AndNode q right)))"
    by (rule good_out_seq [where k = 3 and n = n]) (use eof len n q l in \<open>auto intro!: rule_okD [OF t]\<close>)
  then have "good_out False ts (parsed_then (parseTerm n us) (\<lambda>right. and_loop n (AndNode q right)))"
    by (rule good_out_from) (use rest in auto)
  then show "good_out False ts (and_loop (Suc n) q ts)"
    using q good_rest_refl [OF ts] by (simp add: us_def good_out_def good_def)
qed

lemma parseTerm_ok:
  assumes a: "rule_ok True 1 n (parseAtom n)"
  shows "rule_ok True 2 (Suc n) (parseTerm (Suc n))"
proof (rule rule_okI)
  fix ts assume ts: "ends_eof ts" and n: "4 * length ts + 2 \<le> Suc n"
  show "good_out True ts (parseTerm (Suc n) ts)"
  proof (cases "peek_type ts = NOT_T")
    case True
    have "good_out True (tl ts) (parseAtom n (tl ts))"
      using ends_eof_tl [OF ts] True length_tl_less [OF ts] n by (intro rule_okD [OF a]) auto
    then have "good_out True (tl ts) (parsed_then (parseAtom n (tl ts)) (\<lambda>q ts'. Some (Inr (NotNode q, ts'))))"
      by (rule good_out_then) (auto simp: good_out_def good_def)
    then have "good_out True ts (parsed_then (parseAtom n (tl ts)) (\<lambda>q ts'. Some (Inr (NotNode q, ts'))))"
      by (rule good_out_from) (use good_rest_tl [OF ts] True in auto)
    with True show ?thesis by simp
  next
    case False
    then show ?thesis using ts n by (simp add: rule_okD [OF a])
  qed
qed

definition close_paren :: "QueryNode \<Rightarrow> Token list \<Rightarrow> parsed option" where
  "close_paren q ts =
     (if peek_type ts = RPAREN_T then Some (Inr (q, tl ts))
      else Some (Inl (QueryParseError (Expected RPAREN_T (peek_type ts) (tok_value (peek ts)))
                        (tok_pos (peek ts)))))"

lemma close_paren_ok:
  assumes q: "query_wf q" and ts: "ends_eof ts"
  shows "good_out False ts (close_paren q ts)"
  using q good_rest_tl [OF ts] peek_in_set [OF ts] by (auto simp: close_paren_def good_out_def good_def)

lemma parseAtom_ok:
  assumes o_: "rule_ok True 4 n (parseOr n)"
  shows "rule_ok True 1 (Suc n) (parseAtom (Suc n))"
proof (rule rule_okI)
  fix ts assume ts: "ends_eof ts" and n: "4 * length ts + 1 \<le> Suc n"
  have len: "length (tl ts) < length ts" using length_tl_less [OF ts] .
  consider (lp) "peek_type ts = LPAREN_T" | (quoted) "peek_type ts = QUOTED_T"
    | (word) "peek_type ts = WORD_T"
    | (other) "peek_type ts \<noteq> LPAREN_T" "peek_type ts \<noteq> QUOTED_T" "peek_type ts \<noteq> WORD_T" by blast
  then show "good_out True ts (parseAtom (Suc n) ts)"
  proof cases
    case lp
    have "good_out True (tl ts) (parseOr n (tl ts))"
      using ends_eof_tl [OF ts] lp len n by (intro rule_okD [OF o_]) auto
    then have "good_out True (tl ts) (parsed_then (parseOr n (tl ts)) close_paren)"
    proof (rule good_out_then)
      fix q ts' assume q: "query_wf q" and r: "good_rest (tl ts) ts'" and l: "True \<Longrightarrow> length ts' < length (tl ts)"
      have "good_out False ts' (close_paren q ts')" using q r by (simp add: close_paren_ok good_rest_def)
      then show "good_out True (tl ts) (close_paren q ts')" by (rule good_out_from) (use r l in auto)
    qed
    then have "good_out True ts (parsed_then (parseOr n (tl ts)) close_paren)"
      by (rule good_out_from) (use good_rest_tl [OF ts] lp in auto)
    with lp show ?thesis by (simp add: close_paren_def [abs_def])
  next
    case quoted
    then show ?thesis using good_rest_tl [OF ts] len by (simp add: good_out_def good_def)
  next
    case word
    then show ?thesis using good_field_or_text [OF ts refl word] by simp
  next
    case other
    then show ?thesis using peek_in_set [OF ts] by (simp add: good_out_def good_def)
  qed
qed

text \<open>With four units of fuel for every token each rule has an outcome of this kind, and every rule
  but the two loops consumes a token when it succeeds.\<close>

lemma parser_outcome:
  "rule_ok True 4 n (parseOr n) \<and> (\<forall>q. query_wf q \<longrightarrow> rule_ok False 4 n (or_loop n q)) \<and>
   rule_ok True 3 n (parseAnd n) \<and> (\<forall>q. query_wf q \<longrightarrow> rule_ok False 3 n (and_loop n q)) \<and>
   rule_ok True 2 n (parseTerm n) \<and> rule_ok True 1 n (parseAtom n)"
proof (induction n)
  case 0
  then show ?case by (simp add: rule_ok_def)
next
  case (Suc n)
  then show ?case
    by (blast intro: parseOr_ok or_loop_ok parseAnd_ok and_loop_ok parseTerm_ok parseAtom_ok)
qed

definition positioned :: "nat \<Rightarrow> nat \<Rightarrow> Token list \<Rightarrow> bool" where
  "positioned n m ts \<longleftrightarrow> ends_eof ts \<and> (\<forall>t \<in> set ts. n \<le> tok_pos t \<and> tok_pos t \<le> m)"

lemma positioned_Cons:
  "positioned n' m ts \<Longrightarrow> n \<le> n' \<Longrightarrow> n \<le> m \<Longrightarrow> positioned n m (token k v n # ts)"
  by (auto simp: positioned_def ends_eof_def)

lemma positioned_mono: "positioned n' m ts \<Longrightarrow> n \<le> n' \<Longrightarrow> positioned n m ts"
  by (auto simp: positioned_def)

lemma tokens_from_positioned: "positioned n (n + length s) (tokens_from n s)"
proof (induction n s rule: tokens_from.induct)
  case (1 n)
  then show ?case by (simp add: positioned_def ends_eof_def)
next
  case (2 n c s)
  let ?w = "takeWhile (\<lambda>c. \<not> word_stop c) (c # s)" and ?r = "dropWhile (\<lambda>c. \<not> word_stop c) (c # s)"
  let ?q = "snd (scan_quoted s)" and ?v = "snd (scan_value (tl ?r))"
  consider (one) "is_space c \<or> c = CHR ''('' \<or> c = CHR '')''"
    | (quoted) "\<not> is_space c" "c \<noteq> CHR ''(''" "c \<noteq> CHR '')''" "c = quote_char"
    | (word) "\<not> (is_space c \<or> c = CHR ''('' \<or> c = CHR '')'' \<or> c = quote_char)" by blast
  then show ?case
  proof cases
    case one
    then show ?thesis using 2(1-3) by (auto intro: positioned_Cons positioned_mono)
  next
    case quoted
    have "length ?q \<le> length s" by (rule scan_quoted_length)
    then have "n + 1 + (length s - length ?q) + length ?q = n + length (c # s)" by simp
    with quoted 2(4) show ?thesis by (auto intro!: positioned_Cons)
  next
    case word
    show ?thesis
    proof (cases "?r \<noteq> [] \<and> hd ?r = CHR '':''")
      case True
      then have "length ?v < length (c # s)" by (intro scan_value_shorter) simp
      then have "n + (length (c # s) - length ?v) + length ?v = n + length (c # s)" by simp
      with word True 2(5) [OF _ _ _ _ refl refl] show ?thesis
        by (auto intro!: positioned_Cons simp: Let_def)
    next
      case False
      have "length ?w + length ?r = length (c # s)"
        by (metis length_append takeWhile_dropWhile_id)
      then have "n + length ?w + length ?r = n + length (c # s)" by simp
      with word False 2(6,7) [OF _ _ _ _ refl refl] show ?thesis
        by (auto intro!: positioned_Cons intro: positioned_mono simp: Let_def simp del: takeWhile.simps dropWhile.simps)
    qed
  qed
qed

lemma tokenize_ends: "ends_eof (tokenize s)"
  using tokens_from_positioned [of 0 s] by (simp add: tokenize_def positioned_def)

lemma tokenize_pos: "t \<in> set (tokenize s) \<Longrightarrow> tok_pos t \<le> length s"
  using tokens_from_positioned [of 0 s] by (auto simp: tokenize_def positioned_def)

lemma parseQuery_outcome:
  "\<exists>r. parseQuery s = Some r \<and>
     (case r of Inl e \<Rightarrow> error_pos e \<le> length s | Inr q \<Rightarrow> query_wf q)"
proof -
  let ?ts = "tokenize s"
  have "good_out True ?ts (parseOr (4 * length ?ts + 4) ?ts)"
    by (rule rule_okD [OF parser_outcome [THEN conjunct1]]) (auto simp: tokenize_ends)
  then obtain r where r: "parseOr (4 * length ?ts + 4) ?ts = Some r" and g: "good ?ts r"
    by (auto simp: good_out_def)
  show ?thesis
  proof (cases r)
    case (Inl e)
    with r g show ?thesis by (auto simp: parseQuery_def Let_def good_def tokenize_pos)
  next
    case (Inr x)
    obtain q ts' where x: "x = (q, ts')" by (cases x)
    with g Inr have q: "query_wf q" and ts': "ends_eof ts'" "set ts' \<subseteq> set ?ts"
      by (auto simp: good_def good_rest_def)
    have "tok_pos (peek ts') \<le> length s" using peek_in_set [OF ts'(1)] ts'(2) tokenize_pos by blast
    with r Inr x q show ?thesis by (simp add: parseQuery_def Let_def)
  qed
qed

text \<open>C20: parsing ends on every input; it gives a tree the language can express (status and task
  values in lower case, tags canonical, dates in the ISO form, no required value missing), or an
  error that points into the input.\<close>

theorem parseQuery_total:
  "case parseQuery s of
     None \<Rightarrow> False
   | Some (Inl e) \<Rightarrow> error_pos e \<le> length s
   | Some (Inr q) \<Rightarrow> query_wf q"
  using parseQuery_outcome [of s] by auto

section \<open>Writing a query down\<close>

fun escape_quoted :: "string \<Rightarrow> string" where
  "escape_quoted [] = []"
| "escape_quoted (c # s) =
     (if c = quote_char \<or> c = backslash_char then backslash_char # c # escape_quoted s
      else c # escape_quoted s)"

definition quoted :: "string \<Rightarrow> string" where
  "quoted s = quote_char # escape_quoted s @ [quote_char]"

definition field_name :: "QueryField \<Rightarrow> string" where
  "field_name f =
     (case f of StatusField \<Rightarrow> ''status'' | GoalField \<Rightarrow> ''goal'' | TaskField \<Rightarrow> ''task'' | TagField \<Rightarrow> ''tag'')"

definition scope_name :: "('a \<times> 'b) list \<Rightarrow> 'b \<Rightarrow> 'a" where
  "scope_name scopes s = (case find (\<lambda>(_, s'). s' = s) scopes of Some (n, _) \<Rightarrow> n)"

definition date_name :: "DateField \<Rightarrow> string" where
  "date_name f = (case f of CreatedField \<Rightarrow> ''created'' | UpdatedField \<Rightarrow> ''updated'')"

definition in_parens :: "string \<Rightarrow> string" where
  "in_parens s = ''('' @ s @ '')''"

fun printQuery :: "QueryNode \<Rightarrow> string" where
  "printQuery (AndNode l r) = in_parens (printQuery l) @ '' '' @ ''AND'' @ '' '' @ in_parens (printQuery r)"
| "printQuery (OrNode l r) = in_parens (printQuery l) @ '' '' @ ''OR'' @ '' '' @ in_parens (printQuery r)"
| "printQuery (NotNode q) = ''NOT'' @ '' '' @ in_parens (printQuery q)"
| "printQuery (FieldNode f v) = field_name f @ '':'' @ quoted v"
| "printQuery (InNode s v) = (''in'' @ '':'' @ scope_name in_scopes s) @ '' '' @ quoted v"
| "printQuery (HasNode s) = ''has'' @ '':'' @ scope_name has_scopes s"
| "printQuery (DateNode f c v) =
     date_name f @ '':'' @ (case c of After \<Rightarrow> ''>'' | Before \<Rightarrow> ''<'') @ v"
| "printQuery (TextNode v) = quoted v"

lemma scan_quoted_escape: "scan_quoted (escape_quoted v @ quote_char # rest) = (v, rest)"
proof (induction v)
  case Nil
  then show ?case by (cases rest) auto
next
  case (Cons c v)
  obtain d s where ds: "escape_quoted v @ quote_char # rest = d # s"
    by (cases "escape_quoted v @ quote_char # rest") auto
  show ?case using Cons ds by (auto split: prod.splits)
qed

text \<open>What a text reads as: \<open>lexes s ts\<close> says that \<open>s\<close>, followed by anything that does not continue
  its last word, gives the tokens \<open>ts\<close> up to their positions.\<close>

definition breaks :: "string \<Rightarrow> bool" where
  "breaks s \<longleftrightarrow> s = [] \<or> hd s = CHR '' '' \<or> hd s = CHR '')''"

definition lexes :: "string \<Rightarrow> (TokenType \<times> string) list \<Rightarrow> bool" where
  "lexes s tvs \<longleftrightarrow>
     (\<forall>n rest. breaks rest \<longrightarrow>
        (\<exists>ts m. tokens_from n (s @ rest) = ts @ tokens_from m rest \<and>
                map (\<lambda>t. (tok_type t, tok_value t)) ts = tvs))"

abbreviation shape :: "Token list \<Rightarrow> (TokenType \<times> string) list" where
  "shape ts \<equiv> map (\<lambda>t. (tok_type t, tok_value t)) ts"

lemma lexesI:
  "(\<And>n rest. breaks rest \<Longrightarrow>
      \<exists>ts m. tokens_from n (s @ rest) = ts @ tokens_from m rest \<and> shape ts = tvs) \<Longrightarrow> lexes s tvs"
  by (simp add: lexes_def)

lemma lexesE:
  assumes "lexes s tvs" and "breaks rest"
  obtains ts m where "tokens_from n (s @ rest) = ts @ tokens_from m rest" "shape ts = tvs"
  using assms unfolding lexes_def by blast

lemma lexes_single:
  "(\<And>n rest. breaks rest \<Longrightarrow> \<exists>m. tokens_from n (s @ rest) = token k v n # tokens_from m rest) \<Longrightarrow>
   lexes s [(k, v)]"
proof (rule lexesI)
  fix n rest
  assume *: "\<And>n rest. breaks rest \<Longrightarrow> \<exists>m. tokens_from n (s @ rest) = token k v n # tokens_from m rest"
    and "breaks rest"
  then obtain m where "tokens_from n (s @ rest) = token k v n # tokens_from m rest" by blast
  then show "\<exists>ts m. tokens_from n (s @ rest) = ts @ tokens_from m rest \<and> shape ts = [(k, v)]"
    by (intro exI [of _ "[token k v n]"] exI [of _ m]) simp
qed

lemma lexes_seq:
  assumes s: "lexes s tvs" and t: "lexes t tws"
  shows "lexes (s @ '' '' @ t) (tvs @ tws)"
proof (rule lexesI)
  fix n rest assume b: "breaks rest"
  have "breaks ('' '' @ t @ rest)" by (simp add: breaks_def)
  then obtain ts m where 1: "tokens_from n (s @ '' '' @ t @ rest) = ts @ tokens_from m ('' '' @ t @ rest)"
    "shape ts = tvs" by (rule lexesE [OF s])
  obtain us k where 2: "tokens_from (m + 1) (t @ rest) = us @ tokens_from k rest" "shape us = tws"
    by (rule lexesE [OF t b])
  have "tokens_from m ('' '' @ t @ rest) = tokens_from (m + 1) (t @ rest)"
    by (simp add: is_space_def)
  with 1 2 show "\<exists>ts k. tokens_from n ((s @ '' '' @ t) @ rest) = ts @ tokens_from k rest \<and> shape ts = tvs @ tws"
    by (intro exI [of _ "ts @ us"] exI [of _ k]) simp
qed

lemma lexes_parens:
  assumes s: "lexes s tvs"
  shows "lexes (in_parens s) ((LPAREN_T, ''('') # tvs @ [(RPAREN_T, '')'')])"
proof (rule lexesI)
  fix n rest assume b: "breaks rest"
  have "breaks ('')'' @ rest)" by (simp add: breaks_def)
  then obtain ts m where 1: "tokens_from (n + 1) (s @ '')'' @ rest) = ts @ tokens_from m ('')'' @ rest)"
    "shape ts = tvs" by (rule lexesE [OF s])
  have "tokens_from n (in_parens s @ rest) = token LPAREN_T ''('' n # tokens_from (n + 1) (s @ '')'' @ rest)"
    by (simp add: in_parens_def is_space_def)
  moreover have "tokens_from m ('')'' @ rest) = token RPAREN_T '')'' m # tokens_from (m + 1) rest"
    by (simp add: is_space_def)
  ultimately show "\<exists>ts k. tokens_from n (in_parens s @ rest) = ts @ tokens_from k rest \<and>
      shape ts = (LPAREN_T, ''('') # tvs @ [(RPAREN_T, '')'')]"
    using 1 by (intro exI [of _ "token LPAREN_T ''('' n # ts @ [token RPAREN_T '')'' m]"] exI [of _ "m + 1"]) simp
qed

lemma tokens_from_word:
  assumes w: "w \<noteq> []" "\<forall>c \<in> set w. \<not> word_stop c" and r: "rest = [] \<or> word_stop (hd rest)"
  shows "tokens_from n (w @ rest) =
    (if rest \<noteq> [] \<and> hd rest = CHR '':''
     then token WORD_T (w @ '':'' @ fst (scan_value (tl rest))) n
            # tokens_from (n + (length (w @ rest) - length (snd (scan_value (tl rest))))) (snd (scan_value (tl rest)))
     else token (word_type w) w n # tokens_from (n + length w) rest)"
proof -
  obtain c s where cs: "w = c # s" using w(1) by (cases w) auto
  have c: "\<not> is_space c" "c \<noteq> CHR ''(''" "c \<noteq> CHR '')''" "c \<noteq> quote_char"
    using w(2) cs by (auto simp: word_stop_def value_stop_def)
  have tw: "takeWhile (\<lambda>c. \<not> word_stop c) (w @ rest) = w"
    and dw: "dropWhile (\<lambda>c. \<not> word_stop c) (w @ rest) = rest"
    using w(2) r by (cases rest; simp add: takeWhile_append2 dropWhile_append2)+
  show ?thesis
    using c tw dw cs by (simp add: Let_def del: takeWhile.simps dropWhile.simps)
qed

lemma breaks_stop: "breaks rest \<Longrightarrow> rest = [] \<or> (word_stop (hd rest) \<and> hd rest \<noteq> CHR '':'')"
  by (auto simp: breaks_def word_stop_def value_stop_def is_space_def)

lemma lexes_word:
  assumes "w \<noteq> []" "\<forall>c \<in> set w. \<not> word_stop c"
  shows "lexes w [(word_type w, w)]"
  by (rule lexes_single) (use tokens_from_word [OF assms] breaks_stop in fastforce)

lemma lexes_quoted: "lexes (quoted v) [(QUOTED_T, v)]"
proof (rule lexes_single)
  fix n rest
  have "scan_quoted (escape_quoted v @ quote_char # rest) = (v, rest)" by (rule scan_quoted_escape)
  then show "\<exists>m. tokens_from n (quoted v @ rest) = token QUOTED_T v n # tokens_from m rest"
    by (auto simp: quoted_def is_space_def)
qed

lemma lexes_field_quoted:
  assumes "w \<noteq> []" "\<forall>c \<in> set w. \<not> word_stop c"
  shows "lexes (w @ '':'' @ quoted v) [(WORD_T, w @ '':'' @ v)]"
proof (rule lexes_single)
  fix n rest
  have "scan_quoted (escape_quoted v @ quote_char # rest) = (v, rest)" by (rule scan_quoted_escape)
  then have "scan_value (quoted v @ rest) = (v, rest)" by (simp add: scan_value_def quoted_def)
  then show "\<exists>m. tokens_from n ((w @ '':'' @ quoted v) @ rest) = token WORD_T (w @ '':'' @ v) n # tokens_from m rest"
    using tokens_from_word [OF assms, of "'':'' @ quoted v @ rest" n] by (auto simp: word_stop_def)
qed

lemma scan_value_bare:
  assumes v: "\<forall>c \<in> set v. \<not> value_stop c" and b: "breaks rest"
  shows "scan_value (v @ rest) = (v, rest)"
proof -
  have r: "rest = [] \<or> value_stop (hd rest)" and q: "rest = [] \<or> hd rest \<noteq> quote_char"
    using b by (auto simp: breaks_def value_stop_def is_space_def)
  have tw: "takeWhile (\<lambda>c. \<not> value_stop c) (v @ rest) = v"
    and dw: "dropWhile (\<lambda>c. \<not> value_stop c) (v @ rest) = rest"
    using v r by (cases rest; simp add: takeWhile_append2 dropWhile_append2)+
  have "v @ rest = [] \<or> hd (v @ rest) \<noteq> quote_char"
    using v q by (cases v) (auto simp: value_stop_def)
  then show ?thesis
    using tw dw by (cases "v @ rest") (auto simp: scan_value_def simp del: takeWhile.simps dropWhile.simps)
qed

lemma lexes_field_bare:
  assumes "w \<noteq> []" "\<forall>c \<in> set w. \<not> word_stop c" and v: "\<forall>c \<in> set v. \<not> value_stop c"
  shows "lexes (w @ '':'' @ v) [(WORD_T, w @ '':'' @ v)]"
proof (rule lexes_single)
  fix n rest assume "breaks rest"
  then have "scan_value (v @ rest) = (v, rest)" by (rule scan_value_bare [OF v])
  then show "\<exists>m. tokens_from n ((w @ '':'' @ v) @ rest) = token WORD_T (w @ '':'' @ v) n # tokens_from m rest"
    using tokens_from_word [OF assms(1,2), of "'':'' @ v @ rest" n] by (auto simp: word_stop_def)
qed

text \<open>What the rules make of tokens of a given shape: \<open>reads_atom\<close> for a single atom whatever
  follows it, \<open>reads\<close> for a whole expression up to a closing parenthesis or the end.\<close>

definition reads_atom :: "(TokenType \<times> string) list \<Rightarrow> QueryNode \<Rightarrow> bool" where
  "reads_atom tvs q \<longleftrightarrow>
     tvs \<noteq> [] \<and> fst (hd tvs) \<in> {WORD_T, QUOTED_T, LPAREN_T} \<and>
     (\<forall>ts rest n. shape ts = tvs \<longrightarrow> 4 * length (ts @ rest) + 1 \<le> n \<longrightarrow>
        parseAtom n (ts @ rest) = Some (Inr (q, rest)))"

definition closes :: "Token list \<Rightarrow> bool" where
  "closes rest \<longleftrightarrow> peek_type rest = RPAREN_T \<or> peek_type rest = EOF_T"

definition reads :: "(TokenType \<times> string) list \<Rightarrow> QueryNode \<Rightarrow> bool" where
  "reads tvs q \<longleftrightarrow>
     (\<forall>ts rest n. shape ts = tvs \<longrightarrow> closes rest \<longrightarrow> 4 * length (ts @ rest) + 4 \<le> n \<longrightarrow>
        parseOr n (ts @ rest) = Some (Inr (q, rest)))"

lemma peek_Cons [simp]: "peek (t # ts) = t"
  by (simp add: peek_def)

lemma peek_append: "ts \<noteq> [] \<Longrightarrow> peek (ts @ rest) = hd ts"
  by (cases ts) auto

lemma parsed_then_Inr [simp]: "parsed_then (Some (Inr (q, ts))) f = f q ts"
  by (simp add: parsed_then_def)

lemma reads_atomD:
  "reads_atom tvs q \<Longrightarrow> shape ts = tvs \<Longrightarrow> 4 * length (ts @ rest) + 1 \<le> n \<Longrightarrow>
   parseAtom n (ts @ rest) = Some (Inr (q, rest))"
  by (simp add: reads_atom_def)

lemma reads_atom_peek:
  "reads_atom tvs q \<Longrightarrow> shape ts = tvs \<Longrightarrow>
   peek_type (ts @ rest) \<in> {WORD_T, QUOTED_T, LPAREN_T}"
  by (cases ts) (auto simp: reads_atom_def)

lemma parseTerm_atom:
  "reads_atom tvs q \<Longrightarrow> shape ts = tvs \<Longrightarrow> 4 * length (ts @ rest) + 2 \<le> n \<Longrightarrow>
   parseTerm n (ts @ rest) = Some (Inr (q, rest))"
  using reads_atom_peek [of tvs q ts rest] by (cases n) (auto intro: reads_atomD)

lemma and_loop_closes: "closes rest \<Longrightarrow> 0 < n \<Longrightarrow> and_loop n q rest = Some (Inr (q, rest))"
  by (cases n) (auto simp: closes_def isTermStart_def)

lemma and_loop_or: "peek_type rest = OR_T \<Longrightarrow> 0 < n \<Longrightarrow> and_loop n q rest = Some (Inr (q, rest))"
  by (cases n) (auto simp: isTermStart_def)

lemma or_loop_closes: "closes rest \<Longrightarrow> 0 < n \<Longrightarrow> or_loop n q rest = Some (Inr (q, rest))"
  by (cases n) (auto simp: closes_def)

lemma reads_term:
  assumes "\<And>ts rest n. shape ts = tvs \<Longrightarrow> 4 * length (ts @ rest) + 2 \<le> n \<Longrightarrow>
             parseTerm n (ts @ rest) = Some (Inr (q, rest))"
  shows "reads tvs q"
  unfolding reads_def
proof (intro allI impI)
  fix ts rest n assume *: "shape ts = tvs" "closes rest" "4 * length (ts @ rest) + 4 \<le> n"
  obtain k where n: "n = Suc (Suc k)" using *(3) by (intro that [of "n - 2"]) auto
  have "parseTerm k (ts @ rest) = Some (Inr (q, rest))" using * n by (intro assms) auto
  then show "parseOr n (ts @ rest) = Some (Inr (q, rest))"
    using * n by (simp add: and_loop_closes or_loop_closes del: parseTerm.simps and_loop.simps or_loop.simps)
qed

lemma reads_atom_reads: "reads_atom tvs q \<Longrightarrow> reads tvs q"
  by (rule reads_term) (rule parseTerm_atom)

lemma reads_parens:
  assumes "reads tvs q"
  shows "reads_atom ((LPAREN_T, l) # tvs @ [(RPAREN_T, r)]) q"
  unfolding reads_atom_def
proof (intro conjI allI impI)
  fix ts rest n
  assume sh: "shape ts = (LPAREN_T, l) # tvs @ [(RPAREN_T, r)]" and n: "4 * length (ts @ rest) + 1 \<le> n"
  then obtain lp us rp where ts: "ts = lp # us @ [rp]" and lp: "tok_type lp = LPAREN_T"
    and us: "shape us = tvs" and rp: "tok_type rp = RPAREN_T"
    by (auto simp: map_eq_append_conv map_eq_Cons_conv)
  obtain k where k: "n = Suc k" using n by (cases n) auto
  have "parseOr k (us @ rp # rest) = Some (Inr (q, rp # rest))"
    using assms us n k ts rp by (auto simp: reads_def closes_def)
  then show "parseAtom n (ts @ rest) = Some (Inr (q, rest))"
    using k ts lp rp by simp
qed auto

lemma reads_not:
  assumes "reads_atom tvs q"
  shows "reads ((NOT_T, v) # tvs) (NotNode q)"
proof (rule reads_term)
  fix ts rest n
  assume sh: "shape ts = (NOT_T, v) # tvs" and n: "4 * length (ts @ rest) + 2 \<le> n"
  then obtain t us where ts: "ts = t # us" "tok_type t = NOT_T" "shape us = tvs"
    by (auto simp: map_eq_Cons_conv)
  obtain k where k: "n = Suc k" using n by (cases n) auto
  have "parseAtom k (us @ rest) = Some (Inr (q, rest))" using assms ts n k by (auto intro!: reads_atomD)
  then show "parseTerm n (ts @ rest) = Some (Inr (NotNode q, rest))" using k ts by simp
qed

lemma fuel4: "4 * m + 4 \<le> n \<Longrightarrow> 1 \<le> m \<Longrightarrow> \<exists>k. n = Suc (Suc (Suc k)) \<and> 4 * m + 1 \<le> k"
  by (rule exI [of _ "n - 3"]) auto

lemma reads_and:
  assumes l: "reads_atom tvs p" and r: "reads_atom tws q"
  shows "reads (tvs @ (AND_T, v) # tws) (AndNode p q)"
  unfolding reads_def
proof (intro allI impI)
  fix ts rest n
  assume sh: "shape ts = tvs @ (AND_T, v) # tws" and c: "closes rest" and n: "4 * length (ts @ rest) + 4 \<le> n"
  obtain us t ws where ts: "ts = us @ t # ws" and us: "shape us = tvs" and t: "tok_type t = AND_T"
    and ws: "shape ws = tws"
    using sh by (auto simp: map_eq_append_conv map_eq_Cons_conv)
  obtain k where k: "n = Suc (Suc (Suc k))" "4 * length (ts @ rest) + 1 \<le> k"
    using fuel4 [OF n] ts by auto
  have 1: "parseTerm (Suc k) (us @ t # ws @ rest) = Some (Inr (p, t # ws @ rest))"
    using parseTerm_atom [OF l us, of "t # ws @ rest" "Suc k"] ts k by simp
  have 2: "parseTerm k (ws @ rest) = Some (Inr (q, rest))"
    using parseTerm_atom [OF r ws, of rest k] ts k by simp
  have "parseAnd (Suc (Suc k)) (us @ t # ws @ rest) = Some (Inr (AndNode p q, rest))"
    using 1 2 t c k by (auto simp: and_loop_closes simp del: parseTerm.simps)
  then show "parseOr n (ts @ rest) = Some (Inr (AndNode p q, rest))"
    using ts k(1) c by (auto simp: closes_def simp del: parseAnd.simps)
qed

lemma parseAnd_atom:
  assumes a: "reads_atom tvs q" and sh: "shape ts = tvs" and n: "4 * length (ts @ rest) + 3 \<le> n"
    and c: "closes rest \<or> peek_type rest = OR_T"
  shows "parseAnd n (ts @ rest) = Some (Inr (q, rest))"
proof -
  obtain k where k: "n = Suc k" "4 * length (ts @ rest) + 2 \<le> k" using n by (cases n) auto
  then have "parseTerm k (ts @ rest) = Some (Inr (q, rest))" by (intro parseTerm_atom [OF a sh])
  then show ?thesis using k c by (auto simp: and_loop_closes and_loop_or)
qed

lemma reads_or:
  assumes l: "reads_atom tvs p" and r: "reads_atom tws q"
  shows "reads (tvs @ (OR_T, v) # tws) (OrNode p q)"
  unfolding reads_def
proof (intro allI impI)
  fix ts rest n
  assume sh: "shape ts = tvs @ (OR_T, v) # tws" and c: "closes rest" and n: "4 * length (ts @ rest) + 4 \<le> n"
  obtain us t ws where ts: "ts = us @ t # ws" and us: "shape us = tvs" and t: "tok_type t = OR_T"
    and ws: "shape ws = tws"
    using sh by (auto simp: map_eq_append_conv map_eq_Cons_conv)
  obtain k where k: "n = Suc (Suc (Suc k))" "4 * length (ts @ rest) + 1 \<le> k"
    using fuel4 [OF n] ts by auto
  have 1: "parseAnd (Suc (Suc k)) (us @ t # ws @ rest) = Some (Inr (p, t # ws @ rest))"
    using parseAnd_atom [OF l us, of "t # ws @ rest" "Suc (Suc k)"] ts k t by simp
  have 2: "parseAnd (Suc k) (ws @ rest) = Some (Inr (q, rest))"
    using parseAnd_atom [OF r ws, of rest "Suc k"] ts k c by simp
  show "parseOr n (ts @ rest) = Some (Inr (OrNode p q, rest))"
    using 1 2 ts k(1) t c by (auto simp: closes_def simp del: parseAnd.simps)
qed

text \<open>The leaves.\<close>

lemma reads_atom_quoted: "reads_atom [(QUOTED_T, v)] (TextNode v)"
  unfolding reads_atom_def
proof (intro conjI allI impI)
  fix ts rest n
  assume "shape ts = [(QUOTED_T, v)]" and "4 * length (ts @ rest) + 1 \<le> n"
  then show "parseAtom n (ts @ rest) = Some (Inr (TextNode v, rest))"
    by (cases n) (auto simp: map_eq_Cons_conv)
qed auto

lemma reads_atom_word:
  assumes "\<And>pos ts. parseFieldOrText w pos ts = Inr (q, ts)"
  shows "reads_atom [(WORD_T, w)] q"
  unfolding reads_atom_def
proof (intro conjI allI impI)
  fix ts rest n
  assume "shape ts = [(WORD_T, w)]" and n: "4 * length (ts @ rest) + 1 \<le> n"
  then obtain t where t: "ts = [t]" "tok_type t = WORD_T" "tok_value t = w"
    by (auto simp: map_eq_Cons_conv)
  show "parseAtom n (ts @ rest) = Some (Inr (q, rest))"
    using n by (cases n) (simp_all add: t assms)
qed auto

lemma split_colon:
  assumes "CHR '':'' \<notin> set f"
  shows "takeWhile (\<lambda>c. c \<noteq> CHR '':'') (f @ '':'' @ v) = f"
    and "tl (dropWhile (\<lambda>c. c \<noteq> CHR '':'') (f @ '':'' @ v)) = v"
  using assms by (induction f) auto

lemma field_or_text_split:
  assumes "CHR '':'' \<notin> set f" "to_lower f = f"
  shows "parseFieldOrText (f @ '':'' @ v) pos ts =
     (let fail = (\<lambda>p. Inl (QueryParseError p pos))
      in if f = ''status'' then
           (if v = [] then fail (RequiresValue StatusField) else Inr (FieldNode StatusField (to_lower v), ts))
         else if f = ''goal'' then
           (if v = [] then fail (RequiresValue GoalField) else Inr (FieldNode GoalField v, ts))
         else if f = ''task'' then
           (if v = [] then fail (RequiresValue TaskField) else Inr (FieldNode TaskField (to_lower v), ts))
         else if f = ''code'' \<and> v \<noteq> [] then fail (CodeRenamed v)
         else if f = ''tag'' then
           (if v = [] then fail (RequiresValue TagField)
            else if normalizeTag v = [] then fail (NotATag v)
            else Inr (FieldNode TagField (normalizeTag v), ts))
         else if f = ''in'' then parse_in v pos ts
         else if f = ''has'' then
           (case map_of has_scopes (to_lower v) of
              None \<Rightarrow> fail (BadHasScope v)
            | Some scope \<Rightarrow> Inr (HasNode scope, ts))
         else if f = ''created'' \<or> f = ''updated'' then
           map_sum id (\<lambda>q. (q, ts)) (parse_date (if f = ''created'' then CreatedField else UpdatedField) v pos)
         else Inr (TextNode (f @ '':'' @ v), ts))"
proof -
  have "CHR '':'' \<in> set (f @ '':'' @ v)" by simp
  then show ?thesis
    unfolding parseFieldOrText_def Let_def split_colon [OF assms(1)] assms(2) by (simp only: not_True_eq_False if_False)
qed

definition plain_name :: "string \<Rightarrow> bool" where
  "plain_name f \<longleftrightarrow> f \<noteq> [] \<and> (\<forall>c \<in> set f. \<not> word_stop c) \<and> to_lower f = f"

lemma plain_nameD:
  "plain_name f \<Longrightarrow> f \<noteq> []" "plain_name f \<Longrightarrow> \<forall>c \<in> set f. \<not> word_stop c"
  "plain_name f \<Longrightarrow> CHR '':'' \<notin> set f" "plain_name f \<Longrightarrow> to_lower f = f"
  by (auto simp: plain_name_def word_stop_def)

lemma plain_field_name: "plain_name (field_name f)"
  by (induction f; code_simp)

lemma plain_date_name: "plain_name (date_name d)"
  by (induction d; code_simp)

lemma plain_in_scope: "plain_name (scope_name in_scopes i)"
  by (induction i; code_simp)

lemma plain_has_scope: "plain_name (scope_name has_scopes h)"
  by (induction h; code_simp)

lemma plain_in: "plain_name ''in''"
  by code_simp

lemma plain_has: "plain_name ''has''"
  by code_simp

lemmas plain_names =
  plain_field_name plain_date_name plain_in_scope plain_has_scope plain_in plain_has

lemma in_scope_lookup: "map_of in_scopes (scope_name in_scopes i) = Some i"
  by (induction i; code_simp)

lemma has_scope_lookup: "map_of has_scopes (scope_name has_scopes h) = Some h"
  by (induction h; code_simp)

lemmas scope_lookup = in_scope_lookup has_scope_lookup

lemma parse_field_value:
  assumes "query_wf (FieldNode f v)"
  shows "parseFieldOrText (field_name f @ '':'' @ v) pos ts = Inr (FieldNode f v, ts)"
  using assms plain_nameD(3,4) [OF plain_names(1) [of f]]
  by (subst field_or_text_split) (cases f; simp add: field_name_def)+

lemma parse_has_value:
  "parseFieldOrText (''has'' @ '':'' @ scope_name has_scopes h) pos ts = Inr (HasNode h, ts)"
  using plain_nameD(3,4) [OF plain_names(6)] plain_nameD(4) [OF plain_names(4) [of h]]
  by (subst field_or_text_split) (simp_all add: scope_lookup)

lemma parse_date_value:
  assumes "is_iso_date v"
  shows "parseFieldOrText (date_name f @ '':'' @ (case c of After \<Rightarrow> ''>'' | Before \<Rightarrow> ''<'') @ v) pos ts =
           Inr (DateNode f c v, ts)"
  using assms plain_nameD(3,4) [OF plain_names(2) [of f]]
  by (subst field_or_text_split) (cases f; cases c; simp add: date_name_def parse_date_def)+

lemma iso_date_chars:
  assumes "is_iso_date v"
  shows "\<forall>c \<in> set v. \<not> value_stop c"
proof -
  have len: "length v = 10" using assms by (simp add: is_iso_date_def)
  have "\<not> value_stop (v ! i)" if "i < 10" for i
  proof -
    have "i \<in> set [0, 1, 2, 3, 5, 6, 8, 9] \<or> i = 4 \<or> i = 7" using that by auto
    then have "is_digit (v ! i) \<or> v ! i = CHR ''-''" using assms by (auto simp: is_iso_date_def)
    then show ?thesis by (auto simp: value_stop_def is_space_def is_digit_def)
  qed
  then show ?thesis by (metis in_set_conv_nth len)
qed

text \<open>\<open>in:scope "text"\<close> is two tokens and one atom.\<close>

lemma reads_atom_in: "reads_atom [(WORD_T, ''in'' @ '':'' @ scope_name in_scopes i), (QUOTED_T, v)] (InNode i v)"
  unfolding reads_atom_def
proof (intro conjI allI impI)
  fix ts rest n
  assume "shape ts = [(WORD_T, ''in'' @ '':'' @ scope_name in_scopes i), (QUOTED_T, v)]"
    and n: "4 * length (ts @ rest) + 1 \<le> n"
  then obtain t u where t: "ts = [t, u]" "tok_type t = WORD_T"
      "tok_value t = ''in'' @ '':'' @ scope_name in_scopes i"
    and u: "tok_type u = QUOTED_T" "tok_value u = v"
    by (auto simp: map_eq_Cons_conv)
  have "parseFieldOrText (''in'' @ '':'' @ scope_name in_scopes i) pos (u # rest) = Inr (InNode i v, rest)" for pos
    using plain_nameD(3,4) [OF plain_names(5)] plain_nameD(4) [OF plain_names(3) [of i]] u
    by (subst field_or_text_split) (simp_all add: scope_lookup parse_in_def)
  then show "parseAtom n (ts @ rest) = Some (Inr (InNode i v, rest))"
    using n by (cases n) (simp_all add: t)
qed auto

text \<open>A printed query lexes to tokens that read as the query.\<close>

definition printed :: "string \<Rightarrow> QueryNode \<Rightarrow> bool" where
  "printed s q \<longleftrightarrow> (\<exists>tvs. lexes s tvs \<and> reads tvs q)"

lemma printedI: "lexes s tvs \<Longrightarrow> reads tvs q \<Longrightarrow> printed s q"
  by (auto simp: printed_def)

lemma printed_operator:
  assumes l: "printed s p" and r: "printed t q" and w: "w \<noteq> []" "\<forall>c \<in> set w. \<not> word_stop c"
    and op: "\<And>tvs tws. reads_atom tvs p \<Longrightarrow> reads_atom tws q \<Longrightarrow> reads (tvs @ (word_type w, w) # tws) x"
  shows "printed (in_parens s @ '' '' @ w @ '' '' @ in_parens t) x"
proof -
  obtain tvs tws where 1: "lexes s tvs" "reads tvs p" "lexes t tws" "reads tws q"
    using l r by (auto simp: printed_def)
  let ?l = "(LPAREN_T, ''('') # tvs @ [(RPAREN_T, '')'')]" and ?r = "(LPAREN_T, ''('') # tws @ [(RPAREN_T, '')'')]"
  have "lexes (in_parens s @ '' '' @ w @ '' '' @ in_parens t) (?l @ [(word_type w, w)] @ ?r)"
    by (intro lexes_seq lexes_parens lexes_word w 1)
  moreover have "reads (?l @ (word_type w, w) # ?r) x"
    by (intro op reads_parens 1)
  ultimately show ?thesis by (auto simp: printed_def)
qed

lemma printed_printQuery: "query_wf q \<Longrightarrow> printed (printQuery q) q"
proof (induction q)
  case (AndNode l r)
  then show ?case unfolding printQuery.simps
    by (intro printed_operator [where p = l and q = r])
      (auto simp: word_stop_def value_stop_def is_space_def word_type_def intro: reads_and)
next
  case (OrNode l r)
  then show ?case unfolding printQuery.simps
    by (intro printed_operator [where p = l and q = r])
      (auto simp: word_stop_def value_stop_def is_space_def word_type_def intro: reads_or)
next
  case (NotNode q)
  then obtain tvs where 1: "lexes (printQuery q) tvs" "reads tvs q" by (auto simp: printed_def)
  have "lexes (''NOT'' @ '' '' @ in_parens (printQuery q))
          ([(word_type ''NOT'', ''NOT'')] @ (LPAREN_T, ''('') # tvs @ [(RPAREN_T, '')'')])"
    by (intro lexes_seq lexes_parens lexes_word 1)
      (auto simp: word_stop_def value_stop_def is_space_def)
  then show ?case
    using reads_not [OF reads_parens [OF 1(2)]] by (auto simp: word_type_def intro!: printedI)
next
  case (FieldNode f v)
  have "lexes (field_name f @ '':'' @ quoted v) [(WORD_T, field_name f @ '':'' @ v)]"
    by (intro lexes_field_quoted plain_nameD plain_names)
  moreover have "reads [(WORD_T, field_name f @ '':'' @ v)] (FieldNode f v)"
    by (intro reads_atom_reads reads_atom_word parse_field_value FieldNode.prems)
  ultimately show ?case by (auto intro: printedI)
next
  case (InNode i v)
  have "lexes ((''in'' @ '':'' @ scope_name in_scopes i) @ '' '' @ quoted v)
          ([(WORD_T, ''in'' @ '':'' @ scope_name in_scopes i)] @ [(QUOTED_T, v)])"
    using plain_nameD(2) [OF plain_names(3) [of i]]
    by (intro lexes_seq lexes_quoted lexes_field_bare plain_nameD plain_names) (auto simp: word_stop_def)
  then show ?case
    unfolding printQuery.simps using reads_atom_reads [OF reads_atom_in] by (intro printedI) auto
next
  case (HasNode h)
  have "lexes (''has'' @ '':'' @ scope_name has_scopes h) [(WORD_T, ''has'' @ '':'' @ scope_name has_scopes h)]"
    using plain_nameD(2) [OF plain_names(4) [of h]]
    by (intro lexes_field_bare plain_nameD plain_names) (auto simp: word_stop_def)
  then show ?case
    unfolding printQuery.simps by (rule printedI) (intro reads_atom_reads reads_atom_word parse_has_value)
next
  case (DateNode f c v)
  then have iso: "is_iso_date v" by simp
  have "lexes (date_name f @ '':'' @ (case c of After \<Rightarrow> ''>'' | Before \<Rightarrow> ''<'') @ v)
          [(WORD_T, date_name f @ '':'' @ (case c of After \<Rightarrow> ''>'' | Before \<Rightarrow> ''<'') @ v)]"
    using iso_date_chars [OF iso]
    by (intro lexes_field_bare plain_nameD plain_names) (auto simp: value_stop_def is_space_def split: DateOp.splits)
  moreover have "reads [(WORD_T, date_name f @ '':'' @ (case c of After \<Rightarrow> ''>'' | Before \<Rightarrow> ''<'') @ v)] (DateNode f c v)"
    by (intro reads_atom_reads reads_atom_word parse_date_value iso)
  ultimately show ?case unfolding printQuery.simps by (rule printedI)
next
  case (TextNode v)
  show ?case unfolding printQuery.simps
    by (rule printedI [OF lexes_quoted reads_atom_reads [OF reads_atom_quoted]])
qed

lemma parseQuery_printed:
  assumes "printed s q"
  shows "parseQuery s = Some (Inr q)"
proof -
  obtain tvs where 1: "lexes s tvs" "reads tvs q" using assms by (auto simp: printed_def)
  have "breaks []" by (simp add: breaks_def)
  then obtain ts m where ts: "tokens_from 0 (s @ []) = ts @ tokens_from m []" "shape ts = tvs"
    by (rule lexesE [OF 1(1)])
  have "parseOr (4 * length (tokenize s) + 4) (ts @ [token EOF_T [] m]) = Some (Inr (q, [token EOF_T [] m]))"
    using 1(2) ts by (auto simp: reads_def closes_def tokenize_def)
  then show ?thesis using ts(1) by (simp add: parseQuery_def tokenize_def)
qed

text \<open>C9: the language can express exactly the well-formed trees: written down, such a tree parses
  to itself, whatever its texts contain, and no other tree does.\<close>

theorem print_parse_roundtrip:
  "query_wf q = (parseQuery (printQuery q) = Some (Inr q))"
  using parseQuery_printed [OF printed_printQuery [of q]] parseQuery_outcome [of "printQuery q"] by auto

section \<open>Which queries reach the parser\<close>

lemma anywhere_skip: "anywhere P (Some c) s \<Longrightarrow> anywhere P b (a @ c # s)"
  by (induction a arbitrary: b) auto

lemma anywhere_here: "P b s \<Longrightarrow> anywhere P b s"
  by (cases s) auto

lemma word_before_simps [simp]: "\<not> word_before None" "word_before (Some c) = is_word_char c"
  by (simp_all add: word_before_def)

lemma not_word_chars [simp]:
  "\<not> is_word_char CHR '' ''" "\<not> is_word_char CHR '':''" "\<not> is_word_char CHR ''(''" "\<not> is_space CHR ''#''"
  by (code_simp)+

lemma structured_field:
  "f \<in> set [''status'', ''goal'', ''task'', ''tag'', ''in'', ''has'', ''created'', ''updated''] \<Longrightarrow>
   isStructuredQuery (f @ '':'' @ s)"
proof -
  assume "f \<in> set [''status'', ''goal'', ''task'', ''tag'', ''in'', ''has'', ''created'', ''updated'']"
  then have "field_syntax None (f @ '':'' @ s)"
    unfolding field_syntax_def using starts_with_append [of "f @ '':''" s] by (intro conjI bexI [of _ f]) auto
  then show ?thesis by (simp add: isStructuredQuery_def anywhere_here)
qed

lemma structured_operator:
  "isStructuredQuery (a @ '' '' @ ''AND'' @ '' '' @ b)" "isStructuredQuery (a @ '' '' @ ''OR'' @ '' '' @ b)"
  "isStructuredQuery (''NOT'' @ '' '' @ b)"
proof -
  have "anywhere (whole_word ''AND'') None (a @ CHR '' '' # ''AND'' @ '' '' @ b)"
    by (rule anywhere_skip, rule anywhere_here) (simp add: whole_word_def)
  then show "isStructuredQuery (a @ '' '' @ ''AND'' @ '' '' @ b)" by (simp add: isStructuredQuery_def)
  have "anywhere (whole_word ''OR'') None (a @ CHR '' '' # ''OR'' @ '' '' @ b)"
    by (rule anywhere_skip, rule anywhere_here) (simp add: whole_word_def)
  then show "isStructuredQuery (a @ '' '' @ ''OR'' @ '' '' @ b)" by (simp add: isStructuredQuery_def)
  have "anywhere (whole_word ''NOT'') None (''NOT'' @ '' '' @ b)"
    by (rule anywhere_here) (simp add: whole_word_def)
  then show "isStructuredQuery (''NOT'' @ '' '' @ b)" by (simp add: isStructuredQuery_def)
qed

text \<open>Every query that says more than one literal text, written down, takes the structured path,
  so none of its operators and fields is searched for as text. The test is stricter than the parser
  in one respect: the parser reads a field name in any case, the test only in lower case.\<close>

theorem structured_query_detected:
  "((\<exists>v. q = TextNode v) \<or> isStructuredQuery (printQuery q)) \<and>
   isStructuredQuery ''STATUS:working'' = False \<and>
   parseQuery ''STATUS:working'' = Some (Inr (FieldNode StatusField ''working''))"
proof (intro conjI)
  show "(\<exists>v. q = TextNode v) \<or> isStructuredQuery (printQuery q)"
  proof (cases q)
    case (FieldNode f v)
    have "isStructuredQuery (field_name f @ '':'' @ quoted v)"
      by (rule structured_field) (cases f; simp add: field_name_def)
    then show ?thesis by (simp add: FieldNode)
  next
    case (InNode i v)
    have "isStructuredQuery (''in'' @ '':'' @ scope_name in_scopes i @ '' '' @ quoted v)"
      by (rule structured_field) simp
    then show ?thesis by (simp add: InNode)
  next
    case (HasNode h)
    have "isStructuredQuery (''has'' @ '':'' @ scope_name has_scopes h)" by (rule structured_field) simp
    then show ?thesis by (simp add: HasNode)
  next
    case (DateNode f c v)
    have "isStructuredQuery (date_name f @ '':'' @ (case c of After \<Rightarrow> ''>'' | Before \<Rightarrow> ''<'') @ v)"
      by (rule structured_field) (cases f; simp add: date_name_def)
    then show ?thesis by (simp add: DateNode)
  qed (use structured_operator in \<open>auto simp del: append.simps append_Cons simp: append_assoc\<close>)
qed code_simp+

end
