(* ===== verification/SearchEval.thy ===== *)
theory SearchEval
  imports QueryParser TaskStore
begin

text \<open>
  Evaluating a parsed query on one task and its records, building the result rows of a match
  (\<open>src/search/evaluator.ts\<close>), and ranking rows (\<open>src/search/ranking.ts\<close>).

  \<open>Date.parse\<close> is an argument (\<open>date_parse\<close>, \<open>None\<close> for \<open>NaN\<close>): what it makes of a text that is not
  a valid ISO date, such as a thirtieth of February, is left to the engine by the language. A stored
  turn may lack its content, so that field is optional.
\<close>

section \<open>The records searched\<close>

record Turn =
  tn_id :: string
  tn_role :: string
  tn_content :: "string option"
  tn_sequence :: int
  tn_timestamp :: int

record Commit =
  cm_id :: string
  cm_sha :: string
  cm_message :: string
  cm_timestamp :: int

text \<open>Comments and journal entries.\<close>

record Comment =
  co_id :: string
  co_content :: string
  co_created_at :: int

record RaisedItem =
  ra_id :: string
  ra_content :: string
  ra_status :: string
  ra_created_at :: int

record TaskData =
  td_task :: Task
  td_turns :: "Turn list"
  td_commits :: "Commit list"
  td_comments :: "Comment list"
  td_raised :: "RaisedItem list"

datatype EntityType =
    TaskEntity | PromptEntity | TurnEntity | CommitEntity | CommentEntity | FollowupEntity | RaisedEntity
  | ConversationEntity | MemoryEntity | ScratchEntity | ReviewCommentEntity | ArtifactEntity
  | MessageEntity | JournalEntity

definition entity_name :: "EntityType \<Rightarrow> string" where
  "entity_name e =
     (case e of
        TaskEntity \<Rightarrow> ''task'' | PromptEntity \<Rightarrow> ''prompt'' | TurnEntity \<Rightarrow> ''turn'' | CommitEntity \<Rightarrow> ''commit''
      | CommentEntity \<Rightarrow> ''comment'' | FollowupEntity \<Rightarrow> ''followup'' | RaisedEntity \<Rightarrow> ''raised''
      | ConversationEntity \<Rightarrow> ''conversation'' | MemoryEntity \<Rightarrow> ''memory'' | ScratchEntity \<Rightarrow> ''scratch''
      | ReviewCommentEntity \<Rightarrow> ''review_comment'' | ArtifactEntity \<Rightarrow> ''artifact''
      | MessageEntity \<Rightarrow> ''message'' | JournalEntity \<Rightarrow> ''journal'')"

record SearchResult =
  entity_type :: EntityType
  matched_id :: bool
  entity_id :: string
  r_task_id :: string
  r_task_code :: "string option"
  r_task_goal :: string
  r_content :: string
  match_context :: string
  entity_index :: "nat option"
  turn_sequence :: "int option"
  entity_time :: "int option"

section \<open>Matching\<close>

definition textContains :: "string option \<Rightarrow> string \<Rightarrow> bool" where
  "textContains haystack needle =
     (case haystack of None \<Rightarrow> False | Some h \<Rightarrow> str_includes (to_lower h) (to_lower needle))"

definition evaluateField :: "QueryField \<Rightarrow> string \<Rightarrow> TaskData \<Rightarrow> bool" where
  "evaluateField field val data =
     (case field of
        StatusField \<Rightarrow> status_text (t_status (td_task data)) = val
      | GoalField \<Rightarrow> textContains (Some (t_goal (td_task data))) val
      | TaskField \<Rightarrow> textContains (t_code (td_task data)) val
      | TagField \<Rightarrow> val \<in> set (t_tags (td_task data)))"

definition in_turns :: "string \<Rightarrow> TaskData \<Rightarrow> bool" where
  "in_turns val data \<longleftrightarrow> (\<exists>t \<in> set (td_turns data). textContains (tn_content t) val)"

definition in_commits :: "string \<Rightarrow> TaskData \<Rightarrow> bool" where
  "in_commits val data \<longleftrightarrow> (\<exists>c \<in> set (td_commits data). textContains (Some (cm_message c)) val)"

definition in_comments :: "string \<Rightarrow> TaskData \<Rightarrow> bool" where
  "in_comments val data \<longleftrightarrow> (\<exists>c \<in> set (td_comments data). textContains (Some (co_content c)) val)"

definition in_raised :: "string \<Rightarrow> TaskData \<Rightarrow> bool" where
  "in_raised val data \<longleftrightarrow> (\<exists>r \<in> set (td_raised data). textContains (Some (ra_content r)) val)"

definition evaluateTaskText :: "string \<Rightarrow> TaskData \<Rightarrow> bool" where
  "evaluateTaskText val data \<longleftrightarrow>
     textContains (nonempty (t_code (td_task data))) val \<or>
     textContains (Some (t_goal (td_task data))) val \<or>
     textContains (nonempty (Some (t_prompt (td_task data)))) val \<or>
     in_turns val data \<or> in_commits val data \<or> in_comments val data \<or> in_raised val data"

definition evaluateIn :: "InScope \<Rightarrow> string \<Rightarrow> TaskData \<Rightarrow> bool" where
  "evaluateIn scope val data =
     (case scope of
        InTasks \<Rightarrow> evaluateTaskText val data
      | InActive \<Rightarrow> t_status (td_task data) \<in> set [Working, Interrupted, Blocked] \<and> evaluateTaskText val data
      | InBacklog \<Rightarrow> t_status (td_task data) = Backlog \<and> evaluateTaskText val data
      | InFinished \<Rightarrow> isTerminalStatus (t_status (td_task data)) \<and> evaluateTaskText val data
      | InTurns \<Rightarrow> in_turns val data
      | InCommits \<Rightarrow> in_commits val data
      | InComments \<Rightarrow> in_comments val data
      | InFollowups \<Rightarrow> in_raised val data
      | InRaised \<Rightarrow> in_raised val data
      | InConversations \<Rightarrow> False
      | InMemories \<Rightarrow> False
      | InScratch \<Rightarrow> False)"

definition evaluateHas :: "HasScope \<Rightarrow> TaskData \<Rightarrow> bool" where
  "evaluateHas scope data =
     (case scope of
        HasCommits \<Rightarrow> 0 < length (td_commits data)
      | HasTurns \<Rightarrow> 0 < length (td_turns data)
      | HasComments \<Rightarrow> 0 < length (td_comments data)
      | HasFollowups \<Rightarrow> 0 < length (td_raised data)
      | HasRaised \<Rightarrow> 0 < length (td_raised data))"

definition task_time :: "Task \<Rightarrow> int" where
  "task_time task = (case t_completed_at task of Some t \<Rightarrow> t | None \<Rightarrow> t_created_at task)"

definition evaluateDate ::
  "(string \<Rightarrow> int option) \<Rightarrow> DateField \<Rightarrow> DateOp \<Rightarrow> string \<Rightarrow> TaskData \<Rightarrow> bool" where
  "evaluateDate date_parse field cmp dateStr data =
     (case date_parse (dateStr @ ''T00:00:00Z'') of
        None \<Rightarrow> False
      | Some dateMs \<Rightarrow>
          (let taskTs = (if field = CreatedField then t_created_at (td_task data) else task_time (td_task data))
           in if cmp = After then taskTs > dateMs else taskTs < dateMs))"

definition evaluateText :: "string \<Rightarrow> TaskData \<Rightarrow> bool" where
  "evaluateText val data = evaluateTaskText val data"

primrec evaluateQuery :: "(string \<Rightarrow> int option) \<Rightarrow> QueryNode \<Rightarrow> TaskData \<Rightarrow> bool" where
  "evaluateQuery dp (AndNode l r) data = (evaluateQuery dp l data \<and> evaluateQuery dp r data)"
| "evaluateQuery dp (OrNode l r) data = (evaluateQuery dp l data \<or> evaluateQuery dp r data)"
| "evaluateQuery dp (NotNode q) data = (\<not> evaluateQuery dp q data)"
| "evaluateQuery dp (FieldNode f v) data = evaluateField f v data"
| "evaluateQuery dp (InNode s v) data = evaluateIn s v data"
| "evaluateQuery dp (HasNode s) data = evaluateHas s data"
| "evaluateQuery dp (DateNode f c v) data = evaluateDate dp f c v data"
| "evaluateQuery dp (TextNode v) data = evaluateText v data"

section \<open>Result rows\<close>

primrec extractTextTerms :: "QueryNode \<Rightarrow> string list" where
  "extractTextTerms (AndNode l r) = extractTextTerms l @ extractTextTerms r"
| "extractTextTerms (OrNode l r) = extractTextTerms l @ extractTextTerms r"
| "extractTextTerms (NotNode q) = []"
| "extractTextTerms (FieldNode f v) = (if f = GoalField then [v] else [])"
| "extractTextTerms (InNode s v) = [v]"
| "extractTextTerms (HasNode s) = []"
| "extractTextTerms (DateNode f c v) = []"
| "extractTextTerms (TextNode v) = [v]"

definition extractContext :: "string \<Rightarrow> string \<Rightarrow> string" where
  "extractContext text term =
     (case index_of (to_lower text) (to_lower term) of
        None \<Rightarrow> take 80 text
      | Some idx \<Rightarrow>
          (let start = idx - 40;
               end' = min (length text) (idx + length term + 40);
               flat = trim (collapse_spaces (drop start (take end' text)));
               front = (if start > 0 then ''...'' @ flat else flat)
           in if end' < length text then front @ ''...'' else front))"

definition task_row :: "Task \<Rightarrow> EntityType \<Rightarrow> string \<Rightarrow> string \<Rightarrow> string \<Rightarrow> int \<Rightarrow> SearchResult" where
  "task_row task et eid text context' t =
     \<lparr>entity_type = et, matched_id = False, entity_id = eid, r_task_id = t_id task,
      r_task_code = t_code task, r_task_goal = t_goal task, r_content = text, match_context = context',
      entity_index = None, turn_sequence = None, entity_time = Some t\<rparr>"

definition code_rows :: "Task \<Rightarrow> string \<Rightarrow> SearchResult list" where
  "code_rows task term =
     (case nonempty (t_code task) of
        Some code \<Rightarrow> if textContains (Some code) term
                     then [task_row task TaskEntity (t_id task) (''code: '' @ code) code (task_time task)] else []
      | None \<Rightarrow> [])"

definition goal_rows :: "Task \<Rightarrow> string \<Rightarrow> SearchResult list" where
  "goal_rows task term =
     (if textContains (Some (t_goal task)) term
      then [task_row task TaskEntity (t_id task) (t_goal task) (extractContext (t_goal task) term) (task_time task)]
      else [])"

definition prompt_rows :: "Task \<Rightarrow> string \<Rightarrow> SearchResult list" where
  "prompt_rows task term =
     (case nonempty (Some (t_prompt task)) of
        Some prompt \<Rightarrow> if textContains (Some prompt) term
                       then [task_row task PromptEntity (t_id task) prompt (extractContext prompt term) (task_time task)]
                       else []
      | None \<Rightarrow> [])"

definition turn_rows :: "Task \<Rightarrow> Turn list \<Rightarrow> string \<Rightarrow> SearchResult list" where
  "turn_rows task turns term =
     concat (map (\<lambda>(i, turn).
       case tn_content turn of
         Some text \<Rightarrow> if textContains (Some text) term
                      then [(task_row task TurnEntity (tn_id turn) text (extractContext text term) (tn_timestamp turn))
                              \<lparr>entity_index := Some i, turn_sequence := Some (tn_sequence turn)\<rparr>] else []
       | None \<Rightarrow> []) (enumerate 0 turns))"

definition commit_rows :: "Task \<Rightarrow> Commit list \<Rightarrow> string \<Rightarrow> SearchResult list" where
  "commit_rows task commits term =
     concat (map (\<lambda>(i, c).
       if textContains (Some (cm_message c)) term
       then [(task_row task CommitEntity (cm_id c) (cm_message c) (cm_message c) (cm_timestamp c))
               \<lparr>entity_index := Some i\<rparr>] else []) (enumerate 0 commits))"

definition comment_rows :: "Task \<Rightarrow> Comment list \<Rightarrow> string \<Rightarrow> SearchResult list" where
  "comment_rows task comments term =
     concat (map (\<lambda>(i, c).
       if textContains (Some (co_content c)) term
       then [(task_row task CommentEntity (co_id c) (co_content c) (extractContext (co_content c) term) (co_created_at c))
               \<lparr>entity_index := Some i\<rparr>] else []) (enumerate 0 comments))"

definition raised_rows :: "Task \<Rightarrow> RaisedItem list \<Rightarrow> string \<Rightarrow> SearchResult list" where
  "raised_rows task items term =
     concat (map (\<lambda>(i, r).
       if textContains (Some (ra_content r)) term
       then [(task_row task RaisedEntity (ra_id r) (ra_content r) (extractContext (ra_content r) term) (ra_created_at r))
               \<lparr>entity_index := Some i\<rparr>] else []) (enumerate 0 items))"

definition term_rows :: "TaskData \<Rightarrow> string \<Rightarrow> SearchResult list" where
  "term_rows data term =
     code_rows (td_task data) term @ goal_rows (td_task data) term @ prompt_rows (td_task data) term @
     turn_rows (td_task data) (td_turns data) term @ commit_rows (td_task data) (td_commits data) term @
     comment_rows (td_task data) (td_comments data) term @ raised_rows (td_task data) (td_raised data) term"

definition row_key :: "SearchResult \<Rightarrow> string" where
  "row_key r = entity_name (entity_type r) @ '':'' @ entity_id r"

fun dedup_rows :: "string list \<Rightarrow> SearchResult list \<Rightarrow> SearchResult list" where
  "dedup_rows seen [] = []"
| "dedup_rows seen (r # rs) =
     (if row_key r \<in> set seen then dedup_rows seen rs else r # dedup_rows (row_key r # seen) rs)"

definition buildSearchResults :: "QueryNode \<Rightarrow> TaskData \<Rightarrow> SearchResult list" where
  "buildSearchResults node data =
     (let task = td_task data;
          results = concat (map (term_rows data) (extractTextTerms node));
          results' = (if length results = 0
                      then [task_row task TaskEntity (t_id task) (t_goal task) (t_goal task) (task_time task)]
                      else results)
      in dedup_rows [] results')"

section \<open>Ranking\<close>

definition TYPE_TIERS :: "EntityType \<Rightarrow> int" where
  "TYPE_TIERS e =
     (case e of
        TaskEntity \<Rightarrow> 0 | PromptEntity \<Rightarrow> 1 | TurnEntity \<Rightarrow> 2 | CommitEntity \<Rightarrow> 3 | CommentEntity \<Rightarrow> 4
      | RaisedEntity \<Rightarrow> 5 | FollowupEntity \<Rightarrow> 5 | ConversationEntity \<Rightarrow> 6 | MemoryEntity \<Rightarrow> 7
      | ScratchEntity \<Rightarrow> 8 | ReviewCommentEntity \<Rightarrow> 9 | ArtifactEntity \<Rightarrow> 10 | MessageEntity \<Rightarrow> 11
      | JournalEntity \<Rightarrow> 12)"

definition STRENGTH_EXACT :: int where "STRENGTH_EXACT = 0"
definition STRENGTH_PREFIX :: int where "STRENGTH_PREFIX = 1"
definition STRENGTH_SUBSTRING :: int where "STRENGTH_SUBSTRING = 2"
definition STRENGTH_NONE :: int where "STRENGTH_NONE = 3"

definition identityTexts :: "SearchResult \<Rightarrow> string list" where
  "identityTexts row =
     (case nonempty (r_task_code row) of Some c \<Rightarrow> [c] | None \<Rightarrow> []) @
     (if r_content row = [] then [] else [r_content row])"

text \<open>The loop over the texts with the best strength so far; an exact hit ends it.\<close>

fun strength_loop :: "string \<Rightarrow> int \<Rightarrow> string list \<Rightarrow> int" where
  "strength_loop term best [] = best"
| "strength_loop term best (text # texts) =
     (let hay = to_lower text
      in if hay = term then STRENGTH_EXACT
         else if starts_with hay term then strength_loop term (min best STRENGTH_PREFIX) texts
         else if str_includes hay term then strength_loop term (min best STRENGTH_SUBSTRING) texts
         else strength_loop term best texts)"

definition strengthAgainst :: "string \<Rightarrow> string list \<Rightarrow> int" where
  "strengthAgainst term texts =
     (if term = [] then STRENGTH_NONE else strength_loop term STRENGTH_NONE texts)"

primrec queryLiteralTerms :: "QueryNode \<Rightarrow> string list" where
  "queryLiteralTerms (AndNode l r) = queryLiteralTerms l @ queryLiteralTerms r"
| "queryLiteralTerms (OrNode l r) = queryLiteralTerms l @ queryLiteralTerms r"
| "queryLiteralTerms (NotNode q) = []"
| "queryLiteralTerms (FieldNode f v) = (if f = GoalField \<or> f = TaskField then [v] else [])"
| "queryLiteralTerms (InNode s v) = [v]"
| "queryLiteralTerms (HasNode s) = []"
| "queryLiteralTerms (DateNode f c v) = []"
| "queryLiteralTerms (TextNode v) = [v]"

definition entityTimeFromIso :: "(string \<Rightarrow> int option) \<Rightarrow> string option \<Rightarrow> int option" where
  "entityTimeFromIso date_parse stamp =
     (case nonempty stamp of None \<Rightarrow> None | Some s \<Rightarrow> date_parse s)"

record RankEntry =
  k_row :: SearchResult
  k_index :: nat
  k_tier :: int
  k_strength :: int
  k_time :: int

definition rank_terms :: "string list \<Rightarrow> string list" where
  "rank_terms literalTerms = filter (\<lambda>t. 0 < length t) (map (\<lambda>t. to_lower (trim t)) literalTerms)"

definition row_strength :: "string list \<Rightarrow> SearchResult \<Rightarrow> int" where
  "row_strength terms row =
     (if 0 < length terms
      then fold min (map (\<lambda>term. strengthAgainst term (identityTexts row)) (tl terms))
             (strengthAgainst (hd terms) (identityTexts row))
      else STRENGTH_NONE)"

definition rank_entry :: "string list \<Rightarrow> nat \<times> SearchResult \<Rightarrow> RankEntry" where
  "rank_entry terms ir =
     (case ir of (i, row) \<Rightarrow>
       \<lparr>k_row = row, k_index = i,
        k_tier = (if matched_id row then - 1 else TYPE_TIERS (entity_type row)),
        k_strength = row_strength terms row,
        k_time = (case entity_time row of Some t \<Rightarrow> t | None \<Rightarrow> 0)\<rparr>)"

definition rank_cmp :: "RankEntry \<Rightarrow> RankEntry \<Rightarrow> int" where
  "rank_cmp =
     then_by (by_key k_tier) (then_by (by_key k_strength) (then_by (by_key (\<lambda>e. - k_time e))
       (by_key (\<lambda>e. int (k_index e)))))"

definition rankSearchResults :: "SearchResult list \<Rightarrow> string list \<Rightarrow> SearchResult list" where
  "rankSearchResults results literalTerms =
     map k_row (js_sort rank_cmp (map (rank_entry (rank_terms literalTerms)) (enumerate 0 results)))"

section \<open>The rows of a match\<close>

lemma dedup_rows_subset: "set (dedup_rows seen rs) \<subseteq> set rs"
  by (induction rs arbitrary: seen) auto

lemma dedup_rows_keys:
  "distinct (map row_key (dedup_rows seen rs)) \<and>
   row_key ` set (dedup_rows seen rs) = row_key ` set rs - set seen"
proof (induction rs arbitrary: seen)
  case (Cons r rs)
  show ?case
  proof (cases "row_key r \<in> set seen")
    case True
    with Cons [of seen] show ?thesis by auto
  next
    case False
    with Cons [of "row_key r # seen"] show ?thesis by auto
  qed
qed simp

text \<open>The entities of a task in which one of the terms occurs, by their keys.\<close>

definition term_keys :: "TaskData \<Rightarrow> string \<Rightarrow> string set" where
  "term_keys data term =
     (let task = td_task data in
      (if textContains (nonempty (t_code task)) term \<or> textContains (Some (t_goal task)) term
       then {''task:'' @ t_id task} else {}) \<union>
      (if textContains (nonempty (Some (t_prompt task))) term then {''prompt:'' @ t_id task} else {}) \<union>
      (\<lambda>t. ''turn:'' @ tn_id t) ` {t \<in> set (td_turns data). textContains (tn_content t) term} \<union>
      (\<lambda>c. ''commit:'' @ cm_id c) ` {c \<in> set (td_commits data). textContains (Some (cm_message c)) term} \<union>
      (\<lambda>c. ''comment:'' @ co_id c) ` {c \<in> set (td_comments data). textContains (Some (co_content c)) term} \<union>
      (\<lambda>r. ''raised:'' @ ra_id r) ` {r \<in> set (td_raised data). textContains (Some (ra_content r)) term})"

definition matching_keys :: "string list \<Rightarrow> TaskData \<Rightarrow> string set" where
  "matching_keys terms data = (\<Union>term \<in> set terms. term_keys data term)"

lemma set_concat_enumerate:
  "f ` set (concat (map (\<lambda>(i, x). g i x) (enumerate n xs))) = (\<Union>(i, x) \<in> set (enumerate n xs). f ` set (g i x))"
  by auto

lemma Union_enumerate:
  "(\<And>i x. h i x = k x) \<Longrightarrow> (\<Union>(i, x) \<in> set (enumerate n xs). h i x) = (\<Union>x \<in> set xs. k x)"
proof -
  assume *: "\<And>i x. h i x = k x"
  have "snd ` set (enumerate n xs) = set xs"
    by (metis list.set_map map_snd_enumerate)
  then show ?thesis unfolding * by force
qed

lemma keys_of_enumerated:
  assumes "\<And>i x. row_key ` set (g i x) = (if P x then {k x} else {})"
  shows "row_key ` set (concat (map (\<lambda>(i, x). g i x) (enumerate 0 xs))) = k ` {x \<in> set xs. P x}"
proof -
  have "row_key ` set (concat (map (\<lambda>(i, x). g i x) (enumerate 0 xs))) =
        (\<Union>(i, x) \<in> set (enumerate 0 xs). row_key ` set (g i x))"
    by (rule set_concat_enumerate)
  also have "\<dots> = (\<Union>x \<in> set xs. if P x then {k x} else {})"
    by (rule Union_enumerate) (rule assms)
  also have "\<dots> = k ` {x \<in> set xs. P x}" by auto
  finally show ?thesis .
qed

lemma row_key_task_row [simp]: "row_key (task_row task et eid text c t) = entity_name et @ '':'' @ eid"
  by (simp add: row_key_def task_row_def)

lemma row_key_update [simp]:
  "row_key (r\<lparr>entity_index := i\<rparr>) = row_key r" "row_key (r\<lparr>turn_sequence := q\<rparr>) = row_key r"
  by (simp_all add: row_key_def)

lemma term_rows_keys: "row_key ` set (term_rows data term) = term_keys data term"
proof -
  let ?t = "td_task data"
  have "row_key ` set (code_rows ?t term) \<union> row_key ` set (goal_rows ?t term) =
      (if textContains (nonempty (t_code ?t)) term \<or> textContains (Some (t_goal ?t)) term
       then {''task:'' @ t_id ?t} else {})"
    by (auto simp: code_rows_def goal_rows_def entity_name_def textContains_def split: option.splits)
  moreover have "row_key ` set (prompt_rows ?t term) =
      (if textContains (nonempty (Some (t_prompt ?t))) term then {''prompt:'' @ t_id ?t} else {})"
    by (auto simp: prompt_rows_def entity_name_def textContains_def split: option.splits)
  moreover have "row_key ` set (turn_rows ?t (td_turns data) term) =
      (\<lambda>t. ''turn:'' @ tn_id t) ` {t \<in> set (td_turns data). textContains (tn_content t) term}"
    unfolding turn_rows_def
    by (rule keys_of_enumerated) (auto simp: entity_name_def textContains_def split: option.splits)
  moreover have "row_key ` set (commit_rows ?t (td_commits data) term) =
      (\<lambda>c. ''commit:'' @ cm_id c) ` {c \<in> set (td_commits data). textContains (Some (cm_message c)) term}"
    unfolding commit_rows_def by (rule keys_of_enumerated) (auto simp: entity_name_def)
  moreover have "row_key ` set (comment_rows ?t (td_comments data) term) =
      (\<lambda>c. ''comment:'' @ co_id c) ` {c \<in> set (td_comments data). textContains (Some (co_content c)) term}"
    unfolding comment_rows_def by (rule keys_of_enumerated) (auto simp: entity_name_def)
  moreover have "row_key ` set (raised_rows ?t (td_raised data) term) =
      (\<lambda>r. ''raised:'' @ ra_id r) ` {r \<in> set (td_raised data). textContains (Some (ra_content r)) term}"
    unfolding raised_rows_def by (rule keys_of_enumerated) (auto simp: entity_name_def)
  ultimately show ?thesis
    unfolding term_rows_def term_keys_def Let_def set_append image_Un by (simp only: Un_assoc [symmetric])
qed

lemma matching_keys_concat:
  "row_key ` set (concat (map (term_rows data) terms)) = matching_keys terms data"
proof (induction terms)
  case (Cons t ts)
  then show ?case by (simp add: image_Un term_rows_keys matching_keys_def)
qed (simp add: matching_keys_def)

lemma term_rows_task: "r \<in> set (term_rows data term) \<Longrightarrow> r_task_id r = t_id (td_task data) \<and> \<not> matched_id r"
  by (auto simp: term_rows_def code_rows_def goal_rows_def prompt_rows_def turn_rows_def commit_rows_def
      comment_rows_def raised_rows_def task_row_def split: option.splits if_splits)

lemma evaluateText_matching: "evaluateText val data \<longleftrightarrow> matching_keys [val] data \<noteq> {}"
proof -
  have "term_keys data val = {} \<longleftrightarrow> \<not> evaluateTaskText val data"
    unfolding term_keys_def Let_def evaluateTaskText_def in_turns_def in_commits_def
      in_comments_def in_raised_def Un_empty image_is_empty Collect_empty_eq
    by (cases "textContains (nonempty (t_code (td_task data))) val";
        cases "textContains (Some (t_goal (td_task data))) val";
        cases "textContains (nonempty (Some (t_prompt (td_task data)))) val"; simp; blast)
  then show ?thesis by (simp add: evaluateText_def matching_keys_def)
qed

lemma build_keys:
  "row_key ` set (buildSearchResults node data) =
     (if matching_keys (extractTextTerms node) data = {} then {''task:'' @ t_id (td_task data)}
      else matching_keys (extractTextTerms node) data)"
  using dedup_rows_keys [of "[]"] matching_keys_concat [of data "extractTextTerms node"]
  by (auto simp: buildSearchResults_def Let_def entity_name_def)

text \<open>C36: the rows built for a matched task are one row for each of its entities in which a text term
  of the query occurs outside a negation, never two for the same entity, all of them of this task; a
  task that matched on other grounds still gets its own row. A free text matches a task exactly when
  it occurs in one of these entities, so the two halves of the evaluator agree.\<close>

theorem buildSearchResults_rows:
  "(let rows = buildSearchResults node data; found = matching_keys (extractTextTerms node) data
    in rows \<noteq> [] \<and> distinct (map row_key rows) \<and>
       row_key ` set rows = (if found = {} then {''task:'' @ t_id (td_task data)} else found) \<and>
       r_task_id ` set rows = {t_id (td_task data)}) \<and>
   evaluateText val data = (matching_keys [val] data \<noteq> {})"
proof -
  let ?rows = "buildSearchResults node data"
  have keys: "row_key ` set ?rows \<noteq> {}" by (simp add: build_keys)
  have "r_task_id r = t_id (td_task data)" if "r \<in> set ?rows" for r
    using that dedup_rows_subset [of "[]"] term_rows_task
    by (fastforce simp: buildSearchResults_def Let_def task_row_def split: if_splits)
  moreover have ne: "?rows \<noteq> []" using keys by auto
  ultimately have ids: "r_task_id ` set ?rows = {t_id (td_task data)}"
    by (cases ?rows) auto
  have dist: "distinct (map row_key ?rows)"
    using dedup_rows_keys by (simp add: buildSearchResults_def Let_def)
  show ?thesis unfolding Let_def using ne dist build_keys ids evaluateText_matching by blast
qed

section \<open>The order of the results\<close>

lemma strength_loop_spec:
  "best \<in> {STRENGTH_PREFIX, STRENGTH_SUBSTRING, STRENGTH_NONE} \<Longrightarrow>
   strength_loop term best texts =
     (if \<exists>t \<in> set texts. to_lower t = term then STRENGTH_EXACT
      else if \<exists>t \<in> set texts. starts_with (to_lower t) term then STRENGTH_PREFIX
      else if \<exists>t \<in> set texts. str_includes (to_lower t) term then min best STRENGTH_SUBSTRING
      else best)"
proof (induction texts arbitrary: best)
  case Nil
  then show ?case by simp
next
  case (Cons t ts)
  note defs = STRENGTH_EXACT_def STRENGTH_PREFIX_def STRENGTH_SUBSTRING_def STRENGTH_NONE_def
  show ?case
  proof (cases "to_lower t = term")
    case True
    then show ?thesis by simp
  next
    case False
    have "min best STRENGTH_PREFIX \<in> {STRENGTH_PREFIX, STRENGTH_SUBSTRING, STRENGTH_NONE}"
      "min best STRENGTH_SUBSTRING \<in> {STRENGTH_PREFIX, STRENGTH_SUBSTRING, STRENGTH_NONE}"
      using Cons.prems by (auto simp: defs)
    note IH = Cons.IH [OF this(1)] Cons.IH [OF this(2)] Cons.IH [OF Cons.prems]
    show ?thesis
      using False Cons.prems IH by (auto simp: Let_def defs starts_with_includes)
  qed
qed

text \<open>The strength of a term is the best class any of the row's texts falls into.\<close>

lemma strengthAgainst_spec:
  "strengthAgainst term texts =
     (if term = [] then STRENGTH_NONE
      else if \<exists>t \<in> set texts. to_lower t = term then STRENGTH_EXACT
      else if \<exists>t \<in> set texts. starts_with (to_lower t) term then STRENGTH_PREFIX
      else if \<exists>t \<in> set texts. str_includes (to_lower t) term then STRENGTH_SUBSTRING
      else STRENGTH_NONE)"
  by (simp add: strengthAgainst_def strength_loop_spec STRENGTH_SUBSTRING_def STRENGTH_NONE_def)

lemma strengthAgainst_nonneg: "0 \<le> strengthAgainst term texts"
  by (simp add: strengthAgainst_spec STRENGTH_EXACT_def STRENGTH_PREFIX_def STRENGTH_SUBSTRING_def
      STRENGTH_NONE_def)

text \<open>The three keys of the order, first the most significant.\<close>

definition rank_key :: "string list \<Rightarrow> SearchResult \<Rightarrow> int \<times> int \<times> int" where
  "rank_key literalTerms row =
     (if matched_id row then - 1 else TYPE_TIERS (entity_type row),
      row_strength (rank_terms literalTerms) row,
      - (case entity_time row of Some t \<Rightarrow> t | None \<Rightarrow> 0))"

lemma js_sort_key:
  fixes f :: "'a \<Rightarrow> 'k :: linorder"
  assumes cmp: "\<And>x y. cmp x y \<le> 0 \<longleftrightarrow> f x \<le> f y"
  shows "js_sort cmp xs = sort_key f xs"
proof -
  have "js_insert cmp x ys = insort_key f x ys" for x ys
    by (induction ys) (simp_all add: cmp)
  then show ?thesis by (induction xs) (simp_all add: sort_key_def)
qed

lemma insort_key_cong_set:
  fixes f g :: "'a \<Rightarrow> 'k :: linorder"
  shows "f x = g x \<Longrightarrow> (\<forall>y \<in> set ys. f y = g y) \<Longrightarrow> insort_key f x ys = insort_key g x ys"
  by (induction ys) auto

lemma sort_key_cong_set:
  fixes f g :: "'a \<Rightarrow> 'k :: linorder"
  shows "(\<forall>x \<in> set xs. f x = g x) \<Longrightarrow> sort_key f xs = sort_key g xs"
proof (induction xs)
  case (Cons x xs)
  then have "sort_key f xs = sort_key g xs" by simp
  then show ?case
    using Cons.prems by (simp add: sort_key_simps insort_key_cong_set [of f x g])
qed simp

lemma map_insort_key_comp:
  fixes f :: "'b \<Rightarrow> 'k :: linorder"
  shows "map k (insort_key (\<lambda>x. f (k x)) x xs) = insort_key f (k x) (map k xs)"
  by (induction xs) auto

lemma map_sort_key_comp:
  fixes f :: "'b \<Rightarrow> 'k :: linorder"
  shows "map k (sort_key (\<lambda>x. f (k x)) xs) = sort_key f (map k xs)"
  by (induction xs) (simp_all add: sort_key_simps map_insort_key_comp)

text \<open>A tie-break by position changes nothing: sorting is stable.\<close>

lemma sort_key_tiebreak:
  fixes g :: "'a \<Rightarrow> 'k :: linorder" and p :: "'a \<Rightarrow> 'p :: linorder"
  assumes "sorted (map p xs)"
  shows "sort_key g xs = sort_key (\<lambda>x. (g x, p x)) xs"
proof (rule properties_for_sort_key)
  let ?f = "\<lambda>x. (g x, p x)"
  show "mset (sort_key ?f xs) = mset xs" by simp
  have "sorted (map ?f (sort_key ?f xs))" by simp
  then show "sorted (map g (sort_key ?f xs))"
    unfolding sorted_map by (rule sorted_wrt_mono_rel [rotated]) (auto simp: less_eq_prod_def)
  fix k assume "k \<in> set (sort_key ?f xs)"
  have "sorted (map p (filter (\<lambda>x. g k = g x) xs))"
    using assms by (rule sorted_filter)
  then have "sorted (map ?f (filter (\<lambda>x. g k = g x) xs))"
    unfolding sorted_map by (rule sorted_wrt_mono_rel [rotated]) (auto simp: less_eq_prod_def)
  then show "filter (\<lambda>x. g k = g x) (sort_key ?f xs) = filter (\<lambda>x. g k = g x) xs"
    by (simp add: filter_sort sort_key_id_if_sorted)
qed

definition entry_key :: "RankEntry \<Rightarrow> int \<times> int \<times> int" where
  "entry_key e = (k_tier e, k_strength e, - k_time e)"

lemma rank_cmp_le_iff: "rank_cmp a b \<le> 0 \<longleftrightarrow> (entry_key a, k_index a) \<le> (entry_key b, k_index b)"
  unfolding rank_cmp_def then_by_key_le_iff by (auto simp: by_key_def entry_key_def less_eq_prod_def)

lemma rank_is_sort_key: "rankSearchResults results terms = sort_key (rank_key terms) results"
proof -
  let ?es = "map (rank_entry (rank_terms terms)) (enumerate 0 results)"
  have keys: "\<forall>e \<in> set ?es. entry_key e = rank_key terms (k_row e)"
    by (auto simp: rank_entry_def entry_key_def rank_key_def)
  have idx: "map k_index ?es = [0..<length results]"
    by (auto simp: rank_entry_def enumerate_eq_zip intro!: nth_equalityI)
  have rows: "map k_row ?es = results"
    by (auto simp: rank_entry_def enumerate_eq_zip intro!: nth_equalityI)
  have "js_sort rank_cmp ?es = sort_key (\<lambda>e. (entry_key e, k_index e)) ?es"
    by (rule js_sort_key) (rule rank_cmp_le_iff)
  also have "\<dots> = sort_key entry_key ?es"
    by (rule sort_key_tiebreak [symmetric]) (unfold idx, simp)
  also have "\<dots> = sort_key (\<lambda>e. rank_key terms (k_row e)) ?es"
    by (rule sort_key_cong_set) (rule keys)
  finally have "rankSearchResults results terms = map k_row (sort_key (\<lambda>e. rank_key terms (k_row e)) ?es)"
    by (simp only: rankSearchResults_def)
  also have "\<dots> = sort_key (rank_key terms) (map k_row ?es)" by (rule map_sort_key_comp)
  finally show ?thesis by (simp only: rows)
qed

text \<open>C23: ranking is a stable sort of the very rows it is given by tier, then match strength, then
  recency: nothing is added, dropped or merged, and rows it cannot tell apart keep their order.\<close>

theorem rank_order:
  "rankSearchResults results terms = sort_key (rank_key terms) results \<and>
   mset (rankSearchResults results terms) = mset results \<and>
   filter (\<lambda>r. rank_key terms r = k) (rankSearchResults results terms) =
     filter (\<lambda>r. rank_key terms r = k) results"
  using rank_is_sort_key [of results terms] sort_key_stable [of "rank_key terms" k results] by simp

lemma hd_sort_key_le:
  fixes f :: "'a \<Rightarrow> 'k :: linorder"
  assumes "x \<in> set xs"
  shows "sort_key f xs \<noteq> [] \<and> f (hd (sort_key f xs)) \<le> f x"
proof -
  have x: "x \<in> set (sort_key f xs)" using assms by simp
  have "sorted (map f (sort_key f xs))" by simp
  with x show ?thesis by (cases "sort_key f xs") auto
qed

lemma row_strength_single: "trim q \<noteq> [] \<Longrightarrow>
    row_strength (rank_terms [q]) row = strengthAgainst (to_lower (trim q)) (identityTexts row)"
  by (simp add: row_strength_def rank_terms_def)

lemma tier_zero: "TYPE_TIERS e \<le> 0 \<Longrightarrow> e = TaskEntity"
  by (cases e) (simp_all add: TYPE_TIERS_def)

text \<open>When the query is the code of a task in the results, typed in any case, the first row is a
  task that the query names exactly, unless the query named an entity by its id.\<close>

theorem exact_code_first:
  assumes row: "row \<in> set results" "entity_type row = TaskEntity" "r_task_code row = Some code"
    and q: "trim query \<noteq> []" "to_lower code = to_lower (trim query)"
  shows "let top = hd (rankSearchResults results [query])
         in matched_id top \<or>
            (entity_type top = TaskEntity \<and> (\<exists>t \<in> set (identityTexts top). to_lower t = to_lower (trim query)))"
proof -
  let ?top = "hd (rankSearchResults results [query])"
  let ?q = "to_lower (trim query)"
  have "code \<noteq> []" using q by (metis to_lower_eq_Nil_iff)
  then have "code \<in> set (identityTexts row)"
    using row(3) by (simp add: identityTexts_def nonempty_def)
  then have exact: "strengthAgainst ?q (identityTexts row) = STRENGTH_EXACT"
    using q by (auto simp: strengthAgainst_spec)
  have "rank_key [query] ?top \<le> rank_key [query] row"
    using hd_sort_key_le [OF row(1), of "rank_key [query]"] by (simp add: rank_is_sort_key)
  then have top: "matched_id ?top \<or> TYPE_TIERS (entity_type ?top) < 0 \<or>
      (TYPE_TIERS (entity_type ?top) \<le> 0 \<and> strengthAgainst ?q (identityTexts ?top) \<le> STRENGTH_EXACT)"
    using row(2) exact
    by (auto simp: rank_key_def less_eq_prod_def row_strength_single [OF q(1)] TYPE_TIERS_def split: if_splits)
  have "\<exists>t \<in> set (identityTexts ?top). to_lower t = ?q" if "strengthAgainst ?q (identityTexts ?top) \<le> STRENGTH_EXACT"
    using that q(1)
    by (auto simp: strengthAgainst_spec STRENGTH_EXACT_def STRENGTH_PREFIX_def STRENGTH_SUBSTRING_def
        STRENGTH_NONE_def split: if_splits)
  moreover have "\<not> TYPE_TIERS e < 0" for e by (cases e) (simp_all add: TYPE_TIERS_def)
  ultimately show ?thesis using top tier_zero by (auto simp: Let_def)
qed

definition sample_row :: "EntityType \<Rightarrow> string \<Rightarrow> string option \<Rightarrow> string \<Rightarrow> SearchResult" where
  "sample_row et eid code text =
     \<lparr>entity_type = et, matched_id = False, entity_id = eid, r_task_id = ''t'', r_task_code = code,
      r_task_goal = ''goal'', r_content = text, match_context = text, entity_index = None,
      turn_sequence = None, entity_time = Some 5\<rparr>"

theorem exact_code_first_witness:
  "let rows = [sample_row TurnEntity ''n'' (Some ''ab'') ''ab'', sample_row TaskEntity ''t'' (Some ''ab'') ''code: ab''];
       top = hd (rankSearchResults rows ['' AB ''])
   in matched_id top \<or>
      (entity_type top = TaskEntity \<and> (\<exists>t \<in> set (identityTexts top). to_lower t = ''ab''))"
proof -
  have q: "to_lower (trim '' AB '') = ''ab''" "trim '' AB '' \<noteq> []" by code_simp+
  show ?thesis
    using exact_code_first [of "sample_row TaskEntity ''t'' (Some ''ab'') ''code: ab''"
        "[sample_row TurnEntity ''n'' (Some ''ab'') ''ab'', sample_row TaskEntity ''t'' (Some ''ab'') ''code: ab'']"
        "''ab''" "'' AB ''", unfolded q(1)] q(2)
    by (simp add: sample_row_def to_lower_def lower_char_def)
qed

section \<open>The spelling of tags\<close>

lemma parseOr_single_word:
  assumes "\<And>pos ts. parseFieldOrText w pos ts = Inr (q, ts)" "w \<noteq> []" "\<forall>c \<in> set w. \<not> word_stop c" "word_type w = WORD_T"
  shows "parseQuery w = Some (Inr q)"
proof (rule parseQuery_printed)
  have "lexes w [(WORD_T, w)]" using lexes_word [OF assms(2,3)] assms(4) by simp
  then show "printed w q" by (rule printedI) (intro reads_atom_reads reads_atom_word assms(1))
qed

text \<open>A query that is one \<open>#name\<close>, the way tags are printed, matches the tasks with that tag and
  every task that contains the text as typed, nothing else.\<close>

theorem hash_query_superset:
  assumes hash: "starts_with w ''#''" and w: "\<forall>c \<in> set w. \<not> word_stop c"
  shows "\<exists>q. parseQuery w = Some (Inr q) \<and>
     evaluateQuery dp q data =
       ((normalizeTag w \<noteq> [] \<and> normalizeTag w \<in> set (t_tags (td_task data))) \<or> evaluateText w data)"
proof -
  let ?q = "if normalizeTag w \<noteq> [] then OrNode (FieldNode TagField (normalizeTag w)) (TextNode w) else TextNode w"
  obtain t where t: "w = CHR ''#'' # t" using hash by (auto simp: starts_with_iff)
  have "CHR '':'' \<notin> set w" using w by (auto simp: word_stop_def)
  then have "parseFieldOrText w pos ts = Inr (?q, ts)" for pos ts
    using hash by (simp add: parseFieldOrText_def)
  then have "parseQuery w = Some (Inr ?q)"
    by (rule parseOr_single_word) (use t w in \<open>auto simp: word_type_def\<close>)
  then show ?thesis by (intro exI [of _ ?q]) (auto simp: evaluateField_def evaluateText_def)
qed

theorem hash_query_superset_witness:
  "\<exists>q. parseQuery ''#ab'' = Some (Inr q) \<and>
     evaluateQuery (\<lambda>_. None) q \<lparr>td_task = blank_task\<lparr>t_tags := [''ab'']\<rparr>, td_turns = [], td_commits = [],
         td_comments = [], td_raised = []\<rparr>"
proof -
  have n: "normalizeTag ''#ab'' = ''ab''" by code_simp
  show ?thesis
    using hash_query_superset [of "''#ab''" "\<lambda>_. None" "\<lparr>td_task = blank_task\<lparr>t_tags := [''ab'']\<rparr>, td_turns = [],
         td_commits = [], td_comments = [], td_raised = []\<rparr>"] n
    by (auto simp: word_stop_def value_stop_def is_space_def)
qed

end
