(* ===== verification/SearchRun.thy ===== *)
theory SearchRun
  imports SearchEval "HOL-Library.Char_ord" "HOL-Library.List_Lexorder"
begin

text \<open>
  Running a search over a store: the structured search and its tag hint (\<open>src/search/structured.ts\<close>),
  the lookup by id (\<open>src/search/id-search.ts\<close>), the index of the fuzzy search
  (\<open>src/search/searchable.ts\<close>, \<open>src/search/fuzzy.ts\<close>), the bounded text matcher of the regular
  expression search (\<open>src/search/text-matcher.ts\<close>), the edit distance (\<open>src/utils/levenshtein.ts\<close>)
  and the one entry point \<open>executeSearch\<close> (\<open>src/search/run.ts\<close>).

  The store is read as one snapshot. The regular expression engine, fuse.js and \<open>Date.parse\<close> are
  arguments. \<open>searchById\<close> reads the records of several tasks concurrently and appends what each read
  found when it is done, so the order in which the reads finish is an argument too.
\<close>

section \<open>The store a search reads\<close>

record ReviewComment =
  rc_id :: string
  rc_file :: string
  rc_line :: int
  rc_content :: string
  rc_created_at :: int

record TaskArtifact =
  ar_id :: string
  ar_name :: string
  ar_created_at :: int

record SystemMessage =
  sm_id :: string
  sm_title :: string
  sm_body :: string
  sm_created_at :: int

record ConversationMessage =
  cv_role :: string
  cv_text :: string
  cv_timestamp :: "string option"

record StoredConversation =
  cv_sessionId :: string
  cv_summary :: string
  cv_messages :: "ConversationMessage list"
  cv_endedAt :: "string option"
  cv_importedAt :: int

record MemoryRecord =
  me_name :: string
  me_description :: string
  me_type :: string
  me_body :: string
  me_updated_at :: int
  me_updated_by :: string

record ScratchFile =
  sf_path :: string
  sf_content :: string
  sf_skipped :: "string option"
  sf_updated_at :: int
  sf_updated_by :: string

record SearchStore =
  ss_tasks :: "Task list"
  ss_comments :: "string \<Rightarrow> Comment list"
  ss_raised :: "string \<Rightarrow> RaisedItem list"
  ss_review_comments :: "string \<Rightarrow> ReviewComment list"
  ss_artifacts :: "string \<Rightarrow> TaskArtifact list"
  ss_journal :: "string \<Rightarrow> Comment list"
  ss_task_session :: "string \<Rightarrow> Session option"
  ss_sessions :: "Session list"
  ss_turns :: "string \<Rightarrow> Turn list"
  ss_commits :: "string \<Rightarrow> Commit list"
  ss_messages :: "SystemMessage list"
  ss_conversations :: "StoredConversation list"
  ss_memories :: "MemoryRecord list"
  ss_scratch :: "ScratchFile list"

definition session_turns :: "SearchStore \<Rightarrow> Task \<Rightarrow> Turn list" where
  "session_turns st task =
     (case ss_task_session st (t_id task) of None \<Rightarrow> [] | Some s \<Rightarrow> ss_turns st (s_id s))"

definition session_commits :: "SearchStore \<Rightarrow> Task \<Rightarrow> Commit list" where
  "session_commits st task =
     (case ss_task_session st (t_id task) of None \<Rightarrow> [] | Some s \<Rightarrow> ss_commits st (s_id s))"

definition task_data :: "SearchStore \<Rightarrow> Task \<Rightarrow> TaskData" where
  "task_data st task =
     \<lparr>td_task = task, td_turns = session_turns st task, td_commits = session_commits st task,
      td_comments = ss_comments st (t_id task), td_raised = ss_raised st (t_id task)\<rparr>"

section \<open>Structured search\<close>

primrec scope_terms :: "InScope \<Rightarrow> QueryNode \<Rightarrow> string list" where
  "scope_terms sc (AndNode l r) = scope_terms sc l @ scope_terms sc r"
| "scope_terms sc (OrNode l r) = scope_terms sc l @ scope_terms sc r"
| "scope_terms sc (NotNode q) = []"
| "scope_terms sc (FieldNode f v) = []"
| "scope_terms sc (InNode s v) = (if s = sc then [v] else [])"
| "scope_terms sc (HasNode s) = []"
| "scope_terms sc (DateNode f c v) = []"
| "scope_terms sc (TextNode v) = []"

definition extractConversationTerms :: "QueryNode \<Rightarrow> string list" where
  "extractConversationTerms = scope_terms InConversations"

definition extractMemoryTerms :: "QueryNode \<Rightarrow> string list" where
  "extractMemoryTerms = scope_terms InMemories"

definition extractScratchTerms :: "QueryNode \<Rightarrow> string list" where
  "extractScratchTerms = scope_terms InScratch"

definition free_row :: "EntityType \<Rightarrow> string \<Rightarrow> string \<Rightarrow> string \<Rightarrow> string \<Rightarrow> int option \<Rightarrow> SearchResult" where
  "free_row et eid goal text context' t =
     \<lparr>entity_type = et, matched_id = False, entity_id = eid, r_task_id = eid, r_task_code = None,
      r_task_goal = goal, r_content = text, match_context = context', entity_index = None,
      turn_sequence = None, entity_time = t\<rparr>"

text \<open>Pushing a row unless its key has been seen: the keys seen and the rows so far.\<close>

type_synonym rows_state = "string list \<times> SearchResult list"

definition push_once :: "string \<Rightarrow> SearchResult \<Rightarrow> rows_state \<Rightarrow> rows_state" where
  "push_once key row st =
     (if key \<in> set (fst st) then st else (key # fst st, snd st @ [row]))"

definition conversation_step ::
  "(string \<Rightarrow> int option) \<Rightarrow> StoredConversation \<Rightarrow> rows_state \<Rightarrow> string \<Rightarrow> rows_state" where
  "conversation_step dp conv st term =
     (let sid = cv_sessionId conv; summary = cv_summary conv;
          st1 = (case find (\<lambda>m. textContains (Some (cv_text m)) term) (cv_messages conv) of
                   None \<Rightarrow> st
                 | Some msg \<Rightarrow>
                     push_once (sid @ '':'' @ term)
                       (free_row ConversationEntity sid (if summary = [] then ''(conversation)'' else summary)
                          (cv_text msg) (extractContext (cv_text msg) term)
                          (entityTimeFromIso dp (cv_timestamp msg))) st)
      in if summary \<noteq> [] \<and> textContains (Some summary) term
         then push_once (sid @ '':summary:'' @ term)
                (free_row ConversationEntity sid summary summary summary
                   (case entityTimeFromIso dp (cv_endedAt conv) of
                      Some t \<Rightarrow> Some t | None \<Rightarrow> Some (cv_importedAt conv))) st1
         else st1)"

definition conversation_rows :: "(string \<Rightarrow> int option) \<Rightarrow> StoredConversation list \<Rightarrow> string list \<Rightarrow> SearchResult list" where
  "conversation_rows dp convs terms =
     snd (foldl (\<lambda>st conv. foldl (conversation_step dp conv) st terms) ([], []) convs)"

definition newline :: string where
  "newline = [CHR 0x0A]"

definition memory_step :: "MemoryRecord \<Rightarrow> rows_state \<Rightarrow> string \<Rightarrow> rows_state" where
  "memory_step memory st term =
     (let haystack = me_name memory @ newline @ me_description memory @ newline @ me_body memory
      in if \<not> textContains (Some haystack) term then st
         else push_once (me_name memory @ '':'' @ term)
                (free_row MemoryEntity (me_name memory) (''memory: '' @ me_name memory) (me_body memory)
                   (extractContext haystack term) (Some (me_updated_at memory))) st)"

definition memory_rows :: "MemoryRecord list \<Rightarrow> string list \<Rightarrow> SearchResult list" where
  "memory_rows memories terms =
     snd (foldl (\<lambda>st memory. foldl (memory_step memory) st terms) ([], []) memories)"

definition scratch_step :: "ScratchFile \<Rightarrow> rows_state \<Rightarrow> string \<Rightarrow> rows_state" where
  "scratch_step file st term =
     (let haystack = sf_path file @ newline @ sf_content file
      in if \<not> textContains (Some haystack) term then st
         else push_once (sf_path file @ '':'' @ term)
                (free_row ScratchEntity (sf_path file) (''scratch: '' @ sf_path file) (sf_content file)
                   (extractContext haystack term) (Some (sf_updated_at file))) st)"

definition scratch_rows :: "ScratchFile list \<Rightarrow> string list \<Rightarrow> SearchResult list" where
  "scratch_rows files terms =
     snd (foldl (\<lambda>st file. foldl (scratch_step file) st terms) ([], []) files)"

definition task_rows :: "(string \<Rightarrow> int option) \<Rightarrow> SearchStore \<Rightarrow> QueryNode \<Rightarrow> SearchResult list" where
  "task_rows dp st ast =
     concat (map (\<lambda>task. if evaluateQuery dp ast (task_data st task)
                         then buildSearchResults ast (task_data st task) else []) (ss_tasks st))"

definition structured_rows :: "(string \<Rightarrow> int option) \<Rightarrow> SearchStore \<Rightarrow> QueryNode \<Rightarrow> SearchResult list" where
  "structured_rows dp st ast =
     (let convTerms = extractConversationTerms ast; memoryTerms = extractMemoryTerms ast;
          scratchTerms = extractScratchTerms ast
      in task_rows dp st ast @
         (if 0 < length convTerms then conversation_rows dp (ss_conversations st) convTerms else []) @
         (if 0 < length memoryTerms then memory_rows (ss_memories st) memoryTerms else []) @
         (if 0 < length scratchTerms then scratch_rows (ss_scratch st) scratchTerms else []))"

text \<open>The parser's answer; it always has one (\<open>parseQuery_total\<close>).\<close>

definition parsed_query :: "string \<Rightarrow> (QueryParseError, QueryNode) result" where
  "parsed_query query = the (parseQuery query)"

definition structuredSearch ::
  "(string \<Rightarrow> int option) \<Rightarrow> SearchStore \<Rightarrow> string \<Rightarrow> (QueryParseError, SearchResult list) result" where
  "structuredSearch dp st query = bind_result (parsed_query query) (\<lambda>ast. Inr (structured_rows dp st ast))"

section \<open>The tag hint\<close>

primrec extractTagTerms :: "QueryNode \<Rightarrow> string list" where
  "extractTagTerms (AndNode l r) = extractTagTerms l @ extractTagTerms r"
| "extractTagTerms (OrNode l r) = extractTagTerms l @ extractTagTerms r"
| "extractTagTerms (NotNode q) = []"
| "extractTagTerms (FieldNode f v) = (if f = TagField then [v] else [])"
| "extractTagTerms (InNode s v) = []"
| "extractTagTerms (HasNode s) = []"
| "extractTagTerms (DateNode f c v) = []"
| "extractTagTerms (TextNode v) = []"

text \<open>The single-row dynamic program: a cell reads the row of the previous character at its own place,
  its left neighbour already updated, and the value the left neighbour had before.\<close>

definition lev_cell :: "string \<Rightarrow> string \<Rightarrow> nat \<Rightarrow> nat list \<times> nat \<Rightarrow> nat \<Rightarrow> nat list \<times> nat" where
  "lev_cell a b i st j =
     (case st of (row, prev) \<Rightarrow>
       (let cost = (if a ! (i - 1) = b ! (j - 1) then 0 else 1);
            current = min (min (row ! j + 1) (row ! (j - 1) + 1)) (prev + cost)
        in (row[j := current], row ! j)))"

definition lev_row :: "string \<Rightarrow> string \<Rightarrow> nat list \<Rightarrow> nat \<Rightarrow> nat list" where
  "lev_row a b row i = fst (foldl (lev_cell a b i) (row[0 := i], i - 1) [1..<length b + 1])"

definition levenshteinDistance :: "string \<Rightarrow> string \<Rightarrow> nat" where
  "levenshteinDistance a b =
     (let m = length a; n = length b
      in if m = 0 then n else if n = 0 then m else if a = b then 0
         else foldl (lev_row a b) [0..<n + 1] [1..<m + 1] ! n)"

definition tag_related :: "string \<Rightarrow> string \<Rightarrow> bool" where
  "tag_related queried tag \<longleftrightarrow>
     starts_with tag queried \<or> str_includes tag queried \<or> str_includes queried tag"

definition suggestTags :: "string \<Rightarrow> string list \<Rightarrow> string list" where
  "suggestTags queried known =
     (let cands = map (\<lambda>tag. (tag, tag_related queried tag, levenshteinDistance queried tag)) known;
          close = filter (\<lambda>(tag, related, distance). related \<or> distance \<le> 2) cands;
          ranked = js_sort (then_by (by_key (\<lambda>(tag, related, distance). if related then - 1 else 0))
                              (by_key (\<lambda>(tag, related, distance). int distance))) close
      in map fst (take 3 ranked))"

definition MAX_KNOWN_TAGS_SHOWN :: nat where
  "MAX_KNOWN_TAGS_SHOWN = 15"

text \<open>The lines of the hint: the unknown tags with what they may have meant, and the known tags shown
  with the number left out; \<open>None\<close> when the project has no tags.\<close>

record TagHint =
  th_unknown :: "(string \<times> string list) list"
  th_known :: "(string list \<times> nat) option"

text \<open>\<open>[...new Set(xs)]\<close>: the first occurrences.\<close>

fun dedup_from :: "'a list \<Rightarrow> 'a list \<Rightarrow> 'a list" where
  "dedup_from seen [] = []"
| "dedup_from seen (x # xs) =
     (if x \<in> set seen then dedup_from seen xs else x # dedup_from (x # seen) xs)"

definition js_unique :: "'a list \<Rightarrow> 'a list" where
  "js_unique xs = dedup_from [] xs"

definition buildTagHint :: "SearchStore \<Rightarrow> string \<Rightarrow> TagHint option" where
  "buildTagHint st query =
     (case parsed_query query of
        Inl _ \<Rightarrow> None
      | Inr ast \<Rightarrow>
          (let queried = js_unique (extractTagTerms ast);
               known = sort (js_unique (concat (map t_tags (ss_tasks st))));
               unknown = filter (\<lambda>tag. tag \<notin> set known) queried
           in if length queried = 0 then None
              else if length unknown = 0 then None
              else Some \<lparr>th_unknown = map (\<lambda>tag. (tag, suggestTags tag known)) unknown,
                         th_known = (if length known = 0 then None
                                     else Some (take MAX_KNOWN_TAGS_SHOWN known,
                                                length known - MAX_KNOWN_TAGS_SHOWN))\<rparr>))"

section \<open>Search by id\<close>

definition MIN_ID_QUERY_LENGTH :: nat where
  "MIN_ID_QUERY_LENGTH = 6"

definition hex_char :: "char \<Rightarrow> bool" where
  "hex_char c \<longleftrightarrow> is_digit c \<or> (97 \<le> (of_char c :: nat) \<and> (of_char c :: nat) \<le> 102)
     \<or> (65 \<le> (of_char c :: nat) \<and> (of_char c :: nat) \<le> 70)"

definition id_shape :: "string \<Rightarrow> bool" where
  "id_shape q \<longleftrightarrow> q \<noteq> [] \<and> hex_char (hd q) \<and> (\<forall>c \<in> set q. hex_char c \<or> c = CHR ''-'')"

definition drop_dashes :: "string \<Rightarrow> string" where
  "drop_dashes s = filter (\<lambda>c. c \<noteq> CHR ''-'') s"

definition idQueryOf :: "string \<Rightarrow> string option" where
  "idQueryOf query =
     (let t = trim query;
          q = to_lower (if starts_with t ''#'' then tl t else t)
      in if length (drop_dashes q) < MIN_ID_QUERY_LENGTH then None
         else if id_shape q then Some q else None)"

definition idMatches :: "string \<Rightarrow> string \<Rightarrow> bool" where
  "idMatches eid q \<longleftrightarrow>
     eid \<noteq> [] \<and>
     (starts_with (to_lower eid) q \<or>
      (CHR ''-'' \<notin> set q \<and> starts_with (drop_dashes (to_lower eid)) q))"

definition excerpt :: "string \<Rightarrow> string" where
  "excerpt text =
     (let flat = trim (collapse_spaces text)
      in if length flat > 160 then take 160 flat @ ''...'' else flat)"

definition id_row ::
  "Task \<Rightarrow> EntityType \<Rightarrow> string \<Rightarrow> string \<Rightarrow> string \<Rightarrow> nat option \<Rightarrow> int \<Rightarrow> SearchResult" where
  "id_row task et eid text context' i t =
     (task_row task et eid text context' t)\<lparr>matched_id := True, entity_index := i\<rparr>"

definition task_id_rows :: "string \<Rightarrow> Task list \<Rightarrow> SearchResult list" where
  "task_id_rows q tasks =
     map (\<lambda>t. id_row t TaskEntity (t_id t) (''id: '' @ t_id t) (t_id t) None (task_time t))
       (filter (\<lambda>t. idMatches (t_id t) q) tasks)"

text \<open>What the read of one task's records appends.\<close>

definition task_record_rows :: "SearchStore \<Rightarrow> string \<Rightarrow> Task \<Rightarrow> SearchResult list" where
  "task_record_rows st q task =
     (let tid = t_id task in
      map (\<lambda>j. id_row task JournalEntity (co_id j) (co_content j) (excerpt (co_content j)) None (co_created_at j))
        (filter (\<lambda>j. idMatches (co_id j) q) (ss_journal st tid)) @
      map (\<lambda>(i, c). id_row task CommentEntity (co_id c) (co_content c) (excerpt (co_content c)) (Some i) (co_created_at c))
        (filter (\<lambda>(i, c). idMatches (co_id c) q) (enumerate 0 (ss_comments st tid))) @
      map (\<lambda>(i, r). id_row task RaisedEntity (ra_id r) (ra_content r) (excerpt (ra_content r)) (Some i) (ra_created_at r))
        (filter (\<lambda>(i, r). idMatches (ra_id r) q) (enumerate 0 (ss_raised st tid))) @
      map (\<lambda>c. id_row task ReviewCommentEntity (rc_id c) (rc_content c)
                 (excerpt (rc_file c @ '':'' @ show_int (rc_line c) @ '' '' @ rc_content c)) None (rc_created_at c))
        (filter (\<lambda>c. idMatches (rc_id c) q) (ss_review_comments st tid)) @
      map (\<lambda>a. id_row task ArtifactEntity (ar_id a) (ar_name a) (ar_name a) None (ar_created_at a))
        (filter (\<lambda>a. idMatches (ar_id a) q) (ss_artifacts st tid)))"

definition task_by_id :: "Task list \<Rightarrow> string \<Rightarrow> Task option" where
  "task_by_id tasks tid = find (\<lambda>t. t_id t = tid) (rev tasks)"

text \<open>What the read of one session's turns and commits appends. A stored turn without content that
  the query names makes \<open>excerpt\<close> throw, which fails the search: \<open>None\<close>.\<close>

definition named_turns :: "SearchStore \<Rightarrow> string \<Rightarrow> Session \<Rightarrow> (nat \<times> Turn) list" where
  "named_turns st q session =
     filter (\<lambda>(i, t). idMatches (tn_id t) q) (enumerate 0 (ss_turns st (s_id session)))"

definition named_commits :: "SearchStore \<Rightarrow> string \<Rightarrow> Session \<Rightarrow> (nat \<times> Commit) list" where
  "named_commits st q session =
     filter (\<lambda>(i, c). idMatches (cm_id c) q \<or> idMatches (cm_sha c) q)
       (enumerate 0 (ss_commits st (s_id session)))"

definition turn_id_row :: "Task \<Rightarrow> nat \<Rightarrow> Turn \<Rightarrow> string \<Rightarrow> SearchResult" where
  "turn_id_row task i t text =
     (id_row task TurnEntity (tn_id t) text (excerpt text) (Some i) (tn_timestamp t))
       \<lparr>turn_sequence := Some (tn_sequence t)\<rparr>"

definition session_rows :: "SearchStore \<Rightarrow> string \<Rightarrow> Session \<Rightarrow> SearchResult list option" where
  "session_rows st q session =
     (case task_by_id (ss_tasks st) (s_task_id session) of
        None \<Rightarrow> Some []
      | Some task \<Rightarrow>
          if \<exists>(i, t) \<in> set (named_turns st q session). tn_content t = None then None
          else Some
            (map (\<lambda>(i, t). turn_id_row task i t (the (tn_content t))) (named_turns st q session) @
             map (\<lambda>(i, c). id_row task CommitEntity (cm_id c) (cm_message c)
                              (excerpt (take 12 (cm_sha c) @ '' '' @ cm_message c)) (Some i) (cm_timestamp c))
               (named_commits st q session)))"

definition message_rows :: "string \<Rightarrow> SystemMessage list \<Rightarrow> SearchResult list" where
  "message_rows q messages =
     map (\<lambda>m. (free_row MessageEntity (sm_id m) (sm_title m) (sm_body m) (excerpt (sm_body m)) (Some (sm_created_at m)))
               \<lparr>matched_id := True, r_task_id := []\<rparr>)
       (filter (\<lambda>m. idMatches (sm_id m) q) messages)"

definition conversation_id_rows :: "string \<Rightarrow> StoredConversation list \<Rightarrow> SearchResult list" where
  "conversation_id_rows q convs =
     map (\<lambda>c. (free_row ConversationEntity (cv_sessionId c) (cv_summary c) (cv_summary c) (excerpt (cv_summary c)) None)
               \<lparr>matched_id := True, r_task_id := []\<rparr>)
       (filter (\<lambda>c. idMatches (cv_sessionId c) q) convs)"

datatype SearchError = QueryError QueryParseError | PatternError string | MissingTurnContent

text \<open>The orders in which the concurrent reads of the tasks and of the sessions finish.\<close>

record ReadOrder =
  finish_tasks :: "Task list \<Rightarrow> Task list"
  finish_sessions :: "Session list \<Rightarrow> Session list"

definition searchById :: "ReadOrder \<Rightarrow> SearchStore \<Rightarrow> string \<Rightarrow> (SearchError, SearchResult list) result" where
  "searchById ord st query =
     (case idQueryOf query of
        None \<Rightarrow> Inr []
      | Some q \<Rightarrow>
          (let per_session = map (session_rows st q) (finish_sessions ord (ss_sessions st))
           in if None \<in> set per_session then Inl MissingTurnContent
              else Inr (task_id_rows q (ss_tasks st) @
                        concat (map (task_record_rows st q) (finish_tasks ord (ss_tasks st))) @
                        concat (map the per_session) @
                        message_rows q (ss_messages st) @
                        conversation_id_rows q (ss_conversations st))))"

section \<open>The fuzzy search\<close>

record SearchableItem =
  si_type :: EntityType
  si_taskId :: string
  si_taskCode :: "string option"
  si_taskGoal :: string
  si_content :: string
  si_context :: "string option"
  si_entityIndex :: "nat option"
  si_turnSequence :: "int option"
  si_entityTime :: "int option"

definition turnText :: "Turn \<Rightarrow> string" where
  "turnText turn = (case tn_content turn of Some s \<Rightarrow> s | None \<Rightarrow> [])"

definition task_item :: "Task \<Rightarrow> EntityType \<Rightarrow> string \<Rightarrow> string option \<Rightarrow> nat option \<Rightarrow> int option \<Rightarrow> int \<Rightarrow> SearchableItem" where
  "task_item task et text context' i sq t =
     \<lparr>si_type = et, si_taskId = t_id task, si_taskCode = t_code task, si_taskGoal = t_goal task,
      si_content = text, si_context = context', si_entityIndex = i, si_turnSequence = sq,
      si_entityTime = Some t\<rparr>"

definition task_items :: "SearchStore \<Rightarrow> Task \<Rightarrow> SearchableItem list" where
  "task_items st task =
     (let tid = t_id task in
      [task_item task TaskEntity
         (case nonempty (t_code task) of Some c \<Rightarrow> c @ '' '' @ t_goal task | None \<Rightarrow> t_goal task)
         None None None (task_time task)] @
      (if t_prompt task = [] then [] else [task_item task PromptEntity (t_prompt task) None None None (task_time task)]) @
      map (\<lambda>(i, c). task_item task CommentEntity (co_content c)
                      (Some (''Comment ('' @ show_int (co_created_at c) @ '')'')) (Some i) None (co_created_at c))
        (enumerate 0 (ss_comments st tid)) @
      map (\<lambda>(i, r). task_item task RaisedEntity (ra_content r)
                      (Some (''Raised ('' @ ra_status r @ '', '' @ show_int (ra_created_at r) @ '')'')) (Some i) None (ra_created_at r))
        (enumerate 0 (ss_raised st tid)) @
      map (\<lambda>(i, t). task_item task TurnEntity (turnText t)
                      (Some (''Turn '' @ show_int (tn_sequence t) @ '' ('' @ tn_role t @ '')'')) (Some i)
                      (Some (tn_sequence t)) (tn_timestamp t))
        (enumerate 0 (session_turns st task)) @
      map (\<lambda>(i, c). task_item task CommitEntity (cm_message c)
                      (Some (''Commit '' @ take 7 (cm_sha c))) (Some i) None (cm_timestamp c))
        (enumerate 0 (session_commits st task)))"

definition free_item :: "EntityType \<Rightarrow> string \<Rightarrow> string \<Rightarrow> string \<Rightarrow> string \<Rightarrow> int option \<Rightarrow> SearchableItem" where
  "free_item et eid goal text context' t =
     \<lparr>si_type = et, si_taskId = eid, si_taskCode = None, si_taskGoal = goal, si_content = text,
      si_context = Some context', si_entityIndex = None, si_turnSequence = None, si_entityTime = t\<rparr>"

definition conversation_items :: "(string \<Rightarrow> int option) \<Rightarrow> StoredConversation \<Rightarrow> SearchableItem list" where
  "conversation_items dp conv =
     (let sid = cv_sessionId conv; summary = cv_summary conv;
          summaryTime = (case entityTimeFromIso dp (cv_endedAt conv) of Some t \<Rightarrow> t | None \<Rightarrow> cv_importedAt conv)
      in (if summary = [] then []
          else [free_item ConversationEntity sid summary summary ''Conversation summary'' (Some summaryTime)]) @
         map (\<lambda>m. free_item ConversationEntity sid (if summary = [] then ''(conversation)'' else summary)
                     (cv_text m) (''Conversation ('' @ cv_role m @ '')'') (entityTimeFromIso dp (cv_timestamp m)))
           (filter (\<lambda>m. cv_text m \<noteq> []) (cv_messages conv)))"

definition memory_item :: "MemoryRecord \<Rightarrow> SearchableItem" where
  "memory_item m =
     free_item MemoryEntity (me_name m) (''memory: '' @ me_name m)
       (me_name m @ newline @ me_description m @ newline @ me_body m)
       (''Memory ('' @ me_type m @ '', updated by '' @ me_updated_by m @ '')'') (Some (me_updated_at m))"

definition scratch_item :: "ScratchFile \<Rightarrow> SearchableItem" where
  "scratch_item f =
     free_item ScratchEntity (sf_path f) (''scratch: '' @ sf_path f) (sf_path f @ newline @ sf_content f)
       (case nonempty (sf_skipped f) of
          Some why \<Rightarrow> ''Builder scratch ('' @ why @ '', content not stored)''
        | None \<Rightarrow> ''Builder scratch (updated by '' @ sf_updated_by f @ '')'')
       (Some (sf_updated_at f))"

definition getAllSearchableContent :: "(string \<Rightarrow> int option) \<Rightarrow> SearchStore \<Rightarrow> SearchableItem list" where
  "getAllSearchableContent dp st =
     concat (map (task_items st) (ss_tasks st)) @
     concat (map (conversation_items dp) (ss_conversations st)) @
     map memory_item (ss_memories st) @
     map scratch_item (ss_scratch st)"

definition getMatchContext :: "string \<Rightarrow> nat \<Rightarrow> nat \<Rightarrow> string" where
  "getMatchContext text matchStart matchLength =
     (let start = matchStart - 40;
          end' = min (length text) (matchStart + matchLength + 40);
          flat = trim (collapse_spaces (drop start (take end' text)));
          front = (if start > 0 then ''...'' @ flat else flat)
      in if end' < length text then front @ ''...'' else front)"

definition truncate :: "string \<Rightarrow> nat \<Rightarrow> string" where
  "truncate str maxLen =
     (let cleaned = trim (collapse_spaces str)
      in if length cleaned \<le> maxLen then cleaned else take (maxLen - 3) cleaned @ ''...'')"

text \<open>fuse.js answers with items and, for each, the first matched range where it reports one.\<close>

type_synonym fuse = "SearchableItem list \<Rightarrow> string \<Rightarrow> (SearchableItem \<times> (nat \<times> nat) option) list"

definition fuzzy_row :: "SearchableItem \<times> (nat \<times> nat) option \<Rightarrow> SearchResult" where
  "fuzzy_row hit =
     (case hit of (item, matched) \<Rightarrow>
       \<lparr>entity_type = si_type item, matched_id = False, entity_id = si_taskId item,
        r_task_id = si_taskId item, r_task_code = si_taskCode item, r_task_goal = si_taskGoal item,
        r_content = si_content item,
        match_context = (case matched of
            Some (start, end') \<Rightarrow> getMatchContext (si_content item) start (end' - start + 1)
          | None \<Rightarrow> truncate (si_content item) 100),
        entity_index = si_entityIndex item, turn_sequence = si_turnSequence item,
        entity_time = si_entityTime item\<rparr>)"

definition fuzzySearch :: "fuse \<Rightarrow> SearchableItem list \<Rightarrow> string \<Rightarrow> SearchResult list" where
  "fuzzySearch fuse items query = map fuzzy_row (fuse items query)"

section \<open>The entry point\<close>

record SearchRequest =
  rq_query :: string
  rq_fuzzy :: bool
  rq_types :: "string list"

record SearchOutcome =
  so_results :: "SearchResult list"
  so_hint :: "TagHint option"

definition TYPE_FILTER_ALIASES :: "string \<Rightarrow> string" where
  "TYPE_FILTER_ALIASES t = (if t = ''followup'' \<or> t = ''followups'' then ''raised'' else t)"

text \<open>What a search depends on outside the program: \<open>Date.parse\<close>, fuse.js, the store's regular
  expression search and the finishing order of concurrent reads.\<close>

record SearchEnv =
  env_date_parse :: "string \<Rightarrow> int option"
  env_fuse :: fuse
  env_regex :: "SearchStore \<Rightarrow> string \<Rightarrow> (string, SearchResult list) result"
  env_order :: ReadOrder

definition text_hits :: "SearchEnv \<Rightarrow> SearchStore \<Rightarrow> SearchRequest \<Rightarrow> (SearchError, SearchResult list) result" where
  "text_hits env st req =
     (if rq_fuzzy req
      then Inr (fuzzySearch (env_fuse env) (getAllSearchableContent (env_date_parse env) st) (rq_query req))
      else if isStructuredQuery (rq_query req)
      then map_sum QueryError id (structuredSearch (env_date_parse env) st (rq_query req))
      else map_sum PatternError id (env_regex env st (rq_query req)))"

definition merge_id_hits :: "SearchResult list \<Rightarrow> SearchResult list \<Rightarrow> SearchResult list" where
  "merge_id_hits idHits results =
     (if 0 < length idHits
      then idHits @ filter (\<lambda>r. row_key r \<notin> row_key ` set idHits) results
      else results)"

definition filter_types :: "string list \<Rightarrow> SearchResult list \<Rightarrow> SearchResult list" where
  "filter_types types results =
     (if types = [] then results
      else filter (\<lambda>r. entity_name (entity_type r) \<in> set (map TYPE_FILTER_ALIASES types)) results)"

definition literal_terms :: "SearchRequest \<Rightarrow> (SearchError, string list) result" where
  "literal_terms req =
     (if rq_fuzzy req \<or> \<not> isStructuredQuery (rq_query req) then Inr [rq_query req]
      else map_sum QueryError queryLiteralTerms (parsed_query (rq_query req)))"

definition executeSearch :: "SearchEnv \<Rightarrow> SearchStore \<Rightarrow> SearchRequest \<Rightarrow> (SearchError, SearchOutcome) result" where
  "executeSearch env st req =
     bind_result (text_hits env st req) (\<lambda>results.
     bind_result (if rq_fuzzy req then Inr [] else searchById (env_order env) st (rq_query req)) (\<lambda>idHits.
     bind_result (literal_terms req) (\<lambda>terms.
       let ranked = rankSearchResults (filter_types (rq_types req) (merge_id_hits idHits results)) terms
       in Inr \<lparr>so_results = ranked,
               so_hint = (if length ranked = 0 \<and> \<not> rq_fuzzy req \<and> isStructuredQuery (rq_query req)
                          then buildTagHint st (rq_query req) else None)\<rparr>)))"

section \<open>The edit distance\<close>

text \<open>What the distance means: the least cost of aligning the two texts character by character, where
  leaving a character out, putting one in and replacing one cost one each.\<close>

inductive aligned :: "nat \<Rightarrow> string \<Rightarrow> string \<Rightarrow> bool" where
  aligned_Nil: "aligned 0 [] []"
| aligned_same: "aligned k a b \<Longrightarrow> aligned k (a @ [c]) (b @ [c])"
| aligned_replace: "aligned k a b \<Longrightarrow> aligned (k + 1) (a @ [c]) (b @ [d])"
| aligned_delete: "aligned k a b \<Longrightarrow> aligned (k + 1) (a @ [c]) b"
| aligned_insert: "aligned k a b \<Longrightarrow> aligned (k + 1) a (b @ [d])"

text \<open>The textbook recurrence over the lengths of the prefixes.\<close>

fun edit_cost :: "string \<Rightarrow> string \<Rightarrow> nat \<Rightarrow> nat \<Rightarrow> nat" where
  "edit_cost a b 0 j = j"
| "edit_cost a b (Suc i) 0 = Suc i"
| "edit_cost a b (Suc i) (Suc j) =
     min (min (edit_cost a b i (Suc j) + 1) (edit_cost a b (Suc i) j + 1))
       (edit_cost a b i j + (if a ! i = b ! j then 0 else 1))"

lemma aligned_drop: "aligned (length a) a []"
  by (induction a rule: rev_induct) (auto intro: aligned_Nil dest: aligned_delete)

lemma aligned_add: "aligned (length b) [] b"
  by (induction b rule: rev_induct) (auto intro: aligned_Nil dest: aligned_insert)

lemma aligned_edit_cost:
  "i \<le> length a \<Longrightarrow> j \<le> length b \<Longrightarrow> aligned (edit_cost a b i j) (take i a) (take j b)"
proof (induction a b i j rule: edit_cost.induct)
  case (1 a b j)
  then show ?case using aligned_add [of "take j b"] by simp
next
  case (2 a b i)
  then show ?case using aligned_drop [of "take (Suc i) a"] by simp
next
  case (3 a b i j)
  have a: "take (Suc i) a = take i a @ [a ! i]" and b: "take (Suc j) b = take j b @ [b ! j]"
    using 3 by (simp_all add: take_Suc_conv_app_nth)
  have "aligned (edit_cost a b i (Suc j) + 1) (take (Suc i) a) (take (Suc j) b)"
    unfolding a using 3 by (intro aligned_delete) simp
  moreover have "aligned (edit_cost a b (Suc i) j + 1) (take (Suc i) a) (take (Suc j) b)"
    unfolding b using 3 by (intro aligned_insert) simp
  moreover have "aligned (edit_cost a b i j + (if a ! i = b ! j then 0 else 1)) (take (Suc i) a) (take (Suc j) b)"
    unfolding a b using 3 by (cases "a ! i = b ! j") (auto intro: aligned_same aligned_replace [simplified])
  ultimately show ?case by (auto simp: min_def simp del: take_Suc)
qed

lemma edit_cost_0 [simp]: "edit_cost a b i 0 = i"
  by (cases i) simp_all

lemma edit_cost_row: "edit_cost a b (Suc i) j \<le> edit_cost a b i j + 1"
  by (cases j) simp_all

lemma edit_cost_column: "edit_cost a b i (Suc j) \<le> edit_cost a b i j + 1"
  by (cases i) simp_all

lemma edit_cost_append:
  "i \<le> length a \<Longrightarrow> j \<le> length b \<Longrightarrow> edit_cost (a @ x) (b @ y) i j = edit_cost a b i j"
  by (induction a b i j rule: edit_cost.induct) (simp_all add: nth_append)

lemma edit_cost_least: "aligned k a b \<Longrightarrow> edit_cost a b (length a) (length b) \<le> k"
proof (induction rule: aligned.induct)
  case (aligned_same k a b c)
  then show ?case using edit_cost_append [of "length a" a "length b" b "[c]" "[c]"] by simp
next
  case (aligned_replace k a b c d)
  then show ?case using edit_cost_append [of "length a" a "length b" b "[c]" "[d]"]
    by (simp add: min_le_iff_disj)
next
  case (aligned_delete k a b c)
  then show ?case
    using edit_cost_row [of "a @ [c]" b "length a" "length b"]
      edit_cost_append [of "length a" a "length b" b "[c]" "[]"] by simp
next
  case (aligned_insert k a b d)
  then show ?case
    using edit_cost_column [of a "b @ [d]" "length a" "length b"]
      edit_cost_append [of "length a" a "length b" b "[]" "[d]"] by simp
qed simp

text \<open>The row after the first \<open>i\<close> characters, its first \<open>j\<close> cells already those of the next one.\<close>

definition cost_row :: "string \<Rightarrow> string \<Rightarrow> nat \<Rightarrow> nat list" where
  "cost_row a b i = map (edit_cost a b i) [0..<length b + 1]"

definition mixed_row :: "string \<Rightarrow> string \<Rightarrow> nat \<Rightarrow> nat \<Rightarrow> nat list" where
  "mixed_row a b i j = map (\<lambda>j'. if j' \<le> j then edit_cost a b (Suc i) j' else edit_cost a b i j') [0..<length b + 1]"

lemma nth_mixed_row [simp]:
  "j' \<le> length b \<Longrightarrow> mixed_row a b i j ! j' = (if j' \<le> j then edit_cost a b (Suc i) j' else edit_cost a b i j')"
  by (simp add: mixed_row_def del: upt_Suc)

lemma length_mixed_row [simp]: "length (mixed_row a b i j) = length b + 1"
  by (simp add: mixed_row_def)

lemma lev_cells:
  "j \<le> length b \<Longrightarrow>
   foldl (lev_cell a b (Suc i)) (mixed_row a b i 0, i) [1..<j + 1] = (mixed_row a b i j, edit_cost a b i j)"
proof (induction j)
  case 0
  then show ?case by simp
next
  case (Suc j)
  then have IH: "foldl (lev_cell a b (Suc i)) (mixed_row a b i 0, i) [1..<j + 1] = (mixed_row a b i j, edit_cost a b i j)"
    by simp
  have "(mixed_row a b i j)[Suc j := edit_cost a b (Suc i) (Suc j)] = mixed_row a b i (Suc j)"
    by (rule nth_equalityI) (auto simp: nth_list_update le_Suc_eq less_Suc_eq_le)
  then have "lev_cell a b (Suc i) (mixed_row a b i j, edit_cost a b i j) (Suc j) =
      (mixed_row a b i (Suc j), edit_cost a b i (Suc j))"
    using Suc.prems by (simp add: lev_cell_def Let_def)
  moreover have "[1..<Suc j + 1] = [1..<j + 1] @ [Suc j]" by simp
  ultimately show ?case using IH by (simp del: upt_Suc)
qed

lemma lev_row_step: "lev_row a b (cost_row a b i) (Suc i) = cost_row a b (Suc i)"
proof -
  have "(cost_row a b i)[0 := Suc i] = mixed_row a b i 0"
    by (rule nth_equalityI) (auto simp: cost_row_def nth_list_update less_Suc_eq_le simp del: upt_Suc)
  moreover have "mixed_row a b i (length b) = cost_row a b (Suc i)"
    by (rule nth_equalityI) (auto simp: cost_row_def less_Suc_eq_le simp del: upt_Suc)
  ultimately show ?thesis using lev_cells [of "length b" b a i] by (simp add: lev_row_def)
qed

lemma lev_rows: "foldl (lev_row a b) (cost_row a b 0) [1..<m + 1] = cost_row a b m"
  by (induction m) (simp_all add: lev_row_step)

lemma edit_cost_refl: "i \<le> length a \<Longrightarrow> edit_cost a a i i = 0"
  by (induction i) simp_all

lemma levenshtein_edit_cost: "levenshteinDistance a b = edit_cost a b (length a) (length b)"
proof -
  have row0: "[0..<length b + 1] = cost_row a b 0" by (simp add: cost_row_def map_idI del: upt_Suc)
  have "foldl (lev_row a b) [0..<length b + 1] [1..<length a + 1] ! length b =
      edit_cost a b (length a) (length b)"
    unfolding row0 lev_rows by (simp add: cost_row_def del: upt_Suc)
  then show ?thesis
    by (auto simp: levenshteinDistance_def Let_def edit_cost_refl simp del: upt_Suc)
qed

text \<open>C21: the single-row dynamic program with its shortcuts computes the least cost of turning one text
  into the other by inserting, deleting and replacing single characters.\<close>

theorem levenshtein_least:
  "aligned (levenshteinDistance a b) a b \<and>
   levenshteinDistance a b = (LEAST k. aligned k a b) \<and>
   (levenshteinDistance a b = 0) = (a = b)"
proof (intro conjI)
  show al: "aligned (levenshteinDistance a b) a b"
    using aligned_edit_cost [of "length a" a "length b" b] by (simp add: levenshtein_edit_cost)
  show "levenshteinDistance a b = (LEAST k. aligned k a b)"
    by (rule Least_equality [where P = "\<lambda>k. aligned k a b", symmetric]) (simp_all add: al, simp add: levenshtein_edit_cost edit_cost_least)
  have "aligned k a b \<Longrightarrow> k = 0 \<Longrightarrow> a = b" for k by (induction rule: aligned.induct) auto
  with al show "(levenshteinDistance a b = 0) = (a = b)"
    by (auto simp: levenshtein_edit_cost edit_cost_refl)
qed

section \<open>Naming an entity by its id\<close>

lemma hex_char_not_special:
  assumes "hex_char c"
  shows "\<not> is_space c" "c \<noteq> CHR ''#''" "c \<noteq> CHR ''-''"
  using assms by (auto simp: hex_char_def is_digit_def is_space_def)

lemma hex_char_lower [simp]: "hex_char (lower_char c) = hex_char c"
proof -
  define n where "n = (of_char c :: nat)"
  have "(of_char (lower_char c) :: nat) =
     (if (65 \<le> n \<and> n \<le> 90) \<or> (192 \<le> n \<and> n \<le> 222 \<and> n \<noteq> 215) then n + 32 else n)"
    by (simp add: of_char_lower_char Let_def n_def)
  then show ?thesis unfolding hex_char_def is_digit_def n_def [symmetric] by presburger
qed

lemma lower_char_dash [simp]: "(lower_char c = CHR ''-'') = (c = CHR ''-'')"
proof -
  define n where "n = (of_char c :: nat)"
  have "(of_char (lower_char c) :: nat) =
     (if (65 \<le> n \<and> n \<le> 90) \<or> (192 \<le> n \<and> n \<le> 222 \<and> n \<noteq> 215) then n + 32 else n)"
    by (simp add: of_char_lower_char Let_def n_def)
  then have "(of_char (lower_char c) :: nat) = 45 \<longleftrightarrow> n = 45" by presburger
  moreover have "d = CHR ''-'' \<longleftrightarrow> (of_char d :: nat) = 45" for d
    using of_char_eq_iff [where 'a = nat, of d "CHR ''-''"] by simp
  ultimately show ?thesis by (simp add: n_def)
qed

lemma drop_dashes_lower [simp]: "drop_dashes (to_lower s) = to_lower (drop_dashes s)"
  by (induction s) (simp_all add: drop_dashes_def to_lower_def)

lemma drop_dashes_append: "drop_dashes (s @ t) = drop_dashes s @ drop_dashes t"
  by (simp add: drop_dashes_def)

lemma drop_dashes_idem [simp]: "drop_dashes (drop_dashes s) = drop_dashes s"
  by (simp add: drop_dashes_def)

lemma dash_free [simp]: "CHR ''-'' \<notin> set (drop_dashes s)"
  by (simp add: drop_dashes_def)

definition hex_or_dash :: "string \<Rightarrow> bool" where
  "hex_or_dash s \<longleftrightarrow> (\<forall>c \<in> set s. hex_char c \<or> c = CHR ''-'')"

lemma hex_or_dash_lower [simp]: "hex_or_dash (to_lower s) = hex_or_dash s"
  by (simp add: hex_or_dash_def to_lower_def)

lemma hex_or_dash_drop: "hex_or_dash s \<Longrightarrow> hex_or_dash (drop_dashes s)"
  by (auto simp: hex_or_dash_def drop_dashes_def)

lemma dash_not_special: "\<not> is_space CHR ''-''" "CHR ''-'' \<noteq> CHR ''#''"
  by (simp_all add: is_space_def)

lemma hex_or_dash_no_space:
  assumes "hex_or_dash s" "c \<in> set s"
  shows "\<not> is_space c \<and> c \<noteq> CHR ''#''"
proof (cases "c = CHR ''-''")
  case True
  then show ?thesis using dash_not_special by blast
next
  case False
  then have "hex_char c" using assms by (auto simp: hex_or_dash_def)
  then show ?thesis using hex_char_not_special by blast
qed

lemma trim_no_space:
  assumes "\<forall>c \<in> set s. \<not> is_space c"
  shows "trim s = s"
proof (cases s)
  case (Cons c t)
  then have "trim_start s = s" using assms by (simp add: trim_start_def)
  then show ?thesis using assms Cons by (simp add: trim_def trim_end_no_space)
qed (simp add: trim_def trim_start_def)

lemma hex_hash_free: "hex_or_dash s \<Longrightarrow> \<not> starts_with s ''#''"
  using hex_or_dash_no_space [of s "hd s"] by (cases s) auto

lemma idQueryOf_hex:
  assumes "hex_or_dash s" "6 \<le> length (drop_dashes s)" "hex_char (hd s)" "s \<noteq> []"
  shows "idQueryOf s = Some (to_lower s)" and "idQueryOf (CHR ''#'' # s) = Some (to_lower s)"
proof -
  have sp: "\<forall>c \<in> set s. \<not> is_space c" using hex_or_dash_no_space [OF assms(1)] by blast
  have "\<not> is_space CHR ''#''" by (simp add: is_space_def)
  with sp have sp': "\<forall>c \<in> set (CHR ''#'' # s). \<not> is_space c" by simp
  note t = trim_no_space [OF sp] trim_no_space [OF sp']
  have shape: "id_shape (to_lower s)"
    using assms by (cases s) (simp_all add: id_shape_def hex_or_dash_def to_lower_def)
  show "idQueryOf s = Some (to_lower s)"
    unfolding idQueryOf_def t Let_def MIN_ID_QUERY_LENGTH_def
    using assms(2) shape hex_hash_free [OF assms(1)] by simp
  show "idQueryOf (CHR ''#'' # s) = Some (to_lower s)"
    unfolding idQueryOf_def t Let_def MIN_ID_QUERY_LENGTH_def
    using assms(2) shape by simp
qed

lemma hd_drop_dashes: "s \<noteq> [] \<Longrightarrow> hex_char (hd s) \<Longrightarrow> hd (drop_dashes s) = hd s \<and> drop_dashes s \<noteq> []"
  using hex_char_not_special(3) by (cases s) (auto simp: drop_dashes_def)

text \<open>Whoever types at least six hex digits from the start of an id finds the entity: in any case,
  with or without the dashes of a uuid, and with a leading \<open>#\<close> or without.\<close>

theorem id_prefix_found:
  assumes eid: "id_shape eid" and p: "starts_with eid p" "6 \<le> length (drop_dashes p)"
    and typed: "to_lower typed = to_lower p"
  shows "(\<exists>q. idQueryOf typed = Some q \<and> idMatches eid q) \<and>
         (\<exists>q. idQueryOf (CHR ''#'' # typed) = Some q \<and> idMatches eid q) \<and>
         (\<exists>q. idQueryOf (drop_dashes typed) = Some q \<and> idMatches eid q)"
proof -
  obtain t where t: "eid = p @ t" using p(1) by (auto simp: starts_with_iff)
  have p_ne: "p \<noteq> []" using p(2) by (auto simp: drop_dashes_def)
  have hex_p: "hex_or_dash p" and hd_p: "hex_char (hd p)"
    using eid t p_ne by (auto simp: id_shape_def hex_or_dash_def)
  have len: "length (drop_dashes typed) = length (drop_dashes p)"
    by (metis drop_dashes_lower length_to_lower typed)
  have ne: "typed \<noteq> []" using typed p_ne by (metis to_lower_eq_Nil_iff)
  have hex: "hex_or_dash typed" using hex_p by (metis hex_or_dash_lower typed)
  have "hd (to_lower typed) = lower_char (hd typed)" "hd (to_lower p) = lower_char (hd p)"
    using ne p_ne by (simp_all add: to_lower_def hd_map)
  then have hd: "hex_char (hd typed)" using hd_p typed by (metis hex_char_lower)
  have eid_ne: "eid \<noteq> []" using t p_ne by simp
  have low: "starts_with (to_lower eid) (to_lower typed)" by (simp add: t typed)
  have "to_lower (drop_dashes typed) = to_lower (drop_dashes p)" by (metis drop_dashes_lower typed)
  then have dash: "starts_with (drop_dashes (to_lower eid)) (to_lower (drop_dashes typed))"
    by (simp add: t drop_dashes_append)
  have no_dash: "CHR ''-'' \<notin> set (to_lower (drop_dashes typed))"
    using dash_free [of "to_lower typed"] by simp
  have 1: "idQueryOf typed = Some (to_lower typed)" "idQueryOf (CHR ''#'' # typed) = Some (to_lower typed)"
    by (rule idQueryOf_hex; use hex p(2) len hd ne in simp)+
  have 2: "idQueryOf (drop_dashes typed) = Some (to_lower (drop_dashes typed))"
    using hex_or_dash_drop [OF hex] p(2) len hd_drop_dashes [OF ne hd] hd by (intro idQueryOf_hex) auto
  show ?thesis using 1 2 low dash no_dash eid_ne by (simp add: idMatches_def)
qed

theorem id_prefix_found_witness:
  "\<exists>q. idQueryOf (drop_dashes ''F7C3-3f9'') = Some q \<and> idMatches ''f7c3-3f91-ab'' q"
proof -
  have "id_shape ''f7c3-3f91-ab''" "starts_with ''f7c3-3f91-ab'' ''f7c3-3f9''"
    "6 \<le> length (drop_dashes ''f7c3-3f9'')" "to_lower ''F7C3-3f9'' = to_lower ''f7c3-3f9''"
    by code_simp+
  then show ?thesis using id_prefix_found [of "''f7c3-3f91-ab''" "''f7c3-3f9''" "''F7C3-3f9''"] by blast
qed

section \<open>Running a search\<close>

text \<open>No row so far is an id hit.\<close>

definition text_only :: "rows_state \<Rightarrow> bool" where
  "text_only st \<longleftrightarrow> list_all (\<lambda>r. \<not> matched_id r) (snd st)"

lemma text_only_push: "text_only st \<Longrightarrow> \<not> matched_id row \<Longrightarrow> text_only (push_once key row st)"
  by (simp add: text_only_def push_once_def)

lemma free_row_unmatched [simp]: "\<not> matched_id (free_row et eid goal text c t)"
  by (simp add: free_row_def)

lemma conversation_step_unmatched: "text_only st \<Longrightarrow> text_only (conversation_step dp conv st term)"
  by (simp add: conversation_step_def Let_def text_only_push split: option.split)

lemma memory_step_unmatched: "text_only st \<Longrightarrow> text_only (memory_step m st term)"
  by (simp add: memory_step_def Let_def text_only_push)

lemma scratch_step_unmatched: "text_only st \<Longrightarrow> text_only (scratch_step m st term)"
  by (simp add: scratch_step_def Let_def text_only_push)

lemma nested_unmatched:
  assumes step: "\<And>x st term. text_only st \<Longrightarrow> text_only (step x st term)"
  shows "text_only (foldl (\<lambda>st x. foldl (step x) st terms) ([], []) xs)"
proof -
  have "text_only st \<Longrightarrow> text_only (foldl (step x) st terms)" for x st
    by (induction terms arbitrary: st) (simp_all add: step)
  then have "text_only st \<Longrightarrow> text_only (foldl (\<lambda>st x. foldl (step x) st terms) st xs)" for st
    by (induction xs arbitrary: st) simp_all
  then show ?thesis by (simp add: text_only_def)
qed

lemma build_unmatched: "r \<in> set (buildSearchResults node data) \<Longrightarrow> \<not> matched_id r"
  using dedup_rows_subset [of "[]"] term_rows_task
  by (fastforce simp: buildSearchResults_def Let_def task_row_def split: if_splits)

lemma structured_unmatched: "r \<in> set (structured_rows dp st ast) \<Longrightarrow> \<not> matched_id r"
proof -
  have "list_all (\<lambda>r. \<not> matched_id r) (conversation_rows dp cs terms)"
    "list_all (\<lambda>r. \<not> matched_id r) (memory_rows ms terms)"
    "list_all (\<lambda>r. \<not> matched_id r) (scratch_rows fs terms)" for cs ms fs terms
    using nested_unmatched [of "conversation_step dp" terms cs, OF conversation_step_unmatched]
      nested_unmatched [of memory_step terms ms, OF memory_step_unmatched]
      nested_unmatched [of scratch_step terms fs, OF scratch_step_unmatched]
    by (simp_all add: text_only_def conversation_rows_def memory_rows_def scratch_rows_def)
  moreover have "list_all (\<lambda>r. \<not> matched_id r) (task_rows dp st ast)"
    using build_unmatched by (auto simp: task_rows_def list_all_iff)
  ultimately have "list_all (\<lambda>r. \<not> matched_id r) (structured_rows dp st ast)"
    by (simp add: structured_rows_def Let_def)
  then show "r \<in> set (structured_rows dp st ast) \<Longrightarrow> \<not> matched_id r" by (auto simp: list_all_iff)
qed

lemma id_row_matched [simp]: "matched_id (id_row task et eid text c i t)"
  by (simp add: id_row_def)

lemma session_rows_matched: "session_rows st q s = Some rows \<Longrightarrow> r \<in> set rows \<Longrightarrow> matched_id r"
  by (auto simp: session_rows_def turn_id_row_def split: option.splits if_splits)

lemma record_rows_matched: "r \<in> set (task_record_rows st q task) \<Longrightarrow> matched_id r"
  by (auto simp: task_record_rows_def Let_def)

lemma searchById_matched:
  assumes "searchById ord st query = Inr rows" "r \<in> set rows"
  shows "matched_id r"
proof (cases "idQueryOf query")
  case None
  then show ?thesis using assms by (simp add: searchById_def)
next
  case (Some q)
  let ?per = "map (session_rows st q) (finish_sessions ord (ss_sessions st))"
  have none: "None \<notin> set ?per" using assms Some by (auto simp: searchById_def Let_def split: if_splits)
  have "matched_id r"
    if s: "s \<in> set (finish_sessions ord (ss_sessions st))" and r: "r \<in> set (the (session_rows st q s))" for s
  proof -
    obtain rows where "session_rows st q s = Some rows"
      using none s by (cases "session_rows st q s") (auto simp: image_iff)
    with r show ?thesis using session_rows_matched by auto
  qed
  then show ?thesis
    using assms Some none record_rows_matched
    by (auto simp: searchById_def Let_def task_id_rows_def message_rows_def conversation_id_rows_def split: if_splits)
qed

text \<open>A list sorted by a key that separates two kinds of elements is the one kind followed by the other.\<close>

lemma sorted_split:
  fixes f :: "'a \<Rightarrow> 'k :: linorder"
  assumes "sorted (map f xs)" "\<And>x y. x \<in> set xs \<Longrightarrow> y \<in> set xs \<Longrightarrow> P x \<Longrightarrow> \<not> P y \<Longrightarrow> f x < f y"
  shows "xs = filter P xs @ filter (\<lambda>x. \<not> P x) xs"
  using assms
proof (induction xs)
  case (Cons x xs)
  then have IH: "xs = filter P xs @ filter (\<lambda>x. \<not> P x) xs" by simp
  show ?case
  proof (cases "P x")
    case True
    with IH show ?thesis by simp
  next
    case False
    have "\<not> P y" if "y \<in> set xs" for y
    proof
      assume "P y"
      then have "f y < f x" using Cons.prems(2) [of y x] that False by simp
      moreover have "f x \<le> f y" using Cons.prems(1) that by simp
      ultimately show False by simp
    qed
    then have "filter P xs = []" "filter (\<lambda>x. \<not> P x) xs = xs" by (simp_all add: filter_empty_conv)
    with False show ?thesis by simp
  qed
qed simp

lemma rank_splits_ids:
  "rankSearchResults rows terms =
     filter matched_id (rankSearchResults rows terms) @ filter (\<lambda>r. \<not> matched_id r) (rankSearchResults rows terms)"
proof (rule sorted_split)
  show "sorted (map (rank_key terms) (rankSearchResults rows terms))" by (simp add: rank_is_sort_key)
  have "0 \<le> TYPE_TIERS e" for e by (cases e) (simp_all add: TYPE_TIERS_def)
  then show "rank_key terms x < rank_key terms y" if "matched_id x" "\<not> matched_id y" for x y
    using that by (simp add: rank_key_def) (smt (verit))
qed

lemma executeSearch_Inr:
  assumes "executeSearch env st req = Inr out" "\<not> rq_fuzzy req"
  shows "\<exists>texts hits terms. text_hits env st req = Inr texts \<and>
     searchById (env_order env) st (rq_query req) = Inr hits \<and>
     so_results out = rankSearchResults (filter_types (rq_types req) (merge_id_hits hits texts)) terms"
  using assms by (auto simp: executeSearch_def bind_result_Inr_iff Let_def)

lemma map_sum_Inr: "map_sum f g s = Inr y \<longleftrightarrow> (\<exists>x. s = Inr x \<and> y = g x)"
  by (cases s) auto

lemma text_hits_unmatched:
  assumes "text_hits env st req = Inr texts" "\<not> rq_fuzzy req"
    "\<And>rows r. env_regex env st (rq_query req) = Inr rows \<Longrightarrow> r \<in> set rows \<Longrightarrow> \<not> matched_id r"
  shows "r \<in> set texts \<Longrightarrow> \<not> matched_id r"
  using assms structured_unmatched
  by (auto simp: text_hits_def structuredSearch_def bind_result_Inr_iff map_sum_Inr split: if_splits)

text \<open>in a search that is not fuzzy, the entities the query names by id come first, all those of the
  wanted types are there, and no text hit repeats one of them.\<close>

theorem id_hits_first:
  assumes run: "executeSearch env st req = Inr out" and exact: "\<not> rq_fuzzy req"
    and regex: "case env_regex env st (rq_query req) of Inr rows \<Rightarrow> list_all (\<lambda>r. \<not> matched_id r) rows | Inl m \<Rightarrow> True"
  shows "\<exists>ids texts hits. so_results out = ids @ texts \<and>
     searchById (env_order env) st (rq_query req) = Inr hits \<and>
     mset ids = mset (filter_types (rq_types req) hits) \<and>
     list_all (\<lambda>r. \<not> matched_id r) texts \<and> row_key ` set texts \<inter> row_key ` set hits = {}"
proof -
  obtain texts hits terms where t: "text_hits env st req = Inr texts"
    and h: "searchById (env_order env) st (rq_query req) = Inr hits"
    and out: "so_results out = rankSearchResults (filter_types (rq_types req) (merge_id_hits hits texts)) terms"
    using executeSearch_Inr [OF run exact] by blast
  let ?all = "filter_types (rq_types req) (merge_id_hits hits texts)"
  let ?ids = "filter matched_id (so_results out)" and ?texts = "filter (\<lambda>r. \<not> matched_id r) (so_results out)"
  have unmatched: "\<not> matched_id r" if "r \<in> set texts" for r
    using that text_hits_unmatched [OF t exact] regex by (auto simp: list_all_iff split: sum.splits)
  have matched: "matched_id r" if "r \<in> set hits" for r using searchById_matched [OF h that] .
  have split: "so_results out = ?ids @ ?texts" unfolding out by (rule rank_splits_ids)
  have all: "mset (so_results out) = mset ?all" by (simp add: out rank_is_sort_key)
  have hits_only: "filter matched_id hits = hits" using matched by (simp add: filter_id_conv)
  have no_texts: "filter matched_id texts = []" using unmatched by (simp add: filter_empty_conv)
  have sub: "filter matched_id (filter Q texts) = []" for Q using unmatched by (simp add: filter_empty_conv)
  have merged: "filter matched_id (merge_id_hits hits texts) = hits"
    using hits_only no_texts sub by (simp add: merge_id_hits_def)
  have "filter matched_id ?all = filter_types (rq_types req) (filter matched_id (merge_id_hits hits texts))"
    by (simp add: filter_types_def conj_commute)
  then have ids: "mset ?ids = mset (filter_types (rq_types req) hits)"
    using all by (metis merged mset_filter)
  have "set ?texts \<subseteq> set (merge_id_hits hits texts)"
    using all by (metis filter_is_subset filter_types_def order_trans set_mset_mset)
  then have "row_key r \<notin> row_key ` set hits" if "r \<in> set ?texts" for r
    using that matched by (auto simp: merge_id_hits_def split: if_splits)
  then have "row_key ` set ?texts \<inter> row_key ` set hits = {}" by auto
  then show ?thesis
    using split h ids by (intro exI [of _ ?ids] exI [of _ ?texts] exI [of _ hits]) (simp add: list_all_iff)
qed

definition sample_search :: SearchStore where
  "sample_search =
     \<lparr>ss_tasks = [blank_task\<lparr>t_id := ''abcdef12'', t_goal := ''fix''\<rparr>], ss_comments = (\<lambda>_. []), ss_raised = (\<lambda>_. []),
      ss_review_comments = (\<lambda>_. []), ss_artifacts = (\<lambda>_. []), ss_journal = (\<lambda>_. []),
      ss_task_session = (\<lambda>_. None), ss_sessions = [], ss_turns = (\<lambda>_. []), ss_commits = (\<lambda>_. []),
      ss_messages = [], ss_conversations = [], ss_memories = [], ss_scratch = []\<rparr>"

definition sample_env :: SearchEnv where
  "sample_env = \<lparr>env_date_parse = (\<lambda>_. None), env_fuse = (\<lambda>_ _. []), env_regex = (\<lambda>_ _. Inr []),
                 env_order = \<lparr>finish_tasks = id, finish_sessions = id\<rparr>\<rparr>"

definition sample_request :: SearchRequest where
  "sample_request = \<lparr>rq_query = ''ABCDEF'', rq_fuzzy = False, rq_types = []\<rparr>"

theorem id_hits_first_witness:
  "\<exists>out ids texts. executeSearch sample_env sample_search sample_request = Inr out \<and>
     so_results out = ids @ texts \<and> ids \<noteq> [] \<and> list_all (\<lambda>r. \<not> matched_id r) texts"
proof -
  have q: "idQueryOf ''ABCDEF'' = Some ''abcdef''" and plain: "\<not> isStructuredQuery ''ABCDEF''"
    and match: "idMatches ''abcdef12'' ''abcdef''"
    by code_simp+
  have hits: "searchById (env_order sample_env) sample_search (rq_query sample_request) =
       Inr [id_row (blank_task\<lparr>t_id := ''abcdef12'', t_goal := ''fix''\<rparr>) TaskEntity ''abcdef12''
              ''id: abcdef12'' ''abcdef12'' None (task_time (blank_task\<lparr>t_id := ''abcdef12'', t_goal := ''fix''\<rparr>))]"
    by (simp add: searchById_def sample_env_def sample_search_def sample_request_def q match
        task_id_rows_def task_record_rows_def message_rows_def conversation_id_rows_def)
  have "text_hits sample_env sample_search sample_request = Inr []"
    by (simp add: text_hits_def sample_request_def sample_env_def plain)
  then obtain out where run: "executeSearch sample_env sample_search sample_request = Inr out"
    using hits plain by (simp add: executeSearch_def sample_request_def literal_terms_def Let_def)
  have regex: "case env_regex sample_env sample_search (rq_query sample_request) of
      Inr rows \<Rightarrow> list_all (\<lambda>r. \<not> matched_id r) rows | Inl m \<Rightarrow> True"
    by (simp add: sample_env_def)
  have exact: "\<not> rq_fuzzy sample_request" by (simp add: sample_request_def)
  obtain ids texts hs where *: "so_results out = ids @ texts"
    "searchById (env_order sample_env) sample_search (rq_query sample_request) = Inr hs"
    "mset ids = mset (filter_types (rq_types sample_request) hs)" "list_all (\<lambda>r. \<not> matched_id r) texts"
    using id_hits_first [OF run exact regex] by (elim exE conjE) (rule that; assumption)
  have "ids \<noteq> []" using *(2,3) hits by (auto simp: filter_types_def sample_request_def)
  with run *(1,4) show ?thesis by (intro exI conjI) (rule run *(1,4) \<open>ids \<noteq> []\<close>)+
qed

section \<open>How a search fails\<close>

lemma parsed_query_error: "parsed_query q = Inl e \<Longrightarrow> error_pos e \<le> length q"
  using parseQuery_outcome [of q] by (auto simp: parsed_query_def)

lemma searchById_Inl:
  assumes "searchById ord st query = Inl e"
  shows "e = MissingTurnContent \<and>
    (\<exists>q s t. idQueryOf query = Some q \<and> s \<in> set (finish_sessions ord (ss_sessions st)) \<and>
       t \<in> set (ss_turns st (s_id s)) \<and> idMatches (tn_id t) q \<and> tn_content t = None)"
proof -
  obtain q where q: "idQueryOf query = Some q" using assms by (cases "idQueryOf query") (auto simp: searchById_def)
  then have e: "e = MissingTurnContent"
    and none: "None \<in> set (map (session_rows st q) (finish_sessions ord (ss_sessions st)))"
    using assms by (auto simp: searchById_def Let_def split: if_splits)
  then obtain s where s: "s \<in> set (finish_sessions ord (ss_sessions st))" "session_rows st q s = None" by auto
  then obtain i t where "(i, t) \<in> set (named_turns st q s)" "tn_content t = None"
    by (auto simp: session_rows_def split: option.splits if_splits)
  then have "t \<in> set (ss_turns st (s_id s)) \<and> idMatches (tn_id t) q \<and> tn_content t = None"
    by (auto simp: named_turns_def enumerate_eq_zip dest: set_zip_rightD)
  with e q s show ?thesis by blast
qed

text \<open>A fuzzy search never fails. Any other fails only on a query it cannot parse, at a position
  inside the query, on a pattern the store refused, or, although every other reader tolerates such a
  record, on a stored turn without content that the query names by its id.\<close>

theorem search_failures:
  "case executeSearch env st req of
     Inr out \<Rightarrow> True
   | Inl e \<Rightarrow> rq_fuzzy req = False \<and>
      (case e of
         QueryError pe \<Rightarrow> isStructuredQuery (rq_query req) \<and> error_pos pe \<le> length (rq_query req)
       | PatternError m \<Rightarrow> isStructuredQuery (rq_query req) = False \<and> env_regex env st (rq_query req) = Inl m
       | MissingTurnContent \<Rightarrow>
           (\<exists>q s t. idQueryOf (rq_query req) = Some q \<and> s \<in> set (finish_sessions (env_order env) (ss_sessions st)) \<and>
              t \<in> set (ss_turns st (s_id s)) \<and> idMatches (tn_id t) q \<and> tn_content t = None))"
proof (cases "executeSearch env st req")
  case (Inl e)
  consider (hits) "text_hits env st req = Inl e" "\<not> rq_fuzzy req"
    | (ids) "searchById (env_order env) st (rq_query req) = Inl e" "\<not> rq_fuzzy req"
    | (terms) "literal_terms req = Inl e" "\<not> rq_fuzzy req"
    using Inl by (cases "text_hits env st req"; cases "searchById (env_order env) st (rq_query req)";
        cases "literal_terms req"; cases "rq_fuzzy req")
      (auto simp: executeSearch_def Let_def text_hits_def literal_terms_def)
  then show ?thesis
  proof cases
    case hits
    then show ?thesis
      using Inl parsed_query_error
      by (cases "parsed_query (rq_query req)"; cases "env_regex env st (rq_query req)")
        (auto simp: text_hits_def structuredSearch_def split: if_splits)
  next
    case ids
    then show ?thesis using Inl searchById_Inl [OF ids(1)] by auto
  next
    case terms
    then show ?thesis
      using Inl parsed_query_error
      by (cases "parsed_query (rq_query req)") (auto simp: literal_terms_def split: if_splits)
  qed
qed simp

end
