(* ===== verification/TextMatcher.thy ===== *)
theory TextMatcher
  imports SearchEval
begin

text \<open>
  The bounded matcher behind the plain search, \<open>src/search/text-matcher.ts\<close>. Candidates are added
  one by one and matched in batches, each batch in a worker with a deadline of its own; a query that
  is no valid regular expression is searched for as a literal, without a worker.

  The engine is an argument: \<open>regex text\<close> is the first match of the query in a text (its index and
  length), and \<open>in_time texts\<close> says whether the worker finishes a batch before the deadline. A
  candidate is its text, if the record has one, and the builder of its result row.
\<close>

definition SEARCH_MATCH_BATCH_ITEMS :: nat where
  "SEARCH_MATCH_BATCH_ITEMS = 500"

definition SEARCH_MATCH_BATCH_CHARS :: nat where
  "SEARCH_MATCH_BATCH_CHARS = 2000000"

definition SEARCH_CONTEXT_CHARS :: nat where
  "SEARCH_CONTEXT_CHARS = 40"

type_synonym engine = "string \<Rightarrow> (nat \<times> nat) option"

definition match_snippet :: "nat \<Rightarrow> string \<Rightarrow> nat \<Rightarrow> nat \<Rightarrow> string" where
  "match_snippet contextChars text idx len =
     (let start = idx - contextChars;
          end' = min (length text) (idx + len + contextChars);
          context' = trim (collapse_spaces (drop start (take end' text)));
          front = (if start > 0 then ''...'' @ context' else context')
      in if end' < length text then front @ ''...'' else front)"

definition matchTextsUnbound :: "engine \<Rightarrow> nat \<Rightarrow> string list \<Rightarrow> (nat \<times> string) list" where
  "matchTextsUnbound regex contextChars texts =
     concat (map (\<lambda>(i, text). case regex text of
         None \<Rightarrow> []
       | Some (idx, len) \<Rightarrow> [(i, match_snippet contextChars text idx len)]) (enumerate 0 texts))"

definition literalContext :: "string \<Rightarrow> string \<Rightarrow> nat \<Rightarrow> string" where
  "literalContext text needle contextChars =
     match_snippet contextChars text
       (case index_of (to_lower text) (to_lower needle) of None \<Rightarrow> 0 | Some idx \<Rightarrow> idx) (length needle)"

section \<open>The matcher\<close>

record 'r BoundedTextMatcher =
  mt_query :: string
  mt_contextChars :: nat
  mt_regex :: "engine option"
  mt_pending :: "(string \<times> (string \<Rightarrow> 'r)) list"
  mt_pendingChars :: nat
  mt_results :: "'r list"

text \<open>\<open>compile query\<close> is \<open>None\<close> when the engine rejects the pattern.\<close>

definition new_matcher :: "(string \<Rightarrow> engine option) \<Rightarrow> string \<Rightarrow> nat \<Rightarrow> 'r BoundedTextMatcher" where
  "new_matcher compile query contextChars =
     \<lparr>mt_query = query, mt_contextChars = contextChars, mt_regex = compile query, mt_pending = [],
      mt_pendingChars = 0, mt_results = []\<rparr>"

datatype regex_error = DeadlineExceeded string | InvalidPattern string

definition flush :: "(string list \<Rightarrow> bool) \<Rightarrow> 'r BoundedTextMatcher \<Rightarrow> (regex_error, 'r BoundedTextMatcher) result" where
  "flush in_time m =
     (let batch = mt_pending m; m' = m\<lparr>mt_pending := [], mt_pendingChars := 0\<rparr>; texts = map fst batch
      in if length batch = 0 then Inr m
         else case mt_regex m of
           None \<Rightarrow> Inl (InvalidPattern (mt_query m))
         | Some regex \<Rightarrow>
             if \<not> in_time texts then Inl (DeadlineExceeded (mt_query m))
             else Inr (m'\<lparr>mt_results := mt_results m @
                    concat (map (\<lambda>(i, context'). if i < length batch then [snd (batch ! i) context'] else [])
                      (matchTextsUnbound regex (mt_contextChars m) texts))\<rparr>))"

definition add ::
  "(string list \<Rightarrow> bool) \<Rightarrow> 'r BoundedTextMatcher \<Rightarrow> string option \<Rightarrow> (string \<Rightarrow> 'r) \<Rightarrow>
     (regex_error, 'r BoundedTextMatcher) result" where
  "add in_time m text build =
     (case text of
        None \<Rightarrow> Inr m
      | Some s \<Rightarrow>
          if mt_regex m = None then
            (if \<not> str_includes (to_lower s) (to_lower (mt_query m)) then Inr m
             else Inr (m\<lparr>mt_results := mt_results m @ [build (literalContext s (mt_query m) (mt_contextChars m))]\<rparr>))
          else
            (let m' = m\<lparr>mt_pending := mt_pending m @ [(s, build)], mt_pendingChars := mt_pendingChars m + length s\<rparr>
             in if SEARCH_MATCH_BATCH_ITEMS \<le> length (mt_pending m') \<or> SEARCH_MATCH_BATCH_CHARS \<le> mt_pendingChars m'
                then flush in_time m' else Inr m'))"

definition finish :: "(string list \<Rightarrow> bool) \<Rightarrow> 'r BoundedTextMatcher \<Rightarrow> (regex_error, 'r list) result" where
  "finish in_time m = bind_result (flush in_time m) (\<lambda>m'. Inr (mt_results m'))"

text \<open>How the search uses it: every candidate is added, then the matcher finished.\<close>

fun add_all ::
  "(string list \<Rightarrow> bool) \<Rightarrow> 'r BoundedTextMatcher \<Rightarrow> (string option \<times> (string \<Rightarrow> 'r)) list \<Rightarrow>
     (regex_error, 'r BoundedTextMatcher) result" where
  "add_all in_time m [] = Inr m"
| "add_all in_time m ((text, build) # cs) = bind_result (add in_time m text build) (\<lambda>m'. add_all in_time m' cs)"

definition match_all ::
  "(string list \<Rightarrow> bool) \<Rightarrow> (string \<Rightarrow> engine option) \<Rightarrow> string \<Rightarrow> (string option \<times> (string \<Rightarrow> 'r)) list \<Rightarrow>
     (regex_error, 'r list) result" where
  "match_all in_time compile query cs =
     bind_result (add_all in_time (new_matcher compile query SEARCH_CONTEXT_CHARS) cs) (finish in_time)"

section \<open>Batches cannot be seen\<close>

text \<open>The row of one candidate, by itself.\<close>

definition match_one :: "engine option \<Rightarrow> string \<Rightarrow> nat \<Rightarrow> string option \<times> (string \<Rightarrow> 'r) \<Rightarrow> 'r list" where
  "match_one regex query n c =
     (case c of
        (None, build) \<Rightarrow> []
      | (Some s, build) \<Rightarrow>
          (case regex of
             None \<Rightarrow> if str_includes (to_lower s) (to_lower query) then [build (literalContext s query n)] else []
           | Some rx \<Rightarrow> (case rx s of None \<Rightarrow> [] | Some (idx, len) \<Rightarrow> [build (match_snippet n s idx len)])))"

definition some_text :: "string \<times> (string \<Rightarrow> 'r) \<Rightarrow> string option \<times> (string \<Rightarrow> 'r)" where
  "some_text p = (Some (fst p), snd p)"

lemma map_enumerate: "map f (enumerate 0 xs) = map (\<lambda>i. f (i, xs ! i)) [0..<length xs]"
  by (rule nth_equalityI) (simp_all add: enumerate_eq_zip)

lemma concat_map_concat: "concat (map f (concat xss)) = concat (map (\<lambda>xs. concat (map f xs)) xss)"
  by (induction xss) simp_all

text \<open>Matching a batch and building its rows is matching its candidates one by one.\<close>

lemma batch_rows:
  "concat (map (\<lambda>(i, context'). if i < length batch then [snd (batch ! i) context'] else [])
      (matchTextsUnbound rx n (map fst batch))) =
   concat (map (match_one (Some rx) q n) (map some_text batch))"
proof -
  let ?row = "\<lambda>(i, context'). if i < length batch then [snd (batch ! i) context'] else []"
  let ?hit = "\<lambda>(i, text). case rx text of None \<Rightarrow> [] | Some (idx, len) \<Rightarrow> [(i, match_snippet n text idx len)]"
  have "concat (map ?row (matchTextsUnbound rx n (map fst batch))) =
      concat (map (\<lambda>i. concat (map ?row (?hit (i, map fst batch ! i)))) [0..<length batch])"
    by (simp add: matchTextsUnbound_def map_enumerate concat_map_concat comp_def)
  also have "\<dots> = concat (map (\<lambda>i. match_one (Some rx) q n (some_text (batch ! i))) [0..<length batch])"
    by (rule arg_cong [where f = concat])
      (auto simp: match_one_def some_text_def split: option.splits)
  also have "\<dots> = concat (map (match_one (Some rx) q n) (map some_text batch))"
    by (rule arg_cong [where f = concat], rule nth_equalityI) simp_all
  finally show ?thesis .
qed

text \<open>What a matcher has found so far and what it still holds, matched one by one.\<close>

definition owed :: "'r BoundedTextMatcher \<Rightarrow> 'r list" where
  "owed m = mt_results m @
     concat (map (match_one (mt_regex m) (mt_query m) (mt_contextChars m)) (map some_text (mt_pending m)))"

definition matcher_ok :: "'r BoundedTextMatcher \<Rightarrow> bool" where
  "matcher_ok m \<longleftrightarrow>
     length (mt_pending m) < SEARCH_MATCH_BATCH_ITEMS \<and> mt_pendingChars m < SEARCH_MATCH_BATCH_CHARS \<and>
     mt_pendingChars m = sum_list (map (length \<circ> fst) (mt_pending m)) \<and>
     (mt_regex m = None \<longrightarrow> mt_pending m = [])"

definition same_query :: "'r BoundedTextMatcher \<Rightarrow> 'r BoundedTextMatcher \<Rightarrow> bool" where
  "same_query m m' \<longleftrightarrow>
     mt_query m' = mt_query m \<and> mt_contextChars m' = mt_contextChars m \<and> mt_regex m' = mt_regex m"

lemma flush_owed:
  assumes "flush in_time m = Inr m'" and "mt_regex m = None \<longrightarrow> mt_pending m = []"
  shows "mt_results m' = owed m \<and> mt_pending m' = [] \<and> same_query m m' \<and> (mt_pending m \<noteq> [] \<longrightarrow> mt_pendingChars m' = 0)"
  using assms batch_rows [of "mt_pending m" _ "mt_contextChars m" "mt_query m"]
  by (auto simp: flush_def Let_def owed_def same_query_def split: option.splits if_splits)

lemma add_owed:
  assumes m: "matcher_ok m" and add: "add in_time m hay build = Inr m'"
  shows "matcher_ok m' \<and> same_query m m' \<and>
    owed m' = owed m @ match_one (mt_regex m) (mt_query m) (mt_contextChars m) (hay, build)"
proof (cases hay)
  case None
  then show ?thesis using assms by (simp add: add_def match_one_def same_query_def)
next
  case (Some s)
  show ?thesis
  proof (cases "mt_regex m")
    case None
    then show ?thesis
      using assms Some
      by (auto simp: add_def match_one_def owed_def matcher_ok_def same_query_def split: if_splits)
  next
    case rx: (Some rx)
    let ?m = "m\<lparr>mt_pending := mt_pending m @ [(s, build)], mt_pendingChars := mt_pendingChars m + length s\<rparr>"
    have owed: "owed ?m = owed m @ match_one (mt_regex m) (mt_query m) (mt_contextChars m) (hay, build)"
      using Some by (simp add: owed_def some_text_def)
    show ?thesis
    proof (cases "SEARCH_MATCH_BATCH_ITEMS \<le> length (mt_pending ?m) \<or> SEARCH_MATCH_BATCH_CHARS \<le> mt_pendingChars ?m")
      case True
      then have f: "flush in_time ?m = Inr m'" using add Some rx by (simp add: add_def Let_def)
      have "mt_results m' = owed ?m \<and> mt_pending m' = [] \<and> same_query ?m m' \<and> mt_pendingChars m' = 0"
        using flush_owed [OF f] rx by simp
      then show ?thesis
        using owed m rx
        by (simp add: owed_def [of m'] matcher_ok_def same_query_def SEARCH_MATCH_BATCH_ITEMS_def
            SEARCH_MATCH_BATCH_CHARS_def)
    next
      case False
      then have "m' = ?m" using add Some rx by (simp add: add_def Let_def)
      with owed m rx False show ?thesis by (auto simp: matcher_ok_def same_query_def)
    qed
  qed
qed

lemma add_all_owed:
  "matcher_ok m \<Longrightarrow> add_all in_time m cs = Inr m' \<Longrightarrow>
   matcher_ok m' \<and> same_query m m' \<and>
   owed m' = owed m @ concat (map (match_one (mt_regex m) (mt_query m) (mt_contextChars m)) cs)"
proof (induction cs arbitrary: m)
  case Nil
  then show ?case by (simp add: same_query_def)
next
  case (Cons c cs)
  obtain hay build where c: "c = (hay, build)" by (cases c)
  with Cons.prems obtain m1 where 1: "add in_time m hay build = Inr m1" "add_all in_time m1 cs = Inr m'"
    by (auto simp: bind_result_Inr_iff)
  note step = add_owed [OF Cons.prems(1) 1(1)]
  from Cons.IH [OF _ 1(2)] step show ?case by (simp add: c same_query_def)
qed

text \<open>A failure is a batch, no larger than the limit, that missed the deadline.\<close>

definition missed_deadline :: "(string list \<Rightarrow> bool) \<Rightarrow> string \<Rightarrow> regex_error \<Rightarrow> bool" where
  "missed_deadline in_time query e \<longleftrightarrow>
     e = DeadlineExceeded query \<and> (\<exists>batch. \<not> in_time batch \<and> length batch \<le> SEARCH_MATCH_BATCH_ITEMS)"

lemma flush_missed:
  assumes "flush in_time m = Inl e" "mt_regex m = None \<longrightarrow> mt_pending m = []"
    "length (mt_pending m) \<le> SEARCH_MATCH_BATCH_ITEMS"
  shows "missed_deadline in_time (mt_query m) e"
proof -
  have "e = DeadlineExceeded (mt_query m) \<and> \<not> in_time (map fst (mt_pending m))"
    using assms(1,2) by (auto simp: flush_def Let_def split: if_splits option.splits)
  then show ?thesis
    using assms(3) unfolding missed_deadline_def by (intro conjI exI [of _ "map fst (mt_pending m)"]) auto
qed

lemma add_missed:
  assumes "matcher_ok m" "add in_time m hay build = Inl e"
  shows "missed_deadline in_time (mt_query m) e"
proof -
  obtain s rx where *: "hay = Some s" "mt_regex m = Some rx"
    using assms(2) by (auto simp: add_def split: option.splits if_splits)
  let ?m = "m\<lparr>mt_pending := mt_pending m @ [(s, build)], mt_pendingChars := mt_pendingChars m + length s\<rparr>"
  have "flush in_time ?m = Inl e"
    using assms(2) * by (simp add: add_def Let_def split: if_splits)
  then show ?thesis
    using flush_missed [of in_time ?m e] assms(1) * by (simp add: matcher_ok_def)
qed

lemma add_all_missed:
  "matcher_ok m \<Longrightarrow> add_all in_time m cs = Inl e \<Longrightarrow> missed_deadline in_time (mt_query m) e"
proof (induction cs arbitrary: m)
  case (Cons c cs)
  obtain hay build where c: "c = (hay, build)" by (cases c)
  show ?case
  proof (cases "add in_time m hay build")
    case (Inl e')
    then show ?thesis using Cons.prems add_missed [OF Cons.prems(1) Inl] by (simp add: c)
  next
    case (Inr m1)
    then show ?thesis
      using Cons.prems Cons.IH [of m1] add_owed [OF Cons.prems(1) Inr] by (simp add: c same_query_def)
  qed
qed simp

lemma new_matcher_ok: "matcher_ok (new_matcher compile query n)"
  by (simp add: matcher_ok_def new_matcher_def SEARCH_MATCH_BATCH_ITEMS_def SEARCH_MATCH_BATCH_CHARS_def)

lemma match_all_rows:
  assumes "match_all in_time compile query cs = Inr rows"
  shows "rows = concat (map (match_one (compile query) query SEARCH_CONTEXT_CHARS) cs)"
proof -
  let ?m = "new_matcher compile query SEARCH_CONTEXT_CHARS"
  obtain m m' where 1: "add_all in_time ?m cs = Inr m" "flush in_time m = Inr m'" "rows = mt_results m'"
    using assms by (auto simp: match_all_def finish_def bind_result_Inr_iff)
  then show ?thesis
    using add_all_owed [OF new_matcher_ok 1(1)] flush_owed [OF 1(2)]
    by (simp add: matcher_ok_def owed_def new_matcher_def)
qed

lemma match_all_missed:
  assumes "match_all in_time compile query cs = Inl e"
  shows "missed_deadline in_time query e"
proof (cases "add_all in_time (new_matcher compile query SEARCH_CONTEXT_CHARS) cs")
  case (Inl e')
  then show ?thesis
    using assms add_all_missed [OF new_matcher_ok Inl] by (simp add: match_all_def new_matcher_def)
next
  case (Inr m)
  then have m: "matcher_ok m" "mt_query m = query"
    using add_all_owed [OF new_matcher_ok Inr] by (simp_all add: same_query_def new_matcher_def)
  have "flush in_time m = Inl e"
    using assms Inr by (cases "flush in_time m") (auto simp: match_all_def finish_def)
  then show ?thesis using flush_missed [of in_time m e] m by (simp add: matcher_ok_def)
qed

text \<open>C37: the rows of the bounded matcher are those of matching every candidate by itself, in the
  order they were added: where a batch ends cannot be seen. It fails only on a batch, no larger than
  the limit, whose deadline passed, and then says so rather than losing rows.\<close>

theorem batching_unobservable:
  "(case match_all in_time compile query cs of
      Inr rows \<Rightarrow> rows = concat (map (match_one (compile query) query SEARCH_CONTEXT_CHARS) cs)
    | Inl e \<Rightarrow> e = DeadlineExceeded query \<and>
        (\<exists>batch. length batch \<le> SEARCH_MATCH_BATCH_ITEMS \<and> in_time batch = False))"
  using match_all_rows match_all_missed
  by (fastforce simp: missed_deadline_def split: sum.splits)

end
