(* ===== verification/RaisedItems.thy ===== *)
theory RaisedItems
  imports TaskStore
begin

text \<open>
  Raised items: what an agent leaves for a person to decide, and the decisions
  (\<open>src/src/raised/content.ts\<close>, \<open>title.ts\<close>, \<open>migrate.ts\<close>, \<open>legacy-view.ts\<close>, the raised-item
  operations of \<open>src/src/storage/file-storage.ts\<close> and the resolutions of
  \<open>src/src/daemon/raised-items.ts\<close>).

  \<open>RaisedStore\<close> is the task store together with the \<open>raised-items.json\<close> of each task. The clock
  and fresh ids are arguments. An absent optional key and a \<open>null\<close> are both \<open>None\<close>; the flag
  \<open>blocking\<close> is a \<open>bool\<close>, so the refusal of a missing flag has no counterpart.
\<close>

section \<open>The record\<close>

datatype RaisedItemStatus =
    RaisedOpen | Responded | Answered | Acknowledged | Dismissed | PromotedSubtask | PromotedPeer

datatype RaisedItemResolveAction =
    Respond | PromoteSubtask | PromotePeer | Dismiss | Acknowledge | Answer

fun raisedStatusForAction :: "RaisedItemResolveAction \<Rightarrow> RaisedItemStatus" where
  "raisedStatusForAction Respond = Responded"
| "raisedStatusForAction PromoteSubtask = PromotedSubtask"
| "raisedStatusForAction PromotePeer = PromotedPeer"
| "raisedStatusForAction Dismiss = Dismissed"
| "raisedStatusForAction Acknowledge = Acknowledged"
| "raisedStatusForAction Answer = Answered"

fun actionForRaisedStatus :: "RaisedItemStatus \<Rightarrow> RaisedItemResolveAction option" where
  "actionForRaisedStatus Responded = Some Respond"
| "actionForRaisedStatus PromotedSubtask = Some PromoteSubtask"
| "actionForRaisedStatus PromotedPeer = Some PromotePeer"
| "actionForRaisedStatus Dismissed = Some Dismiss"
| "actionForRaisedStatus Acknowledged = Some Acknowledge"
| "actionForRaisedStatus Answered = Some Answer"
| "actionForRaisedStatus RaisedOpen = None"

record RaisedItemComment =
  rc_id :: string
  rc_content :: string
  rc_created_at :: int
  rc_actor :: Actor
  rc_actor_email :: "string option"
  rc_actor_name :: "string option"
  rc_session_id :: "string option"
  rc_turn_sequence :: "int option"

record StoredRaisedItem =
  ri_id :: string
  ri_task_id :: string
  ri_content :: string
  ri_blocking :: bool
  ri_title :: "string option"
  ri_explanation :: "string option"
  ri_proposed_code :: "string option"
  ri_proposed_prompt :: "string option"
  ri_options :: "string list"
  ri_created_at :: int
  ri_session_id :: "string option"
  ri_turn_sequence :: "int option"
  ri_status :: RaisedItemStatus
  ri_resolved_at :: "int option"
  ri_resolved_by :: "Actor option"
  ri_resolved_by_email :: "string option"
  ri_resolved_by_name :: "string option"
  ri_resolution :: "string option"
  ri_comments :: "RaisedItemComment list"
  ri_pending_comment :: "string option"
  ri_comment_delivered_at :: "int option"
  ri_delivered_turn :: "int option"
  ri_promoted_task_id :: "string option"
  ri_promoted_task_code :: "string option"
  ri_flagged_by :: "Actor option"
  ri_flagged_by_email :: "string option"
  ri_flagged_by_name :: "string option"
  ri_unresolved_by :: "Actor option"
  ri_unresolved_by_email :: "string option"
  ri_unresolved_by_name :: "string option"
  ri_migrated_from_follow_up :: bool

text \<open>The item with the fields every creation sets; the rest are absent.\<close>

definition blank_raised :: "string \<Rightarrow> string \<Rightarrow> string \<Rightarrow> bool \<Rightarrow> int \<Rightarrow> StoredRaisedItem" where
  "blank_raised i taskId content blocking now =
     \<lparr>ri_id = i, ri_task_id = taskId, ri_content = content, ri_blocking = blocking, ri_title = None,
      ri_explanation = None, ri_proposed_code = None, ri_proposed_prompt = None, ri_options = [],
      ri_created_at = now, ri_session_id = None, ri_turn_sequence = None, ri_status = RaisedOpen,
      ri_resolved_at = None, ri_resolved_by = None, ri_resolved_by_email = None,
      ri_resolved_by_name = None, ri_resolution = None, ri_comments = [], ri_pending_comment = None,
      ri_comment_delivered_at = None, ri_delivered_turn = None, ri_promoted_task_id = None,
      ri_promoted_task_code = None, ri_flagged_by = None, ri_flagged_by_email = None,
      ri_flagged_by_name = None, ri_unresolved_by = None, ri_unresolved_by_email = None,
      ri_unresolved_by_name = None, ri_migrated_from_follow_up = False\<rparr>"

record RaisedItemInput =
  in_content :: "string option"
  in_note :: "string option"
  in_blocking :: bool
  in_title :: "string option"
  in_explanation :: "string option"
  in_proposed_code :: "string option"
  in_proposed_prompt :: "string option"
  in_options :: "string list"
  in_session_id :: "string option"
  in_turn_sequence :: "int option"

record RaisedStore =
  rs_tasks :: Store
  rs_items :: "(string, StoredRaisedItem list) omap"

datatype raised_error =
    RaisedTaskNotFound string
  | NoTitleOrContent
  | EmptyContent
  | EmptyComment
  | RaisedNotFound string
  | DeliveredAs string RaisedItemStatus RaisedItemStatus
  | ResponseRequired RaisedItemResolveAction
  | DeliveredNoUndo string
  | AlreadyPromoted string "string option"
  | AlreadyResolvedAs string RaisedItemStatus

section \<open>Title and body\<close>

definition nl :: string where
  "nl = [CHR 0x0A]"

text \<open>Presence of a trimmed field: \<open>x?.trim() || undefined\<close>.\<close>

definition trimmed :: "string option \<Rightarrow> string option" where
  "trimmed s = nonempty (map_option trim s)"

definition normalizeRaisedContent :: "string \<Rightarrow> string" where
  "normalizeRaisedContent content = trim (collapse_spaces content)"

definition composeRaisedContent :: "string \<Rightarrow> string option \<Rightarrow> string" where
  "composeRaisedContent title explanation =
     (case trimmed explanation of None \<Rightarrow> trim title | Some e \<Rightarrow> trim title @ nl @ nl @ e)"

definition raisedDisplayBody :: "StoredRaisedItem \<Rightarrow> string" where
  "raisedDisplayBody item =
     (let content = trim (ri_content item); explanation = trimmed (ri_explanation item)
      in case trimmed (ri_title item) of
           None \<Rightarrow> ri_content item
         | Some title \<Rightarrow>
             let derived = (content = title \<or> content = composeRaisedContent title explanation)
             in join_with (nl @ nl)
                  ([title] @ (if content \<noteq> [] \<and> \<not> derived then [content] else []) @
                   (case explanation of None \<Rightarrow> [] | Some e \<Rightarrow> [e])))"

text \<open>\<open>skipEnumeratorPrefix\<close> at the start of the text: \<open>H. \<close>, \<open>12. \<close> or \<open>A) \<close>.\<close>

definition is_letter :: "char \<Rightarrow> bool" where
  "is_letter c \<longleftrightarrow> is_lower_az c \<or> is_upper_az c"

definition skipEnumeratorPrefix :: "string \<Rightarrow> nat" where
  "skipEnumeratorPrefix s =
     (let digits = length (takeWhile is_digit s);
          head = (if s \<noteq> [] \<and> is_letter (hd s)
                  then (case tl s of c # _ \<Rightarrow> if c = CHR ''.'' \<or> c = CHR '')'' then Some 2 else None | [] \<Rightarrow> None)
                  else if 0 < digits then (case drop digits s of c # _ \<Rightarrow> if c = CHR ''.'' then Some (digits + 1) else None
                                           | [] \<Rightarrow> None)
                  else None)
      in case head of
           None \<Rightarrow> 0
         | Some n \<Rightarrow>
             let spaces = length (takeWhile is_space (drop n s)) in if spaces = 0 then 0 else n + spaces)"

text \<open>The scan for the first sentence end outside backticks and parentheses: how many characters
  the sentence has.\<close>

fun sentence_end :: "string \<Rightarrow> bool \<Rightarrow> nat \<Rightarrow> nat option" where
  "sentence_end [] inBackticks parenDepth = None"
| "sentence_end (ch # s) inBackticks parenDepth =
     (let next = (\<lambda>b d. map_option Suc (sentence_end s b d))
      in if ch = CHR 0x60 then next (\<not> inBackticks) parenDepth
         else if inBackticks then next inBackticks parenDepth
         else if ch = CHR ''('' then next inBackticks (parenDepth + 1)
         else if ch = CHR '')'' \<and> 0 < parenDepth then next inBackticks (parenDepth - 1)
         else if 0 < parenDepth then next inBackticks parenDepth
         else if ch \<in> set ''.!?'' \<and> (s = [] \<or> is_space (hd s)) then Some 1
         else next inBackticks parenDepth)"

definition firstSentence :: "string \<Rightarrow> string" where
  "firstSentence content =
     (let normalized = normalizeRaisedContent (hd (split_on (CHR 0x0A) content))
      in if normalized = [] then []
         else let i = skipEnumeratorPrefix normalized
              in case sentence_end (drop i normalized) False 0 of
                   Some n \<Rightarrow> trim (take (i + n) normalized)
                 | None \<Rightarrow> normalized)"

section \<open>Creation\<close>

text \<open>\<open>normalizeRaisedCreateInput\<close>: content, title, explanation, proposed code and prompt, options.\<close>

definition normalizeRaisedCreateInput ::
    "RaisedItemInput \<Rightarrow> raised_error + (string \<times> string option \<times> string option \<times> string option \<times>
       string option \<times> string list)" where
  "normalizeRaisedCreateInput input =
     (let title = trimmed (in_title input);
          note = (case trimmed (in_note input) of Some n \<Rightarrow> Some n | None \<Rightarrow> trimmed (in_content input));
          explanation = trimmed (in_explanation input);
          proposed_code = trimmed (in_proposed_code input);
          proposed_prompt = trimmed (in_proposed_prompt input);
          options = filter (\<lambda>o'. o' \<noteq> []) (map trim (in_options input))
      in case title of
           Some t \<Rightarrow>
             Inr ((case note of Some n \<Rightarrow> n | None \<Rightarrow> composeRaisedContent t explanation), Some t, explanation,
                  proposed_code, proposed_prompt, options)
         | None \<Rightarrow>
             (case note of
                None \<Rightarrow> Inl NoTitleOrContent
              | Some n \<Rightarrow> Inr (n, None, None, proposed_code, proposed_prompt, options)))"

definition raisedDedupeKey :: "string \<Rightarrow> string option \<Rightarrow> string" where
  "raisedDedupeKey content title =
     (let body = normalizeRaisedContent content
      in case trimmed title of None \<Rightarrow> body | Some t \<Rightarrow> normalizeRaisedContent t @ [CHR 0x00] @ body)"

text \<open>\<open>readRaisedItems\<close> after \<open>repairStoredRaisedItem\<close>; a task without the file has no items.\<close>

definition readRaisedItems :: "RaisedStore \<Rightarrow> string \<Rightarrow> StoredRaisedItem list" where
  "readRaisedItems rs fullId = (case omap_get (rs_items rs) fullId of None \<Rightarrow> [] | Some items \<Rightarrow> items)"

text \<open>\<open>getTaskRaisedItems\<close>: the items of the task, oldest first.\<close>

definition getTaskRaisedItems :: "RaisedStore \<Rightarrow> string \<Rightarrow> StoredRaisedItem list" where
  "getTaskRaisedItems rs taskId =
     (case findTaskIdByPrefix (rs_tasks rs) taskId of
        (st', None) \<Rightarrow> []
      | (st', Some fullId) \<Rightarrow> js_sort (by_key ri_created_at) (readRaisedItems rs fullId))"

definition new_raised ::
    "string \<Rightarrow> string \<Rightarrow> int \<Rightarrow> RaisedItemInput \<Rightarrow> string \<Rightarrow> string option \<times> string option \<times> string option \<times>
       string option \<times> string list \<Rightarrow> StoredRaisedItem" where
  "new_raised newId fullId now input content parts =
     (case parts of (title, explanation, code, prompt, options) \<Rightarrow>
        (blank_raised newId fullId content (in_blocking input) now)
          \<lparr>ri_title := title, ri_explanation := explanation, ri_proposed_code := code,
           ri_proposed_prompt := prompt, ri_options := options,
           ri_session_id := nonempty (in_session_id input), ri_turn_sequence := in_turn_sequence input\<rparr>)"

definition createRaisedItem ::
    "string list \<Rightarrow> string \<Rightarrow> int \<Rightarrow> RaisedStore \<Rightarrow> string \<Rightarrow> RaisedItemInput \<Rightarrow>
       RaisedStore \<times> (raised_error + StoredRaisedItem)" where
  "createRaisedItem secrets newId now rs taskId input =
     (case findTaskIdByPrefix (rs_tasks rs) taskId of
        (st', None) \<Rightarrow> (rs\<lparr>rs_tasks := st'\<rparr>, Inl (RaisedTaskNotFound taskId))
      | (st', Some fullId) \<Rightarrow>
          let rs1 = rs\<lparr>rs_tasks := st'\<rparr>
          in case normalizeRaisedCreateInput input of
               Inl e \<Rightarrow> (rs1, Inl e)
             | Inr (body, title, rest) \<Rightarrow>
                 let content = redactSecretValues secrets body
                 in if trim content = [] then (rs1, Inl EmptyContent)
                    else
                      let items = readRaisedItems rs1 fullId;
                          key = raisedDedupeKey content title
                      in case List.find (\<lambda>i. ri_status i = RaisedOpen \<and> ri_blocking i = in_blocking input \<and>
                                   raisedDedupeKey (ri_content i) (ri_title i) = key) items of
                           Some existing \<Rightarrow> (rs1, Inr existing)
                         | None \<Rightarrow>
                             let item = new_raised newId fullId now input content (title, rest)
                             in (rs1\<lparr>rs_items := omap_set (rs_items rs1) fullId (items @ [item])\<rparr>, Inr item))"

section \<open>Operations on one item\<close>

text \<open>What the operations below share: find the task, then the first item whose id starts with the
  given one, and write back what the operation makes of it.\<close>

fun update_first :: "('a \<Rightarrow> bool) \<Rightarrow> 'a \<Rightarrow> 'a list \<Rightarrow> 'a list" where
  "update_first P y [] = []"
| "update_first P y (x # xs) = (if P x then y # xs else x # update_first P y xs)"

definition on_raised_item ::
    "RaisedStore \<Rightarrow> string \<Rightarrow> string \<Rightarrow> (StoredRaisedItem \<Rightarrow> raised_error + StoredRaisedItem) \<Rightarrow>
       RaisedStore \<times> (raised_error + StoredRaisedItem)" where
  "on_raised_item rs taskId itemId f =
     (case findTaskIdByPrefix (rs_tasks rs) taskId of
        (st', None) \<Rightarrow> (rs\<lparr>rs_tasks := st'\<rparr>, Inl (RaisedTaskNotFound taskId))
      | (st', Some fullId) \<Rightarrow>
          let rs1 = rs\<lparr>rs_tasks := st'\<rparr>; items = readRaisedItems rs1 fullId;
              named = (\<lambda>i. starts_with (ri_id i) itemId)
          in case List.find named items of
               None \<Rightarrow> (rs1, Inl (RaisedNotFound itemId))
             | Some existing \<Rightarrow>
                 (case f existing of
                    Inl e \<Rightarrow> (rs1, Inl e)
                  | Inr updated \<Rightarrow>
                      (rs1\<lparr>rs_items := omap_set (rs_items rs1) fullId (update_first named updated items)\<rparr>,
                       Inr updated)))"

definition addRaisedItemComment ::
    "string list \<Rightarrow> string \<Rightarrow> int \<Rightarrow> RaisedStore \<Rightarrow> string \<Rightarrow> string \<Rightarrow> string \<Rightarrow> ActorInput \<Rightarrow> string option \<Rightarrow>
       int option \<Rightarrow> RaisedStore \<times> (raised_error + StoredRaisedItem)" where
  "addRaisedItemComment secrets newId now rs taskId itemId body actor session turn =
     (let content = redactSecretValues secrets body
      in if trim content = [] then (rs, Inl EmptyComment)
         else on_raised_item rs taskId itemId (\<lambda>item.
           let comment = \<lparr>rc_id = newId, rc_content = content, rc_created_at = now,
                 rc_actor = (case actorRole (Some actor) of Some r \<Rightarrow> r | None \<Rightarrow> Human),
                 rc_actor_email = actorEmail (Some actor), rc_actor_name = actorName (Some actor),
                 rc_session_id = nonempty session, rc_turn_sequence = turn\<rparr>
           in Inr (item\<lparr>ri_comments := ri_comments item @ [comment]\<rparr>)))"

definition actionRequiresResponse :: "RaisedItemResolveAction \<Rightarrow> bool" where
  "actionRequiresResponse action \<longleftrightarrow> action = Respond \<or> action = Dismiss \<or> action = Answer"

definition decided ::
    "int \<Rightarrow> ActorInput \<Rightarrow> RaisedItemStatus \<Rightarrow> StoredRaisedItem \<Rightarrow> StoredRaisedItem" where
  "decided now actor status base =
     base\<lparr>ri_unresolved_by := None, ri_unresolved_by_email := None, ri_unresolved_by_name := None,
          ri_status := status, ri_resolved_at := Some now,
          ri_resolved_by := Some (case actorRole (Some actor) of Some r \<Rightarrow> r | None \<Rightarrow> Human),
          ri_resolved_by_email := actorEmail (Some actor), ri_resolved_by_name := actorName (Some actor)\<rparr>"

text \<open>A decided item, and what resolving and undoing make of the item they are given.\<close>

definition resolved_item ::
    "int \<Rightarrow> RaisedItemResolveAction \<Rightarrow> ActorInput \<Rightarrow> string option \<Rightarrow> string option \<Rightarrow> StoredRaisedItem \<Rightarrow> StoredRaisedItem" where
  "resolved_item now action actor response pending_comment existing =
     (decided now actor (raisedStatusForAction action) existing)
       \<lparr>ri_resolution := nonempty response,
        ri_pending_comment := (case nonempty pending_comment of Some c \<Rightarrow> Some c
                               | None \<Rightarrow> ri_pending_comment existing),
        ri_promoted_task_id := None\<rparr>"

definition resolve_item ::
    "int \<Rightarrow> string \<Rightarrow> RaisedItemResolveAction \<Rightarrow> ActorInput \<Rightarrow> string option \<Rightarrow> string option \<Rightarrow> StoredRaisedItem \<Rightarrow>
       raised_error + StoredRaisedItem" where
  "resolve_item now itemId action actor response pending_comment existing =
     (let target = raisedStatusForAction action
      in if ri_comment_delivered_at existing \<noteq> None
         then (if ri_status existing = target then Inr existing
               else Inl (DeliveredAs itemId (ri_status existing) target))
         else if actionRequiresResponse action \<and> trimmed response = None then Inl (ResponseRequired action)
         else Inr (resolved_item now action actor response pending_comment existing))"

definition resolveRaisedItem ::
    "int \<Rightarrow> RaisedStore \<Rightarrow> string \<Rightarrow> string \<Rightarrow> RaisedItemResolveAction \<Rightarrow> ActorInput \<Rightarrow> string option \<Rightarrow>
       string option \<Rightarrow> RaisedStore \<times> (raised_error + StoredRaisedItem)" where
  "resolveRaisedItem now rs taskId itemId action actor response pending_comment =
     on_raised_item rs taskId itemId (resolve_item now itemId action actor response pending_comment)"

definition undone :: "ActorInput option \<Rightarrow> StoredRaisedItem \<Rightarrow> StoredRaisedItem" where
  "undone actor existing =
     (blank_raised (ri_id existing) (ri_task_id existing) (ri_content existing)
        (ri_blocking existing) (ri_created_at existing))
       \<lparr>ri_title := nonempty (ri_title existing), ri_explanation := nonempty (ri_explanation existing),
        ri_proposed_code := nonempty (ri_proposed_code existing),
        ri_proposed_prompt := nonempty (ri_proposed_prompt existing), ri_options := ri_options existing,
        ri_session_id := ri_session_id existing, ri_turn_sequence := ri_turn_sequence existing,
        ri_migrated_from_follow_up := ri_migrated_from_follow_up existing,
        ri_unresolved_by := actorRole actor, ri_unresolved_by_email := actorEmail actor,
        ri_unresolved_by_name := actorName actor\<rparr>"

definition unresolve_item ::
    "string \<Rightarrow> ActorInput option \<Rightarrow> StoredRaisedItem \<Rightarrow> raised_error + StoredRaisedItem" where
  "unresolve_item itemId actor existing =
     (if ri_status existing = RaisedOpen then Inr existing
      else if ri_comment_delivered_at existing \<noteq> None then Inl (DeliveredNoUndo itemId)
      else Inr (undone actor existing))"

definition unresolveRaisedItem ::
    "RaisedStore \<Rightarrow> string \<Rightarrow> string \<Rightarrow> ActorInput option \<Rightarrow> RaisedStore \<times> (raised_error + StoredRaisedItem)" where
  "unresolveRaisedItem rs taskId itemId actor = on_raised_item rs taskId itemId (unresolve_item itemId actor)"

definition or_else :: "'a option \<Rightarrow> 'a option \<Rightarrow> 'a option" where
  "or_else x y = (case x of Some v \<Rightarrow> Some v | None \<Rightarrow> y)"

definition markRaisedItemCommentDelivered ::
    "int \<Rightarrow> RaisedStore \<Rightarrow> string \<Rightarrow> string \<Rightarrow> string option \<Rightarrow> string option \<Rightarrow> string option \<Rightarrow> int option \<Rightarrow>
       RaisedStore \<times> (raised_error + StoredRaisedItem)" where
  "markRaisedItemCommentDelivered now rs taskId itemId promotedId promotedCode pending turn =
     on_raised_item rs taskId itemId (\<lambda>existing.
       Inr (existing\<lparr>ri_comment_delivered_at := or_else (ri_comment_delivered_at existing) (Some now),
                     ri_promoted_task_id := or_else (nonempty promotedId) (ri_promoted_task_id existing),
                     ri_promoted_task_code := or_else (nonempty promotedCode) (ri_promoted_task_code existing),
                     ri_pending_comment := or_else (nonempty pending) (ri_pending_comment existing),
                     ri_delivered_turn := or_else turn (ri_delivered_turn existing)\<rparr>))"

definition setRaisedItemBlocking ::
    "RaisedStore \<Rightarrow> string \<Rightarrow> string \<Rightarrow> bool \<Rightarrow> ActorInput \<Rightarrow> RaisedStore \<times> (raised_error + StoredRaisedItem)" where
  "setRaisedItemBlocking rs taskId itemId blocking actor =
     on_raised_item rs taskId itemId (\<lambda>existing.
       if ri_blocking existing = blocking then Inr existing
       else Inr (existing\<lparr>ri_blocking := blocking,
              ri_flagged_by := Some (case actorRole (Some actor) of Some r \<Rightarrow> r | None \<Rightarrow> Human),
              ri_flagged_by_email := actorEmail (Some actor), ri_flagged_by_name := actorName (Some actor)\<rparr>))"

text \<open>\<open>promoteRaisedItem\<close> around the creation of the task, which yields the new task's id and code.\<close>

definition promoted_item ::
    "int \<Rightarrow> bool \<Rightarrow> ActorInput \<Rightarrow> string \<times> string option \<Rightarrow> StoredRaisedItem \<Rightarrow> StoredRaisedItem" where
  "promoted_item now subtask actor created existing =
     (decided now actor (if subtask then PromotedSubtask else PromotedPeer) existing)
       \<lparr>ri_promoted_task_id := Some (fst created),
        ri_promoted_task_code := or_else (nonempty (snd created)) (ri_promoted_task_code existing)\<rparr>"

definition promoteRaisedItem ::
    "int \<Rightarrow> RaisedStore \<Rightarrow> string \<Rightarrow> string \<Rightarrow> bool \<Rightarrow> ActorInput \<Rightarrow> string \<times> string option \<Rightarrow>
       RaisedStore \<times> (raised_error + StoredRaisedItem)" where
  "promoteRaisedItem now rs taskId itemId subtask actor created =
     on_raised_item rs taskId itemId (\<lambda>existing.
       if ri_status existing = PromotedPeer \<or> ri_status existing = PromotedSubtask
       then Inl (AlreadyPromoted itemId (nonempty (ri_promoted_task_id existing)))
       else if ri_status existing \<noteq> RaisedOpen then Inl (AlreadyResolvedAs itemId (ri_status existing))
       else Inr (promoted_item now subtask actor created existing))"

section \<open>Resolutions given with accept and unblock\<close>

definition openRaisedItems :: "StoredRaisedItem list \<Rightarrow> StoredRaisedItem list" where
  "openRaisedItems items = filter (\<lambda>i. ri_status i = RaisedOpen \<and> ri_blocking i) items"

definition allOpenRaisedItems :: "StoredRaisedItem list \<Rightarrow> StoredRaisedItem list" where
  "allOpenRaisedItems items = filter (\<lambda>i. ri_status i = RaisedOpen) items"

definition raisedCommentIsPending :: "StoredRaisedItem \<Rightarrow> bool" where
  "raisedCommentIsPending item \<longleftrightarrow>
     ri_status item \<noteq> RaisedOpen \<and> nonempty (ri_pending_comment item) \<noteq> None \<and>
     ri_comment_delivered_at item = None"

definition quoteRaisedContent :: "string \<Rightarrow> string" where
  "quoteRaisedContent content = join_with nl (map (\<lambda>line. ''> '' @ line) (split_on (CHR 0x0A) (trim content)))"

definition buildPendingRaisedComment ::
    "StoredRaisedItem \<Rightarrow> RaisedItemResolveAction \<Rightarrow> string option \<Rightarrow> string option \<Rightarrow> string" where
  "buildPendingRaisedComment item action response promotedTaskRef =
     (let quoted = ''Regarding raised item '' @ take 8 (ri_id item) @ '':'' @ nl @ quoteRaisedContent (raisedDisplayBody item);
          note = (case response of None \<Rightarrow> [] | Some r \<Rightarrow> trim r);
          with_note = (if note = [] then [] else nl @ nl @ note)
      in case action of
           Respond \<Rightarrow> quoted @ nl @ nl @ note
         | Answer \<Rightarrow> quoted @ nl @ nl @ note
         | PromoteSubtask \<Rightarrow>
             quoted @ nl @ nl @
             (case nonempty promotedTaskRef of
                Some ref \<Rightarrow> ''This was promoted to a subtask ('' @ ref @
                  '') under this task; the work is tracked there. Do not re-raise it and do not create another task for it. '' @
                  ''If you are still working, you may lazy_wait on it and accept it, or leave it for the human.''
              | None \<Rightarrow> ''This will be promoted to a subtask (created on the next unblock or accept). Do not re-raise it.'') @
             with_note
         | PromotePeer \<Rightarrow>
             quoted @ nl @ nl @
             (case nonempty promotedTaskRef of
                Some ref \<Rightarrow> ''This was promoted to a peer task ('' @ ref @ ''). Do not re-raise it; that work is tracked there.''
              | None \<Rightarrow> ''This will be promoted to a peer task (created on the next unblock or accept). Do not re-raise it.'') @
             with_note
         | Dismiss \<Rightarrow> quoted @ nl @ nl @ ''Dismissed: '' @ note
         | Acknowledge \<Rightarrow> quoted @ nl @ nl @ (if note = [] then ''Acknowledged.'' else ''Acknowledged: '' @ note))"

record RaisedItemResolution =
  rr_id :: string
  rr_action :: RaisedItemResolveAction
  rr_response :: "string option"

record NormalizedRaisedResolution =
  nr_item :: StoredRaisedItem
  nr_action :: RaisedItemResolveAction
  nr_response :: "string option"
  nr_pending_comment :: string

datatype resolution_error =
    ResolutionWithoutId
  | ActionNoLongerValid
  | ItemNeedsResponse string RaisedItemResolveAction
  | ItemNamedTwice string
  | UnknownItem string
  | UndeliveredItemExpected string
  | OpenItemsRemain "string list"
  | MissingResolutions "string list"
  | StoreRefused raised_error

text \<open>The items by full id and by the first eight characters, as the \<open>Map\<close> of the source holds
  them, and the item a resolution names.\<close>

definition items_by_id :: "StoredRaisedItem list \<Rightarrow> (string, StoredRaisedItem) omap" where
  "items_by_id items = foldl (\<lambda>m i. omap_set (omap_set m (ri_id i) i) (take 8 (ri_id i)) i) [] items"

definition named_item :: "(string, StoredRaisedItem) omap \<Rightarrow> string \<Rightarrow> StoredRaisedItem option" where
  "named_item byId rid =
     or_else (omap_get byId rid) (List.find (\<lambda>i. starts_with (ri_id i) rid) (omap_values byId))"

definition checked_resolution ::
    "StoredRaisedItem \<Rightarrow> string list \<Rightarrow> RaisedItemResolution \<Rightarrow> resolution_error + NormalizedRaisedResolution" where
  "checked_resolution item seen res =
     (if ri_id item \<in> set seen then Inl (ItemNamedTwice (take 8 (ri_id item)))
      else if actionRequiresResponse (rr_action res) \<and> trimmed (rr_response res) = None
      then Inl (ItemNeedsResponse (take 8 (ri_id item)) (rr_action res))
      else Inr \<lparr>nr_item = item, nr_action = rr_action res, nr_response = nonempty (rr_response res),
                nr_pending_comment = buildPendingRaisedComment item (rr_action res) (nonempty (rr_response res)) None\<rparr>)"

text \<open>The loop over the resolutions. With no open blocking item an unknown id is skipped, otherwise
  it is refused.\<close>

fun check_resolutions ::
    "bool \<Rightarrow> (string, StoredRaisedItem) omap \<Rightarrow> string list \<Rightarrow> RaisedItemResolution list \<Rightarrow>
       resolution_error + NormalizedRaisedResolution list" where
  "check_resolutions skip byId seen [] = Inr []"
| "check_resolutions skip byId seen (res # rest) =
     (if rr_id res = [] then Inl ResolutionWithoutId
      else if rr_action res = Answer then Inl ActionNoLongerValid
      else case named_item byId (rr_id res) of
             None \<Rightarrow> if skip then check_resolutions skip byId seen rest else Inl (UnknownItem (rr_id res))
           | Some item \<Rightarrow>
               bind_result (checked_resolution item seen res) (\<lambda>n.
               bind_result (check_resolutions skip byId (ri_id item # seen) rest) (\<lambda>ns. Inr (n # ns))))"

definition validateRaisedResolutions ::
    "StoredRaisedItem list \<Rightarrow> RaisedItemResolution list option \<Rightarrow> StoredRaisedItem list \<Rightarrow>
       resolution_error + NormalizedRaisedResolution list" where
  "validateRaisedResolutions open resolutions resolvable =
     (if open = []
      then (case resolutions of
              None \<Rightarrow> Inr []
            | Some rs \<Rightarrow> if rs = [] then Inr [] else check_resolutions True (items_by_id resolvable) [] rs)
      else case resolutions of
             None \<Rightarrow> Inl (OpenItemsRemain (map (\<lambda>i. take 8 (ri_id i)) open))
           | Some rs \<Rightarrow>
               bind_result (check_resolutions False (items_by_id resolvable) [] rs) (\<lambda>normalized.
                 let seen = map (\<lambda>n. ri_id (nr_item n)) normalized;
                     missing = filter (\<lambda>i. ri_id i \<notin> set seen) open
                 in if missing \<noteq> [] then Inl (MissingResolutions (map (\<lambda>i. take 8 (ri_id i)) missing))
                    else Inr normalized))"

fun resolve_each ::
    "int \<Rightarrow> string \<Rightarrow> ActorInput \<Rightarrow> RaisedStore \<Rightarrow> NormalizedRaisedResolution list \<Rightarrow>
       RaisedStore \<times> (resolution_error + StoredRaisedItem list)" where
  "resolve_each now taskId actor rs [] = (rs, Inr [])"
| "resolve_each now taskId actor rs (n # ns) =
     (case resolveRaisedItem now rs taskId (ri_id (nr_item n)) (nr_action n) actor (nr_response n)
             (Some (nr_pending_comment n)) of
        (rs', Inl e) \<Rightarrow> (rs', Inl (StoreRefused e))
      | (rs', Inr item) \<Rightarrow>
          (case resolve_each now taskId actor rs' ns of
             (rs'', r) \<Rightarrow> (rs'', bind_result r (\<lambda>items. Inr (item # items)))))"

definition lookupOpenOrPendingItem :: "StoredRaisedItem list \<Rightarrow> string \<Rightarrow> StoredRaisedItem option" where
  "lookupOpenOrPendingItem items resId =
     (case List.find (\<lambda>i. ri_id i = resId \<or> take 8 (ri_id i) = resId \<or> starts_with (ri_id i) resId) items of
        None \<Rightarrow> None
      | Some i \<Rightarrow> if ri_status i = RaisedOpen \<or> ri_comment_delivered_at i = None then Some i else None)"

text \<open>The loop of an unblock, which resolves each item as it reads it.\<close>

fun resolve_named ::
    "int \<Rightarrow> string \<Rightarrow> ActorInput \<Rightarrow> StoredRaisedItem list \<Rightarrow> RaisedStore \<Rightarrow> string list \<Rightarrow> RaisedItemResolution list \<Rightarrow>
       RaisedStore \<times> (resolution_error + StoredRaisedItem list)" where
  "resolve_named now taskId actor all rs seen [] = (rs, Inr [])"
| "resolve_named now taskId actor all rs seen (res # rest) =
     (if rr_id res = [] then (rs, Inl ResolutionWithoutId)
      else if rr_action res = Answer then (rs, Inl ActionNoLongerValid)
      else case lookupOpenOrPendingItem all (rr_id res) of
             None \<Rightarrow> (rs, Inl (UndeliveredItemExpected (rr_id res)))
           | Some item \<Rightarrow>
               if ri_id item \<in> set seen then (rs, Inl (ItemNamedTwice (take 8 (ri_id item))))
               else if actionRequiresResponse (rr_action res) \<and> trimmed (rr_response res) = None
               then (rs, Inl (ItemNeedsResponse (take 8 (ri_id item)) (rr_action res)))
               else case resolveRaisedItem now rs taskId (ri_id item) (rr_action res) actor (rr_response res)
                           (Some (buildPendingRaisedComment item (rr_action res) (rr_response res) None)) of
                      (rs', Inl e) \<Rightarrow> (rs', Inl (StoreRefused e))
                    | (rs', Inr updated) \<Rightarrow>
                        (case resolve_named now taskId actor all rs' (ri_id item # seen) rest of
                           (rs'', r) \<Rightarrow> (rs'', bind_result r (\<lambda>items. Inr (updated # items)))))"

definition applyRaisedResolutions ::
    "int \<Rightarrow> RaisedStore \<Rightarrow> string \<Rightarrow> RaisedItemResolution list option \<Rightarrow> ActorInput \<Rightarrow> bool \<Rightarrow>
       RaisedStore \<times> (resolution_error + StoredRaisedItem list)" where
  "applyRaisedResolutions now rs taskId resolutions actor requireComplete =
     (let all = getTaskRaisedItems rs taskId
      in if requireComplete
         then (case validateRaisedResolutions (openRaisedItems all) resolutions (allOpenRaisedItems all) of
                 Inl e \<Rightarrow> (rs, Inl e)
               | Inr normalized \<Rightarrow> resolve_each now taskId actor rs normalized)
         else (case resolutions of
                 None \<Rightarrow> (rs, Inr [])
               | Some res \<Rightarrow> resolve_named now taskId actor all rs [] res))"

text \<open>\<open>resolveOneRaisedItem\<close>: one resolution outside accept and unblock.\<close>

definition resolveOneRaisedItem ::
    "int \<Rightarrow> RaisedStore \<Rightarrow> string \<Rightarrow> string \<Rightarrow> RaisedItemResolveAction \<Rightarrow> ActorInput \<Rightarrow> string option \<Rightarrow>
       RaisedStore \<times> (resolution_error + StoredRaisedItem)" where
  "resolveOneRaisedItem now rs taskId itemId action actor response =
     (if action = Answer then (rs, Inl ActionNoLongerValid)
      else case List.find (\<lambda>i. starts_with (ri_id i) itemId) (getTaskRaisedItems rs taskId) of
             None \<Rightarrow> (rs, Inl (UnknownItem itemId))
           | Some item \<Rightarrow>
               if ri_comment_delivered_at item \<noteq> None then (rs, Inl (UndeliveredItemExpected (take 8 (ri_id item))))
               else if actionRequiresResponse action \<and> trimmed response = None
               then (rs, Inl (ItemNeedsResponse (take 8 (ri_id item)) action))
               else (case resolveRaisedItem now rs taskId (ri_id item) action actor response
                            (Some (buildPendingRaisedComment item action response None)) of
                       (rs', Inl e) \<Rightarrow> (rs', Inl (StoreRefused e))
                     | (rs', Inr updated) \<Rightarrow> (rs', Inr updated)))"

section \<open>How an item reads\<close>

text \<open>The ellipsis is outside the code units modelled, so it is an argument.\<close>

fun last_index_of :: "char \<Rightarrow> string \<Rightarrow> nat option" where
  "last_index_of c [] = None"
| "last_index_of c (d # s) =
     (case last_index_of c s of Some n \<Rightarrow> Some (Suc n) | None \<Rightarrow> if d = c then Some 0 else None)"

definition truncateAtWordBoundary :: "string \<Rightarrow> string \<Rightarrow> nat \<Rightarrow> string" where
  "truncateAtWordBoundary ellipsis s maxLen =
     (let normalized = trim s
      in if length normalized \<le> maxLen then normalized
         else if maxLen \<le> 1 then ellipsis
         else let budget = maxLen - 1;
                  slice = take budget normalized;
                  minBreak = min 40 (budget div 2);
                  cut = (case last_index_of (CHR '' '') slice of
                           Some breakAt \<Rightarrow> if breakAt \<ge> minBreak then breakAt else budget
                         | None \<Rightarrow> budget)
              in trim_end (take cut slice) @ ellipsis)"

definition raisedTitle :: "string \<Rightarrow> string \<Rightarrow> nat \<Rightarrow> string" where
  "raisedTitle ellipsis content maxLen =
     (let title = firstSentence content
      in if title = [] then ''(empty raised item)'' else truncateAtWordBoundary ellipsis title maxLen)"

definition raisedDisplayTitle :: "string \<Rightarrow> StoredRaisedItem \<Rightarrow> nat \<Rightarrow> string" where
  "raisedDisplayTitle ellipsis item maxLen =
     (case ri_title item of
        Some t \<Rightarrow> if trim t \<noteq> [] then raisedTitle ellipsis t maxLen else raisedTitle ellipsis (ri_content item) maxLen
      | None \<Rightarrow> raisedTitle ellipsis (ri_content item) maxLen)"

definition raisedHasProposal :: "StoredRaisedItem \<Rightarrow> bool" where
  "raisedHasProposal item \<longleftrightarrow> trimmed (ri_title item) \<noteq> None \<or> trimmed (ri_proposed_code item) \<noteq> None \<or>
     trimmed (ri_proposed_prompt item) \<noteq> None"

definition raisedSearchText :: "StoredRaisedItem \<Rightarrow> string" where
  "raisedSearchText item =
     join_with nl (filter (\<lambda>s. s \<noteq> [])
       (ri_content item # concat (map (\<lambda>f. case f item of None \<Rightarrow> [] | Some s \<Rightarrow> [s])
          [ri_title, ri_explanation, ri_proposed_code, ri_proposed_prompt])))"

definition raisedIsPromoted :: "RaisedItemStatus \<Rightarrow> bool" where
  "raisedIsPromoted status \<longleftrightarrow> status = PromotedPeer \<or> status = PromotedSubtask"

section \<open>Records of earlier releases\<close>

datatype TriageStatus = TriageOpen | TriageAcknowledged | TriageDismissed | TriagePromoted

record LegacyFollowUpRecord =
  fu_id :: string
  fu_task_id :: string
  fu_content :: string
  fu_created_at :: int
  fu_title :: "string option"
  fu_explanation :: "string option"
  fu_proposed_code :: "string option"
  fu_proposed_prompt :: "string option"
  fu_session_id :: "string option"
  fu_triage_status :: "TriageStatus option"
  fu_triaged_at :: "int option"
  fu_triaged_by :: "Actor option"
  fu_triage_note :: "string option"
  fu_promoted_task_id :: "string option"
  fu_promoted_task_code :: "string option"

datatype conversion_error = FollowUpWithoutId | NeitherContentNorTitle string

definition raisedItemFromFollowUp :: "LegacyFollowUpRecord \<Rightarrow> string \<Rightarrow> conversion_error + StoredRaisedItem" where
  "raisedItemFromFollowUp r taskId =
     (if fu_id r = [] then Inl FollowUpWithoutId
      else if trim (fu_content r) = [] \<and> trimmed (fu_title r) = None then Inl (NeitherContentNorTitle (fu_id r))
      else let status = (case fu_triage_status r of
                 None \<Rightarrow> RaisedOpen | Some TriageOpen \<Rightarrow> RaisedOpen
               | Some TriageAcknowledged \<Rightarrow> Acknowledged | Some TriageDismissed \<Rightarrow> Dismissed
               | Some TriagePromoted \<Rightarrow> PromotedPeer);
               resolved = (status \<noteq> RaisedOpen)
           in Inr ((blank_raised (fu_id r) (if fu_task_id r = [] then taskId else fu_task_id r)
                     (if trim (fu_content r) \<noteq> [] then fu_content r
                      else (case trimmed (fu_title r) of Some t \<Rightarrow> t | None \<Rightarrow> []))
                     False (fu_created_at r))
                \<lparr>ri_title := nonempty (fu_title r), ri_explanation := nonempty (fu_explanation r),
                 ri_proposed_code := nonempty (fu_proposed_code r),
                 ri_proposed_prompt := nonempty (fu_proposed_prompt r), ri_session_id := fu_session_id r,
                 ri_status := status, ri_resolved_at := (if resolved then fu_triaged_at r else None),
                 ri_resolved_by := (if resolved then fu_triaged_by r else None),
                 ri_resolution := (if resolved then fu_triage_note r else None),
                 ri_promoted_task_id := nonempty (fu_promoted_task_id r),
                 ri_promoted_task_code := nonempty (fu_promoted_task_code r),
                 ri_migrated_from_follow_up := True\<rparr>))"

fun triageStatusForRaised :: "RaisedItemStatus \<Rightarrow> TriageStatus" where
  "triageStatusForRaised PromotedSubtask = TriagePromoted"
| "triageStatusForRaised PromotedPeer = TriagePromoted"
| "triageStatusForRaised Dismissed = TriageDismissed"
| "triageStatusForRaised Acknowledged = TriageAcknowledged"
| "triageStatusForRaised Responded = TriageAcknowledged"
| "triageStatusForRaised Answered = TriageAcknowledged"
| "triageStatusForRaised RaisedOpen = TriageOpen"

definition toFollowUpView :: "StoredRaisedItem \<Rightarrow> LegacyFollowUpRecord" where
  "toFollowUpView item =
     (let triage = triageStatusForRaised (ri_status item)
      in \<lparr>fu_id = ri_id item, fu_task_id = ri_task_id item, fu_content = ri_content item,
          fu_created_at = ri_created_at item, fu_title = nonempty (ri_title item),
          fu_explanation = nonempty (ri_explanation item), fu_proposed_code = nonempty (ri_proposed_code item),
          fu_proposed_prompt = nonempty (ri_proposed_prompt item), fu_session_id = ri_session_id item,
          fu_triage_status = (if triage = TriageOpen then None else Some triage),
          fu_triaged_at = ri_resolved_at item, fu_triaged_by = ri_resolved_by item,
          fu_triage_note = ri_resolution item, fu_promoted_task_id = nonempty (ri_promoted_task_id item),
          fu_promoted_task_code = nonempty (ri_promoted_task_code item)\<rparr>)"

section \<open>Invariant\<close>

text \<open>A decided item says when and by whom; an open one carries no trace of a decision.\<close>

definition raised_item_ok :: "StoredRaisedItem \<Rightarrow> bool" where
  "raised_item_ok i \<longleftrightarrow>
     (if ri_status i = RaisedOpen
      then ri_resolved_at i = None \<and> ri_resolved_by i = None \<and> ri_resolved_by_email i = None \<and>
        ri_resolved_by_name i = None \<and> ri_resolution i = None \<and> ri_comment_delivered_at i = None \<and>
        ri_promoted_task_id i = None
      else ri_resolved_at i \<noteq> None \<and> ri_resolved_by i \<noteq> None)"

definition items_ok :: "StoredRaisedItem list \<Rightarrow> bool" where
  "items_ok items \<longleftrightarrow> list_all raised_item_ok items \<and> distinct (map ri_id items) \<and>
     list_all (\<lambda>i. length (ri_id i) = 36) items"

definition raised_ok :: "RaisedStore \<Rightarrow> bool" where
  "raised_ok rs \<longleftrightarrow> (\<forall>k. items_ok (readRaisedItems rs k))"

text \<open>What a delivered decision is: the fields a later operation may not change.\<close>

definition decision_of :: "StoredRaisedItem \<Rightarrow>
    RaisedItemStatus \<times> int option \<times> Actor option \<times> string option \<times> string option \<times> string option \<times> int option" where
  "decision_of i = (ri_status i, ri_resolved_at i, ri_resolved_by i, ri_resolved_by_email i,
     ri_resolved_by_name i, ri_resolution i, ri_comment_delivered_at i)"

text \<open>What every operation does to an item it writes.\<close>

definition evolves :: "StoredRaisedItem \<Rightarrow> StoredRaisedItem \<Rightarrow> bool" where
  "evolves i j \<longleftrightarrow> ri_id j = ri_id i \<and> (raised_item_ok i \<longrightarrow> raised_item_ok j) \<and>
     (raised_item_ok i \<and> ri_comment_delivered_at i \<noteq> None \<longrightarrow> decision_of j = decision_of i)"

lemma readRaisedItems_set [simp]:
  "readRaisedItems (rs\<lparr>rs_items := omap_set m k items\<rparr>) k' =
     (if k' = k then items else readRaisedItems (rs\<lparr>rs_items := m\<rparr>) k')"
  by (simp add: readRaisedItems_def)

lemma readRaisedItems_tasks [simp]: "readRaisedItems (rs\<lparr>rs_tasks := st\<rparr>) k = readRaisedItems rs k"
  by (simp add: readRaisedItems_def)

lemma readRaisedItems_items: "rs_items rs' = rs_items rs \<Longrightarrow> readRaisedItems rs' k = readRaisedItems rs k"
  by (simp add: readRaisedItems_def)

lemma update_first_split:
  "List.find P xs = Some x \<Longrightarrow> \<exists>a b. xs = a @ x # b \<and> P x \<and> update_first P y xs = a @ y # b"
proof (induction xs)
  case (Cons z xs)
  show ?case
  proof (cases "P z")
    case True
    with Cons.prems show ?thesis by (intro exI [of _ "[]"] exI [of _ xs]) simp
  next
    case False
    with Cons.prems Cons.IH obtain a b where "xs = a @ x # b" "P x" "update_first P y xs = a @ y # b" by auto
    then show ?thesis using False by (intro exI [of _ "z # a"] exI [of _ b]) simp
  qed
qed simp

text \<open>Every operation on one item either leaves the items alone or replaces one of them.\<close>

lemma on_raised_item_outcome:
  assumes "on_raised_item rs taskId itemId f = (rs', r)"
  obtains (failed) e where "r = Inl e" "rs_items rs' = rs_items rs"
  | (wrote) k a x b y where "r = Inr y" "f x = Inr y" "starts_with (ri_id x) itemId"
      "readRaisedItems rs k = a @ x # b" "readRaisedItems rs' k = a @ y # b"
      "\<And>k'. k' \<noteq> k \<Longrightarrow> readRaisedItems rs' k' = readRaisedItems rs k'"
proof (cases "snd (findTaskIdByPrefix (rs_tasks rs) taskId)")
  case None
  with assms show ?thesis
    by (intro failed) (auto simp: on_raised_item_def split: prod.splits)
next
  case (Some k)
  let ?named = "\<lambda>i. starts_with (ri_id i) itemId"
  obtain st' where st: "findTaskIdByPrefix (rs_tasks rs) taskId = (st', Some k)"
    using Some by (cases "findTaskIdByPrefix (rs_tasks rs) taskId") auto
  show ?thesis
  proof (cases "List.find ?named (readRaisedItems rs k)")
    case None
    with assms st show ?thesis by (intro failed) (auto simp: on_raised_item_def Let_def)
  next
    case (Some x)
    show ?thesis
    proof (cases "f x")
      case (Inl e)
      with assms st Some show ?thesis by (intro failed [of e]) (auto simp: on_raised_item_def Let_def)
    next
      case (Inr y)
      obtain a b where ab: "readRaisedItems rs k = a @ x # b" "?named x"
        "update_first ?named y (readRaisedItems rs k) = a @ y # b"
        using update_first_split [OF Some, of y] by blast
      from assms st Some Inr have eq: "rs' = rs\<lparr>rs_tasks := st', rs_items := omap_set (rs_items rs) k (a @ y # b)\<rparr>"
        "r = Inr y"
        by (auto simp: on_raised_item_def Let_def ab(3))
      have other: "readRaisedItems rs' k' = readRaisedItems rs k'" if "k' \<noteq> k" for k'
        using that by (simp add: eq readRaisedItems_def)
      have same: "readRaisedItems rs' k = a @ y # b" by (simp add: eq readRaisedItems_def)
      show ?thesis by (rule wrote [OF eq(2) Inr ab(2,1) same other])
    qed
  qed
qed

lemma items_ok_replace:
  assumes "items_ok (a @ x # b)" and "evolves x y"
  shows "items_ok (a @ y # b)"
  using assms by (auto simp: items_ok_def evolves_def)

lemma items_ok_member: "items_ok items \<Longrightarrow> i \<in> set items \<Longrightarrow> raised_item_ok i"
  by (auto simp: items_ok_def list_all_iff)

text \<open>So an operation whose update \<open>evolves\<close> every item keeps the invariant and every delivered
  decision.\<close>

definition decisions_kept :: "RaisedStore \<Rightarrow> RaisedStore \<Rightarrow> bool" where
  "decisions_kept rs rs' \<longleftrightarrow>
     (\<forall>k. \<forall>i \<in> set (readRaisedItems rs k). ri_comment_delivered_at i \<noteq> None \<longrightarrow>
        (\<exists>j \<in> set (readRaisedItems rs' k). ri_id j = ri_id i \<and> decision_of j = decision_of i))"

lemma decisions_kept_superset:
  "(\<And>k. set (readRaisedItems rs k) \<subseteq> set (readRaisedItems rs' k)) \<Longrightarrow> decisions_kept rs rs'"
  unfolding decisions_kept_def by blast

lemma decision_delivered:
  "decision_of j = decision_of i \<Longrightarrow> ri_comment_delivered_at j = ri_comment_delivered_at i"
  by (simp add: decision_of_def)

lemma decisions_kept_trans: "decisions_kept rs rs' \<Longrightarrow> decisions_kept rs' rs'' \<Longrightarrow> decisions_kept rs rs''"
  unfolding decisions_kept_def by (metis decision_delivered)

lemma on_raised_item_keeps:
  assumes "on_raised_item rs taskId itemId f = (rs', r)" and ok: "raised_ok rs"
    and ev: "\<And>k x y. x \<in> set (readRaisedItems rs k) \<Longrightarrow> starts_with (ri_id x) itemId \<Longrightarrow> f x = Inr y \<Longrightarrow> evolves x y"
  shows "raised_ok rs' \<and> decisions_kept rs rs'"
  using assms(1)
proof (cases rule: on_raised_item_outcome)
  case (failed e)
  have same: "readRaisedItems rs' k = readRaisedItems rs k" for k by (rule readRaisedItems_items) (rule failed(2))
  have "raised_ok rs'" using ok unfolding raised_ok_def same .
  moreover have "decisions_kept rs rs'" by (rule decisions_kept_superset) (simp add: same)
  ultimately show ?thesis ..
next
  case (wrote k a x b y)
  have xy: "evolves x y" by (rule ev [of x k]) (simp_all add: wrote(2,3,4))
  have okk: "items_ok (a @ x # b)" using ok wrote(4) unfolding raised_ok_def by (auto dest: spec [of _ k])
  have "items_ok (readRaisedItems rs' k')" for k'
  proof (cases "k' = k")
    case True
    show ?thesis using items_ok_replace [OF okk xy] by (simp add: True wrote(5))
  next
    case False
    show ?thesis using ok unfolding wrote(6) [OF False] raised_ok_def by blast
  qed
  moreover have "decisions_kept rs rs'"
    unfolding decisions_kept_def
  proof (intro allI ballI impI)
    fix k' i assume i: "i \<in> set (readRaisedItems rs k')" "ri_comment_delivered_at i \<noteq> None"
    show "\<exists>j \<in> set (readRaisedItems rs' k'). ri_id j = ri_id i \<and> decision_of j = decision_of i"
    proof (cases "k' = k \<and> i = x")
      case True
      have "raised_item_ok x" using okk by (simp add: items_ok_def)
      with xy i(2) True have "ri_id y = ri_id i \<and> decision_of y = decision_of i" by (simp add: evolves_def)
      then show ?thesis using True by (simp add: wrote(5))
    next
      case False
      have "i \<in> set (readRaisedItems rs' k')"
      proof (cases "k' = k")
        case True
        then show ?thesis using i(1) False by (simp add: wrote(4,5))
      qed (use i(1) wrote(6) in simp)
      then show ?thesis by blast
    qed
  qed
  ultimately show ?thesis by (simp add: raised_ok_def)
qed

section \<open>Every operation keeps the invariant\<close>

named_theorems evolve_simps \<open>how the operations change one item\<close>

lemma evolves_refl: "evolves i i"
  by (simp add: evolves_def)

lemmas evolves_defs = evolves_def raised_item_ok_def decision_of_def decided_def blank_raised_def Let_def or_else_def

lemma addRaisedItemComment_keeps:
  assumes "addRaisedItemComment secrets newId now rs taskId itemId body actor session turn = (rs', r)" and "raised_ok rs"
  shows "raised_ok rs' \<and> decisions_kept rs rs'"
proof (cases "trim (redactSecretValues secrets body) = []")
  case True
  with assms show ?thesis by (auto simp: addRaisedItemComment_def intro: decisions_kept_superset)
next
  case False
  from assms(1) show ?thesis
    unfolding addRaisedItemComment_def Let_def if_not_P [OF False]
    by (rule on_raised_item_keeps [OF _ assms(2)]) (auto simp: evolves_defs)
qed

lemma resolveRaisedItem_keeps:
  assumes "resolveRaisedItem now rs taskId itemId action actor response pending = (rs', r)" and "raised_ok rs"
  shows "raised_ok rs' \<and> decisions_kept rs rs'"
  using assms(1) unfolding resolveRaisedItem_def
  by (rule on_raised_item_keeps [OF _ assms(2)])
    (cases action; auto simp: resolve_item_def resolved_item_def evolves_defs split: if_splits)

lemma unresolveRaisedItem_keeps:
  assumes "unresolveRaisedItem rs taskId itemId actor = (rs', r)" and "raised_ok rs"
  shows "raised_ok rs' \<and> decisions_kept rs rs'"
  using assms(1) unfolding unresolveRaisedItem_def
  by (rule on_raised_item_keeps [OF _ assms(2)]) (auto simp: unresolve_item_def undone_def evolves_defs split: if_splits)

lemma setRaisedItemBlocking_keeps:
  assumes "setRaisedItemBlocking rs taskId itemId blocking actor = (rs', r)" and "raised_ok rs"
  shows "raised_ok rs' \<and> decisions_kept rs rs'"
  using assms(1) unfolding setRaisedItemBlocking_def
  by (rule on_raised_item_keeps [OF _ assms(2)]) (auto simp: evolves_defs split: if_splits)

lemma promoteRaisedItem_keeps:
  assumes "promoteRaisedItem now rs taskId itemId subtask actor created = (rs', r)" and "raised_ok rs"
  shows "raised_ok rs' \<and> decisions_kept rs rs'"
  using assms(1) unfolding promoteRaisedItem_def
  by (rule on_raised_item_keeps [OF _ assms(2)]) (auto simp: promoted_item_def evolves_defs split: if_splits)

lemma markRaisedItemCommentDelivered_keeps:
  assumes "markRaisedItemCommentDelivered now rs taskId itemId pid pcode pending turn = (rs', r)" and "raised_ok rs"
    and "\<And>k i. i \<in> set (readRaisedItems rs k) \<Longrightarrow> starts_with (ri_id i) itemId \<Longrightarrow> ri_status i \<noteq> RaisedOpen"
  shows "raised_ok rs' \<and> decisions_kept rs rs'"
  using assms(1) unfolding markRaisedItemCommentDelivered_def
proof (rule on_raised_item_keeps [OF _ assms(2)])
  fix k x y
  assume "x \<in> set (readRaisedItems rs k)" "starts_with (ri_id x) itemId"
  then have "ri_status x \<noteq> RaisedOpen" by (rule assms(3))
  moreover assume "Inr (x\<lparr>ri_comment_delivered_at := or_else (ri_comment_delivered_at x) (Some now),
      ri_promoted_task_id := or_else (nonempty pid) (ri_promoted_task_id x),
      ri_promoted_task_code := or_else (nonempty pcode) (ri_promoted_task_code x),
      ri_pending_comment := or_else (nonempty pending) (ri_pending_comment x),
      ri_delivered_turn := or_else turn (ri_delivered_turn x)\<rparr>) = (Inr y :: raised_error + StoredRaisedItem)"
  ultimately show "evolves x y"
    by (auto simp: evolves_def raised_item_ok_def decision_of_def or_else_def)
qed

lemma new_raised_fields [simp]:
  "ri_id (new_raised newId k now input content parts) = newId"
  "raised_item_ok (new_raised newId k now input content parts)"
  "ri_status (new_raised newId k now input content parts) = RaisedOpen"
  "ri_blocking (new_raised newId k now input content parts) = in_blocking input"
  "ri_content (new_raised newId k now input content parts) = content"
  "ri_title (new_raised newId k now input content parts) = fst parts"
  by (auto simp: new_raised_def blank_raised_def raised_item_ok_def split: prod.split)

text \<open>A creation either changes no items, or appends one new open item to those of one task.\<close>

lemma createRaisedItem_outcome:
  assumes "createRaisedItem secrets newId now rs taskId input = (rs', r)"
  obtains (same) "rs_items rs' = rs_items rs"
  | (new) k item where "ri_id item = newId" "raised_item_ok item" "r = Inr item"
      "readRaisedItems rs' k = readRaisedItems rs k @ [item]"
      "\<And>k'. k' \<noteq> k \<Longrightarrow> readRaisedItems rs' k' = readRaisedItems rs k'"
proof -
  consider "rs_items rs' = rs_items rs"
    | k st' content parts where "r = Inr (new_raised newId k now input content parts)"
      "rs' = rs\<lparr>rs_tasks := st', rs_items := omap_set (rs_items rs) k
               (readRaisedItems rs k @ [new_raised newId k now input content parts])\<rparr>"
    using assms
    by (auto simp: createRaisedItem_def Let_def split: prod.splits option.splits sum.splits if_splits)
  then show thesis
  proof cases
    case 1
    then show thesis by (rule same)
  next
    case (2 k st' content parts)
    show thesis
      by (rule new [of "new_raised newId k now input content parts" k]) (simp_all add: 2 readRaisedItems_def)
  qed
qed

lemma createRaisedItem_keeps:
  assumes create: "createRaisedItem secrets newId now rs taskId input = (rs', r)" and ok: "raised_ok rs"
    and len: "length newId = 36" and fresh: "\<And>k i. i \<in> set (readRaisedItems rs k) \<Longrightarrow> ri_id i \<noteq> newId"
  shows "raised_ok rs' \<and> decisions_kept rs rs'"
  using create
proof (cases rule: createRaisedItem_outcome)
  case same
  have "readRaisedItems rs' k = readRaisedItems rs k" for k by (rule readRaisedItems_items) (rule same)
  with ok show ?thesis by (auto simp: raised_ok_def intro: decisions_kept_superset)
next
  case (new k item)
  have "items_ok (readRaisedItems rs' k')" for k'
  proof (cases "k' = k")
    case True
    have "newId \<notin> ri_id ` set (readRaisedItems rs k)" using fresh by auto
    moreover have "items_ok (readRaisedItems rs k)" using ok by (simp add: raised_ok_def)
    ultimately show ?thesis using new(1,2,4) len by (auto simp: True items_ok_def)
  next
    case False
    show ?thesis using ok unfolding new(5) [OF False] raised_ok_def by blast
  qed
  moreover have "decisions_kept rs rs'"
  proof (rule decisions_kept_superset)
    fix k' show "set (readRaisedItems rs k') \<subseteq> set (readRaisedItems rs' k')"
      by (cases "k' = k") (auto simp: new(4,5))
  qed
  ultimately show ?thesis by (simp add: raised_ok_def)
qed

section \<open>Runs\<close>

text \<open>What the callers of the store do to it. Fresh ids are fresh; a comment is delivered for decided
  items only (\<open>materializePendingRaisedComments\<close> skips the open ones).\<close>

inductive raised_step :: "string list \<Rightarrow> RaisedStore \<Rightarrow> RaisedStore \<Rightarrow> bool" for secrets where
  raise: "createRaisedItem secrets newId now rs taskId input = (rs', r) \<Longrightarrow> length newId = 36 \<Longrightarrow>
    (\<And>k i. i \<in> set (readRaisedItems rs k) \<Longrightarrow> ri_id i \<noteq> newId) \<Longrightarrow> raised_step secrets rs rs'"
| remark: "addRaisedItemComment secrets newId now rs taskId itemId body actor session turn = (rs', r) \<Longrightarrow>
    raised_step secrets rs rs'"
| resolve: "resolveRaisedItem now rs taskId itemId action actor response pending = (rs', r) \<Longrightarrow>
    raised_step secrets rs rs'"
| undo: "unresolveRaisedItem rs taskId itemId who = (rs', r) \<Longrightarrow> raised_step secrets rs rs'"
| flag: "setRaisedItemBlocking rs taskId itemId blocking actor = (rs', r) \<Longrightarrow> raised_step secrets rs rs'"
| promote: "promoteRaisedItem now rs taskId itemId subtask actor created = (rs', r) \<Longrightarrow> raised_step secrets rs rs'"
| deliver: "markRaisedItemCommentDelivered now rs taskId itemId pid pcode pending turn = (rs', r) \<Longrightarrow>
    (\<And>k i. i \<in> set (readRaisedItems rs k) \<Longrightarrow> starts_with (ri_id i) itemId \<Longrightarrow> ri_status i \<noteq> RaisedOpen) \<Longrightarrow>
    raised_step secrets rs rs'"

lemma raised_step_keeps:
  "raised_step secrets rs rs' \<Longrightarrow> raised_ok rs \<Longrightarrow> raised_ok rs' \<and> decisions_kept rs rs'"
proof (induction rule: raised_step.induct)
  case (raise newId now rs taskId input rs' r)
  from createRaisedItem_keeps [OF raise.hyps(1) raise.prems raise.hyps(2)] raise.hyps(3) show ?case by blast
next
  case (deliver now rs taskId itemId pid pcode pending turn rs' r)
  from markRaisedItemCommentDelivered_keeps [OF deliver.hyps(1) deliver.prems] deliver.hyps(2) show ?case by blast
qed (rule addRaisedItemComment_keeps resolveRaisedItem_keeps unresolveRaisedItem_keeps
      setRaisedItemBlocking_keeps promoteRaisedItem_keeps, assumption+)+

lemma raised_steps_keep:
  "(raised_step secrets)\<^sup>*\<^sup>* rs rs' \<Longrightarrow> raised_ok rs \<Longrightarrow> raised_ok rs' \<and> decisions_kept rs rs'"
proof (induction rule: rtranclp_induct)
  case base
  then show ?case by (auto intro: decisions_kept_superset)
next
  case (step rs1 rs2)
  then show ?case using raised_step_keeps decisions_kept_trans by blast
qed

section \<open>Resolutions at accept\<close>

lemma items_by_id_values: "set (omap_values (items_by_id items)) \<subseteq> set items"
proof -
  have "set (omap_values (foldl (\<lambda>m i. omap_set (omap_set m (ri_id i) i) (take 8 (ri_id i)) i) m items))
          \<subseteq> set (omap_values m) \<union> set items" for m
  proof (induction items arbitrary: m)
    case (Cons i items)
    let ?m = "omap_set (omap_set m (ri_id i) i) (take 8 (ri_id i)) i"
    have "set (omap_values ?m) \<subseteq> insert i (set (omap_values m))"
      using values_omap_set [of "omap_set m (ri_id i) i" "take 8 (ri_id i)" i] values_omap_set [of m "ri_id i" i]
      by blast
    moreover note Cons.IH [of ?m]
    ultimately show ?case unfolding foldl_Cons list.set by blast
  qed simp
  from this [of "[]"] show ?thesis by (simp add: items_by_id_def)
qed

lemma named_item_member:
  assumes "named_item (items_by_id items) rid = Some i"
  shows "i \<in> set items"
proof (cases "omap_get (items_by_id items) rid")
  case None
  with assms have "i \<in> set (omap_values (items_by_id items))"
    by (auto simp: named_item_def or_else_def find_Some_iff)
  then show ?thesis using items_by_id_values by blast
next
  case (Some j)
  with assms have "j = i" by (simp add: named_item_def or_else_def)
  with omap_get_in_values [OF Some] show ?thesis using items_by_id_values by blast
qed

lemma trimmed_nonempty [simp]: "trimmed (nonempty r) = trimmed r"
  by (cases r) (auto simp: trimmed_def nonempty_def trim_def trim_start_def)

text \<open>What passes the check: distinct items among those given, each with the response its action
  needs.\<close>

definition acceptable :: "StoredRaisedItem list \<Rightarrow> string list \<Rightarrow> NormalizedRaisedResolution list \<Rightarrow> bool" where
  "acceptable items seen ns \<longleftrightarrow> distinct (map (\<lambda>n. ri_id (nr_item n)) ns) \<and>
     (\<forall>n \<in> set ns. nr_item n \<in> set items \<and> ri_id (nr_item n) \<notin> set seen \<and>
        (actionRequiresResponse (nr_action n) \<longrightarrow> trimmed (nr_response n) \<noteq> None))"

lemma check_resolutions_acceptable:
  "check_resolutions skip (items_by_id items) seen res = Inr ns \<Longrightarrow> acceptable items seen ns"
proof (induction res arbitrary: seen ns)
  case (Cons r res)
  show ?case
  proof (cases "named_item (items_by_id items) (rr_id r)")
    case None
    with Cons show ?thesis by (auto split: if_splits)
  next
    case (Some i)
    with Cons.prems obtain n ms where n: "checked_resolution i seen r = Inr n"
      "check_resolutions skip (items_by_id items) (ri_id i # seen) res = Inr ms" "ns = n # ms"
      by (auto simp: bind_result_Inr_iff split: if_splits)
    have "nr_item n = i" "ri_id i \<notin> set seen" "actionRequiresResponse (nr_action n) \<longrightarrow> trimmed (nr_response n) \<noteq> None"
      using n(1) by (auto simp: checked_resolution_def split: if_splits)
    with Cons.IH [OF n(2)] named_item_member [OF Some] show ?thesis
      by (fastforce simp: acceptable_def n(3))
  qed
qed (simp add: acceptable_def)

text \<open>Resolving one open item of a task that holds it: exactly that item is decided.\<close>

lemma full_id_starts_with:
  "length i = 36 \<Longrightarrow> length j = 36 \<Longrightarrow> starts_with i j \<longleftrightarrow> i = j"
  by (auto simp: starts_with_iff)

lemma find_by_full_id:
  assumes "items_ok items" and "x \<in> set items"
  shows "List.find (\<lambda>i. starts_with (ri_id i) (ri_id x)) items = Some x"
proof -
  have "List.find (\<lambda>i. starts_with (ri_id i) (ri_id x)) items = List.find (\<lambda>i. ri_id i = ri_id x) items"
    by (rule find_cong) (use assms in \<open>auto simp: items_ok_def list_all_iff full_id_starts_with\<close>)
  also have "\<dots> = Some x"
    using assms by (induction items) (auto simp: items_ok_def)
  finally show ?thesis .
qed

text \<open>An operation on an item named by its full id reaches that item.\<close>

lemma on_raised_member:
  assumes "is_uuid taskId" and ok: "items_ok (readRaisedItems rs taskId)" and "x \<in> set (readRaisedItems rs taskId)"
    and "f x = Inr y" and "evolves x y"
  obtains rs' where "on_raised_item rs taskId (ri_id x) f = (rs', Inr y)" "items_ok (readRaisedItems rs' taskId)"
    "\<forall>i. i \<in> set (readRaisedItems rs' taskId) \<longleftrightarrow> i = y \<or> (i \<in> set (readRaisedItems rs taskId) \<and> ri_id i \<noteq> ri_id x)"
proof -
  let ?items = "readRaisedItems rs taskId" and ?named = "\<lambda>i. starts_with (ri_id i) (ri_id x)"
  have find: "List.find ?named ?items = Some x" using ok assms(3) by (rule find_by_full_id)
  obtain a b where ab: "?items = a @ x # b" "update_first ?named y ?items = a @ y # b"
    using update_first_split [OF find, of y] by blast
  let ?rs' = "rs\<lparr>rs_items := omap_set (rs_items rs) taskId (a @ y # b)\<rparr>"
  have step: "on_raised_item rs taskId (ri_id x) f = (?rs', Inr y)"
    using find assms(4) ab(2) by (simp add: on_raised_item_def find_uuid [OF assms(1)] Let_def)
  have items': "readRaisedItems ?rs' taskId = a @ y # b" by simp
  have ok': "items_ok (readRaisedItems ?rs' taskId)"
    unfolding items' by (rule items_ok_replace [OF _ assms(5)]) (use ok ab(1) in simp)
  have mem: "i \<in> set (readRaisedItems ?rs' taskId) \<longleftrightarrow> i = y \<or> (i \<in> set ?items \<and> ri_id i \<noteq> ri_id x)" for i
    using ok unfolding items' ab(1) items_ok_def by (auto simp: image_iff)
  show thesis by (rule that [OF step ok']) (use mem in blast)
qed

text \<open>The fields of an item that are not a decision, its delivery, its notes or its flag's author.\<close>

definition question_of :: "StoredRaisedItem \<Rightarrow> string \<times> string \<times> string \<times> bool \<times> string option \<times> string option \<times>
    string option \<times> string option \<times> string list \<times> int \<times> string option \<times> int option \<times> bool" where
  "question_of i = (ri_id i, ri_task_id i, ri_content i, ri_blocking i, nonempty (ri_title i),
     nonempty (ri_explanation i), nonempty (ri_proposed_code i), nonempty (ri_proposed_prompt i), ri_options i,
     ri_created_at i, ri_session_id i, ri_turn_sequence i, ri_migrated_from_follow_up i)"

lemma resolved_item_fields [simp]:
  "ri_id (resolved_item now action actor response pending x) = ri_id x"
  "ri_status (resolved_item now action actor response pending x) = raisedStatusForAction action"
  "ri_comment_delivered_at (resolved_item now action actor response pending x) = ri_comment_delivered_at x"
  "question_of (resolved_item now action actor response pending x) = question_of x"
  by (simp_all add: resolved_item_def decided_def question_of_def)

lemma open_item_undelivered:
  "raised_item_ok x \<Longrightarrow> ri_status x = RaisedOpen \<Longrightarrow> ri_comment_delivered_at x = None"
  by (simp add: raised_item_ok_def)

lemma resolve_open_item:
  assumes "is_uuid taskId" and ok: "items_ok (readRaisedItems rs taskId)" and x: "x \<in> set (readRaisedItems rs taskId)"
    and "ri_status x = RaisedOpen" and "actionRequiresResponse action \<longrightarrow> trimmed response \<noteq> None"
    and y: "y = resolved_item now action actor response pending x"
  obtains rs' where "resolveRaisedItem now rs taskId (ri_id x) action actor response pending = (rs', Inr y)"
    "items_ok (readRaisedItems rs' taskId)"
    "\<forall>i. i \<in> set (readRaisedItems rs' taskId) \<longleftrightarrow> i = y \<or> (i \<in> set (readRaisedItems rs taskId) \<and> ri_id i \<noteq> ri_id x)"
proof -
  have okx: "raised_item_ok x" using ok x by (rule items_ok_member)
  note undelivered = open_item_undelivered [OF okx assms(4)]
  have "evolves x y"
    unfolding y by (cases action) (auto simp: evolves_def raised_item_ok_def undelivered resolved_item_def decided_def)
  moreover have "resolve_item now (ri_id x) action actor response pending x = Inr y"
    using assms(5) by (simp add: resolve_item_def undelivered y)
  ultimately show thesis
    using on_raised_member [of taskId rs x "resolve_item now (ri_id x) action actor response pending" y]
      assms(1) ok x that unfolding resolveRaisedItem_def by blast
qed

lemma raisedStatusForAction_decides [simp]:
  "raisedStatusForAction a \<noteq> RaisedOpen" "RaisedOpen \<noteq> raisedStatusForAction a"
  by (cases a; simp)+

lemma resolve_each_resolves:
  assumes "is_uuid taskId" and "items_ok (readRaisedItems rs taskId)" and "distinct (map (\<lambda>n. ri_id (nr_item n)) ns)"
    and "\<forall>n \<in> set ns. nr_item n \<in> set (readRaisedItems rs taskId) \<and> ri_status (nr_item n) = RaisedOpen \<and>
           (actionRequiresResponse (nr_action n) \<longrightarrow> trimmed (nr_response n) \<noteq> None)"
  shows "\<exists>rs' out. resolve_each now taskId actor rs ns = (rs', Inr out) \<and>
           map ri_id out = map (\<lambda>n. ri_id (nr_item n)) ns \<and>
           map ri_status out = map (\<lambda>n. raisedStatusForAction (nr_action n)) ns \<and>
           (\<forall>i \<in> set (readRaisedItems rs' taskId). ri_status i = RaisedOpen \<longrightarrow>
              i \<in> set (readRaisedItems rs taskId) \<and> ri_id i \<notin> (\<lambda>n. ri_id (nr_item n)) ` set ns)"
  using assms(2-)
proof (induction ns arbitrary: rs)
  case (Cons n ns)
  have first: "nr_item n \<in> set (readRaisedItems rs taskId)" "ri_status (nr_item n) = RaisedOpen"
    "actionRequiresResponse (nr_action n) \<longrightarrow> trimmed (nr_response n) \<noteq> None"
    using Cons.prems(3) by auto
  let ?y = "resolved_item now (nr_action n) actor (nr_response n) (Some (nr_pending_comment n)) (nr_item n)"
  obtain rs1 where step: "resolveRaisedItem now rs taskId (ri_id (nr_item n)) (nr_action n) actor (nr_response n)
       (Some (nr_pending_comment n)) = (rs1, Inr ?y)"
    and ok1: "items_ok (readRaisedItems rs1 taskId)"
    and mem: "\<forall>i. i \<in> set (readRaisedItems rs1 taskId) \<longleftrightarrow>
               i = ?y \<or> (i \<in> set (readRaisedItems rs taskId) \<and> ri_id i \<noteq> ri_id (nr_item n))"
    by (rule resolve_open_item [OF assms(1) Cons.prems(1) first refl])
  have "distinct (map (\<lambda>n. ri_id (nr_item n)) ns)" using Cons.prems(2) by simp
  moreover have "\<forall>m \<in> set ns. nr_item m \<in> set (readRaisedItems rs1 taskId) \<and> ri_status (nr_item m) = RaisedOpen \<and>
      (actionRequiresResponse (nr_action m) \<longrightarrow> trimmed (nr_response m) \<noteq> None)"
  proof
    fix m assume m: "m \<in> set ns"
    then have "ri_id (nr_item m) \<noteq> ri_id (nr_item n)" using Cons.prems(2) by (auto simp: image_iff)
    then show "nr_item m \<in> set (readRaisedItems rs1 taskId) \<and> ri_status (nr_item m) = RaisedOpen \<and>
        (actionRequiresResponse (nr_action m) \<longrightarrow> trimmed (nr_response m) \<noteq> None)"
      using Cons.prems(3) m mem by simp
  qed
  ultimately obtain rs' out where rest: "resolve_each now taskId actor rs1 ns = (rs', Inr out)"
    "map ri_id out = map (\<lambda>n. ri_id (nr_item n)) ns" "map ri_status out = map (\<lambda>n. raisedStatusForAction (nr_action n)) ns"
    "\<forall>i \<in> set (readRaisedItems rs' taskId). ri_status i = RaisedOpen \<longrightarrow>
       i \<in> set (readRaisedItems rs1 taskId) \<and> ri_id i \<notin> (\<lambda>n. ri_id (nr_item n)) ` set ns"
    using Cons.IH [OF ok1] by blast
  from rest(4) have "\<forall>i \<in> set (readRaisedItems rs' taskId). ri_status i = RaisedOpen \<longrightarrow>
      i \<in> set (readRaisedItems rs taskId) \<and> ri_id i \<notin> (\<lambda>n. ri_id (nr_item n)) ` set (n # ns)"
    by (auto simp: mem)
  moreover have "resolve_each now taskId actor rs (n # ns) = (rs', Inr (?y # out))"
    by (simp add: step rest(1))
  ultimately show ?case using rest(2,3) by (intro exI [of _ rs'] exI [of _ "?y # out"]) simp
qed simp

lemma getTaskRaisedItems_uuid:
  "is_uuid taskId \<Longrightarrow> getTaskRaisedItems rs taskId = js_sort (by_key ri_created_at) (readRaisedItems rs taskId)"
  by (simp add: getTaskRaisedItems_def find_uuid)

lemma validate_covers_open:
  assumes "validateRaisedResolutions (openRaisedItems items) res (allOpenRaisedItems items) = Inr ns"
  shows "acceptable (allOpenRaisedItems items) [] ns \<and>
    (\<forall>i \<in> set (openRaisedItems items). ri_id i \<in> (\<lambda>n. ri_id (nr_item n)) ` set ns)"
proof (cases "openRaisedItems items = []")
  case True
  with assms show ?thesis
    by (auto simp: validateRaisedResolutions_def acceptable_def
        dest: check_resolutions_acceptable split: option.splits if_splits)
next
  case False
  with assms obtain rs where "check_resolutions False (items_by_id (allOpenRaisedItems items)) [] rs = Inr ns"
    "filter (\<lambda>i. ri_id i \<notin> set (map (\<lambda>n. ri_id (nr_item n)) ns)) (openRaisedItems items) = []"
    by (auto simp: validateRaisedResolutions_def bind_result_Inr_iff Let_def split: option.splits if_splits)
  then show ?thesis using check_resolutions_acceptable by (auto simp: filter_empty_conv)
qed

section \<open>Undo\<close>

section \<open>The properties of raised items\<close>

text \<open>C8: A decision that has been delivered to the agent is final. Over any sequence of creations,
  notes, resolutions, undos, flag changes, promotions and deliveries, whatever ids and tasks they
  name, an item whose comment was delivered keeps its status, who decided it and when, the reviewer's
  answer and the time of delivery; and the record stays well formed throughout: an open item carries
  no trace of a decision, a decided one says when and by whom, and ids stay unique.\<close>

theorem delivered_decisions_final:
  assumes "(raised_step secrets)\<^sup>*\<^sup>* rs rs'" and "raised_ok rs"
  shows "raised_ok rs' \<and>
    (\<forall>k i. if i \<in> set (readRaisedItems rs k) \<and> ri_comment_delivered_at i \<noteq> None
       then \<exists>j. j \<in> set (readRaisedItems rs' k) \<and> ri_id j = ri_id i \<and> decision_of j = decision_of i else True)"
  using raised_steps_keep [OF assms] by (auto simp: decisions_kept_def)

text \<open>C16: Resolutions given with an accept are all or nothing. On a well-formed store, either they are
  refused and no item of the task has changed, or every open blocking item of the task is decided,
  each resolution given to an open item has the status of its action, and no other item was touched.\<close>

theorem accept_resolutions_all_or_nothing:
  assumes "raised_ok rs" and "is_uuid taskId"
    and "applyRaisedResolutions now rs taskId resolutions actor True = (rs', out)"
  shows "case out of
      Inl e \<Rightarrow> getTaskRaisedItems rs' taskId = getTaskRaisedItems rs taskId
    | Inr resolved \<Rightarrow> openRaisedItems (getTaskRaisedItems rs' taskId) = [] \<and>
        list_all (\<lambda>i. ri_status i \<noteq> RaisedOpen) resolved \<and> distinct (map ri_id resolved) \<and>
        set (map ri_id resolved) \<subseteq> set (map ri_id (allOpenRaisedItems (getTaskRaisedItems rs taskId)))"
proof (cases "validateRaisedResolutions (openRaisedItems (getTaskRaisedItems rs taskId)) resolutions
         (allOpenRaisedItems (getTaskRaisedItems rs taskId))")
  case (Inl e)
  with assms(3) show ?thesis by (auto simp: applyRaisedResolutions_def)
next
  case (Inr ns)
  let ?all = "getTaskRaisedItems rs taskId"
  note cover = validate_covers_open [OF Inr]
  have ok: "items_ok (readRaisedItems rs taskId)" using assms(1) by (simp add: raised_ok_def)
  have open_iff: "i \<in> set (allOpenRaisedItems ?all) \<longleftrightarrow> i \<in> set (readRaisedItems rs taskId) \<and> ri_status i = RaisedOpen" for i
    by (auto simp: allOpenRaisedItems_def getTaskRaisedItems_uuid [OF assms(2)])
  have dist: "distinct (map (\<lambda>n. ri_id (nr_item n)) ns)" using cover by (simp add: acceptable_def)
  have each: "\<forall>n \<in> set ns. nr_item n \<in> set (readRaisedItems rs taskId) \<and> ri_status (nr_item n) = RaisedOpen \<and>
      (actionRequiresResponse (nr_action n) \<longrightarrow> trimmed (nr_response n) \<noteq> None)"
    using cover open_iff by (auto simp: acceptable_def)
  from resolve_each_resolves [OF assms(2) ok dist each, of now actor] assms(3) Inr
  obtain items where out: "out = Inr items" "map ri_id items = map (\<lambda>n. ri_id (nr_item n)) ns"
    "map ri_status items = map (\<lambda>n. raisedStatusForAction (nr_action n)) ns"
    "\<forall>i \<in> set (readRaisedItems rs' taskId). ri_status i = RaisedOpen \<longrightarrow>
       i \<in> set (readRaisedItems rs taskId) \<and> ri_id i \<notin> (\<lambda>n. ri_id (nr_item n)) ` set ns"
    by (auto simp: applyRaisedResolutions_def Let_def)
  have "i \<notin> set (openRaisedItems (getTaskRaisedItems rs' taskId))" for i
  proof
    assume "i \<in> set (openRaisedItems (getTaskRaisedItems rs' taskId))"
    then have i: "i \<in> set (readRaisedItems rs' taskId)" "ri_status i = RaisedOpen" "ri_blocking i"
      by (simp_all add: openRaisedItems_def getTaskRaisedItems_uuid [OF assms(2)])
    with out(4) have "i \<in> set (readRaisedItems rs taskId)" "ri_id i \<notin> (\<lambda>n. ri_id (nr_item n)) ` set ns" by blast+
    moreover from this i(2,3) have "i \<in> set (openRaisedItems ?all)"
      by (simp add: openRaisedItems_def getTaskRaisedItems_uuid [OF assms(2)])
    ultimately show False using cover by blast
  qed
  then have "openRaisedItems (getTaskRaisedItems rs' taskId) = []" by (metis list.set_intros(1) neq_Nil_conv)
  moreover have "list_all (\<lambda>i. ri_status i \<noteq> RaisedOpen) items"
  proof -
    have "RaisedOpen \<notin> set (map ri_status items)" unfolding out(3) by auto
    then show ?thesis by (auto simp: list_all_iff image_iff)
  qed
  moreover have "distinct (map ri_id items)" using dist out(2) by simp
  moreover have "set (map ri_id items) \<subseteq> set (map ri_id (allOpenRaisedItems ?all))"
    using each open_iff unfolding out(2) by auto
  ultimately show ?thesis by (simp add: out(1))
qed

text \<open>Undo reopens a decision, and takes more with it than the decision. Resolving an open item of
  a task and undoing it succeeds and leaves the item open with its question unchanged (id, content,
  flag, title, explanation, proposal, options, provenance) and no trace of the decision; but the notes
  agents had attached to the item are gone, and so is the record of who changed its blocking flag.\<close>

theorem undo_reopens_and_forgets_notes:
  assumes "is_uuid taskId" and "raised_ok rs" and "x \<in> set (readRaisedItems rs taskId)" and "ri_status x = RaisedOpen"
    and "actionRequiresResponse action \<longrightarrow> trimmed response \<noteq> None"
  shows "(case resolveRaisedItem now rs taskId (ri_id x) action actor response pending of
      (rs1, r1) \<Rightarrow> r1 \<noteq> Inl (ResponseRequired action) \<and>
        (case unresolveRaisedItem rs1 taskId (ri_id x) undoer of
           (rs2, r2) \<Rightarrow> \<exists>z. r2 = Inr z \<and> z \<in> set (readRaisedItems rs2 taskId) \<and> question_of z = question_of x \<and>
             ri_status z = RaisedOpen \<and> decision_of z = decision_of x \<and> ri_pending_comment z = None \<and>
             ri_comments z = [] \<and> ri_flagged_by z = None))"
proof -
  have ok: "items_ok (readRaisedItems rs taskId)" using assms(2) by (simp add: raised_ok_def)
  let ?y = "resolved_item now action actor response pending x" and ?z = "undone undoer (resolved_item now action actor response pending x)"
  obtain rs1 where r: "resolveRaisedItem now rs taskId (ri_id x) action actor response pending = (rs1, Inr ?y)"
    and ok1: "items_ok (readRaisedItems rs1 taskId)"
    and mem: "\<forall>i. i \<in> set (readRaisedItems rs1 taskId) \<longleftrightarrow> i = ?y \<or> (i \<in> set (readRaisedItems rs taskId) \<and> ri_id i \<noteq> ri_id x)"
    by (rule resolve_open_item [OF assms(1) ok assms(3,4,5) refl])
  have okx: "raised_item_ok x" using ok assms(3) by (rule items_ok_member)
  note undelivered = open_item_undelivered [OF okx assms(4)]
  have y: "?y \<in> set (readRaisedItems rs1 taskId)" using mem by blast
  have ev: "evolves ?y ?z"
    by (simp add: evolves_def undelivered undone_def blank_raised_def raised_item_ok_def)
  have f: "unresolve_item (ri_id ?y) undoer ?y = Inr ?z" by (simp add: unresolve_item_def undelivered)
  obtain rs2 where u: "unresolveRaisedItem rs1 taskId (ri_id x) undoer = (rs2, Inr ?z)"
    and mem2: "\<forall>i. i \<in> set (readRaisedItems rs2 taskId) \<longleftrightarrow> i = ?z \<or> (i \<in> set (readRaisedItems rs1 taskId) \<and> ri_id i \<noteq> ri_id x)"
    using on_raised_member [of taskId rs1 ?y "unresolve_item (ri_id ?y) undoer" ?z] assms(1) ok1 y f ev
    unfolding unresolveRaisedItem_def resolved_item_fields(1) by blast
  have "question_of ?z = question_of ?y" by (simp add: question_of_def undone_def blank_raised_def)
  moreover have "decision_of ?z = decision_of x"
    using okx assms(4) undelivered by (simp add: decision_of_def undone_def blank_raised_def raised_item_ok_def)
  moreover have "?z \<in> set (readRaisedItems rs2 taskId)" using mem2 by blast
  moreover have "ri_status ?z = RaisedOpen" "ri_pending_comment ?z = None" "ri_comments ?z = []" "ri_flagged_by ?z = None"
    by (simp_all add: undone_def blank_raised_def)
  ultimately show ?thesis by (simp add: r u)
qed

section \<open>Witnesses\<close>

definition sample_raised :: StoredRaisedItem where
  "sample_raised = (blank_raised ''00000000-0000-4000-8000-0000000000a1'' sample_id ''Drop the old table?'' True 1)
     \<lparr>ri_comments := [\<lparr>rc_id = ''c'', rc_content = ''blocked on this'', rc_created_at = 2, rc_actor = Agent,
        rc_actor_email = None, rc_actor_name = None, rc_session_id = None, rc_turn_sequence = Some 3\<rparr>]\<rparr>"

definition sample_delivered :: StoredRaisedItem where
  "sample_delivered = (resolved_item 5 Dismiss (Role Human) (Some ''keep it'') (Some ''no'') sample_raised)
     \<lparr>ri_comment_delivered_at := Some 9\<rparr>"

definition raised_store :: "StoredRaisedItem \<Rightarrow> RaisedStore" where
  "raised_store i = \<lparr>rs_tasks = empty_store, rs_items = [(sample_id, [i])]\<rparr>"

lemma raised_store_items: "readRaisedItems (raised_store i) k = (if k = sample_id then [i] else [])"
  by (simp add: readRaisedItems_def raised_store_def)

lemma raised_store_ok: "raised_item_ok i \<Longrightarrow> length (ri_id i) = 36 \<Longrightarrow> raised_ok (raised_store i)"
  by (auto simp: raised_ok_def raised_store_items items_ok_def)

lemma sample_facts:
  "is_uuid sample_id" "raised_item_ok sample_raised" "length (ri_id sample_raised) = 36"
  "ri_status sample_raised = RaisedOpen" "raised_item_ok sample_delivered" "length (ri_id sample_delivered) = 36"
  "ri_comment_delivered_at sample_delivered \<noteq> None"
  by code_simp+

lemma delivered_decisions_final_witness:
  "\<exists>j. j \<in> set (readRaisedItems (fst (setRaisedItemBlocking (raised_store sample_delivered) sample_id
        (ri_id sample_delivered) False (Role Agent))) sample_id) \<and>
     ri_id j = ri_id sample_delivered \<and> decision_of j = decision_of sample_delivered"
proof -
  let ?rs = "raised_store sample_delivered"
  let ?rs' = "fst (setRaisedItemBlocking ?rs sample_id (ri_id sample_delivered) False (Role Agent))"
  have "raised_step [] ?rs ?rs'"
    by (rule raised_step.flag [of _ _ _ _ _ _ "snd (setRaisedItemBlocking ?rs sample_id (ri_id sample_delivered) False (Role Agent))"])
      simp
  from delivered_decisions_final [OF r_into_rtranclp [of "raised_step []", OF this] raised_store_ok [OF sample_facts(5,6)]]
  show ?thesis using sample_facts(7) by (metis list.set_intros(1) raised_store_items)
qed

lemma accept_resolutions_all_or_nothing_witness:
  "openRaisedItems (getTaskRaisedItems (fst (applyRaisedResolutions 7 (raised_store sample_raised) sample_id
     (Some [\<lparr>rr_id = ''00000000'', rr_action = Dismiss, rr_response = Some ''keep it''\<rparr>]) (Role Human) True)) sample_id) = []"
proof -
  let ?run = "applyRaisedResolutions 7 (raised_store sample_raised) sample_id
     (Some [\<lparr>rr_id = ''00000000'', rr_action = Dismiss, rr_response = Some ''keep it''\<rparr>]) (Role Human) True"
  have "(case snd ?run of Inl _ \<Rightarrow> False | Inr _ \<Rightarrow> True)" by code_simp
  moreover obtain rs' out where run: "?run = (rs', out)" by (cases ?run)
  ultimately obtain resolved where "out = Inr resolved" by (cases out) auto
  then show ?thesis
    using accept_resolutions_all_or_nothing [OF raised_store_ok [OF sample_facts(2,3)] sample_facts(1) run]
    by (simp add: run)
qed

lemma undo_reopens_and_forgets_notes_witness:
  "ri_comments sample_raised \<noteq> [] \<and>
   (case resolveRaisedItem 5 (raised_store sample_raised) sample_id (ri_id sample_raised) Acknowledge (Role Human) None None of
      (rs1, r1) \<Rightarrow> (case unresolveRaisedItem rs1 sample_id (ri_id sample_raised) None of
           (rs2, r2) \<Rightarrow> \<exists>z. r2 = Inr z \<and> question_of z = question_of sample_raised \<and> ri_comments z = []))"
proof -
  have "sample_raised \<in> set (readRaisedItems (raised_store sample_raised) sample_id)" by (simp add: raised_store_items)
  from undo_reopens_and_forgets_notes [OF sample_facts(1) raised_store_ok [OF sample_facts(2,3)] this sample_facts(4),
      where action = Acknowledge and response = None and now = 5 and actor = "Role Human" and pending = None and undoer = None]
  show ?thesis by (auto simp: actionRequiresResponse_def sample_raised_def split: prod.splits)
qed

end
