(* ===== verification/ReviewReports.thy ===== *)
theory ReviewReports
  imports RaisedItems
begin

text \<open>
  What a review concluded: the report types (\<open>src/src/types/review-report.ts\<close>), reading a reviewer's
  reply (\<open>src/src/review/parse-report.ts\<close>), the verdict, the two required sweeps and the choice
  between a reply and its re-ask (\<open>src/src/review/verdict.ts\<close>), and what the recording of a review
  turn adds to its report (\<open>src/src/review/recover-findings.ts\<close>).

  \<open>JSON.parse\<close> is an argument from texts to \<open>json\<close> values; an object is an ordered map of its keys.
  The dashes the source also takes for a separator after a clean opening are outside the code units
  modelled. The separator of a never-started verdict is such a dash too and is an argument.
\<close>

section \<open>Types\<close>

datatype ReviewFindingCategory = Security | DataIntegrity | Correctness | Tests | Incomplete | Style

datatype ReviewFindingSeverity = Critical | High | Medium | Low

definition REVIEW_FINDING_CATEGORIES :: "(string \<times> ReviewFindingCategory) list" where
  "REVIEW_FINDING_CATEGORIES = [(''security'', Security), (''data-integrity'', DataIntegrity),
     (''correctness'', Correctness), (''tests'', Tests), (''incomplete'', Incomplete), (''style'', Style)]"

definition REVIEW_FINDING_SEVERITIES :: "(string \<times> ReviewFindingSeverity) list" where
  "REVIEW_FINDING_SEVERITIES = [(''critical'', Critical), (''high'', High), (''medium'', Medium), (''low'', Low)]"

record ReviewFinding =
  rf_file :: "string option"
  rf_line :: "nat option"
  rf_severity :: ReviewFindingSeverity
  rf_category :: ReviewFindingCategory
  rf_summary :: string

datatype ResolvedReviewVerdict = CleanVerdict | NeedsWork | NeedsHuman | UnparsedVerdict

definition REVIEW_VERDICTS :: "(string \<times> ResolvedReviewVerdict) list" where
  "REVIEW_VERDICTS = [(''clean'', CleanVerdict), (''needs_work'', NeedsWork), (''needs_human'', NeedsHuman)]"

definition REVIEW_VERDICT_UNPARSED :: string where
  "REVIEW_VERDICT_UNPARSED = ''unparsed''"

record ReviewReport =
  rp_verdict :: string
  rp_security :: string
  rp_data_integrity :: string
  rp_findings :: "ReviewFinding list"
  rp_raised_item_ids :: "string list option"

section \<open>The verdict\<close>

text \<open>\<open>replace(/[\s-]+/g, '_')\<close>.\<close>

definition is_gap :: "char \<Rightarrow> bool" where
  "is_gap c \<longleftrightarrow> is_space c \<or> c = CHR ''-''"

fun underscore_gaps :: "string \<Rightarrow> string" where
  "underscore_gaps [] = []"
| "underscore_gaps (c # s) =
     (if is_gap c then CHR ''_'' # underscore_gaps (dropWhile is_gap s) else c # underscore_gaps s)"

text \<open>\<open>replace(/^[^a-z]+|[^a-z]+$/g, '')\<close> strips both ends.\<close>

definition normalizeVerdictToken :: "string \<Rightarrow> string" where
  "normalizeVerdictToken raw =
     underscore_gaps (strip_end (\<lambda>c. \<not> is_lower_az c) (dropWhile (\<lambda>c. \<not> is_lower_az c) (to_lower (trim raw))))"

definition parseVerdictText :: "string option \<Rightarrow> ResolvedReviewVerdict" where
  "parseVerdictText raw =
     (case raw of
        None \<Rightarrow> UnparsedVerdict
      | Some s \<Rightarrow>
          (case map_of REVIEW_VERDICTS (normalizeVerdictToken s) of Some v \<Rightarrow> v | None \<Rightarrow> UnparsedVerdict))"

definition resolveReviewVerdict :: "ReviewReport option \<Rightarrow> ResolvedReviewVerdict" where
  "resolveReviewVerdict report =
     (case report of
        None \<Rightarrow> UnparsedVerdict
      | Some r \<Rightarrow>
          if rp_security r = REVIEW_VERDICT_UNPARSED \<or> rp_data_integrity r = REVIEW_VERDICT_UNPARSED
          then UnparsedVerdict
          else parseVerdictText (Some (rp_verdict r)))"

section \<open>The sweeps\<close>

definition CLEAN_SWEEP_OPENERS :: "string list" where
  "CLEAN_SWEEP_OPENERS = [''none found'', ''no issues found'', ''nothing found'', ''none identified'']"

definition CLEAN_SWEEP_EXACT :: "string list" where
  "CLEAN_SWEEP_EXACT = [''none'', ''nothing'', ''no issues'', ''n/a'', ''na'']"

text \<open>The end of the text, or one of the separators: the lookahead of the expression below and the
  test of \<open>opensWith\<close>.\<close>

definition at_separator :: "string \<Rightarrow> bool" where
  "at_separator rest \<longleftrightarrow> (case rest of [] \<Rightarrow> True | c # _ \<Rightarrow> is_space c \<or> c \<in> set ''.,;:!?-'')"

text \<open>The text after one of the words, if it opens with one.\<close>

definition after_word :: "string list \<Rightarrow> string \<Rightarrow> string list" where
  "after_word ws s = map (\<lambda>w. drop (length w) s) (filter (starts_with s) ws)"

definition sweep_nouns :: "string list" where
  "sweep_nouns = [''issue '', ''issues '', ''vulnerability '', ''vulnerabilities '', ''problem '', ''problems '',
     ''finding '', ''findings '', ''concern '', ''concerns '']"

definition found_phrase :: "string \<Rightarrow> bool" where
  "found_phrase s \<longleftrightarrow>
     list_ex (\<lambda>r. list_ex (\<lambda>q. list_ex at_separator (after_word [''found'', ''identified'', ''detected''] q))
                    (r # after_word [''was '', ''were '', ''is ''] r))
       (after_word sweep_nouns s)"

definition is_qualifier_char :: "char \<Rightarrow> bool" where
  "is_qualifier_char c \<longleftrightarrow> is_lower_az c \<or> c = CHR ''-''"

text \<open>Up to \<open>n\<close> qualifier words, each followed by a space, before the phrase.\<close>

fun qualified_phrase :: "nat \<Rightarrow> string \<Rightarrow> bool" where
  "qualified_phrase 0 s = found_phrase s"
| "qualified_phrase (Suc n) s =
     (found_phrase s \<or>
      (case (takeWhile is_qualifier_char s, dropWhile is_qualifier_char s) of
         (_ # _, c # r) \<Rightarrow> c = CHR '' '' \<and> qualified_phrase n r
       | _ \<Rightarrow> False))"

definition CLEAN_SWEEP_NO_X_FOUND :: "string \<Rightarrow> bool" where
  "CLEAN_SWEEP_NO_X_FOUND s \<longleftrightarrow> starts_with s ''no '' \<and> qualified_phrase 3 (drop 3 s)"

definition normalizeSweep :: "string \<Rightarrow> string" where
  "normalizeSweep statement =
     strip_end (\<lambda>c. c = CHR ''.'' \<or> c = CHR ''!'' \<or> is_space c) (collapse_spaces (to_lower (trim statement)))"

definition opensWith :: "string \<Rightarrow> string \<Rightarrow> bool" where
  "opensWith normalized opener \<longleftrightarrow> starts_with normalized opener \<and> at_separator (drop (length opener) normalized)"

definition reviewSweepClaimsIssue :: "string option \<Rightarrow> bool" where
  "reviewSweepClaimsIssue statement =
     (case statement of
        None \<Rightarrow> False
      | Some s \<Rightarrow>
          let normalized = normalizeSweep s
          in if normalized = [] then False
             else if normalized = REVIEW_VERDICT_UNPARSED then False
             else if normalized \<in> set CLEAN_SWEEP_EXACT then False
             else if CLEAN_SWEEP_NO_X_FOUND normalized then False
             else \<not> list_ex (opensWith normalized) CLEAN_SWEEP_OPENERS)"

definition uncovered :: "string \<Rightarrow> ReviewFindingCategory \<Rightarrow> ReviewFinding list \<Rightarrow> bool" where
  "uncovered statement category findings \<longleftrightarrow>
     reviewSweepClaimsIssue (Some statement) \<and> \<not> list_ex (\<lambda>f. rf_category f = category) findings"

definition reviewSweepsClaimUncoveredIssue :: "ReviewReport option \<Rightarrow> bool" where
  "reviewSweepsClaimUncoveredIssue report =
     (case report of
        None \<Rightarrow> False
      | Some r \<Rightarrow> uncovered (rp_security r) Security (rp_findings r) \<or>
                  uncovered (rp_data_integrity r) DataIntegrity (rp_findings r))"

definition reviewIsClean :: "ReviewReport option \<Rightarrow> bool" where
  "reviewIsClean report =
     (case report of
        None \<Rightarrow> False
      | Some r \<Rightarrow>
          if resolveReviewVerdict (Some r) \<noteq> CleanVerdict then False
          else if rp_findings r \<noteq> [] then False
          else if reviewSweepsClaimUncoveredIssue (Some r) then False
          else (case rp_raised_item_ids r of None \<Rightarrow> True | Some ids \<Rightarrow> ids = []))"

section \<open>The reply and its re-ask\<close>

definition chooseReviewReport :: "ReviewReport \<Rightarrow> ReviewReport option \<Rightarrow> bool \<Rightarrow> ReviewReport \<times> bool" where
  "chooseReviewReport primary reasked reaskStatesFindings =
     (if resolveReviewVerdict (Some primary) \<noteq> UnparsedVerdict then (primary, False)
      else case reasked of
             None \<Rightarrow> (primary, False)
           | Some r \<Rightarrow>
               if resolveReviewVerdict (Some r) \<noteq> UnparsedVerdict
               then if \<not> reaskStatesFindings \<and> rp_findings r = [] \<and> rp_findings primary \<noteq> []
                    then (r\<lparr>rp_findings := rp_findings primary\<rparr>, True)
                    else (r, True)
               else (primary, False))"

section \<open>Reviews that never ran\<close>

definition REVIEW_CRASH_VERDICT_PREFIX :: string where
  "REVIEW_CRASH_VERDICT_PREFIX = ''FAILED:''"

definition REVIEW_UNDISPATCHED_VERDICT_PREFIX :: string where
  "REVIEW_UNDISPATCHED_VERDICT_PREFIX = ''FAILED TO START:''"

definition verdict_of :: "ReviewReport option \<Rightarrow> string" where
  "verdict_of report = (case report of None \<Rightarrow> [] | Some r \<Rightarrow> rp_verdict r)"

definition reviewWasNeverDispatched :: "ReviewReport option \<Rightarrow> bool" where
  "reviewWasNeverDispatched report \<longleftrightarrow> starts_with (verdict_of report) REVIEW_UNDISPATCHED_VERDICT_PREFIX"

definition undispatchedReviewVerdict :: "string \<Rightarrow> string \<Rightarrow> string \<Rightarrow> string" where
  "undispatchedReviewVerdict separator headline detail =
     REVIEW_UNDISPATCHED_VERDICT_PREFIX @ '' '' @ headline @ separator @ detail"

definition reviewNotRunHeadline :: "string \<Rightarrow> ReviewReport option \<Rightarrow> string option" where
  "reviewNotRunHeadline separator report =
     (if \<not> reviewWasNeverDispatched report then None
      else let rest = trim (drop (length REVIEW_UNDISPATCHED_VERDICT_PREFIX) (verdict_of report))
           in Some (trim (case index_of rest separator of None \<Rightarrow> rest | Some n \<Rightarrow> take n rest)))"

text \<open>The clause that names a failed review; \<open>WrongVerdict\<close> holds the quoted text and whether an
  ellipsis follows it.\<close>

datatype ReviewFailure =
    NeverStarted "string option"
  | DidNotComplete
  | NoReadableStatement
  | WrongVerdict string bool

definition describeReviewFailureShort :: "string \<Rightarrow> ReviewReport option \<Rightarrow> ReviewFailure" where
  "describeReviewFailureShort separator report =
     (let verdict = verdict_of report
      in if starts_with verdict REVIEW_UNDISPATCHED_VERDICT_PREFIX
         then NeverStarted (nonempty (reviewNotRunHeadline separator report))
         else if starts_with verdict REVIEW_CRASH_VERDICT_PREFIX then DidNotComplete
         else if (case report of None \<Rightarrow> False
                  | Some r \<Rightarrow> rp_security r = REVIEW_VERDICT_UNPARSED \<or> rp_data_integrity r = REVIEW_VERDICT_UNPARSED)
         then NoReadableStatement
         else if length verdict > 60 then WrongVerdict (take 57 verdict) True else WrongVerdict verdict False)"

section \<open>Reading a reply\<close>

datatype json =
    JNull
  | JBool bool
  | JInt int
  | JFraction
  | JString string
  | JArray "json list"
  | JObject "(string \<times> json) list"

definition nonEmptyString :: "json option \<Rightarrow> string option" where
  "nonEmptyString v = (case v of Some (JString s) \<Rightarrow> nonempty (Some (trim s)) | _ \<Rightarrow> None)"

definition asCategory :: "json option \<Rightarrow> ReviewFindingCategory option" where
  "asCategory v = (case v of Some (JString s) \<Rightarrow> map_of REVIEW_FINDING_CATEGORIES s | _ \<Rightarrow> None)"

definition asSeverity :: "json option \<Rightarrow> ReviewFindingSeverity option" where
  "asSeverity v =
     (case v of
        Some (JString s) \<Rightarrow>
          let normalized = to_lower (trim s)
          in (case map_of REVIEW_FINDING_SEVERITIES normalized of
                Some sev \<Rightarrow> Some sev
              | None \<Rightarrow> if normalized \<noteq> [] then Some High else None)
      | _ \<Rightarrow> None)"

text \<open>Digits are read exactly; the source reads them as a double, which rounds from \<open>2 ^ 53\<close> on.\<close>

definition asLine :: "json option \<Rightarrow> nat option" where
  "asLine v =
     (case v of
        Some (JInt n) \<Rightarrow> if n > 0 then Some (nat n) else None
      | Some (JString s) \<Rightarrow>
          if s \<noteq> [] \<and> list_all is_digit s \<and> read_digits s > 0 then Some (read_digits s) else None
      | _ \<Rightarrow> None)"

definition parseFinding :: "json \<Rightarrow> ReviewFinding option" where
  "parseFinding item =
     (case item of
        JString s \<Rightarrow>
          if trim s \<noteq> [] then Some \<lparr>rf_file = None, rf_line = None, rf_severity = Medium,
                                     rf_category = Correctness, rf_summary = trim s\<rparr>
          else None
      | JObject o' \<Rightarrow>
          (case or_else (nonEmptyString (map_of o' ''summary'')) (nonEmptyString (map_of o' ''title'')) of
             None \<Rightarrow> None
           | Some summary \<Rightarrow>
               Some \<lparr>rf_file = nonEmptyString (map_of o' ''file''), rf_line = asLine (map_of o' ''line''),
                     rf_severity = (case asSeverity (map_of o' ''severity'') of Some s \<Rightarrow> s | None \<Rightarrow> Medium),
                     rf_category = (case asCategory (map_of o' ''category'') of Some c \<Rightarrow> c | None \<Rightarrow> Correctness),
                     rf_summary = summary\<rparr>)
      | _ \<Rightarrow> None)"

definition parseFindings :: "json option \<Rightarrow> ReviewFinding list" where
  "parseFindings v = (case v of Some (JArray items) \<Rightarrow> List.map_filter parseFinding items | _ \<Rightarrow> [])"

definition unparsedReport :: "string \<Rightarrow> ReviewReport" where
  "unparsedReport raw =
     (let trimmed = trim raw
      in \<lparr>rp_verdict = (if trimmed = [] then REVIEW_VERDICT_UNPARSED else trimmed),
          rp_security = REVIEW_VERDICT_UNPARSED, rp_data_integrity = REVIEW_VERDICT_UNPARSED,
          rp_findings = [], rp_raised_item_ids = None\<rparr>)"

text \<open>\<open>extractJsonObject\<close>: a fence whose content opens with a brace, else the span from the first
  brace to the last.\<close>

definition fence :: string where
  "fence = [CHR 0x60, CHR 0x60, CHR 0x60]"

definition fenced_text :: "string \<Rightarrow> string option" where
  "fenced_text s =
     (case index_of s fence of
        None \<Rightarrow> None
      | Some i \<Rightarrow>
          let rest = drop (i + 3) s;
              body = (if to_lower (take 4 rest) = ''json'' then drop 4 rest else rest)
          in (case index_of body fence of None \<Rightarrow> None | Some j \<Rightarrow> Some (trim (take j body))))"

definition brace_span :: "string \<Rightarrow> string option" where
  "brace_span s =
     (case (index_of s ''{'', last_index_of (CHR ''}'') s) of
        (Some start, Some end') \<Rightarrow> if end' > start then Some (take (end' + 1 - start) (drop start s)) else None
      | _ \<Rightarrow> None)"

definition extractJsonObject :: "string \<Rightarrow> string option" where
  "extractJsonObject s =
     (case fenced_text s of
        Some inner \<Rightarrow> if starts_with inner ''{'' then Some inner else brace_span s
      | None \<Rightarrow> brace_span s)"

record ParsedReviewReply =
  pr_report :: ReviewReport
  pr_statesFindings :: bool

definition parseReviewReply :: "(string \<Rightarrow> json option) \<Rightarrow> string \<Rightarrow> ParsedReviewReply" where
  "parseReviewReply json_parse raw =
     (let failed = \<lparr>pr_report = unparsedReport raw, pr_statesFindings = False\<rparr>
      in case extractJsonObject raw of
           None \<Rightarrow> failed
         | Some jsonText \<Rightarrow>
             (case json_parse jsonText of
                Some (JObject parsed) \<Rightarrow>
                  let stated = (\<lambda>k. case nonEmptyString (map_of parsed k) of Some s \<Rightarrow> s | None \<Rightarrow> REVIEW_VERDICT_UNPARSED);
                      findings = parseFindings (map_of parsed ''findings'')
                  in \<lparr>pr_report = \<lparr>rp_verdict = stated ''verdict'', rp_security = stated ''security'',
                        rp_data_integrity =
                          (case or_else (nonEmptyString (map_of parsed ''data_integrity''))
                                  (nonEmptyString (map_of parsed ''dataIntegrity'')) of
                             Some s \<Rightarrow> s | None \<Rightarrow> REVIEW_VERDICT_UNPARSED),
                        rp_findings = findings, rp_raised_item_ids = None\<rparr>,
                      pr_statesFindings =
                        (case map_of parsed ''findings'' of
                           Some (JArray items) \<Rightarrow> items = [] \<or> findings \<noteq> []
                         | _ \<Rightarrow> False)\<rparr>
              | _ \<Rightarrow> failed))"

definition reviewReportIsUnparsed :: "ReviewReport \<Rightarrow> bool" where
  "reviewReportIsUnparsed report =
     (if rp_security report = REVIEW_VERDICT_UNPARSED \<or> rp_data_integrity report = REVIEW_VERDICT_UNPARSED then True
      else resolveReviewVerdict (Some report) = UnparsedVerdict)"

section \<open>Recording a review turn\<close>

text \<open>\<open>ensureSweepsAreCovered\<close>: a sweep that names an issue no finding covers becomes a finding.\<close>

definition cover :: "string \<Rightarrow> ReviewFindingCategory \<Rightarrow> string \<Rightarrow> ReviewFinding list \<Rightarrow> ReviewFinding list" where
  "cover statement category label findings =
     (if \<not> reviewSweepClaimsIssue (Some statement) then findings
      else if list_ex (\<lambda>f. rf_category f = category) findings then findings
      else findings @ [\<lparr>rf_file = None, rf_line = None, rf_severity = Critical, rf_category = category,
                         rf_summary = label @ '': '' @ trim statement\<rparr>])"

definition ensureSweepsAreCovered :: "ReviewReport \<Rightarrow> ReviewReport" where
  "ensureSweepsAreCovered report =
     report\<lparr>rp_findings :=
       cover (rp_data_integrity report) DataIntegrity ''Data-integrity sweep''
         (cover (rp_security report) Security ''Security sweep'' (rp_findings report))\<rparr>"

text \<open>The journal of each task, next to its raised items.\<close>

record ReviewStore =
  rv_raised :: RaisedStore
  rv_journal :: "(string, string list) omap"

definition getTaskJournal :: "ReviewStore \<Rightarrow> string \<Rightarrow> string list" where
  "getTaskJournal rv taskId =
     (case findTaskIdByPrefix (rs_tasks (rv_raised rv)) taskId of
        (st', None) \<Rightarrow> []
      | (st', Some fullId) \<Rightarrow> (case omap_get (rv_journal rv) fullId of None \<Rightarrow> [] | Some js \<Rightarrow> js))"

definition appendJournalEntry :: "string list \<Rightarrow> ReviewStore \<Rightarrow> string \<Rightarrow> string \<Rightarrow> ReviewStore \<times> (raised_error + string)" where
  "appendJournalEntry secrets rv taskId content =
     (case findTaskIdByPrefix (rs_tasks (rv_raised rv)) taskId of
        (st', None) \<Rightarrow> (rv\<lparr>rv_raised := (rv_raised rv)\<lparr>rs_tasks := st'\<rparr>\<rparr>, Inl (RaisedTaskNotFound taskId))
      | (st', Some fullId) \<Rightarrow>
          let stored = redactSecretValues secrets content;
              js = (case omap_get (rv_journal rv) fullId of None \<Rightarrow> [] | Some js \<Rightarrow> js)
          in (rv\<lparr>rv_raised := (rv_raised rv)\<lparr>rs_tasks := st'\<rparr>,
                 rv_journal := omap_set (rv_journal rv) fullId (js @ [stored])\<rparr>, Inr stored))"

datatype HandoffKind = HandoffJournal | HandoffFollowup | HandoffRaised | HandoffFinal

record AgentHandoffEntry =
  ho_kind :: HandoffKind
  ho_content :: string
  ho_blocking :: bool

text \<open>The loop of \<open>persistReviewHandoffEntries\<close>: the journal contents and the raised contents with
  their ids known so far, the ids of blocking entries that matched an existing item, and the store. A
  write that fails is logged and skipped.\<close>

record HandoffState =
  hs_store :: ReviewStore
  hs_journal :: "string list"
  hs_raised :: "(string, string) omap"
  hs_deduped :: "string list"

definition first_ids :: "StoredRaisedItem list \<Rightarrow> (string, string) omap" where
  "first_ids items =
     foldl (\<lambda>m i. if omap_has m (ri_content i) then m else omap_set m (ri_content i) (ri_id i)) [] items"

definition handoff_input :: "string \<Rightarrow> bool \<Rightarrow> string \<Rightarrow> int \<Rightarrow> RaisedItemInput" where
  "handoff_input content blocking sessionId turn =
     \<lparr>in_content = Some content, in_note = None, in_blocking = blocking, in_title = None, in_explanation = None,
      in_proposed_code = None, in_proposed_prompt = None, in_options = [], in_session_id = Some sessionId,
      in_turn_sequence = Some turn\<rparr>"

definition handoff_step ::
    "string list \<Rightarrow> string \<Rightarrow> string \<Rightarrow> int \<Rightarrow> HandoffState \<Rightarrow> (string \<times> int) \<times> AgentHandoffEntry \<Rightarrow> HandoffState" where
  "handoff_step secrets taskId sessionId turn hs x =
     (case x of ((newId, now), entry) \<Rightarrow>
        let content = trim (ho_content entry); blocking = (ho_kind entry = HandoffRaised \<and> ho_blocking entry)
        in if content = [] then hs
           else if ho_kind entry = HandoffJournal
           then (if content \<in> set (hs_journal hs) then hs
                 else case appendJournalEntry secrets (hs_store hs) taskId content of
                        (rv', Inl e) \<Rightarrow> hs\<lparr>hs_store := rv'\<rparr>
                      | (rv', Inr _) \<Rightarrow> hs\<lparr>hs_store := rv', hs_journal := hs_journal hs @ [content]\<rparr>)
           else (case omap_get (hs_raised hs) content of
                   Some existingId \<Rightarrow> if blocking then hs\<lparr>hs_deduped := hs_deduped hs @ [existingId]\<rparr> else hs
                 | None \<Rightarrow>
                     (case createRaisedItem secrets newId now (rv_raised (hs_store hs)) taskId
                             (handoff_input content blocking sessionId turn) of
                        (rs', Inl e) \<Rightarrow> hs\<lparr>hs_store := (hs_store hs)\<lparr>rv_raised := rs'\<rparr>\<rparr>
                      | (rs', Inr created) \<Rightarrow>
                          hs\<lparr>hs_store := (hs_store hs)\<lparr>rv_raised := rs'\<rparr>,
                             hs_raised := omap_set (hs_raised hs) content (ri_id created)\<rparr>)))"

text \<open>Each entry comes with the fresh id and the time its record would get.\<close>

definition persistReviewHandoffEntries ::
    "string list \<Rightarrow> string \<Rightarrow> string \<Rightarrow> int \<Rightarrow> ReviewStore \<Rightarrow> ((string \<times> int) \<times> AgentHandoffEntry) list \<Rightarrow>
       ReviewStore \<times> string list" where
  "persistReviewHandoffEntries secrets taskId sessionId turn rv entries =
     (if entries = [] then (rv, [])
      else let hs = foldl (handoff_step secrets taskId sessionId turn)
                 \<lparr>hs_store = rv, hs_journal = getTaskJournal rv taskId,
                  hs_raised = first_ids (getTaskRaisedItems (rv_raised rv) taskId), hs_deduped = []\<rparr> entries
           in (hs_store hs, hs_deduped hs))"

text \<open>\<open>raisedIdsForReviewTurn\<close>; ids are compared by code unit, which is what \<open>localeCompare\<close> does on
  the hexadecimal digits and hyphens of ids.\<close>

fun string_cmp :: "string \<Rightarrow> string \<Rightarrow> int" where
  "string_cmp [] [] = 0"
| "string_cmp [] (d # t) = -1"
| "string_cmp (c # s) [] = 1"
| "string_cmp (c # s) (d # t) =
     (if (of_char c :: nat) < of_char d then -1 else if (of_char d :: nat) < of_char c then 1 else string_cmp s t)"

definition raisedIdsForReviewTurn :: "ReviewStore \<Rightarrow> string \<Rightarrow> string \<Rightarrow> int \<Rightarrow> string list" where
  "raisedIdsForReviewTurn rv taskId sessionId turn =
     map ri_id
       (js_sort (\<lambda>a b. if ri_created_at a \<noteq> ri_created_at b then ri_created_at a - ri_created_at b
                       else string_cmp (ri_id a) (ri_id b))
         (filter (\<lambda>i. ri_session_id i = Some sessionId \<and> ri_turn_sequence i = Some turn \<and> ri_blocking i)
           (getTaskRaisedItems (rv_raised rv) taskId)))"

fun unique :: "'a list \<Rightarrow> 'a list" where
  "unique [] = []"
| "unique (x # xs) = x # filter (\<lambda>y. y \<noteq> x) (unique xs)"

definition recoverAndAttachReviewFindings ::
    "string list \<Rightarrow> ReviewStore \<Rightarrow> string \<Rightarrow> string \<Rightarrow> int \<Rightarrow> ReviewReport \<Rightarrow> ((string \<times> int) \<times> AgentHandoffEntry) list \<Rightarrow>
       ReviewStore \<times> ReviewReport" where
  "recoverAndAttachReviewFindings secrets rv taskId sessionId turn report agentHandoff =
     (let (rv', deduped) = persistReviewHandoffEntries secrets taskId sessionId turn rv agentHandoff;
          covered = ensureSweepsAreCovered report;
          raisedIds = unique (raisedIdsForReviewTurn rv' taskId sessionId turn @ deduped)
      in (rv', if raisedIds \<noteq> [] then covered\<lparr>rp_raised_item_ids := Some raisedIds\<rparr> else covered))"

section \<open>Coverage of the sweeps\<close>

lemma uncovered_cover [simp]: "\<not> uncovered s c (cover s c l fs)"
  by (auto simp: uncovered_def cover_def)

lemma uncovered_mono: "\<not> uncovered s c fs \<Longrightarrow> \<not> uncovered s c (cover s' c' l fs)"
  by (auto simp: uncovered_def cover_def)

lemma cover_covered: "\<not> uncovered s c fs \<Longrightarrow> cover s c l fs = fs"
  by (auto simp: uncovered_def cover_def)

lemma cover_Nil_iff: "cover s c l fs = [] \<longleftrightarrow> fs = [] \<and> \<not> uncovered s c fs"
  by (auto simp: uncovered_def cover_def)

lemma take_cover [simp]: "take (length fs) (cover s c l fs) = fs"
  by (simp add: cover_def)

lemma length_cover: "length fs \<le> length (cover s c l fs)" "length (cover s c l fs) \<le> Suc (length fs)"
  by (simp_all add: cover_def)

lemma covered_fields [simp]:
  "rp_verdict (ensureSweepsAreCovered r) = rp_verdict r" "rp_security (ensureSweepsAreCovered r) = rp_security r"
  "rp_data_integrity (ensureSweepsAreCovered r) = rp_data_integrity r"
  "rp_raised_item_ids (ensureSweepsAreCovered r) = rp_raised_item_ids r"
  by (simp_all add: ensureSweepsAreCovered_def)

lemma resolve_covered [simp]:
  "resolveReviewVerdict (Some (ensureSweepsAreCovered r)) = resolveReviewVerdict (Some r)"
  by (simp add: resolveReviewVerdict_def)

lemma covered_id: "\<not> reviewSweepsClaimUncoveredIssue (Some r) \<Longrightarrow> ensureSweepsAreCovered r = r"
  by (simp add: ensureSweepsAreCovered_def reviewSweepsClaimUncoveredIssue_def cover_covered)

lemma covered_findings:
  assumes "reviewSweepsClaimUncoveredIssue (Some r)"
  shows "rp_findings (ensureSweepsAreCovered r) \<noteq> []"
proof
  assume "rp_findings (ensureSweepsAreCovered r) = []"
  then have "rp_findings r = []" "\<not> uncovered (rp_security r) Security []" "\<not> uncovered (rp_data_integrity r) DataIntegrity []"
    by (auto simp: ensureSweepsAreCovered_def cover_Nil_iff cover_covered)
  with assms show False by (simp add: reviewSweepsClaimUncoveredIssue_def)
qed

lemma covered_none_left: "\<not> reviewSweepsClaimUncoveredIssue (Some (ensureSweepsAreCovered r))"
  using uncovered_mono [OF uncovered_cover]
  by (simp add: reviewSweepsClaimUncoveredIssue_def) (simp add: ensureSweepsAreCovered_def)

text \<open>C22: A sweep that names an issue cannot evaporate. After \<open>ensureSweepsAreCovered\<close> no sweep of the
  report names an uncovered issue; the findings given stay in front, in order, at most two are added,
  verdict and sweeps are untouched, and a second run adds nothing. It also never changes whether the
  report is clean, so the accept gate and the round accounting give the same answer for a report that
  was recorded without it.\<close>

theorem sweeps_become_findings:
  "let r' = ensureSweepsAreCovered r in
     \<not> reviewSweepsClaimUncoveredIssue (Some r') \<and>
     take (length (rp_findings r)) (rp_findings r') = rp_findings r \<and>
     length (rp_findings r') \<le> length (rp_findings r) + 2 \<and>
     (rp_verdict r', rp_security r', rp_data_integrity r', rp_raised_item_ids r') =
       (rp_verdict r, rp_security r, rp_data_integrity r, rp_raised_item_ids r) \<and>
     ensureSweepsAreCovered r' = r' \<and>
     reviewIsClean (Some r') = reviewIsClean (Some r)"
proof -
  let ?r' = "ensureSweepsAreCovered r"
  have fs: "rp_findings ?r' = cover (rp_data_integrity r) DataIntegrity ''Data-integrity sweep''
      (cover (rp_security r) Security ''Security sweep'' (rp_findings r))"
    by (simp add: ensureSweepsAreCovered_def)
  have "take (length (rp_findings r)) (rp_findings ?r') = rp_findings r"
    "length (rp_findings ?r') \<le> length (rp_findings r) + 2"
    unfolding fs by (simp_all add: cover_def)
  moreover have "reviewIsClean (Some ?r') = reviewIsClean (Some r)"
  proof (cases "reviewSweepsClaimUncoveredIssue (Some r)")
    case True
    have "\<not> reviewIsClean (Some ?r')" using covered_findings [OF True] by (simp add: reviewIsClean_def)
    moreover have "\<not> reviewIsClean (Some r)" using True by (simp add: reviewIsClean_def)
    ultimately show ?thesis by simp
  qed (simp add: covered_id)
  ultimately show ?thesis
    using covered_none_left covered_id [OF covered_none_left] by (simp add: Let_def)
qed

section \<open>A reply and its re-ask\<close>

lemma parse_statesFindings:
  "\<not> pr_statesFindings (parseReviewReply J t) \<Longrightarrow> rp_findings (pr_report (parseReviewReply J t)) = []"
  by (auto simp: parseReviewReply_def unparsedReport_def parseFindings_def Let_def
      split: option.splits json.splits if_splits)

lemma findings_update_resolve [simp]:
  "resolveReviewVerdict (Some (r\<lparr>rp_findings := fs\<rparr>)) = resolveReviewVerdict (Some r)"
  by (simp add: resolveReviewVerdict_def)

text \<open>The one re-ask replaces a reply only when it brings a verdict the first reply lacked, and it
  never loses a finding by silence. Whatever the two replies are: the recorded report resolves to a
  verdict unless both replies fail to; the re-ask is used exactly when the first reply has no verdict
  and the re-ask has one; the recorded findings are those of the first reply, except that a re-ask
  that is used and states a findings list of its own, an empty one included, replaces them.\<close>

theorem reask_keeps_findings:
  "let first = parseReviewReply J t1; again = parseReviewReply J t2;
       (report, used) = chooseReviewReport (pr_report first) (Some (pr_report again)) (pr_statesFindings again)
   in (used \<longleftrightarrow> resolveReviewVerdict (Some (pr_report first)) = UnparsedVerdict \<and>
               resolveReviewVerdict (Some (pr_report again)) \<noteq> UnparsedVerdict) \<and>
      resolveReviewVerdict (Some report) =
        (if used then resolveReviewVerdict (Some (pr_report again)) else resolveReviewVerdict (Some (pr_report first))) \<and>
      rp_findings report =
        (if used \<and> pr_statesFindings again then rp_findings (pr_report again) else rp_findings (pr_report first))"
  using parse_statesFindings [of J t2]
  by (auto simp: chooseReviewReport_def Let_def)

section \<open>Only a clean reply reads as clean\<close>

lemma resolve_clean_iff:
  "resolveReviewVerdict (Some r) = CleanVerdict \<longleftrightarrow>
     rp_security r \<noteq> REVIEW_VERDICT_UNPARSED \<and> rp_data_integrity r \<noteq> REVIEW_VERDICT_UNPARSED \<and>
     normalizeVerdictToken (rp_verdict r) = ''clean''"
  by (auto simp: resolveReviewVerdict_def parseVerdictText_def REVIEW_VERDICTS_def split: option.splits if_splits)

lemma token_unparsed: "normalizeVerdictToken REVIEW_VERDICT_UNPARSED = ''unparsed''"
  by code_simp

definition stated :: "(string \<times> json) list \<Rightarrow> string list \<Rightarrow> string option" where
  "stated obj keys = foldr (\<lambda>k. or_else (nonEmptyString (map_of obj k))) keys None"

text \<open>A report is clean only when the reply held an object that says so: its verdict is the word
  \<open>clean\<close>, both sweeps are stated and name nothing, and no entry of its findings can be read.\<close>

lemma clean_reply:
  assumes "reviewIsClean (Some (pr_report (parseReviewReply J t)))"
  shows "\<exists>s obj v sec dat. extractJsonObject t = Some s \<and> J s = Some (JObject obj) \<and>
    stated obj [''verdict''] = Some v \<and> normalizeVerdictToken v = ''clean'' \<and>
    stated obj [''security''] = Some sec \<and> \<not> reviewSweepClaimsIssue (Some sec) \<and>
    stated obj [''data_integrity'', ''dataIntegrity''] = Some dat \<and> \<not> reviewSweepClaimsIssue (Some dat) \<and>
    parseFindings (map_of obj ''findings'') = []"
proof -
  let ?r = "pr_report (parseReviewReply J t)"
  have r: "rp_security ?r \<noteq> REVIEW_VERDICT_UNPARSED" "rp_data_integrity ?r \<noteq> REVIEW_VERDICT_UNPARSED"
    "normalizeVerdictToken (rp_verdict ?r) = ''clean''" "rp_findings ?r = []" "\<not> reviewSweepsClaimUncoveredIssue (Some ?r)"
    using assms by (auto simp: reviewIsClean_def resolve_clean_iff split: if_splits)
  then obtain s obj where s: "extractJsonObject t = Some s" "J s = Some (JObject obj)"
    by (auto simp: parseReviewReply_def Let_def unparsedReport_def split: option.splits json.splits)
  have "rp_verdict ?r \<noteq> REVIEW_VERDICT_UNPARSED" using r(3) token_unparsed by auto
  then show ?thesis
    using r s
    by (auto simp: parseReviewReply_def Let_def stated_def or_else_def reviewSweepsClaimUncoveredIssue_def uncovered_def
        split: option.splits)
qed

text \<open>A severity the reviewer wrote but that is none of the four is read as \<open>High\<close>, so it can hold a
  merge.\<close>

lemma unknown_severity_gates:
  "trim s \<noteq> [] \<Longrightarrow> to_lower (trim s) \<notin> fst ` set REVIEW_FINDING_SEVERITIES \<Longrightarrow> asSeverity (Some (JString s)) = Some High"
  by (simp add: asSeverity_def Let_def map_of_eq_None_iff [THEN iffD2])

lemma sweep_samples:
  "\<not> reviewSweepClaimsIssue (Some ''None found.'')"
  "\<not> reviewSweepClaimsIssue (Some ''No exploitable issue was found; inputs are checked'')"
  "reviewSweepClaimsIssue (Some ''None of the writes are atomic'')"
  "reviewSweepClaimsIssue (Some ''no issues in the new code, but the retry swallows a failed write'')"
  "normalizeVerdictToken ''**Needs-Work.**'' = ''needs_work''"
  by code_simp+

section \<open>Attribution of a re-raised decision\<close>

text \<open>A blocking handoff entry whose text equals an item of an earlier turn is attributed to the review
  that filed it again. One that differs from it in inner white space is not: \<open>createRaisedItem\<close>
  returns the open item of the earlier turn, which is neither among those of this turn nor among the
  matches of the loop, and the review records no raised item.\<close>

definition earlier_question :: StoredRaisedItem where
  "earlier_question = (blank_raised ''00000000-0000-4000-8000-0000000000b1'' sample_id ''Drop the table or keep it'' True 1)
     \<lparr>ri_session_id := Some ''s'', ri_turn_sequence := Some 3\<rparr>"

definition needs_human_report :: ReviewReport where
  "needs_human_report = \<lparr>rp_verdict = ''needs_human'', rp_security = ''none found'', rp_data_integrity = ''none found'',
     rp_findings = [], rp_raised_item_ids = None\<rparr>"

definition attribution_of :: "string \<Rightarrow> string list option" where
  "attribution_of content =
     rp_raised_item_ids (snd (recoverAndAttachReviewFindings [] \<lparr>rv_raised = raised_store earlier_question, rv_journal = []\<rparr>
       sample_id ''s'' 5 needs_human_report
       [((''00000000-0000-4000-8000-0000000000b2'', 9), \<lparr>ho_kind = HandoffRaised, ho_content = content, ho_blocking = True\<rparr>)]))"

lemma reraised_decision_attribution:
  "attribution_of ''Drop the table or keep it'' = Some [ri_id earlier_question]"
  "attribution_of ''Drop the  table or keep it'' = None"
  by code_simp+

end
