(* ===== verification/ReviewGate.thy ===== *)
theory ReviewGate
  imports ReviewReports
begin

text \<open>
  How a task is reviewed and when a review holds the merge: the settings with their inheritance and
  provenance (\<open>src/src/review/mode.ts\<close>, their persistence in \<open>src/src/daemon/effort.ts\<close>), which stored
  turns count as reviews and whether one holds accept (\<open>src/src/review/success.ts\<close>), the rows shown
  before accept (\<open>src/src/review/accept-gate.ts\<close>) and the order of a report's sections
  (\<open>src/src/review/report-policy.ts\<close>).

  Task metadata is an ordered map of strings; no metadata is the empty map. Labels for people are left
  out or are a constructor with the data they show.
\<close>

section \<open>Modes and gates\<close>

datatype ReviewMode = ReviewOff | LowHigh | SeparateReview

datatype ReviewGate = GateAuto | GateAlways | GateNever

datatype ReviewDispatch = DispatchAuto | DispatchSelf | DispatchManual

fun mode_text :: "ReviewMode \<Rightarrow> string" where
  "mode_text ReviewOff = ''off''"
| "mode_text LowHigh = ''low_high''"
| "mode_text SeparateReview = ''separate''"

fun gate_text :: "ReviewGate \<Rightarrow> string" where
  "gate_text GateAuto = ''auto''"
| "gate_text GateAlways = ''always''"
| "gate_text GateNever = ''never''"

definition REVIEW_MODES :: "(string \<times> ReviewMode) list" where
  "REVIEW_MODES = map (\<lambda>m. (mode_text m, m)) [ReviewOff, LowHigh, SeparateReview]"

definition REVIEW_GATES :: "(string \<times> ReviewGate) list" where
  "REVIEW_GATES = map (\<lambda>g. (gate_text g, g)) [GateAuto, GateAlways, GateNever]"

definition DEFAULT_REVIEW_MODE :: ReviewMode where
  "DEFAULT_REVIEW_MODE = LowHigh"

definition DEFAULT_REVIEW_GATE :: ReviewGate where
  "DEFAULT_REVIEW_GATE = GateAuto"

definition DEFAULT_REVIEW_AUTO_FIX :: bool where
  "DEFAULT_REVIEW_AUTO_FIX = False"

definition REVIEW_MODE_METADATA_KEY :: string where
  "REVIEW_MODE_METADATA_KEY = ''review_mode''"

definition REVIEW_AUTO_FIX_METADATA_KEY :: string where
  "REVIEW_AUTO_FIX_METADATA_KEY = ''review_auto_fix''"

definition REVIEW_GATE_METADATA_KEY :: string where
  "REVIEW_GATE_METADATA_KEY = ''review_gate''"

definition REVIEW_MODE_SOURCE_METADATA_KEY :: string where
  "REVIEW_MODE_SOURCE_METADATA_KEY = ''review_mode_source''"

definition REVIEW_AUTO_FIX_SOURCE_METADATA_KEY :: string where
  "REVIEW_AUTO_FIX_SOURCE_METADATA_KEY = ''review_auto_fix_source''"

definition REVIEW_GATE_SOURCE_METADATA_KEY :: string where
  "REVIEW_GATE_SOURCE_METADATA_KEY = ''review_gate_source''"

definition parseReviewGate :: "string option \<Rightarrow> ReviewGate option" where
  "parseReviewGate v = (case v of None \<Rightarrow> None | Some s \<Rightarrow> map_of REVIEW_GATES (to_lower (trim s)))"

definition parseReviewToggle :: "string option \<Rightarrow> bool option" where
  "parseReviewToggle v =
     (case v of
        None \<Rightarrow> None
      | Some s \<Rightarrow>
          let t = to_lower (trim s)
          in if t \<in> set [''on'', ''true'', ''yes'', ''1''] then Some True
             else if t \<in> set [''off'', ''false'', ''no'', ''0''] then Some False
             else None)"

definition parseReviewMode :: "string option \<Rightarrow> ReviewMode option" where
  "parseReviewMode v =
     (case v of
        None \<Rightarrow> None
      | Some s \<Rightarrow> map_of REVIEW_MODES (map (\<lambda>c. if c = CHR ''-'' then CHR ''_'' else c) (to_lower (trim s))))"

definition reviewModeFromLegacyMetadata :: "string option \<Rightarrow> ReviewMode option" where
  "reviewModeFromLegacyMetadata v =
     (if v = Some ''on'' then Some LowHigh else if v = Some ''off'' then Some SeparateReview else None)"

definition reviewDispatchOf :: "string option \<Rightarrow> ReviewDispatch" where
  "reviewDispatchOf d =
     (if d = Some ''auto'' then DispatchAuto else if d = Some ''self'' then DispatchSelf else DispatchManual)"

definition reviewGateApplies :: "ReviewGate \<Rightarrow> ReviewMode \<Rightarrow> ReviewDispatch \<Rightarrow> bool" where
  "reviewGateApplies gate mode dispatch =
     (case gate of
        GateNever \<Rightarrow> False
      | GateAlways \<Rightarrow> True
      | GateAuto \<Rightarrow> dispatch = DispatchManual \<or> mode = SeparateReview)"

section \<open>Where a setting came from\<close>

datatype ReviewSettingOrigin = FromTask | FromParent | FromProject | FromLegacy | FromPinned

fun origin_text :: "ReviewSettingOrigin \<Rightarrow> string" where
  "origin_text FromTask = ''task''"
| "origin_text FromParent = ''parent''"
| "origin_text FromProject = ''project''"
| "origin_text FromLegacy = ''legacy''"
| "origin_text FromPinned = ''pinned''"

definition REVIEW_SETTING_ORIGINS :: "(string \<times> ReviewSettingOrigin) list" where
  "REVIEW_SETTING_ORIGINS = map (\<lambda>x. (origin_text x, x)) [FromTask, FromParent, FromProject, FromLegacy, FromPinned]"

record ReviewSettingSource =
  sr_origin :: ReviewSettingOrigin
  sr_parent :: "string option"

definition source :: "ReviewSettingOrigin \<Rightarrow> ReviewSettingSource" where
  "source o' = \<lparr>sr_origin = o', sr_parent = None\<rparr>"

definition encodeReviewSource :: "ReviewSettingSource \<Rightarrow> string" where
  "encodeReviewSource s =
     (case (sr_origin s, nonempty (sr_parent s)) of
        (FromParent, Some p) \<Rightarrow> ''parent:'' @ p
      | (o', _) \<Rightarrow> origin_text o')"

definition parseReviewSource :: "string option \<Rightarrow> ReviewSettingSource option" where
  "parseReviewSource v =
     (case v of
        None \<Rightarrow> None
      | Some s \<Rightarrow>
          let trimmed = trim s
          in if starts_with trimmed ''parent:''
             then Some \<lparr>sr_origin = FromParent, sr_parent = nonempty (Some (trim (drop 7 trimmed)))\<rparr>
             else map_option source (map_of REVIEW_SETTING_ORIGINS trimmed))"

definition reviewSourceIsChosen :: "ReviewSettingSource option \<Rightarrow> bool" where
  "reviewSourceIsChosen s =
     (case s of None \<Rightarrow> False | Some r \<Rightarrow> sr_origin r = FromTask \<or> sr_origin r = FromParent)"

section \<open>Resolving the settings\<close>

record ReviewSettings =
  rs_mode :: ReviewMode
  rs_auto_fix :: bool
  rs_gate :: ReviewGate

text \<open>A partial set of settings: what metadata states, or what a command supplies.\<close>

record ReviewSettingsOverrides =
  ro_mode :: "ReviewMode option"
  ro_auto_fix :: "bool option"
  ro_gate :: "ReviewGate option"

record ReviewSettingsSources =
  rsrc_mode :: ReviewSettingSource
  rsrc_auto_fix :: ReviewSettingSource
  rsrc_gate :: ReviewSettingSource

record PartialSources =
  ps_mode :: "ReviewSettingSource option"
  ps_auto_fix :: "ReviewSettingSource option"
  ps_gate :: "ReviewSettingSource option"

type_synonym metadata = "(string, string) omap"

definition no_overrides :: ReviewSettingsOverrides where
  "no_overrides = \<lparr>ro_mode = None, ro_auto_fix = None, ro_gate = None\<rparr>"

definition hasReviewOverrides :: "ReviewSettingsOverrides \<Rightarrow> bool" where
  "hasReviewOverrides o' \<longleftrightarrow> ro_mode o' \<noteq> None \<or> ro_auto_fix o' \<noteq> None \<or> ro_gate o' \<noteq> None"

definition reviewSettingsStatedBy :: "metadata \<Rightarrow> ReviewSettingsOverrides" where
  "reviewSettingsStatedBy md =
     \<lparr>ro_mode = or_else (parseReviewMode (omap_get md ''review_mode''))
        (reviewModeFromLegacyMetadata (or_else (omap_get md ''low_high_loop'') (omap_get md ''ivan_loop''))),
      ro_auto_fix = parseReviewToggle (omap_get md ''review_auto_fix''),
      ro_gate = parseReviewGate (omap_get md ''review_gate'')\<rparr>"

definition recorded_source :: "metadata \<Rightarrow> string \<Rightarrow> ReviewSettingSource" where
  "recorded_source md key =
     (case parseReviewSource (omap_get md key) of Some s \<Rightarrow> s | None \<Rightarrow> source FromPinned)"

definition reviewSourcesStatedBy :: "metadata \<Rightarrow> PartialSources" where
  "reviewSourcesStatedBy md =
     (let stated = reviewSettingsStatedBy md;
          legacyMode = (parseReviewMode (omap_get md ''review_mode'') = None \<and> ro_mode stated \<noteq> None)
      in \<lparr>ps_mode = (if ro_mode stated \<noteq> None
                     then Some (if legacyMode then source FromLegacy else recorded_source md ''review_mode_source'')
                     else None),
          ps_auto_fix = (if ro_auto_fix stated \<noteq> None then Some (recorded_source md ''review_auto_fix_source'') else None),
          ps_gate = (if ro_gate stated \<noteq> None then Some (recorded_source md ''review_gate_source'') else None)\<rparr>)"

definition reviewSettingsChosenBy :: "metadata \<Rightarrow> ReviewSettingsOverrides" where
  "reviewSettingsChosenBy md =
     (let stated = reviewSettingsStatedBy md; sources = reviewSourcesStatedBy md
      in \<lparr>ro_mode = (if reviewSourceIsChosen (ps_mode sources) then ro_mode stated else None),
          ro_auto_fix = (if reviewSourceIsChosen (ps_auto_fix sources) then ro_auto_fix stated else None),
          ro_gate = (if reviewSourceIsChosen (ps_gate sources) then ro_gate stated else None)\<rparr>)"

record ReviewResolutionInput =
  rx_overrides :: ReviewSettingsOverrides
  rx_own :: metadata
  rx_parent :: metadata
  rx_parentCode :: "string option"
  rx_project :: ReviewSettings

definition inherited_from :: "string option \<Rightarrow> ReviewSettingSource option \<Rightarrow> ReviewSettingSource" where
  "inherited_from parentCode via =
     (let chooser = (case via of
            Some v \<Rightarrow> if sr_origin v = FromParent then sr_parent v else parentCode
          | None \<Rightarrow> parentCode)
      in \<lparr>sr_origin = FromParent, sr_parent = nonempty chooser\<rparr>)"

text \<open>\<open>pick\<close>: override, own value, the parent's choice, the project.\<close>

definition pick ::
    "string option \<Rightarrow> 'a option \<Rightarrow> 'a option \<Rightarrow> ReviewSettingSource option \<Rightarrow> 'a option \<Rightarrow> ReviewSettingSource option \<Rightarrow> 'a \<Rightarrow>
       'a \<times> ReviewSettingSource" where
  "pick parentCode override own ownSource parent via project =
     (case override of
        Some v \<Rightarrow> (v, source FromTask)
      | None \<Rightarrow>
          (case own of
             Some v \<Rightarrow> (v, case ownSource of Some s \<Rightarrow> s | None \<Rightarrow> source FromPinned)
           | None \<Rightarrow>
               (case parent of
                  Some v \<Rightarrow> (v, inherited_from parentCode via)
                | None \<Rightarrow> (project, source FromProject))))"

definition resolveReviewSettingsWithSources :: "ReviewResolutionInput \<Rightarrow> ReviewSettings \<times> ReviewSettingsSources" where
  "resolveReviewSettingsWithSources input =
     (let own = reviewSettingsStatedBy (rx_own input); ownSources = reviewSourcesStatedBy (rx_own input);
          parent = reviewSettingsChosenBy (rx_parent input); parentSources = reviewSourcesStatedBy (rx_parent input);
          o' = rx_overrides input; code = rx_parentCode input; project = rx_project input;
          mode = pick code (ro_mode o') (ro_mode own) (ps_mode ownSources) (ro_mode parent) (ps_mode parentSources) (rs_mode project);
          autoFix = pick code (ro_auto_fix o') (ro_auto_fix own) (ps_auto_fix ownSources) (ro_auto_fix parent)
                      (ps_auto_fix parentSources) (rs_auto_fix project);
          gate = pick code (ro_gate o') (ro_gate own) (ps_gate ownSources) (ro_gate parent) (ps_gate parentSources) (rs_gate project)
      in (\<lparr>rs_mode = fst mode, rs_auto_fix = fst autoFix, rs_gate = fst gate\<rparr>,
          \<lparr>rsrc_mode = snd mode, rsrc_auto_fix = snd autoFix, rsrc_gate = snd gate\<rparr>))"

definition resolveReviewSettings :: "ReviewResolutionInput \<Rightarrow> ReviewSettings" where
  "resolveReviewSettings input = fst (resolveReviewSettingsWithSources input)"

definition toggle_text :: "bool \<Rightarrow> string" where
  "toggle_text b = (if b then ''on'' else ''off'')"

definition reviewOverrideMetadata :: "ReviewSettingsOverrides \<Rightarrow> (string \<times> string) list" where
  "reviewOverrideMetadata o' =
     (case ro_mode o' of None \<Rightarrow> [] | Some m \<Rightarrow>
        [(REVIEW_MODE_METADATA_KEY, mode_text m), (REVIEW_MODE_SOURCE_METADATA_KEY, ''task'')]) @
     (case ro_auto_fix o' of None \<Rightarrow> [] | Some b \<Rightarrow>
        [(REVIEW_AUTO_FIX_METADATA_KEY, toggle_text b), (REVIEW_AUTO_FIX_SOURCE_METADATA_KEY, ''task'')]) @
     (case ro_gate o' of None \<Rightarrow> [] | Some g \<Rightarrow>
        [(REVIEW_GATE_METADATA_KEY, gate_text g), (REVIEW_GATE_SOURCE_METADATA_KEY, ''task'')])"

definition reviewOverridesApplied :: "ReviewSettingsOverrides \<Rightarrow> metadata \<Rightarrow> bool" where
  "reviewOverridesApplied o' md \<longleftrightarrow>
     list_all (\<lambda>(k, v). omap_get md k = Some v) (reviewOverrideMetadata o')"

definition reviewSettingsMetadata :: "ReviewSettings \<Rightarrow> (string \<times> string) list" where
  "reviewSettingsMetadata s =
     [(REVIEW_MODE_METADATA_KEY, mode_text (rs_mode s)), (REVIEW_AUTO_FIX_METADATA_KEY, toggle_text (rs_auto_fix s)),
      (REVIEW_GATE_METADATA_KEY, gate_text (rs_gate s))]"

definition reviewSourcesMetadata :: "ReviewSettingsSources \<Rightarrow> (string \<times> string) list" where
  "reviewSourcesMetadata s =
     [(REVIEW_MODE_SOURCE_METADATA_KEY, encodeReviewSource (rsrc_mode s)),
      (REVIEW_AUTO_FIX_SOURCE_METADATA_KEY, encodeReviewSource (rsrc_auto_fix s)),
      (REVIEW_GATE_SOURCE_METADATA_KEY, encodeReviewSource (rsrc_gate s))]"

definition resolveReviewMode :: "metadata \<Rightarrow> ReviewMode \<Rightarrow> ReviewMode option \<Rightarrow> ReviewMode" where
  "resolveReviewMode md configDefault override =
     (case or_else override (ro_mode (reviewSettingsStatedBy md)) of Some m \<Rightarrow> m | None \<Rightarrow> configDefault)"

text \<open>The parent a read-only surface has in hand: its metadata and code.\<close>

definition reviewSettingsResolutionOf ::
    "metadata \<Rightarrow> ReviewSettings \<Rightarrow> metadata \<times> string option \<Rightarrow> ReviewSettings \<times> ReviewSettingsSources" where
  "reviewSettingsResolutionOf md project parent =
     resolveReviewSettingsWithSources
       \<lparr>rx_overrides = no_overrides, rx_own = md, rx_parent = fst parent, rx_parentCode = snd parent, rx_project = project\<rparr>"

definition reviewSettingsOf :: "metadata \<Rightarrow> ReviewSettings \<Rightarrow> metadata \<times> string option \<Rightarrow> ReviewSettings" where
  "reviewSettingsOf md project parent =
     resolveReviewSettings
       \<lparr>rx_overrides = no_overrides, rx_own = md, rx_parent = fst parent, rx_parentCode = snd parent, rx_project = project\<rparr>"

definition no_parent :: "metadata \<times> string option" where
  "no_parent = ([], None)"

text \<open>The write-back of a launch: every value with its source, a present equal value left as it is.\<close>

definition write_metadata :: "metadata \<Rightarrow> (string \<times> string) list \<Rightarrow> metadata" where
  "write_metadata md writes = foldl (\<lambda>m (k, v). if omap_get m k = Some v then m else omap_set m k v) md writes"

definition resolveAndPersistReviewSettings ::
    "metadata \<Rightarrow> ReviewSettingsOverrides \<Rightarrow> metadata \<times> string option \<Rightarrow> ReviewSettings \<Rightarrow> metadata \<times> ReviewSettings" where
  "resolveAndPersistReviewSettings md overrides parent project =
     (let (resolved, sources) = resolveReviewSettingsWithSources
            \<lparr>rx_overrides = overrides, rx_own = md, rx_parent = fst parent, rx_parentCode = snd parent, rx_project = project\<rparr>
      in (write_metadata md (reviewSettingsMetadata resolved @ reviewSourcesMetadata sources), resolved))"

section \<open>Reviews that count, and the accept gate\<close>

record ReviewTurn =
  rt_sequence :: int
  rt_role :: string
  rt_turn_type :: "string option"
  rt_review :: "ReviewReport option"
  rt_created_at :: "int option"
  rt_review_dispatch :: "string option"
  rt_review_addressed :: bool

record ReviewGateContext =
  gc_mode :: ReviewMode
  gc_gate :: ReviewGate

definition GATING_REVIEW_CONTEXT :: ReviewGateContext where
  "GATING_REVIEW_CONTEXT = \<lparr>gc_mode = SeparateReview, gc_gate = GateAuto\<rparr>"

definition raisedItemIdsOf :: "ReviewReport option \<Rightarrow> string list" where
  "raisedItemIdsOf report =
     (case report of
        None \<Rightarrow> []
      | Some r \<Rightarrow> (case rp_raised_item_ids r of None \<Rightarrow> [] | Some ids \<Rightarrow> filter (\<lambda>i. i \<noteq> []) ids))"

definition reviewIssueCount :: "ReviewReport option \<Rightarrow> nat" where
  "reviewIssueCount report =
     (case report of None \<Rightarrow> 0 | Some r \<Rightarrow> length (rp_findings r) + length (raisedItemIdsOf report))"

definition REVIEW_GATING_SEVERITIES :: "ReviewFindingSeverity list" where
  "REVIEW_GATING_SEVERITIES = [Critical, High]"

definition gatingFindingsOf :: "ReviewReport option \<Rightarrow> ReviewFinding list" where
  "gatingFindingsOf report =
     (case report of
        None \<Rightarrow> []
      | Some r \<Rightarrow> filter (\<lambda>f. rf_severity f \<in> set REVIEW_GATING_SEVERITIES) (rp_findings r))"

definition reviewReportHasGatingIssue :: "ReviewReport \<Rightarrow> bool \<Rightarrow> nat option \<Rightarrow> bool" where
  "reviewReportHasGatingIssue report addressedFindings awaitingRaiseCount =
     (let ids = raisedItemIdsOf (Some report); verdict = resolveReviewVerdict (Some report)
      in verdict = UnparsedVerdict \<or>
         reviewSweepsClaimUncoveredIssue (Some report) \<or>
         (\<not> addressedFindings \<and> length (gatingFindingsOf (Some report)) > 0) \<or>
         (case awaitingRaiseCount of Some n \<Rightarrow> n | None \<Rightarrow> length ids) > 0 \<or>
         (verdict = NeedsHuman \<and> length ids = 0))"

definition isSuccessfulReviewReport :: "ReviewReport option \<Rightarrow> bool" where
  "isSuccessfulReviewReport report \<longleftrightarrow> report \<noteq> None"

definition reviewFailed :: "ReviewReport option \<Rightarrow> bool" where
  "reviewFailed report = (case report of None \<Rightarrow> False | Some r \<Rightarrow> reviewReportIsUnparsed r)"

record RecordedReview =
  rd_sequence :: int
  rd_review :: ReviewReport
  rd_created_at :: "int option"
  rd_review_dispatch :: "string option"
  rd_review_addressed :: bool

definition recorded_review :: "ReviewTurn \<Rightarrow> RecordedReview option" where
  "recorded_review turn =
     (if rt_role turn \<noteq> ''agent'' \<or> rt_turn_type turn \<noteq> Some ''review'' then None
      else case rt_review turn of
             None \<Rightarrow> None
           | Some r \<Rightarrow> Some \<lparr>rd_sequence = rt_sequence turn, rd_review = r, rd_created_at = rt_created_at turn,
                              rd_review_dispatch = rt_review_dispatch turn,
                              rd_review_addressed = rt_review_addressed turn\<rparr>)"

definition successfulReviewTurnsOf :: "ReviewTurn list \<Rightarrow> RecordedReview list" where
  "successfulReviewTurnsOf turns = rev (List.map_filter recorded_review turns)"

definition latestSuccessfulReview :: "ReviewTurn list \<Rightarrow> RecordedReview option" where
  "latestSuccessfulReview turns = (case successfulReviewTurnsOf turns of [] \<Rightarrow> None | r # _ \<Rightarrow> Some r)"

definition hasWorkAgentTurnAfter :: "ReviewTurn list \<Rightarrow> int \<Rightarrow> bool" where
  "hasWorkAgentTurnAfter turns afterSequence =
     list_ex (\<lambda>t. rt_role t = ''agent'' \<and> afterSequence < rt_sequence t \<and>
                  (rt_turn_type t = None \<or> rt_turn_type t = Some ''work'')) turns"

datatype DisregardReason = BelowMergeSeverity | GateIsNever | InMode ReviewMode

record DisregardedReview =
  dr_sequence :: int
  dr_review :: ReviewReport
  dr_reason :: DisregardReason

definition reviewDisregardedByGate :: "ReviewTurn list \<Rightarrow> ReviewGateContext \<Rightarrow> DisregardedReview option" where
  "reviewDisregardedByGate turns context' =
     (case latestSuccessfulReview turns of
        None \<Rightarrow> None
      | Some latest \<Rightarrow>
          let notice = (\<lambda>reason. Some \<lparr>dr_sequence = rd_sequence latest, dr_review = rd_review latest, dr_reason = reason\<rparr>);
              dispatch = reviewDispatchOf (rd_review_dispatch latest)
          in if reviewIsClean (Some (rd_review latest)) then None
             else if rd_review_addressed latest then None
             else if hasWorkAgentTurnAfter turns (rd_sequence latest) then None
             else if reviewGateApplies (gc_gate context') (gc_mode context') dispatch
             then (if reviewReportHasGatingIssue (rd_review latest) False None then None else notice BelowMergeSeverity)
             else if gc_gate context' = GateAuto \<and> dispatch = DispatchSelf then None
             else notice (if gc_gate context' = GateNever then GateIsNever else InMode (gc_mode context')))"

definition raiseAwaitsAgentWork :: "StoredRaisedItem option \<Rightarrow> bool" where
  "raiseAwaitsAgentWork item =
     (case item of None \<Rightarrow> True | Some i \<Rightarrow> ri_status i \<noteq> PromotedSubtask \<and> ri_status i \<noteq> PromotedPeer)"

definition resolveRaisedItemByIdOrPrefix :: "StoredRaisedItem list \<Rightarrow> string \<Rightarrow> StoredRaisedItem option" where
  "resolveRaisedItemByIdOrPrefix items i =
     (case List.find (\<lambda>x. ri_id x = i) items of
        Some exact \<Rightarrow> Some exact
      | None \<Rightarrow>
          (case filter (\<lambda>x. starts_with (ri_id x) i \<or> starts_with i (ri_id x)) items of
             [c] \<Rightarrow> Some c
           | _ \<Rightarrow> None))"

record AwaitingReview =
  aw_sequence :: int
  aw_raiseCount :: nat
  aw_verdict :: ResolvedReviewVerdict
  aw_review :: ReviewReport

definition awaiting_raises :: "StoredRaisedItem list \<Rightarrow> ReviewReport \<Rightarrow> string list" where
  "awaiting_raises raisedItems report =
     filter (\<lambda>i. raiseAwaitsAgentWork (resolveRaisedItemByIdOrPrefix raisedItems i)) (raisedItemIdsOf (Some report))"

definition reviewIssuesAwaitingWork ::
    "ReviewTurn list \<Rightarrow> StoredRaisedItem list \<Rightarrow> ReviewGateContext \<Rightarrow> AwaitingReview option" where
  "reviewIssuesAwaitingWork turns raisedItems context' =
     (case latestSuccessfulReview turns of
        None \<Rightarrow> None
      | Some latest \<Rightarrow>
          if \<not> reviewGateApplies (gc_gate context') (gc_mode context') (reviewDispatchOf (rd_review_dispatch latest)) then None
          else if reviewIsClean (Some (rd_review latest)) then None
          else if hasWorkAgentTurnAfter turns (rd_sequence latest) then None
          else
            let awaitingRaises = awaiting_raises raisedItems (rd_review latest);
                verdict = resolveReviewVerdict (Some (rd_review latest));
                addressedFindings = rd_review_addressed latest;
                outstanding = (if addressedFindings then 0 else length (gatingFindingsOf (Some (rd_review latest)))) +
                              length awaitingRaises
            in if \<not> reviewReportHasGatingIssue (rd_review latest) addressedFindings (Some (length awaitingRaises)) then None
               else Some \<lparr>aw_sequence = rd_sequence latest, aw_raiseCount = outstanding, aw_verdict = verdict,
                          aw_review = rd_review latest\<rparr>)"

section \<open>The rows before accept\<close>

datatype ViolationStatus = ViolationPending | ViolationApproved | ViolationRejected

record FileViolation =
  fv_file :: string
  fv_base_sha :: string
  fv_status :: ViolationStatus
  fv_rejected_at :: "int option"
  fv_restored_at :: "int option"
  fv_restore_sha :: "string option"

datatype GateReviewText = ReviewFailedText ReviewFailure | IssuesUnaddressed nat

datatype AcceptGateRow =
    ReviewRow int GateReviewText bool
  | RaisedRow string string
  | FileRow string bool
  | CommentsRow nat

definition raised_row :: "StoredRaisedItem \<Rightarrow> AcceptGateRow" where
  "raised_row item =
     RaisedRow (ri_id item)
       (case ri_title item of Some t \<Rightarrow> t | None \<Rightarrow> hd (split_on (CHR 0x0A) (ri_content item)))"

definition buildAcceptGate ::
    "string \<Rightarrow> ReviewTurn list \<Rightarrow> StoredRaisedItem list \<Rightarrow> FileViolation list \<Rightarrow> metadata \<Rightarrow> nat \<Rightarrow> AcceptGateRow list" where
  "buildAcceptGate separator turns raisedItems fileViolations taskMetadata queued =
     (let settings = reviewSettingsOf taskMetadata
            \<lparr>rs_mode = gc_mode GATING_REVIEW_CONTEXT, rs_auto_fix = False, rs_gate = gc_gate GATING_REVIEW_CONTEXT\<rparr> no_parent;
          gateContext = \<lparr>gc_mode = rs_mode settings, gc_gate = rs_gate settings\<rparr>
      in (case reviewIssuesAwaitingWork turns raisedItems gateContext of
            None \<Rightarrow> []
          | Some awaiting \<Rightarrow>
              [ReviewRow (aw_sequence awaiting)
                 (if aw_verdict awaiting = UnparsedVerdict
                  then ReviewFailedText (describeReviewFailureShort separator (Some (aw_review awaiting)))
                  else IssuesUnaddressed (aw_raiseCount awaiting))
                 (\<not> reviewWasNeverDispatched (Some (aw_review awaiting)))]) @
         map raised_row (openRaisedItems raisedItems) @
         (if queued > 0 then [CommentsRow queued] else []) @
         map (\<lambda>v. FileRow (fv_file v) (fv_status v = ViolationPending \<and> fv_rejected_at v \<noteq> None))
           (filter (\<lambda>v. fv_status v \<noteq> ViolationApproved) fileViolations))"

section \<open>The order of a report\<close>

datatype TurnReportSectionKind =
    CapabilitiesLost | BehaviorChange | Implementation | WhatWasDone | HowToVerify | Commentary

datatype ReportSectionTier =
    TierBehaviorChange | TierCapabilitiesLost | TierHowToVerify | TierImplementation | TierCommentary

datatype ReportSurface = Landing | Changes | FullReport

record TurnReportSection =
  se_kind :: TurnReportSectionKind
  se_body :: string

record ReportPolicy =
  po_tierOf :: "TurnReportSectionKind \<Rightarrow> ReportSectionTier option"
  po_tierOrder :: "ReportSectionTier list"

definition DEFAULT_REPORT_TIER_ORDER :: "ReportSectionTier list" where
  "DEFAULT_REPORT_TIER_ORDER =
     [TierBehaviorChange, TierCapabilitiesLost, TierHowToVerify, TierImplementation, TierCommentary]"

definition DEFAULT_REPORT_POLICY :: ReportPolicy where
  "DEFAULT_REPORT_POLICY =
     \<lparr>po_tierOf = (\<lambda>kind. Some (case kind of
         WhatWasDone \<Rightarrow> TierBehaviorChange | BehaviorChange \<Rightarrow> TierBehaviorChange
       | CapabilitiesLost \<Rightarrow> TierCapabilitiesLost | HowToVerify \<Rightarrow> TierHowToVerify
       | Implementation \<Rightarrow> TierImplementation | Commentary \<Rightarrow> TierCommentary)),
      po_tierOrder = DEFAULT_REPORT_TIER_ORDER\<rparr>"

text \<open>The position of the tier, the last one when the order repeats it; 999 for an unranked kind.\<close>

definition tier_rank :: "ReportPolicy \<Rightarrow> TurnReportSectionKind \<Rightarrow> int" where
  "tier_rank policy kind =
     (case po_tierOf policy kind of
        None \<Rightarrow> 999
      | Some tier \<Rightarrow>
          (case map_of (rev (map prod.swap (enumerate 0 (po_tierOrder policy)))) tier of
             Some i \<Rightarrow> int i | None \<Rightarrow> 999))"

definition orderReportSections :: "ReportPolicy \<Rightarrow> TurnReportSection list \<Rightarrow> TurnReportSection list" where
  "orderReportSections policy sections =
     map snd (js_sort (\<lambda>a b. if fst (fst a) \<noteq> fst (fst b) then fst (fst a) - fst (fst b)
                              else int (snd (fst a)) - int (snd (fst b)))
       (map (\<lambda>(i, s). ((tier_rank policy (se_kind s), i), s)) (enumerate 0 sections)))"

definition sectionsForSurface :: "ReportPolicy \<Rightarrow> TurnReportSection list \<Rightarrow> ReportSurface \<Rightarrow> TurnReportSection list" where
  "sectionsForSurface policy sections surface =
     (let ordered = orderReportSections policy sections;
          wanted = (case surface of
            Landing \<Rightarrow> [TierBehaviorChange, TierCapabilitiesLost]
          | Changes \<Rightarrow> [TierImplementation, TierCommentary]
          | FullReport \<Rightarrow> [])
      in if surface = FullReport then ordered
         else filter (\<lambda>s. case po_tierOf policy (se_kind s) of None \<Rightarrow> False | Some t \<Rightarrow> t \<in> set wanted) ordered)"

definition reportHasBehaviorChange :: "TurnReportSection list \<Rightarrow> bool" where
  "reportHasBehaviorChange sections \<longleftrightarrow> list_ex (\<lambda>s. se_kind s = BehaviorChange) sections"

definition reportHasImplementation :: "TurnReportSection list \<Rightarrow> bool" where
  "reportHasImplementation sections \<longleftrightarrow> list_ex (\<lambda>s. se_kind s = Implementation) sections"

definition reportDeclaresNoBehavior :: "TurnReportSection list \<Rightarrow> bool" where
  "reportDeclaresNoBehavior sections \<longleftrightarrow> reportHasImplementation sections \<and> \<not> reportHasBehaviorChange sections"

section \<open>The gate and the notice\<close>

lemma awaiting_le: "length (awaiting_raises items r) \<le> length (raisedItemIdsOf (Some r))"
  by (simp add: awaiting_raises_def)

lemma gating_without_counts:
  "reviewReportHasGatingIssue r False (Some (length (awaiting_raises items r))) \<Longrightarrow> reviewReportHasGatingIssue r False None"
  using awaiting_le [of items r] by (auto simp: reviewReportHasGatingIssue_def Let_def)

text \<open>Why an unclean review may leave no trace at accept: a work turn has run since; the exchange that
  wrote it applied its findings and it claims nothing else; every raise it left was promoted into a
  task and it claims nothing else; or it is a self-review that does not count under the automatic
  gate.\<close>

definition accounted_for :: "ReviewTurn list \<Rightarrow> StoredRaisedItem list \<Rightarrow> ReviewGateContext \<Rightarrow> RecordedReview \<Rightarrow> bool" where
  "accounted_for turns items context' r \<longleftrightarrow>
     hasWorkAgentTurnAfter turns (rd_sequence r) \<or>
     (let applies = reviewGateApplies (gc_gate context') (gc_mode context') (reviewDispatchOf (rd_review_dispatch r));
          rest = (resolveReviewVerdict (Some (rd_review r)) \<noteq> UnparsedVerdict \<and>
                  \<not> reviewSweepsClaimUncoveredIssue (Some (rd_review r)))
      in if applies
         then rest \<and> awaiting_raises items (rd_review r) = [] \<and>
              (if rd_review_addressed r
               then \<not> (resolveReviewVerdict (Some (rd_review r)) = NeedsHuman \<and> raisedItemIdsOf (Some (rd_review r)) = [])
               else raisedItemIdsOf (Some (rd_review r)) \<noteq> [] \<and> gatingFindingsOf (Some (rd_review r)) = [])
         else rd_review_addressed r \<or>
              (gc_gate context' = GateAuto \<and> reviewDispatchOf (rd_review_dispatch r) = DispatchSelf))"

lemma gating_issue_iff:
  "reviewReportHasGatingIssue r addressed n \<longleftrightarrow>
     resolveReviewVerdict (Some r) = UnparsedVerdict \<or> reviewSweepsClaimUncoveredIssue (Some r) \<or>
     (\<not> addressed \<and> gatingFindingsOf (Some r) \<noteq> []) \<or>
     (case n of Some m \<Rightarrow> m | None \<Rightarrow> length (raisedItemIdsOf (Some r))) > 0 \<or>
     (resolveReviewVerdict (Some r) = NeedsHuman \<and> raisedItemIdsOf (Some r) = [])"
  by (simp add: reviewReportHasGatingIssue_def Let_def)

lemma awaiting_raises_Nil: "raisedItemIdsOf (Some r) = [] \<Longrightarrow> awaiting_raises items r = []"
  by (simp add: awaiting_raises_def)


text \<open>The gate row is shown exactly when accept is held, and nothing is shown when nothing holds it.\<close>

lemma buildAcceptGate_empty:
  "buildAcceptGate separator turns items violations md queued = [] \<longleftrightarrow>
     (let settings = reviewSettingsOf md \<lparr>rs_mode = SeparateReview, rs_auto_fix = False, rs_gate = GateAuto\<rparr> no_parent
      in reviewIssuesAwaitingWork turns items \<lparr>gc_mode = rs_mode settings, gc_gate = rs_gate settings\<rparr> = None) \<and>
     openRaisedItems items = [] \<and> queued = 0 \<and> list_all (\<lambda>v. fv_status v = ViolationApproved) violations"
  by (auto simp: buildAcceptGate_def GATING_REVIEW_CONTEXT_def Let_def filter_empty_conv list_all_iff split: option.splits)

section \<open>Sticky settings\<close>

lemma mode_round_trip [simp]: "parseReviewMode (Some (mode_text m)) = Some m"
  by (induction m; code_simp)

lemma gate_round_trip [simp]: "parseReviewGate (Some (gate_text g)) = Some g"
  by (induction g; code_simp)

lemma toggle_round_trip [simp]: "parseReviewToggle (Some (toggle_text b)) = Some b"
  by (induction b; code_simp)

text \<open>A source as the resolution writes it: only an inherited one names a task, by a code without
  surrounding white space.\<close>

definition source_ok :: "ReviewSettingSource \<Rightarrow> bool" where
  "source_ok s \<longleftrightarrow> (case sr_parent s of None \<Rightarrow> True | Some p \<Rightarrow> sr_origin s = FromParent \<and> p \<noteq> [] \<and> trim p = p)"

lemma origin_round_trip: "parseReviewSource (Some (origin_text x)) = Some (source x)"
  by (induction x; code_simp)

lemma last_trim_end: "trim_end s \<noteq> [] \<Longrightarrow> \<not> is_space (last (trim_end s))"
  using hd_dropWhile [of is_space "rev s"] by (auto simp: trim_end_def last_rev)

lemma trim_parent: "p \<noteq> [] \<Longrightarrow> trim p = p \<Longrightarrow> trim (''parent:'' @ p) = ''parent:'' @ p"
proof -
  assume p: "p \<noteq> []" "trim p = p"
  have "\<not> is_space (last p)" using last_trim_end [of "trim_start p"] p by (simp add: trim_def)
  then show "trim (''parent:'' @ p) = ''parent:'' @ p" using p(1)
    by (simp add: trim_def trim_start_def is_space_def trim_end_no_space)
qed

lemma source_round_trip:
  assumes "source_ok s"
  shows "parseReviewSource (Some (encodeReviewSource s)) = Some s"
proof (cases "sr_parent s")
  case None
  then have "encodeReviewSource s = origin_text (sr_origin s)"
    by (cases "sr_origin s") (simp_all add: encodeReviewSource_def nonempty_def)
  then show ?thesis using None by (simp add: origin_round_trip source_def)
next
  case (Some p)
  with assms have p: "sr_origin s = FromParent" "p \<noteq> []" "trim p = p" by (simp_all add: source_ok_def)
  then have "encodeReviewSource s = ''parent:'' @ p" using Some by (simp add: encodeReviewSource_def nonempty_def)
  then show ?thesis using p Some trim_parent [OF p(2,3)] by (simp add: parseReviewSource_def nonempty_def)
qed

lemma source_ok_source [simp]: "source_ok (source x)"
  by (simp add: source_ok_def source_def)

lemma nonempty_Some: "nonempty s = Some p \<Longrightarrow> s = Some p \<and> p \<noteq> []"
  by (auto simp: nonempty_def split: option.splits if_splits)

lemma parse_source_ok: "parseReviewSource v = Some s \<Longrightarrow> source_ok s"
  by (auto simp: parseReviewSource_def source_ok_def source_def Let_def split: option.splits if_splits dest!: nonempty_Some)

lemma recorded_source_ok [simp]: "source_ok (recorded_source md key)"
  using parse_source_ok by (auto simp: recorded_source_def split: option.split)

lemma stated_sources_ok:
  "ps_mode (reviewSourcesStatedBy md) = Some s \<Longrightarrow> source_ok s"
  "ps_auto_fix (reviewSourcesStatedBy md) = Some s \<Longrightarrow> source_ok s"
  "ps_gate (reviewSourcesStatedBy md) = Some s \<Longrightarrow> source_ok s"
  by (auto simp: reviewSourcesStatedBy_def Let_def split: if_splits)

definition code_ok :: "string option \<Rightarrow> bool" where
  "code_ok code \<longleftrightarrow> (case code of None \<Rightarrow> True | Some c \<Rightarrow> trim c = c)"

lemma inherited_ok:
  assumes "code_ok code" and "\<And>v. via = Some v \<Longrightarrow> source_ok v"
  shows "source_ok (inherited_from code via)"
  using assms
  by (auto simp: inherited_from_def source_ok_def code_ok_def Let_def split: option.splits if_splits dest!: nonempty_Some)

lemma pick_ok:
  assumes "code_ok code" and "\<And>v. via = Some v \<Longrightarrow> source_ok v" and "\<And>v. own_src = Some v \<Longrightarrow> source_ok v"
  shows "source_ok (snd (pick code ov own own_src parent via project))"
  using assms inherited_ok [of code via] by (auto simp: pick_def split: option.split)

definition sources_ok :: "ReviewSettingsSources \<Rightarrow> bool" where
  "sources_ok s \<longleftrightarrow> source_ok (rsrc_mode s) \<and> source_ok (rsrc_auto_fix s) \<and> source_ok (rsrc_gate s)"

lemma resolution_sources_ok:
  "code_ok (rx_parentCode input) \<Longrightarrow> sources_ok (snd (resolveReviewSettingsWithSources input))"
  by (simp add: sources_ok_def resolveReviewSettingsWithSources_def Let_def pick_ok stated_sources_ok)

text \<open>Metadata that pins all three settings with their sources.\<close>

definition pinned :: "metadata \<Rightarrow> ReviewSettings \<Rightarrow> ReviewSettingsSources \<Rightarrow> bool" where
  "pinned md s src \<longleftrightarrow>
     reviewSettingsStatedBy md = \<lparr>ro_mode = Some (rs_mode s), ro_auto_fix = Some (rs_auto_fix s), ro_gate = Some (rs_gate s)\<rparr> \<and>
     reviewSourcesStatedBy md = \<lparr>ps_mode = Some (rsrc_mode src), ps_auto_fix = Some (rsrc_auto_fix src), ps_gate = Some (rsrc_gate src)\<rparr>"

lemma get_write_metadata:
  "distinct (map fst ws) \<Longrightarrow> omap_get (write_metadata md ws) k =
     (case map_of ws k of Some v \<Rightarrow> Some v | None \<Rightarrow> omap_get md k)"
proof (induction ws arbitrary: md)
  case (Cons w ws)
  obtain k1 v1 where w: "w = (k1, v1)" by force
  let ?md = "if omap_get md k1 = Some v1 then md else omap_set md k1 v1"
  have "write_metadata md (w # ws) = write_metadata ?md ws" by (simp add: write_metadata_def w)
  moreover have "map_of ws k1 = None" using Cons.prems by (simp add: w map_of_eq_None_iff)
  ultimately show ?case using Cons by (auto simp: w split: option.splits)
qed (simp add: write_metadata_def)

lemmas review_keys = REVIEW_MODE_METADATA_KEY_def REVIEW_AUTO_FIX_METADATA_KEY_def REVIEW_GATE_METADATA_KEY_def
  REVIEW_MODE_SOURCE_METADATA_KEY_def REVIEW_AUTO_FIX_SOURCE_METADATA_KEY_def REVIEW_GATE_SOURCE_METADATA_KEY_def

lemma written_settings:
  "omap_get (write_metadata md (reviewSettingsMetadata s @ reviewSourcesMetadata src)) ''review_mode'' = Some (mode_text (rs_mode s))"
  "omap_get (write_metadata md (reviewSettingsMetadata s @ reviewSourcesMetadata src)) ''review_auto_fix'' = Some (toggle_text (rs_auto_fix s))"
  "omap_get (write_metadata md (reviewSettingsMetadata s @ reviewSourcesMetadata src)) ''review_gate'' = Some (gate_text (rs_gate s))"
  "omap_get (write_metadata md (reviewSettingsMetadata s @ reviewSourcesMetadata src)) ''review_mode_source'' = Some (encodeReviewSource (rsrc_mode src))"
  "omap_get (write_metadata md (reviewSettingsMetadata s @ reviewSourcesMetadata src)) ''review_auto_fix_source'' = Some (encodeReviewSource (rsrc_auto_fix src))"
  "omap_get (write_metadata md (reviewSettingsMetadata s @ reviewSourcesMetadata src)) ''review_gate_source'' = Some (encodeReviewSource (rsrc_gate src))"
  by (subst get_write_metadata; simp add: reviewSettingsMetadata_def reviewSourcesMetadata_def review_keys)+

lemma write_pins:
  assumes "sources_ok src"
  shows "pinned (write_metadata md (reviewSettingsMetadata s @ reviewSourcesMetadata src)) s src"
  using assms
  by (simp add: pinned_def reviewSettingsStatedBy_def reviewSourcesStatedBy_def written_settings recorded_source_def
      or_else_def Let_def sources_ok_def source_round_trip)

lemma persist_pins:
  assumes "code_ok (snd parent)"
    and "resolveReviewSettingsWithSources
        \<lparr>rx_overrides = ov, rx_own = md, rx_parent = fst parent, rx_parentCode = snd parent, rx_project = project\<rparr> = (s, src)"
  shows "pinned (fst (resolveAndPersistReviewSettings md ov parent project)) s src"
proof -
  have "sources_ok src"
    using resolution_sources_ok [of "\<lparr>rx_overrides = ov, rx_own = md, rx_parent = fst parent, rx_parentCode = snd parent,
        rx_project = project\<rparr>"] assms by simp
  from write_pins [OF this, of md s] show ?thesis by (simp add: resolveAndPersistReviewSettings_def assms(2))
qed

lemma pinned_resolution:
  "pinned md s src \<Longrightarrow> reviewSettingsResolutionOf md project parent = (s, src)"
  by (simp add: pinned_def reviewSettingsResolutionOf_def resolveReviewSettingsWithSources_def pick_def no_overrides_def Let_def)

lemma write_again:
  assumes "\<forall>(k, v) \<in> set ws. omap_get md k = Some v"
  shows "write_metadata md ws = md"
  using assms unfolding write_metadata_def by (induction ws) auto

lemma write_twice:
  assumes "distinct (map fst ws)"
  shows "write_metadata (write_metadata md ws) ws = write_metadata md ws"
proof (rule write_again)
  show "\<forall>(k, v) \<in> set ws. omap_get (write_metadata md ws) k = Some v"
    using map_of_is_SomeI [OF assms] by (auto simp: get_write_metadata [OF assms])
qed

lemma distinct_review_keys: "distinct (map fst (reviewSettingsMetadata s @ reviewSourcesMetadata src))"
  by (simp add: reviewSettingsMetadata_def reviewSourcesMetadata_def review_keys)

lemma resolve_pinned_again:
  assumes "pinned md s src"
  shows "resolveReviewSettingsWithSources
    \<lparr>rx_overrides = no_overrides, rx_own = md, rx_parent = fst parent, rx_parentCode = snd parent, rx_project = project\<rparr> = (s, src)"
  using pinned_resolution [OF assms, of project parent] by (simp add: reviewSettingsResolutionOf_def)

text \<open>A task with no settings of its own under a pinned parent.\<close>

definition chosen :: "ReviewSettingSource \<Rightarrow> bool" where
  "chosen s \<longleftrightarrow> reviewSourceIsChosen (Some s)"

lemma chosen_by_pinned:
  "pinned md s src \<Longrightarrow> reviewSettingsChosenBy md =
     \<lparr>ro_mode = (if chosen (rsrc_mode src) then Some (rs_mode s) else None),
      ro_auto_fix = (if chosen (rsrc_auto_fix src) then Some (rs_auto_fix s) else None),
      ro_gate = (if chosen (rsrc_gate src) then Some (rs_gate s) else None)\<rparr>"
  by (simp add: pinned_def reviewSettingsChosenBy_def Let_def chosen_def)

lemma stated_by_none:
  "reviewSettingsStatedBy [] = no_overrides"
  "reviewSourcesStatedBy [] = \<lparr>ps_mode = None, ps_auto_fix = None, ps_gate = None\<rparr>"
  by (simp_all add: reviewSettingsStatedBy_def reviewSourcesStatedBy_def no_overrides_def parseReviewMode_def
      parseReviewToggle_def parseReviewGate_def reviewModeFromLegacyMetadata_def or_else_def Let_def)

lemma child_of_pinned:
  assumes "pinned md s src"
  shows "resolveReviewSettingsWithSources
      \<lparr>rx_overrides = no_overrides, rx_own = [], rx_parent = md, rx_parentCode = code, rx_project = project\<rparr> =
    (\<lparr>rs_mode = (if chosen (rsrc_mode src) then rs_mode s else rs_mode project),
      rs_auto_fix = (if chosen (rsrc_auto_fix src) then rs_auto_fix s else rs_auto_fix project),
      rs_gate = (if chosen (rsrc_gate src) then rs_gate s else rs_gate project)\<rparr>,
     \<lparr>rsrc_mode = (if chosen (rsrc_mode src) then inherited_from code (Some (rsrc_mode src)) else source FromProject),
      rsrc_auto_fix = (if chosen (rsrc_auto_fix src) then inherited_from code (Some (rsrc_auto_fix src)) else source FromProject),
      rsrc_gate = (if chosen (rsrc_gate src) then inherited_from code (Some (rsrc_gate src)) else source FromProject)\<rparr>)"
  using assms chosen_by_pinned [OF assms]
  by (simp add: resolveReviewSettingsWithSources_def stated_by_none no_overrides_def pick_def Let_def pinned_def)

lemma chosen_inherited [simp]: "chosen (inherited_from code via)"
  by (simp add: chosen_def reviewSourceIsChosen_def inherited_from_def Let_def)

lemma not_chosen_project [simp]: "\<not> chosen (source FromProject)"
  by (simp add: chosen_def reviewSourceIsChosen_def source_def)

text \<open>The metadata of the last of a line of descendants, each launched with nothing of its own under
  the one before; a generation is the code of the parent and the project settings at that time.\<close>

fun descend :: "metadata \<Rightarrow> (string option \<times> ReviewSettings) list \<Rightarrow> metadata" where
  "descend md [] = md"
| "descend md ((code, project) # rest) =
     descend (fst (resolveAndPersistReviewSettings [] no_overrides (md, code) project)) rest"

definition last_project :: "ReviewSettings \<Rightarrow> (string option \<times> ReviewSettings) list \<Rightarrow> ReviewSettings" where
  "last_project s gens = (if gens = [] then s else snd (last gens))"

definition inherits :: "bool \<Rightarrow> 'a \<Rightarrow> 'a \<Rightarrow> 'a" where
  "inherits c v w = (if c then v else w)"

lemma inherit_step:
  "inherits (chosen (if c then inherited_from code via else source FromProject)) (if c then v else w)
     (if b then (if c then v else w) else z) = inherits c v (if b then w else z)"
  by (simp add: inherits_def)

lemma last_project_fields:
  "rs_mode (last_project s gens) = (if gens = [] then rs_mode s else rs_mode (snd (last gens)))"
  "rs_auto_fix (last_project s gens) = (if gens = [] then rs_auto_fix s else rs_auto_fix (snd (last gens)))"
  "rs_gate (last_project s gens) = (if gens = [] then rs_gate s else rs_gate (snd (last gens)))"
  by (simp_all add: last_project_def)

lemma descend_pinned:
  assumes "pinned md s src" and "list_all (\<lambda>(code, p). code_ok code) gens"
  shows "\<exists>src'. pinned (descend md gens)
      \<lparr>rs_mode = inherits (chosen (rsrc_mode src)) (rs_mode s) (rs_mode (last_project s gens)),
       rs_auto_fix = inherits (chosen (rsrc_auto_fix src)) (rs_auto_fix s) (rs_auto_fix (last_project s gens)),
       rs_gate = inherits (chosen (rsrc_gate src)) (rs_gate s) (rs_gate (last_project s gens))\<rparr> src'"
  using assms
proof (induction gens arbitrary: md s src)
  case Nil
  have "pinned md \<lparr>rs_mode = rs_mode s, rs_auto_fix = rs_auto_fix s, rs_gate = rs_gate s\<rparr> src"
    using Nil(1) by (simp add: pinned_def)
  then show ?case by (auto simp: last_project_def inherits_def)
next
  case (Cons g gens)
  obtain code project where g: "g = (code, project)" by force
  let ?md1 = "fst (resolveAndPersistReviewSettings [] no_overrides (md, code) project)"
  let ?res = "resolveReviewSettingsWithSources
    \<lparr>rx_overrides = no_overrides, rx_own = [], rx_parent = md, rx_parentCode = code, rx_project = project\<rparr>"
  have pin: "pinned ?md1 (fst ?res) (snd ?res)"
    by (rule persist_pins) (use Cons.prems(2) in \<open>simp_all add: g\<close>)
  note child = child_of_pinned [OF Cons.prems(1), of code project]
  have "list_all (\<lambda>(code, p). code_ok code) gens" using Cons.prems(2) by simp
  from Cons.IH [OF pin this] obtain src' where "pinned (descend ?md1 gens)
      \<lparr>rs_mode = inherits (chosen (rsrc_mode (snd ?res))) (rs_mode (fst ?res)) (rs_mode (last_project (fst ?res) gens)),
       rs_auto_fix = inherits (chosen (rsrc_auto_fix (snd ?res))) (rs_auto_fix (fst ?res)) (rs_auto_fix (last_project (fst ?res) gens)),
       rs_gate = inherits (chosen (rsrc_gate (snd ?res))) (rs_gate (fst ?res)) (rs_gate (last_project (fst ?res) gens))\<rparr> src'"
    by blast
  then show ?case
    by (intro exI [of _ src']) (simp only: g child last_project_fields inherit_step descend.simps fst_conv snd_conv
        ReviewSettings.simps ReviewSettingsSources.simps last.simps list.distinct if_False prod.sel
        if_distrib [of snd] if_distrib [of rs_mode] if_distrib [of rs_auto_fix] if_distrib [of rs_gate])
qed

lemma pinned_settings:
  "pinned md s src \<Longrightarrow> reviewSettingsOf md project parent = s"
  using pinned_resolution [of md s src project parent]
  by (simp add: reviewSettingsOf_def resolveReviewSettings_def reviewSettingsResolutionOf_def)

lemma persist_idempotent:
  assumes "code_ok (snd parent)" and "resolveAndPersistReviewSettings md ov parent project = (md', s)"
  shows "resolveAndPersistReviewSettings md' no_overrides parent2 project2 = (md', s)"
proof -
  obtain src where r: "resolveReviewSettingsWithSources
        \<lparr>rx_overrides = ov, rx_own = md, rx_parent = fst parent, rx_parentCode = snd parent, rx_project = project\<rparr> = (s, src)"
    and md': "md' = write_metadata md (reviewSettingsMetadata s @ reviewSourcesMetadata src)"
    using assms(2) by (auto simp: resolveAndPersistReviewSettings_def split: prod.splits)
  have pin: "pinned md' s src" using persist_pins [OF assms(1) r] assms(2) by simp
  have "write_metadata md' (reviewSettingsMetadata s @ reviewSourcesMetadata src) = md'"
    unfolding md' by (rule write_twice [OF distinct_review_keys])
  then show ?thesis
    using resolve_pinned_again [OF pin, of parent2 project2] by (simp add: resolveAndPersistReviewSettings_def)
qed

text \<open>C24: Review settings are sticky, and only choices are inherited, to any depth. After a launch has
  resolved and written a task's settings, reading them back gives the same settings whatever the
  project's defaults and the parent have become, and launching again writes nothing. A line of
  descendants launched below it with no settings of their own ends with the value of each setting that
  somebody chose on the task or above it, and with its own project's default for each setting nobody
  chose.\<close>

theorem review_settings_sticky:
  assumes "code_ok (snd parent)" and "list_all (\<lambda>(code, p). code_ok code) gens" and "gens \<noteq> []"
    and "resolveReviewSettingsWithSources
        \<lparr>rx_overrides = ov, rx_own = md, rx_parent = fst parent, rx_parentCode = snd parent, rx_project = project\<rparr> = (s, src)"
  shows "let md' = fst (resolveAndPersistReviewSettings md ov parent project);
             heir = reviewSettingsOf (descend md' gens) project2 parent2; last = snd (last gens)
    in reviewSettingsResolutionOf md' project2 parent2 = (s, src) \<and>
       resolveAndPersistReviewSettings md' no_overrides parent2 project2 = (md', s) \<and>
       rs_mode heir = (if reviewSourceIsChosen (Some (rsrc_mode src)) then rs_mode s else rs_mode last) \<and>
       rs_auto_fix heir = (if reviewSourceIsChosen (Some (rsrc_auto_fix src)) then rs_auto_fix s else rs_auto_fix last) \<and>
       rs_gate heir = (if reviewSourceIsChosen (Some (rsrc_gate src)) then rs_gate s else rs_gate last)"
proof -
  let ?md' = "fst (resolveAndPersistReviewSettings md ov parent project)"
  have pin: "pinned ?md' s src" by (rule persist_pins [OF assms(1,4)])
  obtain src' where heir: "pinned (descend ?md' gens)
      \<lparr>rs_mode = inherits (chosen (rsrc_mode src)) (rs_mode s) (rs_mode (last_project s gens)),
       rs_auto_fix = inherits (chosen (rsrc_auto_fix src)) (rs_auto_fix s) (rs_auto_fix (last_project s gens)),
       rs_gate = inherits (chosen (rsrc_gate src)) (rs_gate s) (rs_gate (last_project s gens))\<rparr> src'"
    using descend_pinned [OF pin assms(2)] by blast
  have "resolveAndPersistReviewSettings md ov parent project = (?md', s)"
    using assms(4) by (simp add: resolveAndPersistReviewSettings_def)
  from persist_idempotent [OF assms(1) this] pinned_resolution [OF pin] pinned_settings [OF heir] assms(3)
  show ?thesis by (simp add: Let_def inherits_def chosen_def last_project_def)
qed

lemma review_settings_sticky_witness:
  "rs_mode (reviewSettingsOf
     (descend (fst (resolveAndPersistReviewSettings [(''low_high_loop'', ''off'')] \<lparr>ro_mode = Some LowHigh, ro_auto_fix = None, ro_gate = None\<rparr>
                no_parent \<lparr>rs_mode = SeparateReview, rs_auto_fix = False, rs_gate = GateAuto\<rparr>))
       [(Some ''hub'', \<lparr>rs_mode = ReviewOff, rs_auto_fix = True, rs_gate = GateNever\<rparr>),
        (None, \<lparr>rs_mode = ReviewOff, rs_auto_fix = True, rs_gate = GateNever\<rparr>)])
     \<lparr>rs_mode = ReviewOff, rs_auto_fix = True, rs_gate = GateNever\<rparr> no_parent) = LowHigh"
proof -
  let ?ov = "\<lparr>ro_mode = Some LowHigh, ro_auto_fix = None, ro_gate = None\<rparr>"
  let ?pr = "\<lparr>rs_mode = SeparateReview, rs_auto_fix = False, rs_gate = GateAuto\<rparr>"
  let ?off = "\<lparr>rs_mode = ReviewOff, rs_auto_fix = True, rs_gate = GateNever\<rparr>"
  let ?in = "\<lparr>rx_overrides = ?ov, rx_own = [(''low_high_loop'', ''off'')], rx_parent = fst no_parent,
      rx_parentCode = snd no_parent, rx_project = ?pr\<rparr>"
  have s: "rs_mode (fst (resolveReviewSettingsWithSources ?in)) = LowHigh \<and>
      reviewSourceIsChosen (Some (rsrc_mode (snd (resolveReviewSettingsWithSources ?in))))" by code_simp
  have ok: "code_ok (snd no_parent)" "list_all (\<lambda>(code, p). code_ok code) [(Some ''hub'', ?off), (None, ?off)]" by code_simp+
  from review_settings_sticky [OF ok list.distinct(2), of ?ov "[(''low_high_loop'', ''off'')]" ?pr
      "fst (resolveReviewSettingsWithSources ?in)" "snd (resolveReviewSettingsWithSources ?in)" ?off no_parent] s
  show ?thesis by (simp add: Let_def)
qed

end
