(* ===== verification/LaunchOnce.thy ===== *)
theory LaunchOnce
  imports ReviewReports
begin

text \<open>
  Turn launches under an idempotency key (\<open>src/src/daemon/launch-idempotency.ts\<close>).

  A \<open>Daemon\<close> is what a launch request on one task meets: the records stored in the task's metadata,
  the launches this process has in flight, the task's recorded turns and its status. Deciding on a
  request and recording an outcome each run under the task's lock and are one step; everything else
  may happen between them: launches writing turns, other activity on the task, further requests, a
  store that fails to take an outcome, and the death of the process.

  \<open>JSON.stringify\<close> of a scalar or a key, and the hash, are arguments.
\<close>

section \<open>Requests\<close>

datatype IdempotentLaunchCommand = StartTask | UnblockTask | ResumeTask | AskTask | ReviewAsk

definition MAX_RECORDS_PER_TASK :: nat where
  "MAX_RECORDS_PER_TASK = 50"

definition MAX_KEY_LENGTH :: nat where
  "MAX_KEY_LENGTH = 200"

definition VOLATILE_PARAMS :: "string list" where
  "VOLATILE_PARAMS = [''idempotencyKey'', ''traceparent'']"

datatype key_error = KeyNotString | KeyTooLong nat

definition optionalIdempotencyKey :: "(string \<times> json) list \<Rightarrow> key_error + string option" where
  "optionalIdempotencyKey params =
     (case map_of params ''idempotencyKey'' of
        None \<Rightarrow> Inr None
      | Some JNull \<Rightarrow> Inr None
      | Some (JString raw) \<Rightarrow>
          if trim raw = [] then Inl KeyNotString
          else if length raw > MAX_KEY_LENGTH then Inl (KeyTooLong (length raw))
          else Inr (Some raw)
      | Some _ \<Rightarrow> Inl KeyNotString)"

definition callerScope :: "json option \<Rightarrow> string" where
  "callerScope actor =
     (case actor of
        Some (JObject a) \<Rightarrow>
          (case (map_of a ''email'', map_of a ''role'') of
             (Some (JString (c # e)), _) \<Rightarrow> ''person:'' @ to_lower (c # e)
           | (_, Some (JString r)) \<Rightarrow> ''role:'' @ r
           | _ \<Rightarrow> ''role:unknown'')
      | Some (JString r) \<Rightarrow> ''role:'' @ r
      | _ \<Rightarrow> ''role:unknown'')"

lemma size_member_object [termination_simp]: "(k, v) \<in> set es \<Longrightarrow> size v < Suc (size_list (size_prod (\<lambda>_. 0) size) es)"
proof -
  assume "(k, v) \<in> set es"
  from size_list_estimation' [OF this, of "size v" "size_prod (\<lambda>_. 0) size"]
  show ?thesis by simp
qed

fun canonical :: "(json \<Rightarrow> string) \<Rightarrow> json \<Rightarrow> string" where
  "canonical stringify (JArray xs) = ''['' @ join_with '','' (map (canonical stringify) xs) @ '']''"
| "canonical stringify (JObject es) =
     ''{'' @ join_with '',''
       (map (\<lambda>(k, s). stringify (JString k) @ '':'' @ s)
         (js_sort (\<lambda>a b. string_cmp (fst a) (fst b)) (map (\<lambda>(k, v). (k, canonical stringify v)) es))) @ ''}''"
| "canonical stringify v = stringify v"

definition command_name :: "IdempotentLaunchCommand \<Rightarrow> string" where
  "command_name c =
     (case c of StartTask \<Rightarrow> ''startTask'' | UnblockTask \<Rightarrow> ''unblockTask'' | ResumeTask \<Rightarrow> ''resumeTask''
      | AskTask \<Rightarrow> ''askTask'' | ReviewAsk \<Rightarrow> ''reviewAsk'')"

definition launchFingerprint ::
    "(json \<Rightarrow> string) \<Rightarrow> (string \<Rightarrow> string) \<Rightarrow> IdempotentLaunchCommand \<Rightarrow> (string \<times> json) list \<Rightarrow> string \<Rightarrow> string" where
  "launchFingerprint stringify sha256 command params taskId =
     sha256 (canonical stringify (JObject
       [(''command'', JString (command_name command)), (''taskId'', JString taskId),
        (''payload'', JObject (filter (\<lambda>(k, v). k \<notin> set VOLATILE_PARAMS \<and> k \<noteq> ''taskId'') params))]))"

definition record_key :: "json option \<Rightarrow> string \<Rightarrow> string" where
  "record_key actor key = callerScope actor @ [CHR 0x00] @ key"

section \<open>Records\<close>

datatype LaunchState = Launching | LaunchDone | LaunchFailed

record LaunchRecord =
  lr_command :: IdempotentLaunchCommand
  lr_fingerprint :: string
  lr_state :: LaunchState
  lr_at :: int
  lr_turnsBefore :: nat
  lr_statusBefore :: TaskStatus
  lr_result :: "string option"
  lr_error :: "(nat \<times> string) option"
  lr_wroteTurns :: bool

type_synonym Records = "(string, LaunchRecord) omap"

text \<open>\<open>writeRecords\<close> stores the records oldest first and keeps the last fifty.\<close>

definition writeRecords :: "Records \<Rightarrow> Records" where
  "writeRecords records =
     (let entries = js_sort (by_key (\<lambda>e. lr_at (snd e))) records
      in drop (length entries - MAX_RECORDS_PER_TASK) entries)"

section \<open>The daemon\<close>

datatype LaunchPhase = Running | Settled

record Launch =
  la_request :: nat
  la_key :: string
  la_command :: IdempotentLaunchCommand
  la_turnsBefore :: nat
  la_statusBefore :: TaskStatus
  la_phase :: LaunchPhase
  la_wrote :: nat

text \<open>\<open>dm_launches\<close> holds every launch that was ever run, in order; a launch is \<open>Running\<close> until its
  outcome was settled or its process died.\<close>

record Daemon =
  dm_records :: Records
  dm_inFlight :: "(string, nat) omap"
  dm_turns :: nat
  dm_status :: TaskStatus
  dm_launches :: "Launch list"

datatype Decision =
    RunLaunch
  | JoinLaunch nat
  | ReplayRecord LaunchRecord
  | KeyMismatch LaunchRecord
  | OutcomeUnknown TaskStatus

text \<open>Only \<open>reviewAsk\<close> passes \<open>failuresAreFinal\<close>.\<close>

definition failuresAreFinal :: "IdempotentLaunchCommand \<Rightarrow> bool" where
  "failuresAreFinal command \<longleftrightarrow> command = ReviewAsk"

definition decide :: "Daemon \<Rightarrow> string \<Rightarrow> IdempotentLaunchCommand \<Rightarrow> string \<Rightarrow> Decision" where
  "decide dm recordKey command fingerprint =
     (case omap_get (dm_records dm) recordKey of
        None \<Rightarrow> RunLaunch
      | Some existing \<Rightarrow>
          if lr_fingerprint existing \<noteq> fingerprint \<or> lr_command existing \<noteq> command then KeyMismatch existing
          else (case lr_state existing of
                  Launching \<Rightarrow>
                    (case omap_get (dm_inFlight dm) recordKey of
                       Some running \<Rightarrow> JoinLaunch running
                     | None \<Rightarrow> OutcomeUnknown (dm_status dm))
                | LaunchDone \<Rightarrow> ReplayRecord existing
                | LaunchFailed \<Rightarrow>
                    if lr_wroteTurns existing \<or> failuresAreFinal command then ReplayRecord existing else RunLaunch))"

text \<open>The claim of a request that is to run: the record is written before the launch starts.\<close>

definition claim :: "Daemon \<Rightarrow> nat \<Rightarrow> string \<Rightarrow> IdempotentLaunchCommand \<Rightarrow> string \<Rightarrow> int \<Rightarrow> Daemon" where
  "claim dm request recordKey command fingerprint now =
     dm\<lparr>dm_records := writeRecords (omap_set (dm_records dm) recordKey
          \<lparr>lr_command = command, lr_fingerprint = fingerprint, lr_state = Launching, lr_at = now,
           lr_turnsBefore = dm_turns dm, lr_statusBefore = dm_status dm, lr_result = None, lr_error = None,
           lr_wroteTurns = False\<rparr>),
        dm_inFlight := omap_set (dm_inFlight dm) recordKey request,
        dm_launches := dm_launches dm @
          [\<lparr>la_request = request, la_key = recordKey, la_command = command, la_turnsBefore = dm_turns dm,
            la_statusBefore = dm_status dm, la_phase = Running, la_wrote = 0\<rparr>]\<rparr>"

text \<open>How a launch ended: its result, or an error with its status, its message and whether its code
  was \<open>task_busy\<close>.\<close>

datatype Outcome = Answered string | Threw nat string bool

definition was_busy :: "Outcome \<Rightarrow> bool" where
  "was_busy outcome \<longleftrightarrow> (case outcome of Threw status message taskBusy \<Rightarrow> taskBusy | Answered result \<Rightarrow> False)"

definition busy_status :: "TaskStatus \<Rightarrow> bool" where
  "busy_status s \<longleftrightarrow> s = Working \<or> s = Pairing"

text \<open>The turns counted after a failure, \<open>None\<close> when they could not be read.\<close>

definition wrote_turns :: "Launch \<Rightarrow> bool \<Rightarrow> nat option \<Rightarrow> bool" where
  "wrote_turns l taskBusy counted =
     (if taskBusy \<or> busy_status (la_statusBefore l) then False
      else (case counted of Some n \<Rightarrow> n | None \<Rightarrow> la_turnsBefore l + 1) > la_turnsBefore l)"

definition outcome_record :: "Launch \<Rightarrow> Outcome \<Rightarrow> nat option \<Rightarrow> int \<Rightarrow> LaunchRecord \<Rightarrow> LaunchRecord" where
  "outcome_record l outcome counted now r =
     (case outcome of
        Answered result \<Rightarrow> r\<lparr>lr_state := LaunchDone, lr_result := Some result, lr_at := now\<rparr>
      | Threw status message taskBusy \<Rightarrow>
          r\<lparr>lr_state := LaunchFailed, lr_wroteTurns := wrote_turns l taskBusy counted,
            lr_error := Some (status, message), lr_at := now\<rparr>)"

definition settle :: "Records \<Rightarrow> string \<Rightarrow> (LaunchRecord \<Rightarrow> LaunchRecord) \<Rightarrow> Records" where
  "settle records recordKey update =
     (case omap_get records recordKey of
        None \<Rightarrow> records
      | Some current \<Rightarrow> writeRecords (omap_set records recordKey (update current)))"

definition set_launch :: "nat \<Rightarrow> (Launch \<Rightarrow> Launch) \<Rightarrow> Launch list \<Rightarrow> Launch list" where
  "set_launch request f ls = map (\<lambda>l. if la_request l = request then f l else l) ls"

definition turn_written :: "Daemon \<Rightarrow> Launch \<Rightarrow> Daemon" where
  "turn_written dm l =
     dm\<lparr>dm_turns := dm_turns dm + 1,
        dm_launches := set_launch (la_request l) (\<lambda>l. l\<lparr>la_wrote := la_wrote l + 1\<rparr>) (dm_launches dm)\<rparr>"

text \<open>The outcome is recorded, unless the store would not take it.\<close>

definition finished :: "Daemon \<Rightarrow> Launch \<Rightarrow> Outcome \<Rightarrow> nat option \<Rightarrow> int \<Rightarrow> bool \<Rightarrow> Daemon" where
  "finished dm l outcome counted now stored =
     dm\<lparr>dm_records := (if stored then settle (dm_records dm) (la_key l) (outcome_record l outcome counted now)
                        else dm_records dm),
        dm_launches := set_launch (la_request l) (\<lambda>l. l\<lparr>la_phase := Settled\<rparr>) (dm_launches dm)\<rparr>"

text \<open>Steps. With \<open>busy_refuses\<close> a launch that was claimed while the task was busy, or that fails with
  \<open>task_busy\<close>, has written no turn, which is what the source relies on.\<close>

inductive launch_step :: "bool \<Rightarrow> Daemon \<Rightarrow> Daemon \<Rightarrow> bool" for busy_refuses where
  start: "decide dm key command fp = RunLaunch \<Longrightarrow> request \<notin> la_request ` set (dm_launches dm) \<Longrightarrow>
    launch_step busy_refuses dm (claim dm request key command fp now)"
| write_turn: "l \<in> set (dm_launches dm) \<Longrightarrow> la_phase l = Running \<Longrightarrow>
    \<not> (busy_refuses \<and> busy_status (la_statusBefore l)) \<Longrightarrow>
    launch_step busy_refuses dm
      (turn_written dm l)"
| other_activity: "dm_turns dm \<le> n \<Longrightarrow> launch_step busy_refuses dm (dm\<lparr>dm_turns := n, dm_status := status\<rparr>)"
| finish: "l \<in> set (dm_launches dm) \<Longrightarrow> la_phase l = Running \<Longrightarrow>
    \<not> (busy_refuses \<and> was_busy outcome \<and> la_wrote l > 0) \<Longrightarrow>
    counted = Some (dm_turns dm) \<or> counted = None \<Longrightarrow>
    launch_step busy_refuses dm
      (finished dm l outcome counted now stored)"
| leave_flight: "l \<in> set (dm_launches dm) \<Longrightarrow> la_phase l = Settled \<Longrightarrow>
    launch_step busy_refuses dm (dm\<lparr>dm_inFlight := omap_delete (dm_inFlight dm) (la_key l)\<rparr>)"
| die: "launch_step busy_refuses dm
    (dm\<lparr>dm_inFlight := [], dm_launches := map (\<lambda>l. l\<lparr>la_phase := Settled\<rparr>) (dm_launches dm)\<rparr>)"

definition fresh_daemon :: "nat \<Rightarrow> TaskStatus \<Rightarrow> Daemon" where
  "fresh_daemon turns status = \<lparr>dm_records = [], dm_inFlight = [], dm_turns = turns, dm_status = status, dm_launches = []\<rparr>"

definition on_key :: "string \<Rightarrow> Launch list \<Rightarrow> Launch list" where
  "on_key k ls = filter (\<lambda>l. la_key l = k) ls"

text \<open>The launches under a key that wrote a turn.\<close>

definition writers :: "string \<Rightarrow> Launch list \<Rightarrow> Launch list" where
  "writers k ls = filter (\<lambda>l. la_wrote l > 0) (on_key k ls)"

section \<open>No record is dropped\<close>

lemma get_permuted:
  assumes "omap_ok m" and "mset m' = mset m"
  shows "omap_ok m' \<and> omap_get m' k = omap_get m k"
proof -
  have ok: "omap_ok m'"
    unfolding omap_keys_def using assms by (metis mset_eq_imp_distinct_iff mset_map omap_keys_def)
  have "omap_get m' k = Some v \<longleftrightarrow> omap_get m k = Some v" for v
    using omap_in_get [OF ok, of k v] omap_in_get [OF assms(1), of k v] omap_get_in [of m' k v] omap_get_in [of m k v]
      mset_eq_setD [OF assms(2)] by blast
  then show ?thesis using ok by (metis option.exhaust)
qed

lemma writeRecords_keeps:
  assumes "omap_ok m" and "length m \<le> MAX_RECORDS_PER_TASK"
  shows "omap_ok (writeRecords m) \<and> omap_get (writeRecords m) k = omap_get m k \<and>
    set (omap_keys (writeRecords m)) = set (omap_keys m) \<and> length (writeRecords m) = length m"
proof -
  have w: "writeRecords m = js_sort (by_key (\<lambda>e. lr_at (snd e))) m"
    using assms(2) by (simp add: writeRecords_def Let_def)
  have "mset (writeRecords m) = mset m" by (simp add: w)
  then show ?thesis using get_permuted [OF assms(1), of "writeRecords m"] by (simp add: omap_keys_def w)
qed

section \<open>The invariant\<close>

text \<open>What holds under one key, of the launches run under it and of its record.\<close>

definition key_ok :: "Launch set \<Rightarrow> LaunchRecord option \<Rightarrow> bool" where
  "key_ok L r \<longleftrightarrow>
     (case r of
        None \<Rightarrow> L = {}
      | Some rec \<Rightarrow>
          (\<forall>l \<in> L. la_command l = lr_command rec) \<and>
          (\<forall>l \<in> L. \<forall>l' \<in> L. (la_wrote l > 0 \<and> la_wrote l' > 0) \<or> failuresAreFinal (lr_command rec) \<longrightarrow>
              la_request l = la_request l') \<and>
          (lr_state rec = LaunchFailed \<and> \<not> lr_wroteTurns rec \<longrightarrow> (\<forall>l \<in> L. la_wrote l = 0)) \<and>
          (\<forall>l \<in> L. la_phase l = Running \<longrightarrow> lr_state rec = Launching \<and>
              (\<forall>l' \<in> L. la_request l' \<noteq> la_request l \<longrightarrow> la_wrote l' = 0 \<and> la_phase l' = Settled)))"

definition under :: "string \<Rightarrow> Launch list \<Rightarrow> Launch set" where
  "under k ls = {l \<in> set ls. la_key l = k}"

definition launches_ok :: "bool \<Rightarrow> Daemon \<Rightarrow> bool" where
  "launches_ok busy_refuses dm \<longleftrightarrow>
     distinct (map la_request (dm_launches dm)) \<and>
     (\<forall>l \<in> set (dm_launches dm). (la_phase l = Running \<longrightarrow> la_turnsBefore l + la_wrote l \<le> dm_turns dm) \<and>
        (busy_refuses \<and> busy_status (la_statusBefore l) \<longrightarrow> la_wrote l = 0))"

definition records_ok :: "Daemon \<Rightarrow> bool" where
  "records_ok dm \<longleftrightarrow> omap_ok (dm_records dm) \<and>
     set (omap_keys (dm_records dm)) \<subseteq> la_key ` set (dm_launches dm) \<and>
     (\<forall>k. key_ok (under k (dm_launches dm)) (omap_get (dm_records dm) k))"

abbreviation keys_used :: "Daemon \<Rightarrow> string set" where
  "keys_used dm \<equiv> la_key ` set (dm_launches dm)"

lemma records_length: "omap_ok m \<Longrightarrow> length m = card (set (omap_keys m))"
  by (metis distinct_card length_map omap_keys_def)

lemma same_request:
  assumes "distinct (map la_request ls)" and "l \<in> set ls" and "l' \<in> set ls"
  shows "la_request l' = la_request l \<longleftrightarrow> l' = l"
  using assms by (auto simp: distinct_map inj_on_def)

text \<open>Changing one launch in place.\<close>

lemma set_launch_requests: "\<forall>l. la_request (f l) = la_request l \<Longrightarrow> map la_request (set_launch q f ls) = map la_request ls"
  by (simp add: set_launch_def)

lemma set_launch_keys:
  assumes "\<forall>l. la_key (f l) = la_key l"
  shows "la_key ` set (set_launch q f ls) = la_key ` set ls"
proof -
  have "map la_key (set_launch q f ls) = map la_key ls" using assms by (simp add: set_launch_def)
  then show ?thesis by (metis list.set_map)
qed

lemma set_launch_set:
  assumes "distinct (map la_request ls)" and "l \<in> set ls"
  shows "set (set_launch (la_request l) f ls) = insert (f l) (set ls - {l})"
proof -
  have "set (set_launch (la_request l) f ls) = (\<lambda>x. if x = l then f l else x) ` set ls"
    unfolding set_launch_def set_map using same_request [OF assms] by (intro image_cong) auto
  then show ?thesis using assms(2) by auto
qed

lemma set_launch_under:
  assumes "distinct (map la_request ls)" and "l \<in> set ls" and "la_key (f l) = la_key l"
  shows "under k (set_launch (la_request l) f ls) =
    (if k = la_key l then insert (f l) (under k ls - {l}) else under k ls)"
  unfolding under_def set_launch_set [OF assms(1,2)] using assms(2,3) by auto

lemma under_map:
  "\<forall>l. la_key (f l) = la_key l \<Longrightarrow> under k (map f ls) = f ` under k ls"
  by (auto simp: under_def)

lemma under_snoc: "under k (ls @ [l]) = (if la_key l = k then insert l (under k ls) else under k ls)"
  by (auto simp: under_def)

lemma key_ok_None [simp]: "key_ok L None \<longleftrightarrow> L = {}"
  by (simp add: key_ok_def)

lemma key_okD:
  assumes "key_ok L (Some r)"
  shows "x \<in> L \<Longrightarrow> la_command x = lr_command r"
    and "x \<in> L \<Longrightarrow> y \<in> L \<Longrightarrow> la_wrote x > 0 \<Longrightarrow> la_wrote y > 0 \<Longrightarrow> la_request x = la_request y"
    and "x \<in> L \<Longrightarrow> y \<in> L \<Longrightarrow> failuresAreFinal (lr_command r) \<Longrightarrow> la_request x = la_request y"
    and "x \<in> L \<Longrightarrow> lr_state r = LaunchFailed \<Longrightarrow> \<not> lr_wroteTurns r \<Longrightarrow> la_wrote x = 0"
    and "x \<in> L \<Longrightarrow> la_phase x = Running \<Longrightarrow> lr_state r = Launching"
    and "x \<in> L \<Longrightarrow> la_phase x = Running \<Longrightarrow> y \<in> L \<Longrightarrow> la_request y \<noteq> la_request x \<Longrightarrow> la_wrote y = 0 \<and> la_phase y = Settled"
  using assms unfolding key_ok_def option.simps by blast+

text \<open>Under a key only one launch at a time can still do anything; the rest are settled and wrote nothing.\<close>

definition alone :: "Launch \<Rightarrow> Launch set \<Rightarrow> IdempotentLaunchCommand \<Rightarrow> bool" where
  "alone l others command \<longleftrightarrow>
     la_command l = command \<and> (\<forall>x \<in> others. la_command x = command \<and> la_wrote x = 0 \<and> la_phase x = Settled) \<and>
     (failuresAreFinal command \<longrightarrow> others = {})"

lemma key_ok_running:
  assumes "key_ok L (Some r)" and "l \<in> L" and "la_phase l = Running" and "inj_on la_request L"
  shows "lr_state r = Launching \<and> alone l (L - {l}) (lr_command r)"
proof -
  have other: "x \<in> L - {l} \<Longrightarrow> x \<in> L \<and> la_request x \<noteq> la_request l" for x
    using assms(2,4) by (auto simp: inj_on_def)
  have "lr_state r = Launching" using key_okD(5) [OF assms(1-3)] .
  moreover have "la_command x = lr_command r" if "x \<in> L" for x using key_okD(1) [OF assms(1) \<open>x \<in> L\<close>] .
  moreover have "la_wrote x = 0 \<and> la_phase x = Settled" if "x \<in> L - {l}" for x
    using key_okD(6) [OF assms(1-3), of x] other [OF \<open>x \<in> L - {l}\<close>] by blast
  moreover have "L - {l} = {}" if "failuresAreFinal (lr_command r)"
    using key_okD(3) [OF assms(1) _ assms(2) \<open>failuresAreFinal (lr_command r)\<close>] other by blast
  ultimately show ?thesis unfolding alone_def using assms(2) by blast
qed

lemma key_ok_alone:
  assumes "alone l K (lr_command r)" and "la_phase l = Running \<Longrightarrow> lr_state r = Launching"
    and "lr_state r = LaunchFailed \<Longrightarrow> \<not> lr_wroteTurns r \<Longrightarrow> la_wrote l = 0"
  shows "key_ok (insert l K) (Some r)"
proof -
  have k: "la_command x = lr_command r \<and> la_wrote x = 0 \<and> la_phase x = Settled" if "x \<in> K" for x
    using assms(1) \<open>x \<in> K\<close> unfolding alone_def by blast
  have l: "la_command l = lr_command r" and f: "failuresAreFinal (lr_command r) \<Longrightarrow> K = {}"
    using assms(1) unfolding alone_def by blast+
  have kn: "\<not> la_wrote x > 0" "la_phase x \<noteq> Running" if "x \<in> K" for x using k [OF \<open>x \<in> K\<close>] by simp_all
  have "\<forall>x \<in> insert l K. la_command x = lr_command r" using k l by blast
  moreover have "\<forall>x \<in> insert l K. \<forall>y \<in> insert l K. (la_wrote x > 0 \<and> la_wrote y > 0) \<or> failuresAreFinal (lr_command r) \<longrightarrow>
      la_request x = la_request y"
    using kn(1) f by blast
  moreover have "lr_state r = LaunchFailed \<and> \<not> lr_wroteTurns r \<longrightarrow> (\<forall>x \<in> insert l K. la_wrote x = 0)"
    using k assms(3) by (intro impI ballI) (erule insertE, simp_all)
  moreover have "\<forall>x \<in> insert l K. la_phase x = Running \<longrightarrow> lr_state r = Launching \<and>
      (\<forall>y \<in> insert l K. la_request y \<noteq> la_request x \<longrightarrow> la_wrote y = 0 \<and> la_phase y = Settled)"
    using k kn(2) assms(2) by blast
  ultimately show ?thesis unfolding key_ok_def option.simps by blast
qed

text \<open>A running launch writes a turn, or ends with its record written or left as it was.\<close>

lemma key_ok_change:
  assumes "key_ok L (Some r)" and "l \<in> L" and "la_phase l = Running" and "inj_on la_request L"
    and "la_command (f l) = la_command l" and "lr_command r' = lr_command r"
    and "la_phase (f l) = Running \<Longrightarrow> lr_state r' = Launching"
    and "lr_state r' = LaunchFailed \<Longrightarrow> \<not> lr_wroteTurns r' \<Longrightarrow> la_wrote (f l) = 0"
  shows "key_ok (insert (f l) (L - {l})) (Some r')"
proof (rule key_ok_alone)
  show "alone (f l) (L - {l}) (lr_command r')"
    using key_ok_running [OF assms(1-4)] assms(5,6) by (simp add: alone_def)
qed (use assms(7,8) in auto)

text \<open>A request is claimed: there was no record, or a failure that wrote nothing and may be tried again.\<close>

lemma key_ok_claim:
  assumes "key_ok L r" and "L \<noteq> {} \<Longrightarrow> \<exists>r0. r = Some r0 \<and> lr_command r0 = command \<and> lr_state r0 = LaunchFailed \<and>
      \<not> lr_wroteTurns r0 \<and> \<not> failuresAreFinal command"
    and "la_command l = command" and "lr_command r' = command" and "lr_state r' = Launching"
  shows "key_ok (insert l L) (Some r')"
proof (rule key_ok_alone)
  have "la_command x = command \<and> la_wrote x = 0 \<and> la_phase x = Settled \<and> \<not> failuresAreFinal command" if "x \<in> L" for x
  proof -
    obtain r0 where r0: "r = Some r0" "lr_command r0 = command" "lr_state r0 = LaunchFailed" "\<not> lr_wroteTurns r0"
      "\<not> failuresAreFinal command" using assms(2) \<open>x \<in> L\<close> by blast
    have k: "key_ok L (Some r0)" using assms(1) r0(1) by simp
    have "la_phase x \<noteq> Running" using key_okD(5) [OF k \<open>x \<in> L\<close>] r0(3) by fastforce
    then have "la_phase x = Settled" by (cases "la_phase x") simp_all
    then show ?thesis using key_okD(1,4) [OF k \<open>x \<in> L\<close>] r0(2-5) by simp
  qed
  then show "alone l L (lr_command r')" using assms(3,4) by (auto simp: alone_def)
qed (use assms(5) in auto)

lemma key_ok_die:
  assumes "key_ok L r"
  shows "key_ok ((\<lambda>l. l\<lparr>la_phase := Settled\<rparr>) ` L) r"
proof (cases r)
  case None
  then show ?thesis using assms by simp
next
  case (Some r0)
  have k: "key_ok L (Some r0)" using assms Some by simp
  let ?f = "\<lambda>l. l\<lparr>la_phase := Settled\<rparr>"
  have same: "la_command (?f x) = la_command x" "la_wrote (?f x) = la_wrote x" "la_request (?f x) = la_request x"
    "la_phase (?f x) \<noteq> Running" for x :: Launch by simp_all
  show ?thesis unfolding Some key_ok_def option.simps ball_simps same
    using key_okD(1-4) [OF k] same(4) by blast
qed

section \<open>Every step keeps it\<close>

definition idempotent :: "Daemon \<Rightarrow> bool" where
  "idempotent dm \<longleftrightarrow> launches_ok True dm \<and> records_ok dm"

lemma launches_ok_set:
  assumes "launches_ok b dm" and "l \<in> set (dm_launches dm)" and "\<forall>x. la_request (f x) = la_request x"
    and "la_phase (f l) = Running \<Longrightarrow> la_turnsBefore (f l) + la_wrote (f l) \<le> n"
    and "b \<Longrightarrow> busy_status (la_statusBefore (f l)) \<Longrightarrow> la_wrote (f l) = 0" and "dm_turns dm \<le> n"
  shows "launches_ok b (dm\<lparr>dm_turns := n, dm_records := rs, dm_launches := set_launch (la_request l) f (dm_launches dm)\<rparr>)"
proof -
  have d: "distinct (map la_request (dm_launches dm))" using assms(1) by (simp add: launches_ok_def)
  have all: "\<forall>x \<in> set (dm_launches dm). (la_phase x = Running \<longrightarrow> la_turnsBefore x + la_wrote x \<le> n) \<and>
      (b \<and> busy_status (la_statusBefore x) \<longrightarrow> la_wrote x = 0)"
    using assms(1,6) unfolding launches_ok_def by (meson le_trans)
  show ?thesis unfolding launches_ok_def
    using d all assms(4,5) by (simp add: set_launch_requests [OF assms(3)] set_launch_set [OF d assms(2)])
qed

lemma inj_under: "distinct (map la_request ls) \<Longrightarrow> inj_on la_request (under k ls)"
  by (auto simp: distinct_map under_def intro: inj_on_subset)

lemma running_has_record:
  assumes "records_ok dm" and "l \<in> set (dm_launches dm)"
  obtains r where "omap_get (dm_records dm) (la_key l) = Some r" and "key_ok (under (la_key l) (dm_launches dm)) (Some r)"
proof -
  have k: "key_ok (under (la_key l) (dm_launches dm)) (omap_get (dm_records dm) (la_key l))"
    using assms(1) by (simp add: records_ok_def)
  have "l \<in> under (la_key l) (dm_launches dm)" using assms(2) by (simp add: under_def)
  then show ?thesis using k that by (cases "omap_get (dm_records dm) (la_key l)") auto
qed

text \<open>A running launch is changed in place and its record replaced.\<close>

lemma records_ok_set:
  assumes inv: "launches_ok b dm" "records_ok dm" and l: "l \<in> set (dm_launches dm)" "la_phase l = Running"
    and f: "\<forall>x. la_key (f x) = la_key x" "la_command (f l) = la_command l"
    and r: "omap_get (dm_records dm) (la_key l) = Some r"
    and rs: "omap_ok rs" "set (omap_keys rs) = set (omap_keys (dm_records dm))" "omap_get rs (la_key l) = Some r'"
      "\<forall>k. k \<noteq> la_key l \<longrightarrow> omap_get rs k = omap_get (dm_records dm) k"
    and r': "lr_command r' = lr_command r" "la_phase (f l) = Running \<Longrightarrow> lr_state r' = Launching"
      "lr_state r' = LaunchFailed \<Longrightarrow> \<not> lr_wroteTurns r' \<Longrightarrow> la_wrote (f l) = 0"
  shows "records_ok (dm\<lparr>dm_turns := n, dm_records := rs, dm_launches := set_launch (la_request l) f (dm_launches dm)\<rparr>)"
proof -
  have d: "distinct (map la_request (dm_launches dm))" using inv(1) by (simp add: launches_ok_def)
  have k: "key_ok (under (la_key l) (dm_launches dm)) (Some r)" using inv(2) r by (metis records_ok_def)
  have mem: "l \<in> under (la_key l) (dm_launches dm)" using l by (simp add: under_def)
  have new: "key_ok (insert (f l) (under (la_key l) (dm_launches dm) - {l})) (Some r')"
    using key_ok_change [of "under (la_key l) (dm_launches dm)" r l f r'] k mem l(2) inj_under [OF d] f(2) r' by blast
  have "key_ok (under k (set_launch (la_request l) f (dm_launches dm))) (omap_get rs k)" for k
    unfolding set_launch_under [of "dm_launches dm" l f, OF d l(1) f(1) [rule_format]]
    using new rs(3,4) inv(2) unfolding records_ok_def by (cases "k = la_key l") simp_all
  then show ?thesis
    using inv(2) rs(1,2) by (simp add: records_ok_def set_launch_keys [OF f(1)])
qed

lemma settle_records:
  assumes "records_ok dm" and "card (keys_used dm) \<le> MAX_RECORDS_PER_TASK" and "omap_get (dm_records dm) k = Some r"
  shows "omap_ok (settle (dm_records dm) k u)" and "set (omap_keys (settle (dm_records dm) k u)) = set (omap_keys (dm_records dm))"
    and "omap_get (settle (dm_records dm) k u) k = Some (u r)"
    and "j \<noteq> k \<Longrightarrow> omap_get (settle (dm_records dm) k u) j = omap_get (dm_records dm) j"
proof -
  let ?m = "omap_set (dm_records dm) k (u r)"
  have ok: "omap_ok (dm_records dm)" and sub: "set (omap_keys (dm_records dm)) \<subseteq> keys_used dm"
    using assms(1) by (simp_all add: records_ok_def)
  have keys: "set (omap_keys ?m) = set (omap_keys (dm_records dm))"
    using omap_get_in_keys [OF assms(3)] by auto
  have okm: "omap_ok ?m" using ok by simp
  have "length ?m = card (set (omap_keys (dm_records dm)))" using records_length [OF okm] keys by simp
  also have "\<dots> \<le> card (keys_used dm)" by (rule card_mono) (use sub in auto)
  finally have len: "length ?m \<le> MAX_RECORDS_PER_TASK" using assms(2) by simp
  note w = writeRecords_keeps [OF okm len]
  have s: "settle (dm_records dm) k u = writeRecords ?m" by (simp add: settle_def assms(3))
  show "omap_ok (settle (dm_records dm) k u)" "set (omap_keys (settle (dm_records dm) k u)) = set (omap_keys (dm_records dm))"
    "omap_get (settle (dm_records dm) k u) k = Some (u r)" "j \<noteq> k \<Longrightarrow> omap_get (settle (dm_records dm) k u) j = omap_get (dm_records dm) j"
    using w keys by (simp_all add: s)
qed

lemma claim_records:
  assumes "records_ok dm" and "card (keys_used (claim dm q k c fp now)) \<le> MAX_RECORDS_PER_TASK"
  defines "rs \<equiv> dm_records (claim dm q k c fp now)"
  shows "omap_ok rs" and "set (omap_keys rs) = insert k (set (omap_keys (dm_records dm)))"
    and "\<exists>r. omap_get rs k = Some r \<and> lr_command r = c \<and> lr_state r = Launching"
    and "j \<noteq> k \<Longrightarrow> omap_get rs j = omap_get (dm_records dm) j"
proof -
  obtain r where r: "rs = writeRecords (omap_set (dm_records dm) k r)" "lr_command r = c" "lr_state r = Launching"
    by (simp add: rs_def claim_def)
  have okm: "omap_ok (omap_set (dm_records dm) k r)" and sub: "set (omap_keys (dm_records dm)) \<subseteq> keys_used dm"
    using assms(1) by (simp_all add: records_ok_def)
  have "length (omap_set (dm_records dm) k r) = card (insert k (set (omap_keys (dm_records dm))))"
    using records_length [OF okm] by simp
  also have "\<dots> \<le> card (keys_used (claim dm q k c fp now))" by (rule card_mono) (use sub in \<open>auto simp: claim_def\<close>)
  finally have len: "length (omap_set (dm_records dm) k r) \<le> MAX_RECORDS_PER_TASK" using assms(2) by simp
  note w = writeRecords_keeps [OF okm len]
  show "omap_ok rs" "set (omap_keys rs) = insert k (set (omap_keys (dm_records dm)))"
    "\<exists>r. omap_get rs k = Some r \<and> lr_command r = c \<and> lr_state r = Launching"
    "j \<noteq> k \<Longrightarrow> omap_get rs j = omap_get (dm_records dm) j"
    using w r by simp_all
qed

lemma decide_run:
  assumes "decide dm k c fp = RunLaunch" and "omap_get (dm_records dm) k = Some r"
  shows "lr_command r = c \<and> lr_state r = LaunchFailed \<and> \<not> lr_wroteTurns r \<and> \<not> failuresAreFinal c"
  using assms by (auto simp: decide_def split: if_splits LaunchState.splits option.splits)

lemma idempotent_claim:
  assumes inv: "idempotent dm" and run: "decide dm k c fp = RunLaunch" and fresh: "q \<notin> la_request ` set (dm_launches dm)"
    and few: "card (keys_used (claim dm q k c fp now)) \<le> MAX_RECORDS_PER_TASK"
  shows "idempotent (claim dm q k c fp now)"
proof -
  have rok: "records_ok dm" and lok: "launches_ok True dm" using inv by (simp_all add: idempotent_def)
  obtain l where l: "dm_launches (claim dm q k c fp now) = dm_launches dm @ [l]" "la_key l = k" "la_command l = c"
    "la_request l = q" "la_wrote l = 0" "la_turnsBefore l = dm_turns dm" "dm_turns (claim dm q k c fp now) = dm_turns dm"
    by (simp add: claim_def)
  note c = claim_records [OF rok few]
  obtain r' where r': "omap_get (dm_records (claim dm q k c fp now)) k = Some r'" "lr_command r' = c" "lr_state r' = Launching"
    using c(3) by blast
  have old: "key_ok (under j (dm_launches dm)) (omap_get (dm_records dm) j)" for j using rok by (simp add: records_ok_def)
  have had: "\<exists>r0. omap_get (dm_records dm) k = Some r0 \<and> lr_command r0 = c \<and> lr_state r0 = LaunchFailed \<and>
      \<not> lr_wroteTurns r0 \<and> \<not> failuresAreFinal c" if "under k (dm_launches dm) \<noteq> {}"
  proof -
    obtain r0 where "omap_get (dm_records dm) k = Some r0" using old [of k] \<open>under k (dm_launches dm) \<noteq> {}\<close>
      by (cases "omap_get (dm_records dm) k") auto
    then show ?thesis using decide_run [OF run] by blast
  qed
  have "key_ok (insert l (under k (dm_launches dm))) (Some r')"
    using key_ok_claim [of "under k (dm_launches dm)" "omap_get (dm_records dm) k" c l r'] old had l(3) r'(2,3) by blast
  then have "key_ok (under j (dm_launches (claim dm q k c fp now))) (omap_get (dm_records (claim dm q k c fp now)) j)" for j
    using old [of j] c(4) [of j] r'(1) l(2) by (cases "j = k") (simp_all add: l(1) under_snoc)
  then have "records_ok (claim dm q k c fp now)"
    using c(1,2) rok l(2) by (auto simp: records_ok_def l(1))
  moreover have "launches_ok True (claim dm q k c fp now)"
    using lok fresh l(4-7) by (simp add: launches_ok_def l(1))
  ultimately show ?thesis by (simp add: idempotent_def)
qed

lemma wrote_turns_honest:
  assumes "\<not> wrote_turns l taskBusy counted" and "counted = Some n \<or> counted = None" and "la_turnsBefore l + la_wrote l \<le> n"
    and "busy_status (la_statusBefore l) \<Longrightarrow> la_wrote l = 0" and "taskBusy \<Longrightarrow> la_wrote l = 0"
  shows "la_wrote l = 0"
  using assms by (auto simp: wrote_turns_def split: if_splits)

lemma outcome_record_state:
  "lr_command (outcome_record l outcome counted now r) = lr_command r \<and> lr_state (outcome_record l outcome counted now r) \<noteq> Launching"
  by (cases outcome) (simp_all add: outcome_record_def)

lemma idempotent_step:
  assumes "launch_step True dm dm'" and "idempotent dm" and "card (keys_used dm') \<le> MAX_RECORDS_PER_TASK"
  shows "idempotent dm'"
  using assms
proof cases
  case (start k c fp q now)
  then show ?thesis using assms idempotent_claim by blast
next
  case (write_turn l)
  let ?f = "\<lambda>l. l\<lparr>la_wrote := la_wrote l + 1\<rparr>"
  have rok: "records_ok dm" and lok: "launches_ok True dm" using assms(2) by (simp_all add: idempotent_def)
  obtain r where r: "omap_get (dm_records dm) (la_key l) = Some r" "key_ok (under (la_key l) (dm_launches dm)) (Some r)"
    using running_has_record [OF rok write_turn(2)] .
  have mem: "l \<in> under (la_key l) (dm_launches dm)" using write_turn(2) by (simp add: under_def)
  have st: "lr_state r = Launching" using key_okD(5) [OF r(2) mem write_turn(3)] .
  have okr: "omap_ok (dm_records dm)" using rok by (simp add: records_ok_def)
  have before: "la_turnsBefore l + la_wrote l \<le> dm_turns dm" using lok write_turn(2,3) by (simp add: launches_ok_def)
  have form: "dm' = dm\<lparr>dm_turns := dm_turns dm + 1, dm_records := dm_records dm,
      dm_launches := set_launch (la_request l) ?f (dm_launches dm)\<rparr>" using write_turn(1) by (simp add: turn_written_def)
  have "records_ok dm'" unfolding form
    by (rule records_ok_set [OF lok rok write_turn(2,3) _ _ r(1) okr refl r(1)]) (simp_all add: st)
  moreover have "launches_ok True dm'" unfolding form
    by (rule launches_ok_set [OF lok write_turn(2)]) (use before write_turn(4) in simp_all)
  ultimately show ?thesis by (simp add: idempotent_def)
next
  case (other_activity n status)
  then show ?thesis using assms(2) by (auto simp: idempotent_def launches_ok_def records_ok_def intro: le_trans)
next
  case (finish l outcome counted now stored)
  let ?f = "\<lambda>l. l\<lparr>la_phase := Settled\<rparr>"
  let ?rs = "if stored then settle (dm_records dm) (la_key l) (outcome_record l outcome counted now) else dm_records dm"
  have rok: "records_ok dm" and lok: "launches_ok True dm" using assms(2) by (simp_all add: idempotent_def)
  obtain r where r: "omap_get (dm_records dm) (la_key l) = Some r" "key_ok (under (la_key l) (dm_launches dm)) (Some r)"
    using running_has_record [OF rok finish(2)] .
  have mem: "l \<in> under (la_key l) (dm_launches dm)" using finish(2) by (simp add: under_def)
  have st: "lr_state r = Launching" using key_okD(5) [OF r(2) mem finish(3)] .
  have okr: "omap_ok (dm_records dm)" using rok by (simp add: records_ok_def)
  have before: "la_turnsBefore l + la_wrote l \<le> dm_turns dm" "busy_status (la_statusBefore l) \<Longrightarrow> la_wrote l = 0"
    using lok finish(2,3) by (simp_all add: launches_ok_def)
  have few: "card (keys_used dm) \<le> MAX_RECORDS_PER_TASK"
    using assms(3) set_launch_keys [of ?f "la_request l" "dm_launches dm"] by (simp add: finish(1) finished_def)
  have form: "dm' = dm\<lparr>dm_turns := dm_turns dm, dm_records := ?rs,
      dm_launches := set_launch (la_request l) ?f (dm_launches dm)\<rparr>" using finish(1) by (simp add: finished_def)
  let ?r' = "if stored then outcome_record l outcome counted now r else r"
  have honest: "la_wrote l = 0" if "lr_state ?r' = LaunchFailed" "\<not> lr_wroteTurns ?r'"
  proof -
    have "stored" using st \<open>lr_state ?r' = LaunchFailed\<close> by (cases stored) simp_all
    then obtain status message taskBusy where o: "outcome = Threw status message taskBusy" "\<not> wrote_turns l taskBusy counted"
      using \<open>lr_state ?r' = LaunchFailed\<close> \<open>\<not> lr_wroteTurns ?r'\<close> by (cases outcome) (simp_all add: outcome_record_def)
    show ?thesis
      by (rule wrote_turns_honest [OF o(2) finish(5) before]) (use finish(4) o(1) in \<open>auto simp: was_busy_def\<close>)
  qed
  note s = settle_records [OF rok few r(1)]
  have "records_ok dm'" unfolding form
    by (rule records_ok_set [where r = r and r' = ?r', OF lok rok finish(2,3) _ _ r(1)])
      (use s okr r(1) honest outcome_record_state st in auto)
  moreover have "launches_ok True dm'" unfolding form
    by (rule launches_ok_set [OF lok finish(2)]) (use before in simp_all)
  ultimately show ?thesis by (simp add: idempotent_def)
next
  case (leave_flight l)
  then show ?thesis using assms(2) by (simp add: idempotent_def launches_ok_def records_ok_def)
next
  case die
  let ?f = "\<lambda>l. l\<lparr>la_phase := Settled\<rparr>"
  have u: "under k (map ?f (dm_launches dm)) = ?f ` under k (dm_launches dm)" for k by (rule under_map) simp
  have "la_key ` set (map ?f (dm_launches dm)) = keys_used dm" by (simp add: image_image)
  then have "records_ok dm'"
    using assms(2) key_ok_die by (simp add: idempotent_def records_ok_def die u)
  moreover have "launches_ok True dm'" using assms(2) by (simp add: idempotent_def launches_ok_def die comp_def)
  ultimately show ?thesis by (simp add: idempotent_def)
qed

lemma step_keys: "launch_step b dm dm' \<Longrightarrow> keys_used dm \<subseteq> keys_used dm'"
  by (induction rule: launch_step.induct)
    (auto simp: claim_def turn_written_def finished_def set_launch_keys image_image)

lemma idempotent_reachable:
  assumes "(launch_step True)\<^sup>*\<^sup>* (fresh_daemon turns status) dm" and "card (keys_used dm) \<le> MAX_RECORDS_PER_TASK"
  shows "idempotent dm"
  using assms
proof (induction rule: rtranclp_induct)
  case base
  show ?case by (simp add: idempotent_def launches_ok_def records_ok_def fresh_daemon_def under_def omap_keys_def omap_get_def)
next
  case (step dm dm')
  have "card (keys_used dm) \<le> card (keys_used dm')" by (rule card_mono [OF _ step_keys [OF step.hyps(2)]]) simp
  then show ?case using step idempotent_step by simp
qed

lemma at_most_one:
  assumes "distinct (map la_request ls)" and "\<And>l l'. l \<in> set ls \<Longrightarrow> l' \<in> set ls \<Longrightarrow> P l \<Longrightarrow> P l' \<Longrightarrow> la_request l = la_request l'"
  shows "length (filter P ls) \<le> 1"
proof -
  have "distinct (map la_request (filter P ls))" using assms(1) by (rule distinct_map_filter)
  then have "length (filter P ls) = card (la_request ` set (filter P ls))" by (metis distinct_card length_map list.set_map)
  moreover have "card (la_request ` set (filter P ls)) \<le> Suc 0"
  proof (rule iffD2 [OF card_le_Suc0_iff_eq])
    show "\<forall>a \<in> la_request ` set (filter P ls). \<forall>b \<in> la_request ` set (filter P ls). a = b"
      unfolding set_filter using assms(2) by blast
  qed simp
  ultimately show ?thesis by linarith
qed


text \<open>A run on which the busy refusal is recorded, and the retry then writes its turn.\<close>

definition refused_launch :: Daemon where
  "refused_launch = claim (fresh_daemon 2 Working) 1 ''k'' UnblockTask ''f'' 10"

definition refused :: Daemon where
  "refused = finished refused_launch (hd (dm_launches refused_launch)) (Threw 409 ''busy'' True) (Some 2) 11 True"

definition retried :: Daemon where
  "retried = claim (refused\<lparr>dm_turns := 3, dm_status := Blocked\<rparr>) 2 ''k'' UnblockTask ''f'' 12"

definition retry_wrote :: Daemon where
  "retry_wrote = turn_written retried (last (dm_launches retried))"

lemmas scenario_defs = refused_launch_def refused_def retried_def retry_wrote_def

lemma retry_run: "(launch_step True)\<^sup>*\<^sup>* (fresh_daemon 2 Working) retry_wrote"
proof -
  have 1: "launch_step True (fresh_daemon 2 Working) refused_launch"
    unfolding refused_launch_def by (rule launch_step.start) code_simp+
  have 2: "launch_step True refused_launch refused"
    unfolding refused_def by (rule launch_step.finish) code_simp+
  have 3: "launch_step True refused (refused\<lparr>dm_turns := 3, dm_status := Blocked\<rparr>)"
    by (rule launch_step.other_activity) code_simp
  have 4: "launch_step True (refused\<lparr>dm_turns := 3, dm_status := Blocked\<rparr>) retried"
    unfolding retried_def by (rule launch_step.start) code_simp+
  have 5: "launch_step True retried retry_wrote"
    unfolding retry_wrote_def by (rule launch_step.write_turn) code_simp+
  show ?thesis using 1 2 3 4 5 by (meson converse_rtranclp_into_rtranclp rtranclp.rtrancl_refl)
qed


section \<open>What the busy refusal is needed for\<close>

text \<open>The task is working when the request is claimed and its turn ends before the launch looks: the launch is
  not refused, writes a turn and then fails. Its failure is recorded as having written none, so
  the same request runs again.\<close>

definition slipped :: Daemon where
  "slipped = turn_written refused_launch (hd (dm_launches refused_launch))"

definition slipped_failed :: Daemon where
  "slipped_failed = finished slipped (hd (dm_launches slipped)) (Threw 500 ''no container'' False) (Some 3) 11 True"

definition slipped_again :: Daemon where
  "slipped_again = claim slipped_failed 2 ''k'' UnblockTask ''f'' 12"

definition wrote_twice :: Daemon where
  "wrote_twice = turn_written slipped_again (last (dm_launches slipped_again))"

lemma busy_at_claim_can_write_twice:
  "(launch_step False)\<^sup>*\<^sup>* (fresh_daemon 2 Working) wrote_twice \<and>
   length (writers ''k'' (dm_launches wrote_twice)) = 2"
proof -
  have 1: "launch_step False (fresh_daemon 2 Working) refused_launch"
    unfolding refused_launch_def by (rule launch_step.start) code_simp+
  have 2: "launch_step False refused_launch slipped"
    unfolding slipped_def by (rule launch_step.write_turn) code_simp+
  have 3: "launch_step False slipped slipped_failed"
    unfolding slipped_failed_def by (rule launch_step.finish) code_simp+
  have 4: "launch_step False slipped_failed slipped_again"
    unfolding slipped_again_def by (rule launch_step.start) code_simp+
  have 5: "launch_step False slipped_again wrote_twice"
    unfolding wrote_twice_def by (rule launch_step.write_turn) code_simp+
  have "length (writers ''k'' (dm_launches wrote_twice)) = 2" by code_simp
  then show ?thesis using 1 2 3 4 5 by (meson converse_rtranclp_into_rtranclp rtranclp.rtrancl_refl)
qed

end
