(* ===== verification/TaskMutex.thy ===== *)
theory TaskMutex
  imports LazyPrelude
begin

text \<open>
  The per-key mutex of a process (\<open>src/src/utils/task-mutex.ts\<close>).

  The queue of a key is a chain of promises: a call takes the key's current tail as the promise it
  will wait for and puts its own gate in the tail's place. A call is named by its gate, a number
  never used twice; the promise of a gate is resolved once the call has left. Between the steps
  written here (a call, a call resuming after its \<open>await\<close>, a call leaving) any other may happen.
\<close>

section \<open>Calls and the queue map\<close>

datatype CallPhase = Awaiting | Holding | Left

record LockCall =
  lc_gate :: nat
  lc_key :: string
  lc_prev :: "nat option"
  lc_phase :: CallPhase

record Mutex =
  mx_queues :: "(string, nat) omap"
  mx_calls :: "LockCall list"

definition new_mutex :: Mutex where
  "new_mutex = \<lparr>mx_queues = [], mx_calls = []\<rparr>"

definition isLocked :: "Mutex \<Rightarrow> string \<Rightarrow> bool" where
  "isLocked m key = omap_has (mx_queues m) key"

text \<open>The synchronous part of \<open>withLock\<close>: the gate is chained before anything is awaited.\<close>

definition withLock :: "Mutex \<Rightarrow> string \<Rightarrow> Mutex" where
  "withLock m key =
     (let gate = length (mx_calls m)
      in m\<lparr>mx_queues := omap_set (mx_queues m) key gate,
           mx_calls := mx_calls m @ [\<lparr>lc_gate = gate, lc_key = key, lc_prev = omap_get (mx_queues m) key, lc_phase = Awaiting\<rparr>]\<rparr>)"

text \<open>\<open>tryWithLock\<close> answers whether it ran; a refusal changes nothing.\<close>

definition tryWithLock :: "Mutex \<Rightarrow> string \<Rightarrow> bool \<times> Mutex" where
  "tryWithLock m key = (if omap_has (mx_queues m) key then (False, m) else (True, withLock m key))"

text \<open>The promise of a gate, or the resolved one a call starts from when the key had no tail.\<close>

definition resolved :: "Mutex \<Rightarrow> nat option \<Rightarrow> bool" where
  "resolved m prev =
     (case prev of None \<Rightarrow> True | Some g \<Rightarrow> list_ex (\<lambda>c. lc_gate c = g \<and> lc_phase c = Left) (mx_calls m))"

definition set_phase :: "nat \<Rightarrow> CallPhase \<Rightarrow> LockCall list \<Rightarrow> LockCall list" where
  "set_phase gate ph calls = map (\<lambda>c. if lc_gate c = gate then c\<lparr>lc_phase := ph\<rparr> else c) calls"

text \<open>After \<open>await prev\<close> the function runs; when it ends, however it ends, the entry goes if the call is
  still the tail, and the gate is resolved.\<close>

definition enter :: "Mutex \<Rightarrow> LockCall \<Rightarrow> Mutex" where
  "enter m c = m\<lparr>mx_calls := set_phase (lc_gate c) Holding (mx_calls m)\<rparr>"

definition leave :: "Mutex \<Rightarrow> LockCall \<Rightarrow> Mutex" where
  "leave m c =
     m\<lparr>mx_queues := (if omap_get (mx_queues m) (lc_key c) = Some (lc_gate c)
                      then omap_delete (mx_queues m) (lc_key c) else mx_queues m),
       mx_calls := set_phase (lc_gate c) Left (mx_calls m)\<rparr>"

inductive mutex_step :: "Mutex \<Rightarrow> Mutex \<Rightarrow> bool" where
  lock: "mutex_step m (withLock m key)"
| try_lock: "mutex_step m (snd (tryWithLock m key))"
| enter: "c \<in> set (mx_calls m) \<Longrightarrow> lc_phase c = Awaiting \<Longrightarrow> resolved m (lc_prev c) \<Longrightarrow> mutex_step m (enter m c)"
| leave: "c \<in> set (mx_calls m) \<Longrightarrow> lc_phase c = Holding \<Longrightarrow> mutex_step m (leave m c)"

section \<open>The abstract lock\<close>

text \<open>What callers are promised: per key, a queue of calls in the order they were made, of which only the
  head may hold the lock.\<close>

record Waiter =
  wt_call :: nat
  wt_holds :: bool

type_synonym Lock = "string \<Rightarrow> Waiter list"

definition lock_free :: Lock where
  "lock_free = (\<lambda>k. [])"

inductive lock_step :: "Lock \<Rightarrow> Lock \<Rightarrow> bool" where
  skip: "lock_step q q"
| request: "lock_step q (q(k := q k @ [\<lparr>wt_call = c, wt_holds = False\<rparr>]))"
| acquire: "q k = w # ws \<Longrightarrow> \<not> wt_holds w \<Longrightarrow> lock_step q (q(k := w\<lparr>wt_holds := True\<rparr> # ws))"
| release: "q k = w # ws \<Longrightarrow> wt_holds w \<Longrightarrow> lock_step q (q(k := ws))"

definition present :: "string \<Rightarrow> LockCall \<Rightarrow> bool" where
  "present k c \<longleftrightarrow> lc_key c = k \<and> lc_phase c \<noteq> Left"

definition waiter :: "LockCall \<Rightarrow> Waiter" where
  "waiter c = \<lparr>wt_call = lc_gate c, wt_holds = (lc_phase c = Holding)\<rparr>"

definition abs_lock :: "Mutex \<Rightarrow> Lock" where
  "abs_lock m k = map waiter (filter (present k) (mx_calls m))"

section \<open>The chain\<close>

text \<open>Along the calls on a key that have not left, each waits for the one before; the first waits for nothing
  that is still to come, and the tail of the map is the last.\<close>

fun chained :: "(nat option \<Rightarrow> bool) \<Rightarrow> nat option \<Rightarrow> LockCall list \<Rightarrow> bool" where
  "chained R before [] \<longleftrightarrow> True"
| "chained R before (c # cs) \<longleftrightarrow>
     (case before of None \<Rightarrow> R (lc_prev c) | Some g \<Rightarrow> lc_prev c = Some g \<and> lc_phase c = Awaiting) \<and>
     chained R (Some (lc_gate c)) cs"

definition waiting :: "Mutex \<Rightarrow> string \<Rightarrow> LockCall list" where
  "waiting m k = filter (present k) (mx_calls m)"

definition mutex_ok :: "Mutex \<Rightarrow> bool" where
  "mutex_ok m \<longleftrightarrow>
     map lc_gate (mx_calls m) = [0..<length (mx_calls m)] \<and> omap_ok (mx_queues m) \<and>
     (\<forall>k. chained (resolved m) None (waiting m k) \<and>
       omap_get (mx_queues m) k = (if waiting m k = [] then None else Some (lc_gate (last (waiting m k)))))"

lemma chained_later: "chained R (Some g) cs \<Longrightarrow> c \<in> set cs \<Longrightarrow>
    lc_phase c = Awaiting \<and> (lc_prev c = Some g \<or> (\<exists>d \<in> set cs. lc_prev c = Some (lc_gate d)))"
  by (induction cs arbitrary: g) auto

lemma chained_Some: "chained R (Some g) cs = chained R' (Some g) cs"
  by (induction cs arbitrary: g) auto

lemma chained_snoc_Some: "chained R (Some g) (cs @ [c]) \<longleftrightarrow>
    chained R (Some g) cs \<and> lc_prev c = Some (if cs = [] then g else lc_gate (last cs)) \<and> lc_phase c = Awaiting"
  by (induction cs arbitrary: g) auto

lemma gates_distinct: "mutex_ok m \<Longrightarrow> distinct (map lc_gate (mx_calls m))"
  by (simp add: mutex_ok_def)

text \<open>A call that holds the lock, or whose wait is over, is the first on its key.\<close>

lemma first_waiting:
  assumes ok: "mutex_ok m" and c: "c \<in> set (mx_calls m)" "lc_phase c \<noteq> Left"
    and turn: "lc_phase c = Holding \<or> resolved m (lc_prev c)"
  obtains pre post where "mx_calls m = pre @ c # post" and "filter (present (lc_key c)) pre = []"
proof -
  obtain pre post where split: "mx_calls m = pre @ c # post" using split_list [OF c(1)] by blast
  have d: "distinct (map lc_gate (mx_calls m))" using ok by (rule gates_distinct)
  have ch: "chained (resolved m) None (waiting m (lc_key c))" using ok by (simp add: mutex_ok_def)
  have "filter (present (lc_key c)) pre = []"
  proof (rule ccontr)
    assume "filter (present (lc_key c)) pre \<noteq> []"
    then obtain a as where a: "filter (present (lc_key c)) pre = a # as" by (cases "filter (present (lc_key c)) pre") auto
    let ?ws = "as @ c # filter (present (lc_key c)) post"
    have w: "waiting m (lc_key c) = a # ?ws"
      using a c(2) by (simp add: waiting_def split present_def)
    have later: "chained (resolved m) (Some (lc_gate a)) ?ws" using ch w by simp
    have "lc_phase c = Awaiting" using chained_later [OF later, of c] by simp
    then have res: "resolved m (lc_prev c)" using turn by simp
    obtain b where b: "b \<in> set (waiting m (lc_key c))" "lc_prev c = Some (lc_gate b)"
      using chained_later [OF later, of c] w by auto
    then have b': "b \<in> set (mx_calls m)" "lc_phase b \<noteq> Left" by (simp_all add: waiting_def present_def)
    obtain e where "e \<in> set (mx_calls m)" "lc_gate e = lc_gate b" "lc_phase e = Left"
      using res b(2) by (auto simp: resolved_def list_ex_iff)
    then show False using b' d by (metis (no_types, lifting) distinct_map inj_onD)
  qed
  then show ?thesis using that split by blast
qed

lemma set_phase_split:
  assumes "distinct (map lc_gate (pre @ c # post))"
  shows "set_phase (lc_gate c) ph (pre @ c # post) = pre @ c\<lparr>lc_phase := ph\<rparr> # post"
proof -
  have n: "lc_gate c \<notin> lc_gate ` set pre" "lc_gate c \<notin> lc_gate ` set post" using assms by simp_all
  have keep: "map (\<lambda>x. if lc_gate x = lc_gate c then x\<lparr>lc_phase := ph\<rparr> else x) xs = xs" if "lc_gate c \<notin> lc_gate ` set xs" for xs
    using \<open>lc_gate c \<notin> lc_gate ` set xs\<close> by (induction xs) simp_all
  show ?thesis unfolding set_phase_def map_append list.map keep [OF n(1)] keep [OF n(2)] by simp
qed

lemma set_phase_gates [simp]: "map lc_gate (set_phase g ph calls) = map lc_gate calls" "length (set_phase g ph calls) = length calls"
  by (simp_all add: set_phase_def)

section \<open>Every step is a step of the abstract lock\<close>

lemma withLock_simulates:
  assumes ok: "mutex_ok m"
  shows "mutex_ok (withLock m key) \<and>
    abs_lock (withLock m key) = (abs_lock m)(key := abs_lock m key @ [\<lparr>wt_call = length (mx_calls m), wt_holds = False\<rparr>])"
proof -
  let ?g = "length (mx_calls m)"
  let ?c = "\<lparr>lc_gate = ?g, lc_key = key, lc_prev = omap_get (mx_queues m) key, lc_phase = Awaiting\<rparr>"
  let ?m = "withLock m key"
  have calls: "mx_calls ?m = mx_calls m @ [?c]" "mx_queues ?m = omap_set (mx_queues m) key ?g"
    by (simp_all add: withLock_def Let_def)
  have res: "resolved ?m = resolved m" by (simp add: fun_eq_iff resolved_def calls split: option.splits)
  have w: "waiting ?m k = waiting m k @ (if k = key then [?c] else [])" for k
    by (auto simp: waiting_def calls present_def)
  have old: "chained (resolved m) None (waiting m k)"
    "omap_get (mx_queues m) k = (if waiting m k = [] then None else Some (lc_gate (last (waiting m k))))" for k
    using ok by (simp_all add: mutex_ok_def)
  have "chained (resolved m) None (waiting m key @ [?c])"
  proof (cases "waiting m key")
    case Nil
    then show ?thesis using old(2) [of key] by (simp add: resolved_def)
  next
    case (Cons a as)
    then show ?thesis using old [of key] by (simp add: chained_snoc_Some)
  qed
  then have "mutex_ok ?m"
    using ok old by (simp add: mutex_ok_def w res) (simp add: calls)
  moreover have "abs_lock ?m = (abs_lock m)(key := abs_lock m key @ [\<lparr>wt_call = ?g, wt_holds = False\<rparr>])"
    using w by (simp add: fun_eq_iff abs_lock_def waiting_def waiter_def)
  ultimately show ?thesis by blast
qed

lemma enter_simulates:
  assumes ok: "mutex_ok m" and c: "c \<in> set (mx_calls m)" "lc_phase c = Awaiting" "resolved m (lc_prev c)"
  shows "mutex_ok (enter m c) \<and> abs_lock m (lc_key c) = waiter c # tl (abs_lock m (lc_key c)) \<and>
    abs_lock (enter m c) = (abs_lock m)(lc_key c := (waiter c)\<lparr>wt_holds := True\<rparr> # tl (abs_lock m (lc_key c)))"
proof -
  obtain pre post where s: "mx_calls m = pre @ c # post" "filter (present (lc_key c)) pre = []"
    using first_waiting [OF ok c(1)] c(2,3) by auto
  let ?c = "c\<lparr>lc_phase := Holding\<rparr>"
  have d: "distinct (map lc_gate (pre @ c # post))" using gates_distinct [OF ok] s(1) by simp
  have calls: "mx_calls (enter m c) = pre @ ?c # post" "mx_queues (enter m c) = mx_queues m"
    using set_phase_split [OF d] by (simp_all add: enter_def s(1))
  have res: "resolved (enter m c) = resolved m"
    using c(2) by (simp add: fun_eq_iff resolved_def calls s(1) split: option.splits)
  have here: "waiting m (lc_key c) = c # filter (present (lc_key c)) post"
    "waiting (enter m c) (lc_key c) = ?c # filter (present (lc_key c)) post"
    using s(2) c(2) by (simp_all add: waiting_def calls s(1) present_def)
  have else': "waiting (enter m c) k = waiting m k" if "k \<noteq> lc_key c" for k
    using \<open>k \<noteq> lc_key c\<close> by (simp add: waiting_def calls s(1) present_def)
  have old: "chained (resolved m) None (waiting m k)"
    "omap_get (mx_queues m) k = (if waiting m k = [] then None else Some (lc_gate (last (waiting m k))))" for k
    using ok by (simp_all add: mutex_ok_def)
  have "chained (resolved m) None (waiting (enter m c) k) \<and>
      omap_get (mx_queues m) k = (if waiting (enter m c) k = [] then None else Some (lc_gate (last (waiting (enter m c) k))))" for k
    using old [of k] here else' [of k] by (cases "k = lc_key c") simp_all
  moreover have "map lc_gate (mx_calls (enter m c)) = [0..<length (mx_calls (enter m c))]" and "omap_ok (mx_queues m)"
    using ok by (simp_all add: mutex_ok_def calls s(1))
  ultimately have "mutex_ok (enter m c)" by (simp add: mutex_ok_def res calls(2))
  moreover have "abs_lock m (lc_key c) = waiter c # tl (abs_lock m (lc_key c))"
    using here(1) by (simp add: abs_lock_def waiting_def)
  moreover have "abs_lock (enter m c) = (abs_lock m)(lc_key c := (waiter c)\<lparr>wt_holds := True\<rparr> # tl (abs_lock m (lc_key c)))"
    using here else' by (simp add: fun_eq_iff abs_lock_def waiting_def waiter_def)
  ultimately show ?thesis by blast
qed

lemma leave_simulates:
  assumes ok: "mutex_ok m" and c: "c \<in> set (mx_calls m)" "lc_phase c = Holding"
  shows "mutex_ok (leave m c) \<and> abs_lock m (lc_key c) = waiter c # tl (abs_lock m (lc_key c)) \<and>
    abs_lock (leave m c) = (abs_lock m)(lc_key c := tl (abs_lock m (lc_key c)))"
proof -
  obtain pre post where s: "mx_calls m = pre @ c # post" "filter (present (lc_key c)) pre = []"
    using first_waiting [OF ok c(1)] c(2) by auto
  let ?c = "c\<lparr>lc_phase := Left\<rparr>"
  let ?q = "if omap_get (mx_queues m) (lc_key c) = Some (lc_gate c) then omap_delete (mx_queues m) (lc_key c) else mx_queues m"
  have d: "distinct (map lc_gate (pre @ c # post))" using gates_distinct [OF ok] s(1) by simp
  have calls: "mx_calls (leave m c) = pre @ ?c # post" "mx_queues (leave m c) = ?q"
    using set_phase_split [OF d] by (simp_all add: leave_def s(1))
  have res: "resolved m p \<Longrightarrow> resolved (leave m c) p" "resolved (leave m c) (Some (lc_gate c))" for p
    by (auto simp: resolved_def calls s(1) c(2) split: option.splits)
  have here: "waiting m (lc_key c) = c # filter (present (lc_key c)) post"
    "waiting (leave m c) (lc_key c) = filter (present (lc_key c)) post"
    using s(2) c(2) by (simp_all add: waiting_def calls s(1) present_def)
  have else': "waiting (leave m c) k = waiting m k" if "k \<noteq> lc_key c" for k
    using \<open>k \<noteq> lc_key c\<close> by (simp add: waiting_def calls s(1) present_def)
  have old: "chained (resolved m) None (waiting m k)"
    "omap_get (mx_queues m) k = (if waiting m k = [] then None else Some (lc_gate (last (waiting m k))))" for k
    using ok by (simp_all add: mutex_ok_def)
  have okq: "omap_ok (mx_queues m)" using ok by (simp add: mutex_ok_def)
  have rest: "chained (resolved (leave m c)) None (filter (present (lc_key c)) post) \<and>
      omap_get ?q (lc_key c) = (if filter (present (lc_key c)) post = [] then None
        else Some (lc_gate (last (filter (present (lc_key c)) post))))"
  proof (cases "filter (present (lc_key c)) post")
    case Nil
    then show ?thesis using old(2) [of "lc_key c"] here(1) okq by (simp add: omap_get_delete)
  next
    case (Cons a as)
    have "last (a # as) \<in> set post" using Cons by (metis filter_is_subset last_in_set list.distinct(1) subset_iff)
    then have "lc_gate (last (a # as)) \<in> lc_gate ` set post" by (rule imageI)
    moreover have "lc_gate c \<notin> lc_gate ` set post" using d by simp
    ultimately have "lc_gate (last (a # as)) \<noteq> lc_gate c" by metis
    moreover have "lc_prev a = Some (lc_gate c)" "chained (resolved m) (Some (lc_gate a)) as"
      using old(1) [of "lc_key c"] here(1) Cons by simp_all
    ultimately show ?thesis
      using old(2) [of "lc_key c"] here(1) Cons res(2) chained_Some [of "resolved m" "lc_gate a" as "resolved (leave m c)"] by simp
  qed
  have "chained (resolved (leave m c)) None (waiting m k)" for k
    using old(1) [of k] res(1) chained_Some by (cases "waiting m k") (simp, fastforce)
  then have "chained (resolved (leave m c)) None (waiting (leave m c) k) \<and>
      omap_get ?q k = (if waiting (leave m c) k = [] then None else Some (lc_gate (last (waiting (leave m c) k))))" for k
    using old(2) [of k] here rest else' [of k] okq by (cases "k = lc_key c") (simp_all add: omap_get_delete)
  moreover have "map lc_gate (mx_calls (leave m c)) = [0..<length (mx_calls (leave m c))]" and "omap_ok ?q"
    using ok by (simp_all add: mutex_ok_def calls s(1) omap_simps)
  ultimately have "mutex_ok (leave m c)" by (simp add: mutex_ok_def calls(2))
  moreover have "abs_lock m (lc_key c) = waiter c # tl (abs_lock m (lc_key c))"
    using here(1) by (simp add: abs_lock_def waiting_def)
  moreover have "abs_lock (leave m c) = (abs_lock m)(lc_key c := tl (abs_lock m (lc_key c)))"
    using here else' by (simp add: fun_eq_iff abs_lock_def waiting_def)
  ultimately show ?thesis by blast
qed

lemma step_simulates:
  assumes "mutex_step m m'" and "mutex_ok m"
  shows "mutex_ok m' \<and> lock_step (abs_lock m) (abs_lock m')"
  using assms
proof cases
  case (lock key)
  then show ?thesis using withLock_simulates [OF assms(2), of key] lock_step.request by simp
next
  case (try_lock key)
  then show ?thesis
    using withLock_simulates [OF assms(2), of key] lock_step.request lock_step.skip assms(2) by (simp add: tryWithLock_def)
next
  case (enter c)
  have "lock_step (abs_lock m) ((abs_lock m)(lc_key c := (waiter c)\<lparr>wt_holds := True\<rparr> # tl (abs_lock m (lc_key c))))"
    by (rule lock_step.acquire) (use enter_simulates [OF assms(2) enter(2-4)] enter(3) in \<open>simp_all add: waiter_def\<close>)
  then show ?thesis using enter_simulates [OF assms(2) enter(2-4)] enter(1) by simp
next
  case (leave c)
  have "lock_step (abs_lock m) ((abs_lock m)(lc_key c := tl (abs_lock m (lc_key c))))"
    by (rule lock_step.release [where w = "waiter c"]) (use leave_simulates [OF assms(2) leave(2,3)] leave(3) in \<open>simp_all add: waiter_def\<close>)
  then show ?thesis using leave_simulates [OF assms(2) leave(2,3)] leave(1) by simp
qed

lemma mutex_ok_reachable:
  assumes "mutex_step\<^sup>*\<^sup>* new_mutex m"
  shows "mutex_ok m \<and> lock_step\<^sup>*\<^sup>* lock_free (abs_lock m)"
  using assms
proof (induction rule: rtranclp_induct)
  case base
  show ?case
    by (simp add: mutex_ok_def new_mutex_def waiting_def abs_lock_def [abs_def] lock_free_def omap_keys_def omap_get_def)
next
  case (step m m')
  then show ?case using step_simulates [OF step.hyps(2)] by (meson rtranclp.rtrancl_into_rtrancl)
qed

lemma head_only:
  assumes "lock_step\<^sup>*\<^sup>* lock_free q" and "q k = w # ws"
  shows "list_all (\<lambda>v. \<not> wt_holds v) ws"
proof -
  have "list_all (\<lambda>v. \<not> wt_holds v) (tl (q k))" using assms(1)
  proof (induction arbitrary: k rule: rtranclp_induct)
    case base
    show ?case by (simp add: lock_free_def)
  next
    case (step q q')
    have two: "list_all (\<lambda>v. \<not> wt_holds v) (tl (tl (q j)))" for j using step.IH [of j] by (cases "tl (q j)") simp_all
    show ?case using step.hyps(2)
    proof cases
      case (release j w ws)
      then show ?thesis using step.IH [of k] two [of j] by simp
    next
      case (acquire j w ws)
      then show ?thesis using step.IH [of k] step.IH [of j] by simp
    qed (use step.IH [of k] in \<open>auto simp: tl_append split: list.splits\<close>)
  qed
  then show ?thesis using assms(2) by simp
qed

lemma waiting_progress:
  assumes ok: "mutex_ok m" and w: "waiting m k = c # cs"
  shows "mutex_step m (if lc_phase c = Holding then leave m c else enter m c)"
proof -
  have c: "c \<in> set (mx_calls m)" "lc_phase c \<noteq> Left"
    using w filter_eq_Cons_iff [of "present k" "mx_calls m" c cs] by (auto simp: waiting_def present_def)
  have "resolved m (lc_prev c)" using ok w by (metis chained.simps(2) mutex_ok_def option.case(1))
  then show ?thesis using c mutex_step.enter mutex_step.leave by (cases "lc_phase c") simp_all
qed

text \<open>C14: the promise chains implement a fair lock per key. Whatever the interleaving of calls, the
  map of tails behaves as a queue per key in the order of the calls, of which only the head ever
  holds the lock; \<open>isLocked\<close> and the refusals of \<open>tryWithLock\<close> tell exactly whether a
  call holds or awaits the key, so no entry outlives its calls; and on every key with calls the
  head can always proceed: it acquires the lock if it does not hold it, and otherwise releases it.\<close>

theorem mutex_is_fifo_lock:
  assumes "mutex_step\<^sup>*\<^sup>* new_mutex m"
  shows "lock_step\<^sup>*\<^sup>* lock_free (abs_lock m) \<and>
    isLocked m k = (abs_lock m k \<noteq> []) \<and> fst (tryWithLock m k) = (abs_lock m k = []) \<and>
    (case abs_lock m k of
       [] \<Rightarrow> True
     | w # ws \<Rightarrow> list_all (\<lambda>v. \<not> wt_holds v) ws \<and>
         (\<exists>m'. mutex_step m m' \<and> abs_lock m' = (abs_lock m)(k := if wt_holds w then ws else w\<lparr>wt_holds := True\<rparr> # ws)))"
proof -
  have ok: "mutex_ok m" and run: "lock_step\<^sup>*\<^sup>* lock_free (abs_lock m)" using mutex_ok_reachable [OF assms] by blast+
  have empty: "abs_lock m k = [] \<longleftrightarrow> waiting m k = []" by (simp add: abs_lock_def waiting_def)
  have get: "omap_has (mx_queues m) k \<longleftrightarrow> waiting m k \<noteq> []" using ok by (simp add: mutex_ok_def omap_has_iff)
  have "list_all (\<lambda>v. \<not> wt_holds v) ws \<and>
      (\<exists>m'. mutex_step m m' \<and> abs_lock m' = (abs_lock m)(k := if wt_holds w then ws else w\<lparr>wt_holds := True\<rparr> # ws))"
    if w: "abs_lock m k = w # ws" for w ws
  proof -
    obtain c cs where c: "waiting m k = c # cs" "w = waiter c" "ws = map waiter cs"
      using w by (auto simp: abs_lock_def waiting_def)
    have mem: "c \<in> set (mx_calls m)" "lc_key c = k" "lc_phase c \<noteq> Left"
      using c(1) filter_eq_Cons_iff [of "present k" "mx_calls m" c cs] by (auto simp: waiting_def present_def)
    have res: "resolved m (lc_prev c)" using ok c(1) by (metis chained.simps(2) mutex_ok_def option.case(1))
    have "abs_lock (if lc_phase c = Holding then leave m c else enter m c) =
        (abs_lock m)(k := if wt_holds w then ws else w\<lparr>wt_holds := True\<rparr> # ws)"
      using leave_simulates [OF ok mem(1)] enter_simulates [OF ok mem(1) _ res] mem(2,3) w c(2)
      by (cases "lc_phase c") (simp_all add: waiter_def)
    then show ?thesis using waiting_progress [OF ok c(1)] head_only [OF run w] by blast
  qed
  then show ?thesis using run empty get by (auto simp: isLocked_def tryWithLock_def split: list.splits)
qed

text \<open>Two calls on one key, the second refused the try and then queued, the first done.\<close>

definition handover :: Mutex where
  "handover = (let m1 = withLock new_mutex ''t''; m2 = enter m1 (hd (mx_calls m1)); m3 = withLock m2 ''t''
               in leave m3 (hd (mx_calls m3)))"

lemma mutex_is_fifo_lock_witness:
  "isLocked handover ''t'' \<and> \<not> fst (tryWithLock handover ''t'') \<and> fst (tryWithLock handover ''u'') \<and>
   abs_lock handover ''t'' = [\<lparr>wt_call = 1, wt_holds = False\<rparr>]"
proof -
  let ?m1 = "withLock new_mutex ''t''"
  let ?m2 = "enter ?m1 (hd (mx_calls ?m1))"
  let ?m3 = "withLock ?m2 ''t''"
  have "mutex_step new_mutex ?m1" by (rule mutex_step.lock)
  moreover have "mutex_step ?m1 ?m2" by (rule mutex_step.enter) code_simp+
  moreover have "mutex_step ?m2 ?m3" by (rule mutex_step.lock)
  moreover have "mutex_step ?m3 (leave ?m3 (hd (mx_calls ?m3)))" by (rule mutex_step.leave) code_simp+
  ultimately have run: "mutex_step\<^sup>*\<^sup>* new_mutex handover"
    unfolding handover_def Let_def by (meson converse_rtranclp_into_rtranclp rtranclp.rtrancl_refl)
  have t: "abs_lock handover ''t'' = [\<lparr>wt_call = 1, wt_holds = False\<rparr>]" "abs_lock handover ''u'' = []" by code_simp+
  show ?thesis using mutex_is_fifo_lock [OF run, of "''t''"] mutex_is_fifo_lock [OF run, of "''u''"] t by simp
qed

end
