(* ===== verification/ProtectedScan.thy ===== *)
theory ProtectedScan
  imports ReviewGate
begin

text \<open>
  Which protected files a range of commits changed (\<open>src/src/supervisor/permissions.ts\<close>).

  The source reads the output of git commands; what those commands answer is an argument, \<open>Git\<close>, with
  \<open>None\<close> for a command that exits with an error, and so is the glob matcher. \<open>describes\<close> states what git
  documents of its output: one line per changed file for \<open>--name-status\<close>, with renames detected, and a
  unified diff per file.
\<close>

section \<open>The scan\<close>

record Git =
  g_name_status :: "string \<Rightarrow> string \<Rightarrow> string option"
  g_diff :: "string \<Rightarrow> string \<Rightarrow> string \<Rightarrow> string option"
  g_ls_tree :: "string \<Rightarrow> string list \<Rightarrow> string list option"
  g_show :: "string \<Rightarrow> string \<Rightarrow> string option"

datatype ViolationScanError = NameStatusFailed | LsTreeFailed

definition tab_char :: char where
  "tab_char = CHR 0x09"

definition nl_char :: char where
  "nl_char = CHR 0x0A"

definition matchesProtectedPattern :: "(string \<Rightarrow> string \<Rightarrow> bool) \<Rightarrow> string \<Rightarrow> string list \<Rightarrow> bool" where
  "matchesProtectedPattern glob filePath patterns \<longleftrightarrow> list_ex (\<lambda>p. glob p filePath) patterns"

text \<open>A line of a diff that is skipped as a header, and one that counts as removed content.\<close>

definition diff_header :: "string \<Rightarrow> bool" where
  "diff_header line \<longleftrightarrow>
     list_ex (starts_with line) [''---'', ''+++'', ''diff '', ''index '', ''@@'', [CHR 0x5C]]"

definition removal_line :: "string \<Rightarrow> bool" where
  "removal_line line \<longleftrightarrow> \<not> diff_header line \<and> starts_with line ''-''"

definition isPureAddition :: "Git \<Rightarrow> string \<Rightarrow> string \<Rightarrow> string \<Rightarrow> string \<Rightarrow> bool" where
  "isPureAddition git startSha endSha filePath nameStatus =
     (if nameStatus = ''A'' then True
      else case g_diff git startSha endSha filePath of
        None \<Rightarrow> False
      | Some stdout \<Rightarrow> \<not> list_ex removal_line (split_on nl_char stdout))"

definition LS_TREE_PATH_CHUNK :: nat where
  "LS_TREE_PATH_CHUNK = 200"

function path_chunks :: "'a list \<Rightarrow> 'a list list" where
  "path_chunks xs =
     (if xs = [] then [] else take LS_TREE_PATH_CHUNK xs # path_chunks (drop LS_TREE_PATH_CHUNK xs))"
  by auto
termination
  by (relation "measure length") (auto simp: LS_TREE_PATH_CHUNK_def)

declare path_chunks.simps [simp del]

fun ls_tree_chunks :: "Git \<Rightarrow> string \<Rightarrow> string list list \<Rightarrow> string list option" where
  "ls_tree_chunks git sha [] = Some []"
| "ls_tree_chunks git sha (chunk # chunks) =
     (case g_ls_tree git sha chunk of
        None \<Rightarrow> None
      | Some listed \<Rightarrow> map_option (\<lambda>more. filter (\<lambda>p. p \<noteq> []) listed @ more) (ls_tree_chunks git sha chunks))"

definition filesExistingAtSha :: "Git \<Rightarrow> string \<Rightarrow> string list \<Rightarrow> string list option" where
  "filesExistingAtSha git sha filePaths = ls_tree_chunks git sha (path_chunks filePaths)"

definition fileMatchesUpstream :: "Git \<Rightarrow> string \<Rightarrow> string \<Rightarrow> string \<Rightarrow> bool" where
  "fileMatchesUpstream git endSha upstreamMergeRef filePath \<longleftrightarrow>
     g_show git endSha filePath = g_show git upstreamMergeRef filePath"

text \<open>One line of \<open>--name-status\<close>: the file it is about and its status letter.\<close>

definition changed_file :: "string \<Rightarrow> (string \<times> string) option" where
  "changed_file line =
     (let parts = split_on tab_char line in
      if length parts < 2 then None
      else let status = take 1 (parts ! 0);
               filePath = (if status = ''R'' \<or> status = ''C'' then (if length parts > 2 then parts ! 2 else []) else parts ! 1)
           in if filePath = [] then None else Some (filePath, status))"

definition violates :: "Git \<Rightarrow> string \<Rightarrow> string \<Rightarrow> string list option \<Rightarrow> string option \<Rightarrow> string \<times> string \<Rightarrow> bool" where
  "violates git startSha endSha existed upstreamMergeRef c =
     (case c of (filePath, status) \<Rightarrow>
        (case existed of Some fs \<Rightarrow> filePath \<in> set fs | None \<Rightarrow> True) \<and>
        \<not> (case upstreamMergeRef of Some ref \<Rightarrow> ref \<noteq> [] \<and> fileMatchesUpstream git endSha ref filePath | None \<Rightarrow> False) \<and>
        (status = ''D'' \<or> \<not> isPureAddition git startSha endSha filePath status))"

definition pending_violation :: "string \<Rightarrow> string \<Rightarrow> FileViolation" where
  "pending_violation startSha filePath =
     \<lparr>fv_file = filePath, fv_base_sha = startSha, fv_status = ViolationPending, fv_rejected_at = None,
      fv_restored_at = None, fv_restore_sha = None\<rparr>"

definition detectViolations ::
    "(string \<Rightarrow> string \<Rightarrow> bool) \<Rightarrow> Git \<Rightarrow> string \<Rightarrow> string \<Rightarrow> string list \<Rightarrow> string option \<Rightarrow> string option \<Rightarrow>
     ViolationScanError + FileViolation list" where
  "detectViolations glob git startSha endSha protectedPatterns branchPointSha upstreamMergeRef =
     (if protectedPatterns = [] then Inr []
      else if startSha = endSha then Inr []
      else case g_name_status git startSha endSha of
        None \<Rightarrow> Inl NameStatusFailed
      | Some stdout \<Rightarrow>
          if trim stdout = [] then Inr []
          else
            let candidates = filter (\<lambda>(filePath, status). matchesProtectedPattern glob filePath protectedPatterns)
                  (List.map_filter changed_file (split_on nl_char (trim stdout)));
                verdict = (\<lambda>existed. Inr (map (\<lambda>c. pending_violation startSha (fst c))
                  (filter (violates git startSha endSha existed upstreamMergeRef) candidates)))
            in (case branchPointSha of
                  Some sha \<Rightarrow>
                    if sha = [] then verdict None
                    else (case filesExistingAtSha git sha (map fst candidates) of
                            None \<Rightarrow> Inl LsTreeFailed
                          | Some existed \<Rightarrow> verdict (Some existed))
                | None \<Rightarrow> verdict None))"

section \<open>What git says of a change\<close>

datatype DiffLine = KeptLine string | RemovedLine string | InsertedLine string

datatype DiffBody = TextHunks "DiffLine list" | BinaryFiles

datatype FileChange =
    AddedFile string
  | DeletedFile string
  | ModifiedFile string DiffBody
  | RenamedFile string string DiffBody

fun change_path :: "FileChange \<Rightarrow> string" where
  "change_path (AddedFile p) = p"
| "change_path (DeletedFile p) = p"
| "change_path (ModifiedFile p body) = p"
| "change_path (RenamedFile old new body) = new"

fun status_row :: "FileChange \<Rightarrow> string" where
  "status_row (AddedFile p) = ''A'' @ [tab_char] @ p"
| "status_row (DeletedFile p) = ''D'' @ [tab_char] @ p"
| "status_row (ModifiedFile p body) = ''M'' @ [tab_char] @ p"
| "status_row (RenamedFile old new body) = ''R090'' @ [tab_char] @ old @ [tab_char] @ new"

fun diff_line :: "DiffLine \<Rightarrow> string" where
  "diff_line (KeptLine l) = '' '' @ l"
| "diff_line (RemovedLine l) = ''-'' @ l"
| "diff_line (InsertedLine l) = ''+'' @ l"

fun body_lines :: "string \<Rightarrow> DiffBody \<Rightarrow> string list" where
  "body_lines p (TextHunks ls) = [''--- a/'' @ p, ''+++ b/'' @ p, ''@@ -1 +1 @@''] @ map diff_line ls"
| "body_lines p BinaryFiles = [''Binary files a/'' @ p @ '' and b/'' @ p @ '' differ'']"

definition diff_output :: "string \<Rightarrow> DiffBody \<Rightarrow> string" where
  "diff_output p body =
     concat (map (\<lambda>l. l @ [nl_char]) ([''diff --git a/'' @ p @ '' b/'' @ p, ''index 1111111..2222222 100644''] @ body_lines p body))"

definition describes :: "Git \<Rightarrow> string \<Rightarrow> string \<Rightarrow> FileChange list \<Rightarrow> (string \<Rightarrow> bool) \<Rightarrow> bool" where
  "describes git startSha endSha changes existed \<longleftrightarrow>
     g_name_status git startSha endSha = Some (concat (map (\<lambda>c. status_row c @ [nl_char]) changes)) \<and>
     (\<forall>p body. ModifiedFile p body \<in> set changes \<longrightarrow> g_diff git startSha endSha p = Some (diff_output p body)) \<and>
     (\<forall>ps. g_ls_tree git startSha ps = Some (filter existed ps))"

text \<open>Whether a change takes content away from a file.\<close>

fun takes_content :: "FileChange \<Rightarrow> bool" where
  "takes_content (AddedFile p) = False"
| "takes_content (DeletedFile p) = True"
| "takes_content (ModifiedFile p (TextHunks ls)) = list_ex (\<lambda>l. case l of RemovedLine s \<Rightarrow> True | _ \<Rightarrow> False) ls"
| "takes_content (ModifiedFile p BinaryFiles) = True"
| "takes_content (RenamedFile old new body) = True"

definition plain_path :: "string \<Rightarrow> bool" where
  "plain_path p \<longleftrightarrow> p \<noteq> [] \<and> tab_char \<notin> set p \<and> nl_char \<notin> set p \<and> \<not> is_space (last p)"

text \<open>A change the scan can read: text, no rename, and no removed line whose own text starts with two hyphens.\<close>

fun readable_change :: "FileChange \<Rightarrow> bool" where
  "readable_change (AddedFile p) = plain_path p"
| "readable_change (DeletedFile p) = plain_path p"
| "readable_change (ModifiedFile p (TextHunks ls)) \<longleftrightarrow>
     plain_path p \<and> list_all (\<lambda>l. nl_char \<notin> set (diff_line l) \<and>
       (case l of RemovedLine s \<Rightarrow> \<not> starts_with s ''--'' | _ \<Rightarrow> True)) ls"
| "readable_change (ModifiedFile p BinaryFiles) = False"
| "readable_change (RenamedFile old new body) = False"

section \<open>Reading the output\<close>

lemma split_on_no: "d \<notin> set s \<Longrightarrow> split_on d s = [s]"
  by (induction s) auto

lemma split_on_append: "d \<notin> set s \<Longrightarrow> split_on d (s @ d # t) = s # split_on d t"
  by (induction s) auto

lemma split_lines: "list_all (\<lambda>l. d \<notin> set l) ls \<Longrightarrow> split_on d (concat (map (\<lambda>l. l @ [d]) ls)) = ls @ [[]]"
  by (induction ls) (simp_all add: split_on_append)

lemma split_joined:
  assumes "ls \<noteq> []" and "list_all (\<lambda>l. d \<notin> set l) ls"
  shows "split_on d (join_with [d] ls) = ls"
  using assms
proof (induction ls)
  case (Cons l ls)
  then show ?case by (cases ls) (simp_all add: split_on_no split_on_append)
qed simp

lemma concat_lines: "ls \<noteq> [] \<Longrightarrow> concat (map (\<lambda>l. l @ [d]) ls) = join_with [d] ls @ [d]"
proof (induction ls)
  case (Cons l ls)
  then show ?case by (cases ls) simp_all
qed simp

lemma path_chunks_concat: "concat (path_chunks xs) = xs"
proof (induction xs rule: path_chunks.induct)
  case (1 xs)
  then show ?case by (cases "xs = []") (simp_all add: path_chunks.simps [of xs] path_chunks.simps [of "[]"])
qed

text \<open>The chunked lookup finds exactly the files the tree holds.\<close>

lemma ls_tree_chunks_exact:
  assumes "\<forall>ps. g_ls_tree git sha ps = Some (filter existed ps)" and "[] \<notin> set (concat chunks)"
  shows "ls_tree_chunks git sha chunks = Some (filter existed (concat chunks))"
  using assms(2)
proof (induction chunks)
  case (Cons chunk chunks)
  have "filter (\<lambda>p. existed p \<and> p \<noteq> []) chunk = filter existed chunk"
    using Cons.prems by (intro filter_cong) auto
  then show ?case using Cons assms(1) by simp
qed simp

lemma filesExistingAtSha_exact:
  assumes "\<forall>ps. g_ls_tree git sha ps = Some (filter existed ps)" and "[] \<notin> set ps"
  shows "filesExistingAtSha git sha ps = Some (filter existed ps)"
  using ls_tree_chunks_exact [OF assms(1), of "path_chunks ps"] assms(2) by (simp add: filesExistingAtSha_def path_chunks_concat)

lemma plain_row:
  assumes "readable_change c"
  shows "changed_file (status_row c) = Some (change_path c, take 1 (status_row c))"
    and "nl_char \<notin> set (status_row c)" and "\<not> is_space (last (status_row c))" and "\<not> is_space (hd (status_row c))"
    and "status_row c \<noteq> []" and "change_path c \<noteq> []"
proof -
  have ch: "tab_char \<noteq> CHR ''A''" "tab_char \<noteq> CHR ''D''" "tab_char \<noteq> CHR ''M''" "nl_char \<noteq> CHR ''A''" "nl_char \<noteq> CHR ''D''"
    "nl_char \<noteq> CHR ''M''" "nl_char \<noteq> tab_char" "\<not> is_space CHR ''A''" "\<not> is_space CHR ''D''" "\<not> is_space CHR ''M''"
    by (simp_all add: tab_char_def nl_char_def is_space_def)
  have "(\<exists>p. c = AddedFile p \<and> plain_path p) \<or> (\<exists>p. c = DeletedFile p \<and> plain_path p) \<or>
      (\<exists>p body. c = ModifiedFile p body \<and> plain_path p)"
    using assms by (cases c rule: readable_change.cases) auto
  then show "changed_file (status_row c) = Some (change_path c, take 1 (status_row c))"
    and "nl_char \<notin> set (status_row c)" and "\<not> is_space (last (status_row c))" and "\<not> is_space (hd (status_row c))"
    and "status_row c \<noteq> []" and "change_path c \<noteq> []"
    using ch by (auto simp: plain_path_def changed_file_def Let_def split_on_no)
qed

text \<open>The whole output of a readable diff is read back row by row.\<close>

lemma trim_rows:
  assumes "cs \<noteq> []" and "list_all readable_change cs"
  shows "trim (concat (map (\<lambda>c. status_row c @ [nl_char]) cs)) = join_with [nl_char] (map status_row cs)"
proof -
  let ?j = "join_with [nl_char] (map status_row cs)"
  have c: "concat (map (\<lambda>c. status_row c @ [nl_char]) cs) = ?j @ [nl_char]"
    using concat_lines [of "map status_row cs" nl_char] assms(1) by (simp add: comp_def)
  have ends: "?j \<noteq> [] \<and> \<not> is_space (hd ?j) \<and> \<not> is_space (last ?j)" using assms
  proof (induction cs)
    case (Cons a cs)
    note r = plain_row(3-5) [of a]
    show ?case
    proof (cases cs)
      case Nil
      then show ?thesis using Cons.prems r by simp
    next
      case (Cons b bs)
      then show ?thesis using Cons.IH Cons.prems r by (simp add: hd_append)
    qed
  qed simp
  then obtain x xs where j: "?j = x # xs" "\<not> is_space x" by (cases ?j) auto
  have sp: "is_space nl_char" by (simp add: is_space_def nl_char_def)
  have "trim_start (?j @ [nl_char]) = ?j @ [nl_char]" using j by (simp add: trim_start_def)
  then show ?thesis using c ends sp by (simp add: trim_def trim_end_no_space)
qed

lemma diff_header_lines:
  "diff_header (''diff '' @ s)" "diff_header (''index '' @ s)" "diff_header (''---'' @ s)" "diff_header (''+++'' @ s)" "diff_header (''@@'' @ s)"
  by (simp_all add: diff_header_def)

lemma removal_diff_line:
  assumes "case l of RemovedLine s \<Rightarrow> \<not> starts_with s ''--'' | _ \<Rightarrow> True"
  shows "removal_line (diff_line l) = (case l of RemovedLine s \<Rightarrow> True | _ \<Rightarrow> False)"
  using assms by (cases l) (auto simp: removal_line_def diff_header_def)

lemma isPureAddition_text:
  assumes "g_diff git s e p = Some (diff_output p (TextHunks ls))" and "readable_change (ModifiedFile p (TextHunks ls))"
  shows "isPureAddition git s e p ''M'' = (\<not> list_ex (\<lambda>l. case l of RemovedLine s \<Rightarrow> True | _ \<Rightarrow> False) ls)"
proof -
  have p: "nl_char \<notin> set p" using assms(2) by (simp add: plain_path_def)
  let ?head = "[''diff --git a/'' @ p @ '' b/'' @ p, ''index 1111111..2222222 100644'', ''--- a/'' @ p, ''+++ b/'' @ p, ''@@ -1 +1 @@'']"
  have lines: "split_on nl_char (diff_output p (TextHunks ls)) = (?head @ map diff_line ls) @ [[]]"
    unfolding diff_output_def body_lines.simps append_assoc [symmetric]
    by (subst split_lines) (use p assms(2) in \<open>auto simp: nl_char_def list_all_iff\<close>)
  have head: "\<not> list_ex removal_line ?head"
    using diff_header_lines by (simp add: removal_line_def diff_header_def)
  have body: "list_ex removal_line (map diff_line ls) = list_ex (\<lambda>l. case l of RemovedLine s \<Rightarrow> True | _ \<Rightarrow> False) ls"
    using assms(2) removal_diff_line by (induction ls) (simp_all add: comp_def)
  have "\<not> removal_line []" by (simp add: removal_line_def)
  then show ?thesis using assms(1) lines head body by (simp add: isPureAddition_def)
qed

section \<open>What the scan reports\<close>

definition flagged :: "(string \<Rightarrow> string \<Rightarrow> bool) \<Rightarrow> Git \<Rightarrow> string \<Rightarrow> string list \<Rightarrow> (string \<Rightarrow> bool) \<Rightarrow> string option \<Rightarrow> FileChange \<Rightarrow> bool" where
  "flagged glob git endSha patterns existed upstreamMergeRef c \<longleftrightarrow>
     matchesProtectedPattern glob (change_path c) patterns \<and> existed (change_path c) \<and> takes_content c \<and>
     \<not> (case upstreamMergeRef of Some ref \<Rightarrow> ref \<noteq> [] \<and> fileMatchesUpstream git endSha ref (change_path c) | None \<Rightarrow> False)"

lemma content_taken:
  assumes d: "describes git startSha endSha changes existed" and c: "c \<in> set changes" "readable_change c"
  shows "(take 1 (status_row c) = ''D'' \<or> \<not> isPureAddition git startSha endSha (change_path c) (take 1 (status_row c))) = takes_content c"
proof (cases c)
  case (ModifiedFile p body)
  then obtain ls where ls: "body = TextHunks ls" using c(2) by (cases body) auto
  have "g_diff git startSha endSha p = Some (diff_output p (TextHunks ls))"
    using d c(1) ModifiedFile ls by (simp add: describes_def)
  then show ?thesis using isPureAddition_text [of git startSha endSha p ls] c(2) ModifiedFile ls by simp
qed (use c(2) in \<open>simp_all add: isPureAddition_def\<close>)


text \<open>A git that says what it documents of the given changes.\<close>

definition git_of :: "FileChange list \<Rightarrow> (string \<Rightarrow> bool) \<Rightarrow> Git" where
  "git_of changes existed =
     \<lparr>g_name_status = (\<lambda>_ _. Some (concat (map (\<lambda>c. status_row c @ [nl_char]) changes))),
      g_diff = (\<lambda>_ _ p. map_option (\<lambda>c. case c of ModifiedFile q body \<Rightarrow> diff_output q body | RenamedFile old q body \<Rightarrow> diff_output q body | _ \<Rightarrow> [])
        (find (\<lambda>c. change_path c = p) changes)),
      g_ls_tree = (\<lambda>_ ps. Some (filter existed ps)),
      g_show = (\<lambda>_ _. None)\<rparr>"

definition sample_changes :: "FileChange list" where
  "sample_changes =
     [ModifiedFile ''test/a.ts'' (TextHunks [KeptLine ''x'', RemovedLine ''y'', InsertedLine ''z'']),
      ModifiedFile ''test/b.ts'' (TextHunks [InsertedLine ''z'']), DeletedFile ''test/c.ts'', ModifiedFile ''src/d.ts'' (TextHunks [RemovedLine ''y'']),
      AddedFile ''test/e.ts'']"

definition in_test :: "string \<Rightarrow> string \<Rightarrow> bool" where
  "in_test pattern path \<longleftrightarrow> starts_with path pattern"

lemma sample_described: "describes (git_of sample_changes (\<lambda>p. p \<noteq> ''test/e.ts'')) ''s'' ''e'' sample_changes (\<lambda>p. p \<noteq> ''test/e.ts'')"
  by (auto simp: describes_def git_of_def sample_changes_def)


section \<open>What the scan cannot see\<close>

text \<open>A protected file that is renamed to a path the task made up, a protected binary that is replaced, and
  a protected line that starts with two hyphens and is removed, are all reported as no violation.\<close>

lemma scan_misses:
  "detectViolations in_test (git_of [RenamedFile ''test/a.ts'' ''old.ts'' (TextHunks [RemovedLine ''y''])] (\<lambda>p. p = ''test/a.ts''))
     ''s'' ''e'' [''test/''] (Some ''s'') None = Inr []"
  "detectViolations in_test (git_of [ModifiedFile ''test/a.png'' BinaryFiles] (\<lambda>p. True)) ''s'' ''e'' [''test/''] (Some ''s'') None = Inr []"
  "detectViolations in_test (git_of [ModifiedFile ''test/a.sql'' (TextHunks [RemovedLine ''-- keep'', InsertedLine ''x''])] (\<lambda>p. True))
     ''s'' ''e'' [''test/''] (Some ''s'') None = Inr []"
  by code_simp+

end
