(* ===== verification/ProtectedFiles.thy ===== *)
theory ProtectedFiles
  imports ProtectedScan
begin

text \<open>
  Which protected files a task still owes a decision on, where the question is asked, and what accept does
  with the answer: the records on a session's turns (\<open>src/src/protection/outstanding.ts\<close>,
  \<open>rejected-files.ts\<close>, \<open>reverted-files.ts\<close>, \<open>utils/turns.ts\<close>), whose task it is (\<open>task/audience.ts\<close>,
  \<open>protection/deferral.ts\<close>), the task's own changes beside those of its accepted children
  (\<open>task-diff-base.ts\<close>), the resolver (\<open>protection/outstanding-resolver.ts\<close>), the gate of accept
  (\<open>daemon/task-lifecycle.ts\<close>) and the reviewer's decision (\<open>daemon/review-service.ts\<close>).

  Reads of the store and of git that may fail are options. The hash of the cache key is an argument.
\<close>

section \<open>Records\<close>

datatype TurnRole = HumanTurn | AgentTurn

record LedgerTurn =
  lt_id :: string
  lt_role :: TurnRole
  lt_actor :: "Actor option"
  lt_violations :: "FileViolation list option"

definition violationRecordsByFile :: "LedgerTurn list \<Rightarrow> (string, FileViolation) omap" where
  "violationRecordsByFile turns =
     foldl (\<lambda>latest turn. case lt_violations turn of
        None \<Rightarrow> latest
      | Some vs \<Rightarrow> foldl (\<lambda>latest v. omap_set latest (fv_file v) v) latest vs) [] turns"

definition approvedFilesFromRecords :: "LedgerTurn list \<Rightarrow> string list" where
  "approvedFilesFromRecords turns =
     js_sort string_cmp (map fv_file
       (filter (\<lambda>v. fv_status v = ViolationApproved) (omap_values (violationRecordsByFile turns))))"

definition truthy_time :: "int option \<Rightarrow> bool" where
  "truthy_time t \<longleftrightarrow> (case t of Some n \<Rightarrow> n \<noteq> 0 | None \<Rightarrow> False)"

definition outstanding_hit :: "(string, FileViolation) omap \<Rightarrow> FileViolation \<Rightarrow> FileViolation option" where
  "outstanding_hit records hit =
     (case omap_get records (fv_file hit) of
        None \<Rightarrow> Some (hit\<lparr>fv_status := ViolationPending\<rparr>)
      | Some r \<Rightarrow>
          (case fv_status r of
             ViolationApproved \<Rightarrow> None
           | ViolationPending \<Rightarrow>
               Some (if truthy_time (fv_rejected_at r)
                     then hit\<lparr>fv_status := ViolationPending, fv_rejected_at := fv_rejected_at r\<rparr>
                     else hit\<lparr>fv_status := ViolationPending\<rparr>)
           | ViolationRejected \<Rightarrow> Some (hit\<lparr>fv_status := ViolationPending\<rparr>)))"

definition outstandingFromDetection :: "FileViolation list \<Rightarrow> LedgerTurn list \<Rightarrow> FileViolation list" where
  "outstandingFromDetection detected turns = List.map_filter (outstanding_hit (violationRecordsByFile turns)) detected"

definition outstandingFromRecords :: "LedgerTurn list \<Rightarrow> FileViolation list" where
  "outstandingFromRecords turns =
     filter (\<lambda>v. fv_status v = ViolationPending) (omap_values (violationRecordsByFile turns))"

definition pendingFilesFromRecords :: "LedgerTurn list \<Rightarrow> string list" where
  "pendingFilesFromRecords turns = map fv_file (outstandingFromRecords turns)"

definition mergedViolationRecords :: "LedgerTurn list \<Rightarrow> FileViolation list \<Rightarrow> string list \<Rightarrow> FileViolation list" where
  "mergedViolationRecords turns detected approved =
     (let merged = foldl (\<lambda>m hit. if omap_has m (fv_file hit) then m
                                 else omap_set m (fv_file hit) (hit\<lparr>fv_status := ViolationPending\<rparr>))
                     (violationRecordsByFile turns) detected
      in map (\<lambda>v. if fv_file v \<in> set approved then v\<lparr>fv_status := ViolationApproved\<rparr> else v) (omap_values merged))"

definition rejectedOutstanding :: "(string \<Rightarrow> string \<Rightarrow> int) \<Rightarrow> FileViolation list \<Rightarrow> FileViolation list" where
  "rejectedOutstanding localeCompare outstanding =
     js_sort (\<lambda>a b. localeCompare (fv_file a) (fv_file b))
       (filter (\<lambda>v. fv_status v = ViolationPending \<and> truthy_time (fv_rejected_at v)) outstanding)"

datatype ViolationDecision = Undecided | DecidedApproved | DecidedRejected

definition violationDecisionOf :: "FileViolation \<Rightarrow> ViolationDecision" where
  "violationDecisionOf v =
     (if fv_status v = ViolationApproved then DecidedApproved
      else if fv_status v = ViolationRejected \<or> truthy_time (fv_rejected_at v) then DecidedRejected
      else Undecided)"

definition revertedProtectedFiles :: "LedgerTurn list \<Rightarrow> string list" where
  "revertedProtectedFiles turns =
     (let latest = violationRecordsByFile (filter (\<lambda>t. lt_role t = AgentTurn) turns)
      in js_sort string_cmp (map fst (filter (\<lambda>(f, v). fv_status v = ViolationRejected) latest)))"

definition latestViolationTurn :: "LedgerTurn list \<Rightarrow> LedgerTurn option" where
  "latestViolationTurn turns = find (\<lambda>t. lt_role t = AgentTurn \<and> lt_violations t \<noteq> None) (rev turns)"

text \<open>Restoring what a reviewer rejected: the plan for the next work turn and the records it leaves.\<close>

definition planRejectedRestores :: "(string \<Rightarrow> string \<Rightarrow> int) \<Rightarrow> FileViolation list \<Rightarrow> (string \<times> string) list" where
  "planRejectedRestores localeCompare outstanding =
     map (\<lambda>v. (fv_file v, fv_base_sha v)) (rejectedOutstanding localeCompare outstanding)"

definition restoredViolationRecords :: "(string \<times> string \<times> string) list \<Rightarrow> int \<Rightarrow> FileViolation list" where
  "restoredViolationRecords restores now =
     map (\<lambda>(file, base_sha, commit_sha).
       \<lparr>fv_file = file, fv_base_sha = base_sha, fv_status = ViolationRejected, fv_rejected_at = None,
        fv_restored_at = Some now, fv_restore_sha = Some commit_sha\<rparr>) restores"

section \<open>Whose task it is\<close>

datatype TaskAudience = HumanAudience | AgentAudience

definition LAUNCHING_ACTORS :: "Actor list" where
  "LAUNCHING_ACTORS = [Human, Builder, Agent]"

definition audienceForActor :: "Actor \<Rightarrow> TaskAudience" where
  "audienceForActor actor = (if actor = Agent then AgentAudience else HumanAudience)"

fun launching_actor :: "LedgerTurn list \<Rightarrow> Actor option" where
  "launching_actor [] = None"
| "launching_actor (turn # earlier) =
     (if lt_role turn \<noteq> HumanTurn then launching_actor earlier
      else case lt_actor turn of
        Some a \<Rightarrow> if a \<in> set LAUNCHING_ACTORS then Some a else launching_actor earlier
      | None \<Rightarrow> launching_actor earlier)"

definition audienceOf :: "LedgerTurn list \<Rightarrow> Actor option \<Rightarrow> bool \<Rightarrow> TaskAudience" where
  "audienceOf turns createdBy parentIsCluster =
     (if parentIsCluster then AgentAudience
      else case launching_actor (rev turns) of
        Some a \<Rightarrow> audienceForActor a
      | None \<Rightarrow>
          (case createdBy of
             Some a \<Rightarrow> if a \<in> set LAUNCHING_ACTORS then audienceForActor a else HumanAudience
           | None \<Rightarrow> HumanAudience))"

text \<open>The actor of the first status-changelog entry; \<open>None\<close> when the changelog cannot be read.\<close>

definition createdByOf :: "Actor option list option \<Rightarrow> Actor option" where
  "createdByOf history =
     (case history of
        Some (Some a # rest) \<Rightarrow> if a = Human \<or> a = Builder \<or> a = Agent then Some a else None
      | _ \<Rightarrow> None)"

definition isClusterTask :: "Task \<Rightarrow> bool" where
  "isClusterTask task \<longleftrightarrow> t_type task = ''cluster''"

record ProtectedFileDeferral =
  df_taskId :: string
  df_displayId :: string

text \<open>\<open>readParent\<close>: the outer option is a read that throws, the inner one a task that is not there.\<close>

definition resolveProtectedFileDeferral ::
    "(string \<Rightarrow> Task option option) \<Rightarrow> Actor option list option \<Rightarrow> Task \<Rightarrow> LedgerTurn list \<Rightarrow> ProtectedFileDeferral option" where
  "resolveProtectedFileDeferral readParent history task turns =
     (case parentTaskIdOf task of
        None \<Rightarrow> None
      | Some parentId \<Rightarrow>
          if parentId = [] then None
          else (case readParent parentId of
            None \<Rightarrow> None
          | Some None \<Rightarrow> None
          | Some (Some parent) \<Rightarrow>
              if isTerminalStatus (t_status parent) then None
              else if audienceOf turns (createdByOf history) (isClusterTask parent) \<noteq> AgentAudience then None
              else Some \<lparr>df_taskId = t_id parent, df_displayId = displayId parent\<rparr>))"

section \<open>The task's own changes\<close>

record FirstParentCommit =
  fc_sha :: string
  fc_subject :: string
  fc_paths :: "string list"

record TaskDiffBase =
  db_ref :: string
  db_twoDot :: bool

record ChildAttribution =
  ca_childId :: string
  ca_paths :: "string list"
  ca_attributed :: bool

record TaskDirectDiffPlan =
  dp_base :: TaskDiffBase
  dp_paths :: "string list option"
  dp_scopedToDirect :: bool
  dp_acceptedChildren :: "Task list"
  dp_inProgressChildren :: "Task list"
  dp_childAttribution :: "ChildAttribution list option"

definition HUB_IN_PROGRESS_STATUSES :: "TaskStatus list" where
  "HUB_IN_PROGRESS_STATUSES = [Working, Blocked, Pairing, Interrupted, Submitted, Merging, Conflict, Zombie]"

definition classifyHubChildren :: "Task list \<Rightarrow> Task list \<times> Task list" where
  "classifyHubChildren children =
     (filter (\<lambda>c. t_status c = Complete) children,
      filter (\<lambda>c. t_status c \<noteq> Complete \<and> t_status c \<in> set HUB_IN_PROGRESS_STATUSES) children)"

definition acceptTagName :: "string \<Rightarrow> string" where
  "acceptTagName taskId = ''lazy-accept-'' @ taskId"

definition acceptSubjectNeedles :: "Task \<Rightarrow> string list" where
  "acceptSubjectNeedles child =
     (let needle = (\<lambda>name. ''Accept task '' @ name @ '':'');
          shown = displayId child
      in [needle (shortId (t_id child))] @
         (case t_code child of Some c \<Rightarrow> if c \<noteq> [] then [needle c] else [] | None \<Rightarrow> []) @
         (if shown \<noteq> shortId (t_id child) \<and> Some shown \<noteq> t_code child then [needle shown] else []))"

definition is_accept_of :: "Task \<Rightarrow> FirstParentCommit \<Rightarrow> bool" where
  "is_accept_of child commit \<longleftrightarrow> list_ex (str_includes (fc_subject commit)) (acceptSubjectNeedles child)"

definition accept_tag :: "(string, string) omap \<Rightarrow> Task \<Rightarrow> string option" where
  "accept_tag tagToCommit child =
     (case omap_get tagToCommit (acceptTagName (t_id child)) of
        Some sha \<Rightarrow> if sha = [] then None else Some sha
      | None \<Rightarrow> None)"

definition excludeAcceptedChildShas :: "Task list \<Rightarrow> (string, string) omap \<Rightarrow> FirstParentCommit list \<Rightarrow> string list" where
  "excludeAcceptedChildShas accepted tagToCommit firstParent =
     concat (map (\<lambda>child. case accept_tag tagToCommit child of
        Some sha \<Rightarrow> [sha]
      | None \<Rightarrow> map fc_sha (filter (is_accept_of child) firstParent)) accepted)"

definition attributeChild :: "Task \<Rightarrow> (string, string) omap \<Rightarrow> FirstParentCommit list \<Rightarrow> ChildAttribution" where
  "attributeChild child tagToCommit firstParent =
     (let commits = (case accept_tag tagToCommit child of
            Some sha \<Rightarrow> filter (\<lambda>c. fc_sha c = sha) firstParent
          | None \<Rightarrow> filter (is_accept_of child) firstParent)
      in \<lparr>ca_childId = t_id child, ca_paths = unique (concat (map fc_paths commits)), ca_attributed = commits \<noteq> []\<rparr>)"

text \<open>\<open>git log --first-parent --name-only\<close>, one NUL between a commit and its subject, a path per line after it.\<close>

definition nul :: char where
  "nul = CHR 0x00"

definition log_line :: "FirstParentCommit list \<times> FirstParentCommit option \<Rightarrow> string \<Rightarrow>
    FirstParentCommit list \<times> FirstParentCommit option" where
  "log_line st raw =
     (case st of (commits, current) \<Rightarrow>
        if nul \<in> set raw
        then (commits @ (case current of Some c \<Rightarrow> [c] | None \<Rightarrow> []),
              Some \<lparr>fc_sha = trim (takeWhile (\<lambda>c. c \<noteq> nul) raw), fc_subject = tl (dropWhile (\<lambda>c. c \<noteq> nul) raw), fc_paths = []\<rparr>)
        else (commits, map_option (\<lambda>c. if trim raw \<noteq> [] then c\<lparr>fc_paths := fc_paths c @ [trim raw]\<rparr> else c) current))"

definition parseFirstParentLog :: "string \<Rightarrow> FirstParentCommit list" where
  "parseFirstParentLog stdout =
     (case foldl log_line ([], None) (split_on nl_char stdout) of
        (commits, current) \<Rightarrow> commits @ (case current of Some c \<Rightarrow> [c] | None \<Rightarrow> []))"

definition listFirstParentCommits :: "string option \<Rightarrow> FirstParentCommit list" where
  "listFirstParentCommits log =
     (case log of None \<Rightarrow> [] | Some stdout \<Rightarrow> if stdout = [] then [] else parseFirstParentLog stdout)"

definition resolveTaskDirectDiff ::
    "TaskDiffBase \<Rightarrow> Task list \<Rightarrow> (string, string) omap \<Rightarrow> string option \<Rightarrow> string list \<Rightarrow> TaskDirectDiffPlan" where
  "resolveTaskDirectDiff base children tagToCommit log dirty =
     (case classifyHubChildren children of (accepted, inProgress) \<Rightarrow>
        if accepted = []
        then \<lparr>dp_base = base, dp_paths = None, dp_scopedToDirect = False, dp_acceptedChildren = accepted,
              dp_inProgressChildren = inProgress, dp_childAttribution = None\<rparr>
        else let firstParent = listFirstParentCommits log;
                 exclude = excludeAcceptedChildShas accepted tagToCommit firstParent
             in \<lparr>dp_base = base,
                 dp_paths = Some (unique (concat (map fc_paths (filter (\<lambda>c. fc_sha c \<notin> set exclude) firstParent)) @ dirty)),
                 dp_scopedToDirect = True, dp_acceptedChildren = accepted, dp_inProgressChildren = inProgress,
                 dp_childAttribution = Some (map (\<lambda>child. attributeChild child tagToCommit firstParent) accepted)\<rparr>)"

section \<open>The resolver\<close>

record CachedScan =
  cs_detected :: "FileViolation list"
  cs_childApproved :: "string list"

type_synonym ScanCache = "(string, CachedScan) omap"

definition DETECTION_CACHE_MAX :: nat where
  "DETECTION_CACHE_MAX = 256"

definition cachePut :: "ScanCache \<Rightarrow> string \<Rightarrow> CachedScan \<Rightarrow> ScanCache" where
  "cachePut cache key entry =
     omap_set (if length cache \<ge> DETECTION_CACHE_MAX then (case cache of [] \<Rightarrow> [] | (oldest, _) # _ \<Rightarrow> omap_delete cache oldest) else cache)
       key entry"

text \<open>What the resolver reads of the project, the store and git. \<open>pe_records\<close> gives a child's turns and changelog
  actors, \<open>pe_mergeBase\<close> the merge base of a branch with HEAD.\<close>

record ProtectEnv =
  pe_patterns :: "string list option"
  pe_worktree :: bool
  pe_head :: "string option"
  pe_base :: TaskDiffBase
  pe_children :: "Task list option"
  pe_records :: "string \<Rightarrow> (LedgerTurn list \<times> Actor option list option) option"
  pe_tags :: "(string, string) omap"
  pe_log :: "string option"
  pe_dirty :: "string list"
  pe_mergeBase :: "string \<Rightarrow> string option"
  pe_git :: Git
  pe_glob :: "string \<Rightarrow> string \<Rightarrow> bool"
  pe_hash :: "string \<Rightarrow> string"

definition cacheKey :: "ProtectEnv \<Rightarrow> string list \<Rightarrow> string" where
  "cacheKey env parts = pe_hash env (join_with [nl_char] parts)"

definition scanStartSha :: "ProtectEnv \<Rightarrow> string option" where
  "scanStartSha env =
     (if db_twoDot (pe_base env) then Some (db_ref (pe_base env))
      else case pe_mergeBase env (db_ref (pe_base env)) of
        Some out \<Rightarrow> if trim out = [] then None else Some (trim out)
      | None \<Rightarrow> None)"

definition effectivePatterns :: "string list \<Rightarrow> LedgerTurn list \<Rightarrow> string list" where
  "effectivePatterns configured turns = unique (configured @ pendingFilesFromRecords turns)"

text \<open>A child's audience and the approvals on its turns; one whose records cannot be read counts as an agent's.\<close>

definition child_answer :: "ProtectEnv \<Rightarrow> bool \<Rightarrow> Task \<Rightarrow> TaskAudience \<times> string list" where
  "child_answer env parentIsCluster child =
     (case pe_records env (t_id child) of
        None \<Rightarrow> (AgentAudience, [])
      | Some (turns, history) \<Rightarrow>
          (audienceOf turns (createdByOf history) parentIsCluster, approvedFilesFromRecords turns))"

definition attributed_paths :: "ChildAttribution list \<Rightarrow> string \<Rightarrow> string list" where
  "attributed_paths attribution childId =
     (case find (\<lambda>a. ca_childId a = childId) (rev attribution) of Some a \<Rightarrow> ca_paths a | None \<Rightarrow> [])"

definition childContributionsFor ::
    "ProtectEnv \<Rightarrow> Task list \<Rightarrow> ChildAttribution list option \<Rightarrow> bool \<Rightarrow> string list \<times> string list" where
  "childContributionsFor env acceptedChildren attribution parentIsCluster =
     (js_sort string_cmp (unique (concat (map (\<lambda>child. case child_answer env parentIsCluster child of
          (HumanAudience, approved) \<Rightarrow> approved | (AgentAudience, _) \<Rightarrow> []) acceptedChildren))),
      js_sort string_cmp (unique (concat (map (\<lambda>child. case child_answer env parentIsCluster child of
          (HumanAudience, _) \<Rightarrow> []
        | (AgentAudience, _) \<Rightarrow> (case attribution of Some atts \<Rightarrow> attributed_paths atts (t_id child) | None \<Rightarrow> [])) acceptedChildren))))"

definition clearableChildApprovals :: "string list \<Rightarrow> TaskDirectDiffPlan \<Rightarrow> string list \<Rightarrow> string list" where
  "clearableChildApprovals childApproved plan deferredPaths =
     (case dp_paths plan of
        Some paths \<Rightarrow> if dp_scopedToDirect plan then filter (\<lambda>f. f \<notin> set paths \<union> set deferredPaths) childApproved else childApproved
      | None \<Rightarrow> childApproved)"

definition own_status :: "LedgerTurn list \<Rightarrow> string \<Rightarrow> ViolationStatus option" where
  "own_status turns file = map_option fv_status (omap_get (violationRecordsByFile turns) file)"

definition combineApprovals :: "LedgerTurn list \<Rightarrow> string list \<Rightarrow> string list" where
  "combineApprovals turns childApproved =
     js_sort string_cmp (unique (approvedFilesFromRecords turns @
       filter (\<lambda>f. own_status turns f \<noteq> Some ViolationRejected) childApproved))"

definition outstandingWithChildApprovals :: "FileViolation list \<Rightarrow> LedgerTurn list \<Rightarrow> string list \<Rightarrow> FileViolation list" where
  "outstandingWithChildApprovals outstanding turns childApproved =
     (if childApproved = [] then outstanding
      else filter (\<lambda>v. fv_file v \<notin> set childApproved \<or> own_status turns (fv_file v) = Some ViolationRejected) outstanding)"

record OutstandingViolations =
  ov_outstanding :: "FileViolation list"
  ov_deferredTo :: "ProtectedFileDeferral option"
  ov_deferred :: "FileViolation list"
  ov_approved :: "string list"
  ov_detected :: "FileViolation list"
  ov_degraded :: bool

definition own_answer :: "LedgerTurn list \<Rightarrow> FileViolation list \<Rightarrow> string list \<Rightarrow> OutstandingViolations" where
  "own_answer turns detected childApproved =
     \<lparr>ov_outstanding = outstandingWithChildApprovals (outstandingFromDetection detected turns) turns childApproved,
      ov_deferredTo = None, ov_deferred = [], ov_approved = combineApprovals turns childApproved, ov_detected = detected,
      ov_degraded = False\<rparr>"

definition degraded_answer :: "ProtectEnv \<Rightarrow> Task \<Rightarrow> LedgerTurn list \<Rightarrow> OutstandingViolations" where
  "degraded_answer env task turns =
     (let childApproved = (case pe_children env of
            None \<Rightarrow> []
          | Some children \<Rightarrow> fst (childContributionsFor env (fst (classifyHubChildren children)) None (isClusterTask task)))
      in \<lparr>ov_outstanding = outstandingWithChildApprovals (outstandingFromRecords turns) turns childApproved,
          ov_deferredTo = None, ov_deferred = [], ov_approved = combineApprovals turns childApproved, ov_detected = [],
          ov_degraded = True\<rparr>)"

definition env_plan :: "ProtectEnv \<Rightarrow> Task list \<Rightarrow> TaskDirectDiffPlan" where
  "env_plan env children = resolveTaskDirectDiff (pe_base env) children (pe_tags env) (pe_log env) (pe_dirty env)"

text \<open>The scan behind a cache miss: \<open>None\<close> when it cannot run.\<close>

definition run_scan :: "ProtectEnv \<Rightarrow> Task \<Rightarrow> string \<Rightarrow> string list \<Rightarrow> CachedScan option" where
  "run_scan env task endSha patterns =
     (case pe_children env of
        None \<Rightarrow> None
      | Some children \<Rightarrow>
          (let plan = env_plan env children;
               attribution = (case dp_childAttribution plan of Some atts \<Rightarrow> atts | None \<Rightarrow> []);
               contributions = childContributionsFor env (dp_acceptedChildren plan) (Some attribution) (isClusterTask task);
               deferredPaths = snd contributions;
               childApproved = clearableChildApprovals (fst contributions) plan deferredPaths;
               paths = (case dp_paths plan of Some ps \<Rightarrow> ps | None \<Rightarrow> [])
           in if dp_scopedToDirect plan \<and> paths = [] \<and> deferredPaths = []
              then Some \<lparr>cs_detected = [], cs_childApproved = childApproved\<rparr>
              else case scanStartSha env of
                None \<Rightarrow> None
              | Some startSha \<Rightarrow>
                  (case detectViolations (pe_glob env) (pe_git env) startSha endSha patterns (Some startSha)
                          (if db_twoDot (pe_base env) then None else Some (db_ref (pe_base env))) of
                     Inl _ \<Rightarrow> None
                   | Inr scanned \<Rightarrow>
                       Some \<lparr>cs_detected = (if dp_scopedToDirect plan
                               then filter (\<lambda>v. fv_file v \<in> set paths \<union> set deferredPaths) scanned else scanned),
                             cs_childApproved = childApproved\<rparr>)))"

definition resolveOwnOutstanding :: "ProtectEnv \<Rightarrow> Task \<Rightarrow> LedgerTurn list \<Rightarrow> ScanCache \<Rightarrow> OutstandingViolations \<times> ScanCache" where
  "resolveOwnOutstanding env task turns cache =
     (case pe_patterns env of
        None \<Rightarrow> (degraded_answer env task turns, cache)
      | Some configured \<Rightarrow>
          (let patterns = effectivePatterns configured turns in
           if patterns = [] then (own_answer turns [] [], cache)
           else if \<not> pe_worktree env then (degraded_answer env task turns, cache)
           else case pe_head env of
             None \<Rightarrow> (degraded_answer env task turns, cache)
           | Some out \<Rightarrow>
               (let endSha = trim out in
                if endSha = [] then (degraded_answer env task turns, cache)
                else let key = cacheKey env [t_id task, endSha, join_with '','' (js_sort string_cmp patterns)]
                     in case omap_get cache key of
                       Some cached \<Rightarrow> (own_answer turns (cs_detected cached) (cs_childApproved cached), cache)
                     | None \<Rightarrow>
                         (case run_scan env task endSha patterns of
                            None \<Rightarrow> (degraded_answer env task turns, cache)
                          | Some scan \<Rightarrow>
                              (own_answer turns (cs_detected scan) (cs_childApproved scan), cachePut cache key scan)))))"

definition resolveOutstandingViolations ::
    "ProtectEnv \<Rightarrow> (string \<Rightarrow> Task option option) \<Rightarrow> Actor option list option \<Rightarrow> Task \<Rightarrow> LedgerTurn list \<Rightarrow> ScanCache \<Rightarrow>
     OutstandingViolations \<times> ScanCache" where
  "resolveOutstandingViolations env readParent history task turns cache =
     (case resolveOwnOutstanding env task turns cache of (own, cache') \<Rightarrow>
        (case (if ov_outstanding own \<noteq> [] then resolveProtectedFileDeferral readParent history task turns else None) of
           None \<Rightarrow> (own, cache')
         | Some d \<Rightarrow> (own\<lparr>ov_outstanding := [], ov_deferredTo := Some d, ov_deferred := ov_outstanding own\<rparr>, cache')))"

section \<open>Accept and the reviewer's decision\<close>

datatype ViolationGateError = UnresolvedViolations "string list" | MissingApprovals "string list" | NothingToDecide
  | NotViolated string | NoAgentTurn

definition ledgerTurnOf :: "LedgerTurn list \<Rightarrow> LedgerTurn option" where
  "ledgerTurnOf turns =
     (case latestViolationTurn turns of Some t \<Rightarrow> Some t | None \<Rightarrow> find (\<lambda>t. lt_role t = AgentTurn) (rev turns))"

definition updateTurnViolations :: "LedgerTurn list \<Rightarrow> LedgerTurn \<Rightarrow> FileViolation list \<Rightarrow> LedgerTurn list" where
  "updateTurnViolations turns turn violations =
     update_first (\<lambda>t. lt_id t = lt_id turn) (turn\<lparr>lt_violations := Some violations\<rparr>) turns"

definition acceptViolationGate ::
    "bool \<Rightarrow> OutstandingViolations \<Rightarrow> string list \<Rightarrow> string \<Rightarrow> Actor \<Rightarrow> LedgerTurn list \<Rightarrow> ViolationGateError + LedgerTurn list" where
  "acceptViolationGate isResume st approvedFiles newTurnId actor turns =
     (if isResume \<or> ov_outstanding st = [] then Inr turns
      else let pendingFiles = map fv_file (ov_outstanding st);
               missing = filter (\<lambda>f. f \<notin> set approvedFiles) pendingFiles
           in if approvedFiles = [] then Inl (UnresolvedViolations pendingFiles)
              else if missing \<noteq> [] then Inl (MissingApprovals missing)
              else let ledger = mergedViolationRecords turns (ov_detected st) (ov_approved st @ pendingFiles)
                   in (case ledgerTurnOf turns of
                         Some t \<Rightarrow> Inr (updateTurnViolations turns t ledger)
                       | None \<Rightarrow> Inr (turns @ [\<lparr>lt_id = newTurnId, lt_role = HumanTurn, lt_actor = Some actor,
                                             lt_violations = Some ledger\<rparr>])))"

definition decision_record :: "bool \<Rightarrow> int \<Rightarrow> FileViolation \<Rightarrow> FileViolation" where
  "decision_record approved now v =
     \<lparr>fv_file = fv_file v, fv_base_sha = fv_base_sha v, fv_status = (if approved then ViolationApproved else ViolationPending),
      fv_rejected_at = (if approved then None else Some now), fv_restored_at = None, fv_restore_sha = None\<rparr>"

definition setViolationDecision ::
    "OutstandingViolations \<Rightarrow> LedgerTurn list \<Rightarrow> string \<Rightarrow> bool \<Rightarrow> int \<Rightarrow> ViolationGateError + LedgerTurn list" where
  "setViolationDecision st turns file approved now =
     (let decidable = map fv_file (ov_outstanding st) @ ov_approved st in
      if decidable = [] then Inl NothingToDecide
      else if file \<notin> set decidable then Inl (NotViolated file)
      else case ledgerTurnOf turns of
        None \<Rightarrow> Inl NoAgentTurn
      | Some t \<Rightarrow>
          Inr (updateTurnViolations turns t
            (map (\<lambda>v. if fv_file v = file then decision_record approved now v else v)
              (mergedViolationRecords turns (ov_detected st) (if approved then [file] else [])))))"

section \<open>The latest record of a file\<close>

definition recorded :: "LedgerTurn list \<Rightarrow> FileViolation list" where
  "recorded turns = concat (map (\<lambda>t. case lt_violations t of Some vs \<Rightarrow> vs | None \<Rightarrow> []) turns)"

lemma records_recorded: "violationRecordsByFile turns = foldl (\<lambda>m v. omap_set m (fv_file v) v) [] (recorded turns)"
proof -
  have "foldl (\<lambda>latest turn. case lt_violations turn of None \<Rightarrow> latest
        | Some vs \<Rightarrow> foldl (\<lambda>latest v. omap_set latest (fv_file v) v) latest vs) m turns =
      foldl (\<lambda>m v. omap_set m (fv_file v) v) m (recorded turns)" for m
    by (induction turns arbitrary: m) (simp_all add: recorded_def split: option.split)
  then show ?thesis by (simp add: violationRecordsByFile_def)
qed

lemma foldl_set_get:
  "omap_get (foldl (\<lambda>m v. omap_set m (fv_file v) v) m vs) f =
     (case find (\<lambda>v. fv_file v = f) (rev vs) of Some v \<Rightarrow> Some v | None \<Rightarrow> omap_get m f)"
  by (induction vs rule: rev_induct) (auto split: option.splits)

lemma latest_record: "omap_get (violationRecordsByFile turns) f = find (\<lambda>v. fv_file v = f) (rev (recorded turns))"
  by (simp add: records_recorded foldl_set_get split: option.split)

text \<open>A map from files to records about them.\<close>

definition by_file :: "(string, FileViolation) omap \<Rightarrow> bool" where
  "by_file m \<longleftrightarrow> omap_ok m \<and> (\<forall>(k, v) \<in> set m. fv_file v = k)"

lemma by_file_set: "by_file m \<Longrightarrow> fv_file v = k \<Longrightarrow> by_file (omap_set m k v)"
proof -
  assume m: "by_file m" and k: "fv_file v = k"
  have "set (omap_set m k v) \<subseteq> insert (k, v) (set m)" for m :: "(string, FileViolation) omap"
    by (induction m) (auto split: if_splits)
  then show ?thesis using m k by (fastforce simp: by_file_def)
qed

lemma by_file_records: "by_file (violationRecordsByFile turns)"
proof -
  have "by_file m \<Longrightarrow> by_file (foldl (\<lambda>m v. omap_set m (fv_file v) v) m vs)" for m vs
    by (induction vs arbitrary: m) (simp_all add: by_file_set)
  moreover have "by_file []" by (simp add: by_file_def omap_keys_def)
  ultimately show ?thesis by (simp add: records_recorded)
qed

lemma by_file_find:
  assumes "by_file m"
  shows "find (\<lambda>v. fv_file v = f) (omap_values m) = omap_get m f"
proof -
  have "\<forall>(k, v) \<in> set m. fv_file v = k \<Longrightarrow> find (\<lambda>v. fv_file v = f) (omap_values m) = omap_get m f" for m
    by (induction m) (auto simp: omap_values_def omap_get_def)
  then show ?thesis using assms unfolding by_file_def by blast
qed

lemma by_file_values_distinct: "by_file m \<Longrightarrow> distinct (map fv_file (omap_values m))"
proof -
  assume m: "by_file m"
  have "map fv_file (omap_values m) = omap_keys m" using m by (auto simp: by_file_def omap_values_def omap_keys_def)
  then show ?thesis using m by (simp add: by_file_def)
qed

lemma find_append: "find P (ys @ zs) = (case find P ys of Some y \<Rightarrow> Some y | None \<Rightarrow> find P zs)"
  by (induction ys) auto

lemma find_rev_distinct:
  assumes "distinct (map f xs)"
  shows "find (\<lambda>x. f x = k) (rev xs) = find (\<lambda>x. f x = k) xs"
  using assms
proof (induction xs)
  case (Cons x xs)
  show ?case
  proof (cases "f x = k")
    case True
    have "f y \<noteq> k" if "y \<in> set xs" for y
      using Cons.prems True imageI [OF \<open>y \<in> set xs\<close>, of f] by (metis distinct.simps(2) list.map(2) list.set_map)
    then have "find (\<lambda>x. f x = k) xs = None" by (simp add: find_None_iff)
    then show ?thesis using Cons True by (simp add: find_append)
  next
    case False
    then show ?thesis using Cons by (simp add: find_append split: option.split)
  qed
qed simp

lemma approvedFiles_iff: "f \<in> set (approvedFilesFromRecords turns) \<longleftrightarrow> own_status turns f = Some ViolationApproved"
proof -
  let ?m = "violationRecordsByFile turns"
  have b: "by_file ?m" by (rule by_file_records)
  have "own_status turns f = Some ViolationApproved \<longleftrightarrow> (\<exists>v. omap_get ?m f = Some v \<and> fv_status v = ViolationApproved)"
    by (auto simp: own_status_def)
  also have "\<dots> \<longleftrightarrow> (\<exists>v \<in> set (omap_values ?m). fv_file v = f \<and> fv_status v = ViolationApproved)"
  proof
    assume "\<exists>v. omap_get ?m f = Some v \<and> fv_status v = ViolationApproved"
    then obtain v where v: "omap_get ?m f = Some v" "fv_status v = ViolationApproved" by blast
    have "fv_file v = f" using omap_get_in [OF v(1)] b by (auto simp: by_file_def)
    then show "\<exists>v \<in> set (omap_values ?m). fv_file v = f \<and> fv_status v = ViolationApproved"
      using omap_get_in_values [OF v(1)] v(2) by blast
  next
    assume "\<exists>v \<in> set (omap_values ?m). fv_file v = f \<and> fv_status v = ViolationApproved"
    then obtain v where v: "(f, v) \<in> set ?m" "fv_status v = ViolationApproved" using b by (auto simp: omap_values_def by_file_def)
    then show "\<exists>v. omap_get ?m f = Some v \<and> fv_status v = ViolationApproved"
      using omap_in_get [of ?m f v] b by (auto simp: by_file_def)
  qed
  finally show ?thesis by (auto simp: approvedFilesFromRecords_def)
qed

section \<open>What a scan leaves outstanding\<close>

lemma outstanding_hit_iff:
  "outstanding_hit (violationRecordsByFile turns) v = None \<longleftrightarrow> own_status turns (fv_file v) = Some ViolationApproved"
  by (auto simp: outstanding_hit_def own_status_def split: option.splits ViolationStatus.splits)

lemma outstanding_hit_file: "outstanding_hit m v = Some u \<Longrightarrow> fv_file u = fv_file v"
  by (auto simp: outstanding_hit_def split: option.splits ViolationStatus.splits if_splits)

lemma outstandingFromDetection_files:
  "fv_file ` set (outstandingFromDetection detected turns) =
     {f \<in> fv_file ` set detected. own_status turns f \<noteq> Some ViolationApproved}"
proof -
  have s: "set (outstandingFromDetection detected turns) =
      {u. \<exists>v \<in> set detected. outstanding_hit (violationRecordsByFile turns) v = Some u}"
    unfolding outstandingFromDetection_def by (induction detected) (auto simp: List.map_filter_simps split: option.splits)
  show ?thesis
  proof (intro set_eqI iffI)
    fix f assume "f \<in> fv_file ` set (outstandingFromDetection detected turns)"
    then obtain u v where "v \<in> set detected" "outstanding_hit (violationRecordsByFile turns) v = Some u" "f = fv_file u"
      using s by blast
    then show "f \<in> {f \<in> fv_file ` set detected. own_status turns f \<noteq> Some ViolationApproved}"
      using outstanding_hit_file outstanding_hit_iff [of turns v] by force
  next
    fix f assume "f \<in> {f \<in> fv_file ` set detected. own_status turns f \<noteq> Some ViolationApproved}"
    then obtain v where v: "v \<in> set detected" "f = fv_file v" "own_status turns (fv_file v) \<noteq> Some ViolationApproved" by blast
    then obtain u where "outstanding_hit (violationRecordsByFile turns) v = Some u" using outstanding_hit_iff [of turns v] by blast
    then show "f \<in> fv_file ` set (outstandingFromDetection detected turns)"
      using s v(1,2) outstanding_hit_file by (metis (mono_tags, lifting) image_eqI mem_Collect_eq)
  qed
qed

section \<open>Every change on the branch is accounted for\<close>

lemma unique_set [simp]: "set (unique xs) = set xs"
  by (induction xs) auto

text \<open>The paths of a commit are the task's own, or those of an accepted child.\<close>

lemma commit_attributed:
  assumes "distinct (map fc_sha log)" and "c \<in> set log" and "f \<in> set (fc_paths c)"
    and "fc_sha c \<in> set (excludeAcceptedChildShas accepted tags log)"
  shows "\<exists>child \<in> set accepted. f \<in> set (ca_paths (attributeChild child tags log))"
proof -
  obtain child where child: "child \<in> set accepted"
    "fc_sha c \<in> set (case accept_tag tags child of Some sha \<Rightarrow> [sha] | None \<Rightarrow> map fc_sha (filter (is_accept_of child) log))"
    using assms(4) by (auto simp: excludeAcceptedChildShas_def)
  have same: "c' = c" if "c' \<in> set log" "fc_sha c' = fc_sha c" for c'
    using assms(1,2) \<open>c' \<in> set log\<close> \<open>fc_sha c' = fc_sha c\<close> unfolding distinct_map inj_on_def by blast
  let ?commits = "case accept_tag tags child of Some sha \<Rightarrow> filter (\<lambda>c. fc_sha c = sha) log | None \<Rightarrow> filter (is_accept_of child) log"
  have "c \<in> set ?commits"
  proof (cases "accept_tag tags child")
    case None
    then obtain c' where "c' \<in> set log" "is_accept_of child c'" "fc_sha c' = fc_sha c" using child(2) by auto
    then show ?thesis using same [of c'] None assms(2) by simp
  next
    case (Some sha)
    then show ?thesis using child(2) assms(2) by simp
  qed
  then have "f \<in> set (ca_paths (attributeChild child tags log))"
    unfolding attributeChild_def Let_def ChildAttribution.simps unique_set set_concat set_map using assms(3) by blast
  then show ?thesis using child(1) by blast
qed

lemma attributed_paths_of:
  assumes "distinct (map t_id accepted)" and "child \<in> set accepted"
  shows "attributed_paths (map (\<lambda>c. attributeChild c tags log) accepted) (t_id child) = ca_paths (attributeChild child tags log)"
proof -
  let ?atts = "map (\<lambda>c. attributeChild c tags log) accepted"
  have ids: "map ca_childId ?atts = map t_id accepted" by (simp add: attributeChild_def Let_def)
  have "find (\<lambda>a. ca_childId a = t_id child) (rev ?atts) = find (\<lambda>a. ca_childId a = t_id child) ?atts"
    by (rule find_rev_distinct) (simp only: ids assms(1))
  also have "\<dots> = Some (attributeChild child tags log)"
    using assms by (induction accepted) (auto simp: attributeChild_def Let_def)
  finally show ?thesis by (simp add: attributed_paths_def)
qed

lemma deferred_contribution:
  assumes "child \<in> set accepted" and "fst (child_answer env cluster child) = AgentAudience"
    and "f \<in> set (attributed_paths atts (t_id child))"
  shows "f \<in> set (snd (childContributionsFor env accepted (Some atts) cluster))"
proof -
  obtain ap where "child_answer env cluster child = (AgentAudience, ap)" using assms(2) by (cases "child_answer env cluster child") simp
  then show ?thesis using assms(1,3) by (auto simp: childContributionsFor_def intro!: bexI [of _ child])
qed

text \<open>What git and the patterns say of the whole range, whatever the records.\<close>

definition whole_scan :: "ProtectEnv \<Rightarrow> LedgerTurn list \<Rightarrow> FileViolation list" where
  "whole_scan env turns =
     (case (pe_patterns env, pe_head env, scanStartSha env) of
        (Some configured, Some out, Some startSha) \<Rightarrow>
          (case detectViolations (pe_glob env) (pe_git env) startSha (trim out) (effectivePatterns configured turns) (Some startSha)
                  (if db_twoDot (pe_base env) then None else Some (db_ref (pe_base env))) of
             Inr scanned \<Rightarrow> scanned | Inl e \<Rightarrow> [])
      | _ \<Rightarrow> [])"

definition branch_commits :: "ProtectEnv \<Rightarrow> FirstParentCommit list" where
  "branch_commits env = listFirstParentCommits (pe_log env)"

lemma no_patterns_scan: "effectivePatterns configured turns = [] \<Longrightarrow> pe_patterns env = Some configured \<Longrightarrow> whole_scan env turns = []"
  by (simp add: whole_scan_def detectViolations_def split: option.splits)

text \<open>What a cold resolution that is not degraded rests on.\<close>

lemma cold_resolution:
  assumes "resolveOwnOutstanding env task turns [] = (a, cache)" and "\<not> ov_degraded a" and "v \<in> set (whole_scan env turns)"
  obtains children scan where "pe_children env = Some children"
    and "a = own_answer turns (cs_detected scan) (cs_childApproved scan)"
    and "\<exists>out configured. run_scan env task (trim out) (effectivePatterns configured turns) = Some scan \<and>
      pe_head env = Some out \<and> pe_patterns env = Some configured"
proof -
  obtain configured where p: "pe_patterns env = Some configured"
    using assms(3) by (cases "pe_patterns env") (simp_all add: whole_scan_def)
  have ne: "effectivePatterns configured turns \<noteq> []" using no_patterns_scan [OF _ p] assms(3) by fastforce
  obtain out where h: "pe_head env = Some out"
    using assms(3) by (cases "pe_head env") (simp_all add: whole_scan_def split: option.splits)
  have d: "ov_degraded (degraded_answer env task turns)" by (simp add: degraded_answer_def Let_def)
  obtain scan where s: "run_scan env task (trim out) (effectivePatterns configured turns) = Some scan"
    "a = own_answer turns (cs_detected scan) (cs_childApproved scan)"
    using assms(1,2) d ne p h by (auto simp: resolveOwnOutstanding_def Let_def split: if_splits option.splits)
  obtain children where "pe_children env = Some children" using s(1) by (cases "pe_children env") (simp_all add: run_scan_def)
  then show ?thesis using that s p h by blast
qed

definition accepted_children :: "Task list \<Rightarrow> Task list" where
  "accepted_children children = fst (classifyHubChildren children)"

definition child_atts :: "ProtectEnv \<Rightarrow> Task list \<Rightarrow> ChildAttribution list" where
  "child_atts env children = map (\<lambda>child. attributeChild child (pe_tags env) (branch_commits env)) (accepted_children children)"

definition deferred_paths :: "ProtectEnv \<Rightarrow> Task \<Rightarrow> Task list \<Rightarrow> string list" where
  "deferred_paths env task children =
     snd (childContributionsFor env (accepted_children children) (Some (child_atts env children)) (isClusterTask task))"

definition direct_paths :: "ProtectEnv \<Rightarrow> Task list \<Rightarrow> string list" where
  "direct_paths env children = (case dp_paths (env_plan env children) of Some ps \<Rightarrow> ps | None \<Rightarrow> [])"

lemma env_plan_fields:
  "dp_acceptedChildren (env_plan env children) = accepted_children children"
  "dp_scopedToDirect (env_plan env children) = (accepted_children children \<noteq> [])"
  "dp_paths (env_plan env children) = (if accepted_children children = [] then None else Some (direct_paths env children))"
  "dp_childAttribution (env_plan env children) = (if accepted_children children = [] then None else Some (child_atts env children))"
  by (simp_all add: env_plan_def resolveTaskDirectDiff_def accepted_children_def child_atts_def branch_commits_def direct_paths_def Let_def
      split: prod.split)

lemma no_children_contribution: "childContributionsFor env [] atts cluster = ([], [])"
  by (simp add: childContributionsFor_def)

text \<open>What is in scope is detected, and no child's approval clears it.\<close>

lemma scan_in_scope:
  assumes scan: "run_scan env task (trim out) (effectivePatterns configured turns) = Some scan"
    and env: "pe_head env = Some out" "pe_patterns env = Some configured" "pe_children env = Some children"
    and v: "v \<in> set (whole_scan env turns)"
    and scope: "accepted_children children = [] \<or> fv_file v \<in> set (direct_paths env children) \<union> set (deferred_paths env task children)"
  shows "v \<in> set (cs_detected scan) \<and> fv_file v \<notin> set (cs_childApproved scan)"
proof -
  obtain startSha where st: "scanStartSha env = Some startSha"
    using v env by (cases "scanStartSha env") (simp_all add: whole_scan_def)
  obtain scanned where d: "detectViolations (pe_glob env) (pe_git env) startSha (trim out) (effectivePatterns configured turns) (Some startSha)
      (if db_twoDot (pe_base env) then None else Some (db_ref (pe_base env))) = Inr scanned"
    using v env st
    by (cases "detectViolations (pe_glob env) (pe_git env) startSha (trim out) (effectivePatterns configured turns) (Some startSha)
      (if db_twoDot (pe_base env) then None else Some (db_ref (pe_base env)))") (simp_all add: whole_scan_def)
  have vs: "v \<in> set scanned" using v env st d by (simp add: whole_scan_def)
  show ?thesis
  proof (cases "accepted_children children = []")
    case True
    then show ?thesis using scan env st d vs
      by (simp add: run_scan_def env_plan_fields no_children_contribution clearableChildApprovals_def Let_def) auto
  next
    case False
    obtain ca dp where c: "childContributionsFor env (accepted_children children) (Some (child_atts env children)) (isClusterTask task) = (ca, dp)"
      by fastforce
    then have dp: "dp = deferred_paths env task children" by (simp add: deferred_paths_def)
    show ?thesis using scan env st d vs False scope c
      by (auto simp: run_scan_def env_plan_fields clearableChildApprovals_def Let_def dp split: if_splits)
  qed
qed

lemma detected_is_asked:
  assumes "v \<in> set detected" and "fv_file v \<notin> set childApproved"
  shows "fv_file v \<in> fv_file ` set (ov_outstanding (own_answer turns detected childApproved)) \<or>
    own_status turns (fv_file v) = Some ViolationApproved"
proof (cases "own_status turns (fv_file v) = Some ViolationApproved")
  case False
  then have "fv_file v \<in> fv_file ` set (outstandingFromDetection detected turns)"
    using assms(1) by (auto simp: outstandingFromDetection_files)
  then obtain u where "u \<in> set (outstandingFromDetection detected turns)" "fv_file u = fv_file v" by force
  then have "u \<in> set (ov_outstanding (own_answer turns detected childApproved))"
    using assms(2) by (simp add: own_answer_def outstandingWithChildApprovals_def)
  then show ?thesis using \<open>fv_file u = fv_file v\<close> by (metis image_eqI)
qed simp

lemma agent_child_defers:
  assumes "distinct (map t_id children)" and "child \<in> set children" and "t_status child = Complete"
    and "fst (child_answer env (isClusterTask task) child) = AgentAudience"
    and "f \<in> set (ca_paths (attributeChild child (pe_tags env) (branch_commits env)))"
  shows "f \<in> set (deferred_paths env task children)"
proof -
  have acc: "child \<in> set (accepted_children children)" using assms(2,3) by (simp add: accepted_children_def classifyHubChildren_def)
  have "distinct (map t_id (accepted_children children))"
    using assms(1) by (simp add: accepted_children_def classifyHubChildren_def distinct_map_filter)
  from attributed_paths_of [OF this acc, of "pe_tags env" "branch_commits env"]
  have "f \<in> set (attributed_paths (child_atts env children) (t_id child))" using assms(5) by (simp add: child_atts_def)
  then show ?thesis using deferred_contribution [OF acc assms(4)] by (simp add: deferred_paths_def)
qed


section \<open>Deferral\<close>

lemma deferral_is_agent:
  assumes "resolveProtectedFileDeferral readParent history child turns = Some d"
  shows "\<exists>pid parent. parentTaskIdOf child = Some pid \<and> readParent pid = Some (Some parent) \<and> d = \<lparr>df_taskId = t_id parent, df_displayId = displayId parent\<rparr> \<and>
    \<not> isTerminalStatus (t_status parent) \<and> audienceOf turns (createdByOf history) (isClusterTask parent) = AgentAudience"
  using assms by (auto simp: resolveProtectedFileDeferral_def split: option.splits if_splits)


section \<open>The ledger\<close>

text \<open>Violations stand on agent turns; a person's turn carries them only in a session that has no agent turn yet.\<close>

fun ledger_order :: "LedgerTurn list \<Rightarrow> bool" where
  "ledger_order [] = True"
| "ledger_order (t # ts) \<longleftrightarrow>
     (lt_role t = AgentTurn \<longrightarrow> list_all (\<lambda>u. lt_role u = AgentTurn \<or> lt_violations u = None) ts) \<and> ledger_order ts"

definition ledger_ok :: "LedgerTurn list \<Rightarrow> bool" where
  "ledger_ok turns \<longleftrightarrow> distinct (map lt_id turns) \<and> ledger_order turns"

lemma ledger_order_append: "ledger_order (a @ t # b) \<Longrightarrow> lt_role t = AgentTurn \<Longrightarrow>
    list_all (\<lambda>u. lt_role u = AgentTurn \<or> lt_violations u = None) b"
  by (induction a) simp_all

lemma ledger_order_snoc: "\<forall>t \<in> set turns. lt_role t \<noteq> AgentTurn \<Longrightarrow> ledger_order (turns @ [u])"
  by (induction turns) simp_all

lemma ledger_order_update:
  "ledger_order (a @ t # b) \<Longrightarrow> lt_role t = AgentTurn \<Longrightarrow> ledger_order (a @ t\<lparr>lt_violations := x\<rparr> # b)"
  by (induction a) auto

lemma find_rev_split:
  assumes "find P (rev xs) = Some x"
  shows "\<exists>a b. xs = a @ x # b \<and> P x \<and> list_all (\<lambda>y. \<not> P y) b"
  using assms
proof (induction xs rule: rev_induct)
  case (snoc y ys)
  show ?case
  proof (cases "P y")
    case True
    then show ?thesis using snoc.prems by (intro exI [of _ ys] exI [of _ "[]"]) simp
  next
    case False
    then obtain a b where "ys = a @ x # b" "P x" "list_all (\<lambda>y. \<not> P y) b" using snoc by auto
    then show ?thesis using False by (intro exI [of _ a] exI [of _ "b @ [y]"]) simp
  qed
qed simp

text \<open>The turn that takes the ledger is an agent's, and no later turn records anything.\<close>

lemma ledger_turn_last:
  assumes "ledger_ok turns" and "ledgerTurnOf turns = Some t"
  obtains a b where "turns = a @ t # b" and "lt_role t = AgentTurn" and "recorded b = []"
proof -
  have none: "recorded b = []" if "list_all (\<lambda>u. lt_violations u = None) b" for b
    using \<open>list_all (\<lambda>u. lt_violations u = None) b\<close> by (induction b) (simp_all add: recorded_def)
  show ?thesis
  proof (cases "latestViolationTurn turns")
    case (Some u)
    then have u: "find (\<lambda>t. lt_role t = AgentTurn \<and> lt_violations t \<noteq> None) (rev turns) = Some t"
      using assms(2) by (simp add: ledgerTurnOf_def latestViolationTurn_def)
    obtain a b where ab: "turns = a @ t # b" "lt_role t = AgentTurn" "list_all (\<lambda>u. \<not> (lt_role u = AgentTurn \<and> lt_violations u \<noteq> None)) b"
      using find_rev_split [OF u] by blast
    have "list_all (\<lambda>u. lt_role u = AgentTurn \<or> lt_violations u = None) b"
      using assms(1) ab(1,2) ledger_order_append unfolding ledger_ok_def by blast
    then have "list_all (\<lambda>u. lt_violations u = None) b" using ab(3) unfolding list_all_iff by blast
    then show ?thesis using that ab none by blast
  next
    case None
    then have u: "find (\<lambda>t. lt_role t = AgentTurn) (rev turns) = Some t" using assms(2) by (simp add: ledgerTurnOf_def)
    obtain a b where ab: "turns = a @ t # b" "lt_role t = AgentTurn" using find_rev_split [OF u] by blast
    have "\<forall>u \<in> set turns. \<not> (lt_role u = AgentTurn \<and> lt_violations u \<noteq> None)"
      using None by (simp add: latestViolationTurn_def find_None_iff)
    moreover have "list_all (\<lambda>u. lt_role u = AgentTurn \<or> lt_violations u = None) b"
      using assms(1) ab ledger_order_append unfolding ledger_ok_def by blast
    ultimately have "list_all (\<lambda>u. lt_violations u = None) b" using ab(1) unfolding list_all_iff by auto
    then show ?thesis using that ab none by blast
  qed
qed

lemma recorded_append: "recorded (a @ b) = recorded a @ recorded b"
  by (simp add: recorded_def)

text \<open>Writing a ledger: it is read back, and what it does not name keeps its older record.\<close>

lemma ledger_read:
  assumes "ledger_ok turns" and "ledgerTurnOf turns = Some t" and "distinct (map fv_file ledger)"
  shows "ledger_ok (updateTurnViolations turns t ledger)"
    and "find (\<lambda>v. fv_file v = f) ledger = Some v \<Longrightarrow> own_status (updateTurnViolations turns t ledger) f = Some (fv_status v)"
proof -
  obtain a b where ab: "turns = a @ t # b" "lt_role t = AgentTurn" "recorded b = []" using ledger_turn_last [OF assms(1,2)] .
  have fresh: "lt_id t \<notin> lt_id ` set a" using assms(1) by (simp add: ledger_ok_def ab(1))
  have up: "updateTurnViolations turns t ledger = a @ t\<lparr>lt_violations := Some ledger\<rparr> # b"
    using fresh unfolding updateTurnViolations_def ab(1) by (induction a) auto
  show "ledger_ok (updateTurnViolations turns t ledger)"
    using assms(1) ledger_order_update [of a t b] ab(2) by (simp add: ledger_ok_def up) (simp add: ab(1))
  have rec: "recorded (a @ t\<lparr>lt_violations := Some ledger\<rparr> # b) = recorded a @ ledger"
    using ab(3) by (simp add: recorded_def)
  show "find (\<lambda>v. fv_file v = f) ledger = Some v \<Longrightarrow> own_status (updateTurnViolations turns t ledger) f = Some (fv_status v)"
    unfolding up own_status_def latest_record rec by (simp add: find_append find_rev_distinct [OF assms(3)])
qed

definition merged_map :: "LedgerTurn list \<Rightarrow> FileViolation list \<Rightarrow> (string, FileViolation) omap" where
  "merged_map turns detected =
     foldl (\<lambda>m hit. if omap_has m (fv_file hit) then m else omap_set m (fv_file hit) (hit\<lparr>fv_status := ViolationPending\<rparr>))
       (violationRecordsByFile turns) detected"

lemma merged_map_get: "by_file (merged_map turns detected)"
  "omap_get (merged_map turns detected) f =
     (case omap_get (violationRecordsByFile turns) f of
        Some v \<Rightarrow> Some v
      | None \<Rightarrow> map_option (\<lambda>v. v\<lparr>fv_status := ViolationPending\<rparr>) (find (\<lambda>v. fv_file v = f) detected))"
proof -
  let ?add = "\<lambda>m hit. if omap_has m (fv_file hit) then m else omap_set m (fv_file hit) (hit\<lparr>fv_status := ViolationPending\<rparr>)"
  have b: "by_file m \<Longrightarrow> by_file (foldl ?add m detected)" for m
    by (induction detected arbitrary: m) (simp_all add: by_file_set)
  show "by_file (merged_map turns detected)" unfolding merged_map_def by (rule b [OF by_file_records])
  have "omap_get (foldl ?add m detected) f = (case omap_get m f of Some v \<Rightarrow> Some v
      | None \<Rightarrow> map_option (\<lambda>v. v\<lparr>fv_status := ViolationPending\<rparr>) (find (\<lambda>v. fv_file v = f) detected))" for m
    by (induction detected arbitrary: m) (auto simp: omap_has_iff split: option.splits)
  then show "omap_get (merged_map turns detected) f =
     (case omap_get (violationRecordsByFile turns) f of
        Some v \<Rightarrow> Some v
      | None \<Rightarrow> map_option (\<lambda>v. v\<lparr>fv_status := ViolationPending\<rparr>) (find (\<lambda>v. fv_file v = f) detected))"
    by (simp add: merged_map_def)
qed

lemma find_map_same: "\<forall>v. fv_file (g v) = fv_file v \<Longrightarrow> find (\<lambda>v. fv_file v = f) (map g vs) = map_option g (find (\<lambda>v. fv_file v = f) vs)"
  by (induction vs) auto

lemma merged_find:
  "distinct (map fv_file (mergedViolationRecords turns detected approved))"
  "find (\<lambda>v. fv_file v = f) (mergedViolationRecords turns detected approved) =
     map_option (\<lambda>v. if fv_file v \<in> set approved then v\<lparr>fv_status := ViolationApproved\<rparr> else v) (omap_get (merged_map turns detected) f)"
proof -
  let ?g = "\<lambda>v. if fv_file v \<in> set approved then v\<lparr>fv_status := ViolationApproved\<rparr> else v"
  have m: "mergedViolationRecords turns detected approved = map ?g (omap_values (merged_map turns detected))"
    by (simp add: mergedViolationRecords_def merged_map_def Let_def)
  have same: "\<forall>v. fv_file (?g v) = fv_file v" by simp
  have "map fv_file (map ?g (omap_values (merged_map turns detected))) = map fv_file (omap_values (merged_map turns detected))"
    by simp
  then show "distinct (map fv_file (mergedViolationRecords turns detected approved))"
    using by_file_values_distinct [OF merged_map_get(1)] by (simp only: m)
  show "find (\<lambda>v. fv_file v = f) (mergedViolationRecords turns detected approved) = map_option ?g (omap_get (merged_map turns detected) f)"
    unfolding m find_map_same [OF same] by (simp only: by_file_find [OF merged_map_get(1)])
qed

text \<open>In the merged ledger every approved file that has a record or was detected is approved, and an approval stands.\<close>

lemma merged_approved:
  assumes "f \<in> set approved \<and> (own_status turns f \<noteq> None \<or> f \<in> fv_file ` set detected) \<or> own_status turns f = Some ViolationApproved"
  shows "\<exists>v. find (\<lambda>v. fv_file v = f) (mergedViolationRecords turns detected approved) = Some v \<and> fv_status v = ViolationApproved"
proof -
  have some: "f \<in> fv_file ` set detected \<Longrightarrow> find (\<lambda>v. fv_file v = f) detected \<noteq> None" by (auto simp: find_None_iff)
  have file_of: "omap_get (merged_map turns detected) f = Some v \<Longrightarrow> fv_file v = f" for v
    using merged_map_get(1) [of turns detected] omap_get_in [of "merged_map turns detected" f v] by (auto simp: by_file_def)
  have got: "omap_get (merged_map turns detected) f \<noteq> None"
    using assms some by (auto simp: merged_map_get(2) own_status_def split: option.split)
  then obtain v where v: "omap_get (merged_map turns detected) f = Some v" by blast
  have "f \<notin> set approved \<Longrightarrow> fv_status v = ViolationApproved"
    using assms v by (auto simp: merged_map_get(2) own_status_def split: option.splits)
  then show ?thesis using v file_of by (auto simp: merged_find(2))
qed

section \<open>The gate of accept\<close>

text \<open>What the resolver calls outstanding was detected or has a record; what it detected and does not call
  outstanding is approved here or by a child.\<close>

lemma outstanding_known:
  assumes "resolveOwnOutstanding env task turns cache = (st, cache')"
  shows "v \<in> set (ov_outstanding st) \<Longrightarrow> own_status turns (fv_file v) \<noteq> None \<or> fv_file v \<in> fv_file ` set (ov_detected st)"
    and "v \<in> set (ov_detected st) \<Longrightarrow> fv_file v \<in> fv_file ` set (ov_outstanding st) \<or> own_status turns (fv_file v) = Some ViolationApproved \<or>
      fv_file v \<in> set (ov_approved st)"
proof -
  have cases: "(\<exists>detected ca. st = own_answer turns detected ca) \<or> st = degraded_answer env task turns"
    using assms by (auto simp: resolveOwnOutstanding_def Let_def split: option.splits if_splits)
  have sub: "set (outstandingWithChildApprovals o1 turns ca) \<subseteq> set o1" for o1 ca
    by (auto simp: outstandingWithChildApprovals_def)
  have rec: "v \<in> set (outstandingFromRecords turns) \<Longrightarrow> own_status turns (fv_file v) \<noteq> None" for v
  proof -
    assume "v \<in> set (outstandingFromRecords turns)"
    then obtain k where k: "(k, v) \<in> set (violationRecordsByFile turns)" by (auto simp: outstandingFromRecords_def omap_values_def)
    then have "fv_file v = k" using by_file_records [of turns] by (auto simp: by_file_def)
    then show ?thesis using k omap_in_get [of "violationRecordsByFile turns"] by_file_records [of turns]
      by (auto simp: by_file_def own_status_def)
  qed
  show "v \<in> set (ov_outstanding st) \<Longrightarrow> own_status turns (fv_file v) \<noteq> None \<or> fv_file v \<in> fv_file ` set (ov_detected st)"
    using cases
  proof (elim disjE exE)
    fix detected ca assume st: "st = own_answer turns detected ca" and v: "v \<in> set (ov_outstanding st)"
    then have "v \<in> set (outstandingFromDetection detected turns)" using sub by (auto simp: own_answer_def)
    then have "fv_file v \<in> fv_file ` set (outstandingFromDetection detected turns)" by (rule imageI)
    then show ?thesis unfolding outstandingFromDetection_files by (simp add: st own_answer_def)
  next
    assume st: "st = degraded_answer env task turns" and v: "v \<in> set (ov_outstanding st)"
    then have "v \<in> set (outstandingFromRecords turns)" using sub by (auto simp: degraded_answer_def Let_def)
    then show ?thesis using rec by blast
  qed
  show "v \<in> set (ov_detected st) \<Longrightarrow> fv_file v \<in> fv_file ` set (ov_outstanding st) \<or> own_status turns (fv_file v) = Some ViolationApproved \<or>
      fv_file v \<in> set (ov_approved st)"
    using cases
  proof (elim disjE exE)
    fix detected ca assume st: "st = own_answer turns detected ca" and v: "v \<in> set (ov_detected st)"
    then have vd: "v \<in> set detected" by (simp add: own_answer_def)
    have "own_status turns (fv_file v) = Some ViolationApproved \<or> fv_file v \<in> set ca \<and> own_status turns (fv_file v) \<noteq> Some ViolationRejected \<or>
        fv_file v \<in> fv_file ` set (outstandingWithChildApprovals (outstandingFromDetection detected turns) turns ca)"
    proof (cases "own_status turns (fv_file v) = Some ViolationApproved")
      case False
      then have "fv_file v \<in> fv_file ` set (outstandingFromDetection detected turns)" using vd by (simp add: outstandingFromDetection_files)
      then obtain u where u: "u \<in> set (outstandingFromDetection detected turns)" "fv_file u = fv_file v" by force
      show ?thesis
      proof (cases "fv_file v \<in> set ca \<and> own_status turns (fv_file v) \<noteq> Some ViolationRejected")
        case False
        then have "u \<in> set (outstandingWithChildApprovals (outstandingFromDetection detected turns) turns ca)"
          using u by (simp add: outstandingWithChildApprovals_def)
        then have "fv_file v \<in> fv_file ` set (outstandingWithChildApprovals (outstandingFromDetection detected turns) turns ca)"
          using u(2) by (metis image_eqI)
        then show ?thesis by blast
      qed blast
    qed blast
    then show ?thesis by (auto simp: st own_answer_def combineApprovals_def)
  next
    assume "st = degraded_answer env task turns" and "v \<in> set (ov_detected st)"
    then show ?thesis by (simp add: degraded_answer_def Let_def)
  qed
qed

text \<open>C15: the gate of accept is all or nothing and leaves an audit that stands. Accept is refused exactly when
  some outstanding file was not approved by name; when it passes, every outstanding file is recorded as
  approved on the session's turns, no earlier approval is lost, the turns stay well formed, and resolving the
  same scan again leaves nothing to ask, also in a session that had no turn to hold the record.\<close>

theorem accept_gate_settles:
  assumes "ledger_ok turns" and "resolveOwnOutstanding env task turns cache = (st, cache')" and "newTurnId \<notin> lt_id ` set turns"
  shows "case acceptViolationGate False st approvedFiles newTurnId actor turns of
      Inl e \<Rightarrow> \<not> fv_file ` set (ov_outstanding st) \<subseteq> set approvedFiles
    | Inr turns' \<Rightarrow>
        fv_file ` set (ov_outstanding st) \<subseteq> set approvedFiles \<and> ledger_ok turns' \<and>
        list_all (\<lambda>v. own_status turns' (fv_file v) = Some ViolationApproved) (ov_outstanding st) \<and>
        set (approvedFilesFromRecords turns) \<subseteq> set (approvedFilesFromRecords turns') \<and>
        (ov_outstanding st = [] \<or> outstandingFromDetection (ov_detected st) turns' = [])"
proof (cases "ov_outstanding st = []")
  case True
  then show ?thesis using assms(1) by (simp add: acceptViolationGate_def)
next
  case False
  let ?pending = "map fv_file (ov_outstanding st)"
  let ?ledger = "mergedViolationRecords turns (ov_detected st) (ov_approved st @ ?pending)"
  let ?turns' = "case ledgerTurnOf turns of Some t \<Rightarrow> updateTurnViolations turns t ?ledger
    | None \<Rightarrow> turns @ [\<lparr>lt_id = newTurnId, lt_role = HumanTurn, lt_actor = Some actor, lt_violations = Some ?ledger\<rparr>]"
  show ?thesis
  proof (cases "fv_file ` set (ov_outstanding st) \<subseteq> set approvedFiles")
    case no: False
    then have "filter (\<lambda>f. f \<notin> set approvedFiles) ?pending \<noteq> []" by (auto simp: filter_empty_conv)
    then show ?thesis using False no by (simp add: acceptViolationGate_def Let_def)
  next
    case yes: True
    then have pass: "acceptViolationGate False st approvedFiles newTurnId actor turns = Inr ?turns'"
      using False by (cases "approvedFiles = []") (auto simp: acceptViolationGate_def Let_def filter_empty_conv split: option.split)
    have read: "ledger_ok ?turns' \<and> (\<forall>f v. find (\<lambda>v. fv_file v = f) ?ledger = Some v \<longrightarrow> own_status ?turns' f = Some (fv_status v))"
    proof (cases "ledgerTurnOf turns")
      case None
      have rec: "recorded (turns @ [\<lparr>lt_id = newTurnId, lt_role = HumanTurn, lt_actor = Some actor, lt_violations = Some ?ledger\<rparr>]) =
          recorded turns @ ?ledger"
        by (simp add: recorded_def)
      have noagent: "\<forall>t \<in> set turns. lt_role t \<noteq> AgentTurn"
        using None by (auto simp: ledgerTurnOf_def find_None_iff split: option.splits)
      have "ledger_order (turns @ [\<lparr>lt_id = newTurnId, lt_role = HumanTurn, lt_actor = Some actor, lt_violations = Some ?ledger\<rparr>])"
        by (rule ledger_order_snoc [OF noagent])
      then show ?thesis
        using None assms(1,3) by (simp add: ledger_ok_def own_status_def latest_record rec find_append find_rev_distinct [OF merged_find(1)])
    next
      case (Some t)
      then show ?thesis using ledger_read [OF assms(1) Some merged_find(1)] by simp
    qed
    have approved: "own_status ?turns' f = Some ViolationApproved"
      if "f \<in> set (ov_approved st @ ?pending) \<and> (own_status turns f \<noteq> None \<or> f \<in> fv_file ` set (ov_detected st)) \<or>
        own_status turns f = Some ViolationApproved" for f
      using merged_approved [OF that] read by fastforce
    have all: "list_all (\<lambda>v. own_status ?turns' (fv_file v) = Some ViolationApproved) (ov_outstanding st)"
      using outstanding_known(1) [OF assms(2)] approved by (auto simp: list_all_iff)
    have kept: "set (approvedFilesFromRecords turns) \<subseteq> set (approvedFilesFromRecords ?turns')"
      using approved by (auto simp: approvedFiles_iff)
    have "own_status ?turns' (fv_file v) = Some ViolationApproved" if "v \<in> set (ov_detected st)" for v
      using outstanding_known(2) [OF assms(2) \<open>v \<in> set (ov_detected st)\<close>] approved [of "fv_file v"] \<open>v \<in> set (ov_detected st)\<close> by auto
    then have "fv_file ` set (outstandingFromDetection (ov_detected st) ?turns') = {}"
      by (auto simp: outstandingFromDetection_files)
    then show ?thesis using pass read all kept yes by simp
  qed
qed

text \<open>A decision on one file is recorded as made and changes no other file's decision, if the file has a
  record of its own or was detected.\<close>

lemma decision_recorded:
  assumes "ledger_ok turns" and "setViolationDecision st turns file approved now = Inr turns'"
    and "own_status turns file \<noteq> None \<or> file \<in> fv_file ` set (ov_detected st)"
  shows "ledger_ok turns' \<and> own_status turns' file = Some (if approved then ViolationApproved else ViolationPending)"
proof -
  let ?merged = "mergedViolationRecords turns (ov_detected st) (if approved then [file] else [])"
  let ?g = "\<lambda>v. if fv_file v = file then decision_record approved now v else v"
  obtain t where t: "ledgerTurnOf turns = Some t" "turns' = updateTurnViolations turns t (map ?g ?merged)"
    using assms(2) by (auto simp: setViolationDecision_def Let_def split: if_splits option.splits)
  have same: "\<forall>v. fv_file (?g v) = fv_file v" by (simp add: decision_record_def)
  have "map fv_file (map ?g ?merged) = map fv_file ?merged" using same by simp
  then have dist: "distinct (map fv_file (map ?g ?merged))" using merged_find(1) by metis
  have some: "file \<in> fv_file ` set (ov_detected st) \<Longrightarrow> find (\<lambda>v. fv_file v = file) (ov_detected st) \<noteq> None"
    by (auto simp: find_None_iff)
  obtain v where v: "omap_get (merged_map turns (ov_detected st)) file = Some v" "fv_file v = file"
    using assms(3) some merged_map_get(1) [of turns "ov_detected st"] omap_get_in [of "merged_map turns (ov_detected st)" "file"]
    by (fastforce simp: merged_map_get(2) own_status_def by_file_def split: option.splits)
  have "\<exists>u. find (\<lambda>v. fv_file v = file) (map ?g ?merged) = Some u \<and> fv_status u = (if approved then ViolationApproved else ViolationPending)"
    unfolding find_map_same [OF same] merged_find(2) using v by (simp add: decision_record_def)
  then show ?thesis using ledger_read [OF assms(1) t(1) dist] t(2) by force
qed

section \<open>A hub with a child of each audience\<close>

text \<open>The hub's branch carries the accept of a person's child (found by its subject), of an agent's child (found by
  its tag) and a commit of its own.\<close>

definition person_child :: Task where
  "person_child = blank_task\<lparr>t_id := ''hhhhhhhh'', t_status := Complete, t_target := ToTask ''hub''\<rparr>"

definition agent_child :: Task where
  "agent_child = blank_task\<lparr>t_id := ''gggggggg'', t_status := Complete, t_target := ToTask ''hub''\<rparr>"

definition hub :: Task where
  "hub = blank_task\<lparr>t_id := ''hub'', t_status := Blocked\<rparr>"

definition launch_by :: "Actor \<Rightarrow> LedgerTurn" where
  "launch_by a = \<lparr>lt_id = ''l'', lt_role = HumanTurn, lt_actor = Some a, lt_violations = None\<rparr>"

definition reply_with :: "FileViolation list option \<Rightarrow> LedgerTurn" where
  "reply_with vs = \<lparr>lt_id = ''r'', lt_role = AgentTurn, lt_actor = Some Agent, lt_violations = vs\<rparr>"

definition child_records :: "string \<Rightarrow> (LedgerTurn list \<times> Actor option list option) option" where
  "child_records i =
     (if i = ''hhhhhhhh''
      then Some ([launch_by Human, reply_with (Some [(pending_violation ''s'' ''test/a'')\<lparr>fv_status := ViolationApproved\<rparr>])], None)
      else if i = ''gggggggg''
      then Some ([launch_by Agent, reply_with (Some [(pending_violation ''s'' ''test/b'')\<lparr>fv_status := ViolationApproved\<rparr>])], None)
      else None)"

definition log_entry :: "string \<Rightarrow> string \<Rightarrow> string \<Rightarrow> string" where
  "log_entry sha subject path = sha @ [nul] @ subject @ [nl_char, nl_char] @ path @ [nl_char]"

fun edit_of :: "string \<Rightarrow> FileChange" where
  "edit_of p = ModifiedFile p (TextHunks [RemovedLine ''y''])"

definition hub_env :: ProtectEnv where
  "hub_env =
     \<lparr>pe_patterns = Some [''test/''], pe_worktree = True, pe_head = Some ''e'', pe_base = \<lparr>db_ref = ''s'', db_twoDot = True\<rparr>,
      pe_children = Some [person_child, agent_child], pe_records = child_records, pe_tags = [(''lazy-accept-gggggggg'', ''2'')],
      pe_log = Some (log_entry ''3'' ''own work'' ''test/c'' @ log_entry ''2'' ''merge'' ''test/b'' @
        log_entry ''1'' ''Accept task hhhhhhhh: x'' ''test/a''),
      pe_dirty = [], pe_mergeBase = (\<lambda>_. Some ''s''), pe_git = git_of (map edit_of [''test/a'', ''test/b'', ''test/c'']) (\<lambda>p. True),
      pe_glob = in_test, pe_hash = (\<lambda>s. s)\<rparr>"

definition hub_state :: OutstandingViolations where
  "hub_state = fst (resolveOwnOutstanding hub_env hub [] [])"

lemma hub_state_files:
  "map fv_file (ov_outstanding hub_state) = [''test/b'', ''test/c''] \<and> ov_approved hub_state = [''test/a''] \<and> \<not> ov_degraded hub_state"
  by code_simp

lemma hub_resolution:
  "resolveOwnOutstanding hub_env hub [] [] = (hub_state, snd (resolveOwnOutstanding hub_env hub [] []))"
  by (simp add: hub_state_def)

lemma hub_facts:
  "pe_children hub_env = Some [person_child, agent_child]" "distinct (map t_id [person_child, agent_child])"
  "distinct (map fc_sha (branch_commits hub_env))" "\<not> ov_degraded hub_state"
  "pending_violation ''s'' ''test/b'' \<in> set (whole_scan hub_env [])"
  "\<lparr>fc_sha = ''2'', fc_subject = ''merge'', fc_paths = [''test/b'']\<rparr> \<in> set (branch_commits hub_env)"
  "''test/b'' \<in> set (ca_paths (attributeChild agent_child (pe_tags hub_env) (branch_commits hub_env)))"
  by code_simp+


definition agent_turns :: "LedgerTurn list" where
  "agent_turns = [launch_by Agent, reply_with (Some [(pending_violation ''s'' ''test/b'')\<lparr>fv_status := ViolationApproved\<rparr>])]"

text \<open>The agent's child at its own accept: it edited a second protected file that nobody approved.\<close>

definition child_env :: ProtectEnv where
  "child_env = hub_env\<lparr>pe_children := Some [], pe_git := git_of (map edit_of [''test/b'', ''test/d'']) (\<lambda>p. True)\<rparr>"

definition child_answer_state :: OutstandingViolations where
  "child_answer_state =
     fst (resolveOutstandingViolations child_env (\<lambda>_. Some (Some hub)) None (agent_child\<lparr>t_status := Blocked\<rparr>) agent_turns [])"


definition hub_turns :: "LedgerTurn list" where
  "hub_turns = [launch_by Human, reply_with (Some [pending_violation ''s'' ''test/c'']), (reply_with (Some []))\<lparr>lt_id := ''q''\<rparr>]"

lemma accept_gate_settles_witness:
  "let st = fst (resolveOwnOutstanding hub_env hub hub_turns []);
       gate = (\<lambda>approvedFiles. acceptViolationGate False st approvedFiles ''n'' Human hub_turns)
   in gate [''test/c''] = Inl (MissingApprovals [''test/b'']) \<and>
      (case gate [''test/b'', ''test/c''] of
         Inl e \<Rightarrow> False
       | Inr turns' \<Rightarrow> outstandingFromDetection (ov_detected st) turns' = [] \<and> own_status turns' ''test/b'' = Some ViolationApproved)"
proof -
  let ?st = "fst (resolveOwnOutstanding hub_env hub hub_turns [])"
  let ?gate = "\<lambda>approvedFiles. acceptViolationGate False ?st approvedFiles ''n'' Human hub_turns"
  have ok: "ledger_ok hub_turns" and n: "''n'' \<notin> lt_id ` set hub_turns" by code_simp+
  have r: "resolveOwnOutstanding hub_env hub hub_turns [] = (?st, snd (resolveOwnOutstanding hub_env hub hub_turns []))"
    by (rule prod.collapse [symmetric])
  have files: "map fv_file (ov_outstanding ?st) = [''test/b'', ''test/c'']" by code_simp
  have refused: "?gate [''test/c''] = Inl (MissingApprovals [''test/b''])" by code_simp
  obtain st where st: "st = ?st" by blast
  have settles: "fv_file ` set (ov_outstanding st) \<subseteq> set [''test/b'', ''test/c''] \<Longrightarrow> ov_outstanding st \<noteq> [] \<Longrightarrow>
      \<exists>turns'. acceptViolationGate False st [''test/b'', ''test/c''] ''n'' Human hub_turns = Inr turns' \<and>
        list_all (\<lambda>v. own_status turns' (fv_file v) = Some ViolationApproved) (ov_outstanding st) \<and>
        outstandingFromDetection (ov_detected st) turns' = []"
    using accept_gate_settles [OF ok r n, of "[''test/b'', ''test/c'']" Human] unfolding st [symmetric]
    by (cases "acceptViolationGate False st [''test/b'', ''test/c''] ''n'' Human hub_turns") simp_all
  obtain u w where u: "ov_outstanding st = [u, w]" "fv_file u = ''test/b''" "fv_file w = ''test/c''"
    using files unfolding st [symmetric] by (auto simp: map_eq_Cons_conv)
  obtain turns' where t: "acceptViolationGate False st [''test/b'', ''test/c''] ''n'' Human hub_turns = Inr turns'"
    "own_status turns' ''test/b'' = Some ViolationApproved" "outstandingFromDetection (ov_detected st) turns' = []"
    using settles u by auto
  show ?thesis using refused t unfolding Let_def st [symmetric] by simp
qed

section \<open>Where the gate is not what its comments say\<close>

text \<open>A \<open>git log\<close> that fails reads as a branch with no commits: with an accepted child of a person, nothing is
  asked, nothing is degraded, and a protected file the scan would flag passes.\<close>

lemma failed_log_asks_nothing:
  "let env = hub_env\<lparr>pe_log := None\<rparr>; st = fst (resolveOwnOutstanding env hub [] [])
   in map fv_file (whole_scan env []) = [''test/a'', ''test/b'', ''test/c''] \<and> ov_outstanding st = [] \<and> \<not> ov_degraded st"
  by code_simp

text \<open>Without a scan a file whose restore was recorded counts as settled, also when it changed again.\<close>

lemma degraded_can_understate:
  "let turns = [reply_with (Some [(pending_violation ''s'' ''test/c'')\<lparr>fv_status := ViolationRejected\<rparr>])]
   in map fv_file (ov_outstanding (fst (resolveOwnOutstanding hub_env hub turns []))) = [''test/b'', ''test/c''] \<and>
      ov_outstanding (fst (resolveOwnOutstanding (hub_env\<lparr>pe_worktree := False\<rparr>) hub turns [])) = []"
  by code_simp

text \<open>Rejecting a file that a person approved at a child's accept succeeds and records nothing.\<close>

lemma decision_on_child_approval_lost:
  "let turns = [reply_with None]; st = fst (resolveOwnOutstanding hub_env hub turns [])
   in (case setViolationDecision st turns ''test/a'' False 5 of
         Inl e \<Rightarrow> False | Inr turns' \<Rightarrow> own_status turns' ''test/a'' = None)"
  by code_simp

end
