(* ===== verification/AcceptIntent.thy ===== *)
theory AcceptIntent
  imports ProtectedFiles
begin

text \<open>
  What an accept leaves on the task so that it survives the death of the daemon
  (\<open>src/src/daemon/accept-intent.ts\<close>): the decision itself, the work owed after the merge, and what a
  surface shows of that work when it keeps failing. \<open>maskUrlCredentials\<close> is from
  \<open>src/src/daemon/push-failure.ts\<close>.

  \<open>JSON.parse\<close> and \<open>JSON.stringify\<close> of the two records are arguments of the theories that read and
  write them.
\<close>

section \<open>Keys and bounds\<close>

definition ACCEPT_INTENT_KEY :: string where
  "ACCEPT_INTENT_KEY = ''accept_intent''"

definition ACCEPT_RESUME_NEXT_AT_KEY :: string where
  "ACCEPT_RESUME_NEXT_AT_KEY = ''accept_resume_next_at''"

definition ACCEPT_RESUME_ATTEMPTS_KEY :: string where
  "ACCEPT_RESUME_ATTEMPTS_KEY = ''accept_resume_attempts''"

definition MAX_ACCEPT_RESUME_ATTEMPTS :: int where
  "MAX_ACCEPT_RESUME_ATTEMPTS = 3"

definition ACCEPT_FOLLOWTHROUGH_KEY :: string where
  "ACCEPT_FOLLOWTHROUGH_KEY = ''accept_followthrough''"

definition FOLLOWTHROUGH_MESSAGE_AFTER_ATTEMPTS :: int where
  "FOLLOWTHROUGH_MESSAGE_AFTER_ATTEMPTS = 3"

section \<open>The decision and what is owed\<close>

record AcceptIntent =
  ai_reason :: string
  ai_actor :: ActorInput
  ai_approvedFiles :: "string list"
  ai_acceptDirtyWorktree :: bool
  ai_allowBroken :: bool
  ai_allowReviewIssues :: bool
  ai_recordedAt :: string

datatype FollowThroughStep =
    Reparent | FastForward | PushParent | CloseReview | AcceptTag | NotifyParent | ParentFidelity | Cleanup

fun step_text :: "FollowThroughStep \<Rightarrow> string" where
  "step_text Reparent = ''reparent''"
| "step_text FastForward = ''fast-forward''"
| "step_text PushParent = ''push-parent''"
| "step_text CloseReview = ''close-review''"
| "step_text AcceptTag = ''accept-tag''"
| "step_text NotifyParent = ''notify-parent''"
| "step_text ParentFidelity = ''parent-fidelity''"
| "step_text Cleanup = ''cleanup''"

definition FOLLOWTHROUGH_STEPS :: "FollowThroughStep list" where
  "FOLLOWTHROUGH_STEPS =
     [Reparent, FastForward, PushParent, CloseReview, AcceptTag, NotifyParent, ParentFidelity, Cleanup]"

record AcceptFollowThrough =
  ft_targetBranch :: string
  ft_viaForge :: bool
  ft_pushParent :: bool
  ft_closeReview :: bool
  ft_payerEmail :: "string option"
  ft_mergeSha :: "string option"
  ft_done :: "FollowThroughStep list"
  ft_attempts :: int
  ft_lastError :: "string option"
  ft_nextAttemptAt :: "int option"
  ft_messaged :: bool

text \<open>A fresh record: nothing done, nothing tried.\<close>

definition owed :: "string \<Rightarrow> bool \<Rightarrow> bool \<Rightarrow> bool \<Rightarrow> string option \<Rightarrow> AcceptFollowThrough" where
  "owed target viaForge pushParent closeReview mergeSha =
     \<lparr>ft_targetBranch = target, ft_viaForge = viaForge, ft_pushParent = pushParent, ft_closeReview = closeReview,
      ft_payerEmail = None, ft_mergeSha = mergeSha, ft_done = [], ft_attempts = 0, ft_lastError = None,
      ft_nextAttemptAt = None, ft_messaged = False\<rparr>"

text \<open>\<open>parseJson\<close>: nothing to parse and a record that does not parse are both absent.\<close>

definition parseJson :: "(string \<Rightarrow> 'a option) \<Rightarrow> string option \<Rightarrow> 'a option" where
  "parseJson parse raw = (case nonempty raw of None \<Rightarrow> None | Some s \<Rightarrow> parse s)"

definition readAcceptIntent :: "(string \<Rightarrow> AcceptIntent option) \<Rightarrow> Task \<Rightarrow> AcceptIntent option" where
  "readAcceptIntent parse task = parseJson parse (omap_get (t_metadata task) ACCEPT_INTENT_KEY)"

definition readFollowThrough :: "(string \<Rightarrow> AcceptFollowThrough option) \<Rightarrow> Task \<Rightarrow> AcceptFollowThrough option" where
  "readFollowThrough parse task = parseJson parse (omap_get (t_metadata task) ACCEPT_FOLLOWTHROUGH_KEY)"

text \<open>\<open>Number(raw || 0)\<close> of what \<open>String(n)\<close> wrote; anything that is not a number reads as 0.\<close>

definition read_number :: "string option \<Rightarrow> int" where
  "read_number raw = (case nonempty raw of None \<Rightarrow> 0 | Some s \<Rightarrow> (case parse_int s of None \<Rightarrow> 0 | Some n \<Rightarrow> n))"

definition readResumeNextAt :: "Task \<Rightarrow> int" where
  "readResumeNextAt task = read_number (omap_get (t_metadata task) ACCEPT_RESUME_NEXT_AT_KEY)"

definition readResumeAttempts :: "Task \<Rightarrow> int" where
  "readResumeAttempts task = read_number (omap_get (t_metadata task) ACCEPT_RESUME_ATTEMPTS_KEY)"

definition followThroughBackoffMs :: "int \<Rightarrow> int" where
  "followThroughBackoffMs attempts = min 30 (2 ^ nat (max 0 (attempts - 1))) * 60000"

section \<open>Masking credentials\<close>

text \<open>The scheme \<open>https?://\<close> in any case at the head of the text, and what follows it.\<close>

definition url_scheme :: "string \<Rightarrow> nat option" where
  "url_scheme s =
     (if to_lower (take 7 s) = ''http://'' then Some 7
      else if to_lower (take 8 s) = ''https://'' then Some 8 else None)"

lemma url_scheme_code [code]:
  "url_scheme s =
     (case s of
        [] \<Rightarrow> None
      | c # cs \<Rightarrow>
          if lower_char c \<noteq> CHR ''h'' then None
          else if to_lower (take 7 s) = ''http://'' then Some 7
          else if to_lower (take 8 s) = ''https://'' then Some 8 else None)"
  by (cases s) (auto simp: url_scheme_def to_lower_def)
definition credential_char :: "char \<Rightarrow> bool" where
  "credential_char c \<longleftrightarrow> c \<noteq> CHR ''@'' \<and> \<not> is_space c \<and> c \<noteq> CHR ''/''"

text \<open>\<open>[^@\s/]+@\<close>: the length of the credentials, when there are some.\<close>

definition credentials :: "string \<Rightarrow> nat option" where
  "credentials s =
     (let c = takeWhile credential_char s; rest = drop (length c) s
      in if c \<noteq> [] \<and> rest \<noteq> [] \<and> hd rest = CHR ''@'' then Some (length c) else None)"

function maskUrlCredentials :: "string \<Rightarrow> string" where
  "maskUrlCredentials s =
     (if s = [] then []
      else case url_scheme s of
             None \<Rightarrow> hd s # maskUrlCredentials (tl s)
           | Some n \<Rightarrow>
               (case credentials (drop n s) of
                  None \<Rightarrow> hd s # maskUrlCredentials (tl s)
                | Some k \<Rightarrow> take n s @ ''***@'' @ maskUrlCredentials (drop (n + k + 1) s)))"
  by pat_completeness auto
termination by (relation "measure length") auto

declare maskUrlCredentials.simps [simp del]

section \<open>What is failing\<close>

definition starts_with_step :: "string \<Rightarrow> bool" where
  "starts_with_step s \<longleftrightarrow> list_ex (\<lambda>step. starts_with s (step_text step @ '': '')) FOLLOWTHROUGH_STEPS"

text \<open>\<open>split(/;\s+(?=(?:step|...): )/)\<close>.\<close>

function split_failures :: "string \<Rightarrow> string list" where
  "split_failures [] = [[]]"
| "split_failures (c # s) =
     (let rest = dropWhile is_space s
      in if c = CHR '';'' \<and> s \<noteq> [] \<and> is_space (hd s) \<and> starts_with_step rest then [] # split_failures rest
         else case split_failures s of [] \<Rightarrow> [[c]] | w # ws \<Rightarrow> (c # w) # ws)"
  by pat_completeness auto
termination by (relation "measure length") (auto simp: length_dropWhile_le')

text \<open>\<open>/^([a-z-]+): ([\s\S]*)$/\<close>: the step a part names, and its message.\<close>

definition named_step :: "string \<Rightarrow> (FollowThroughStep \<times> string) option" where
  "named_step part =
     (let w = takeWhile (\<lambda>c. is_lower_az c \<or> c = CHR ''-'') part; rest = drop (length w) part
      in if w \<noteq> [] \<and> starts_with rest '': ''
         then map_option (\<lambda>step. (step, drop 2 rest)) (find (\<lambda>step. step_text step = w) FOLLOWTHROUGH_STEPS)
         else None)"

record FailingSteps =
  fs_steps :: "(FollowThroughStep \<times> string) list"
  fs_pushPending :: bool
  fs_attempts :: int

definition failingFollowThrough :: "AcceptFollowThrough option \<Rightarrow> FailingSteps option" where
  "failingFollowThrough rec =
     (case rec of
        None \<Rightarrow> None
      | Some r \<Rightarrow>
          (case nonempty (ft_lastError r) of
             None \<Rightarrow> None
           | Some e \<Rightarrow>
               (let steps = List.map_filter (\<lambda>part. case named_step part of
                      None \<Rightarrow> None
                    | Some (step, msg) \<Rightarrow> if step \<in> set (ft_done r) then None else Some (step, maskUrlCredentials msg))
                      (split_failures e)
                in if steps = [] then None
                   else Some \<lparr>fs_steps = steps,
                     fs_pushPending = list_ex (\<lambda>s. fst s = PushParent \<or> fst s = FastForward) steps,
                     fs_attempts = ft_attempts r\<rparr>)))"

section \<open>Masking is settled after one pass\<close>

lemma url_scheme_starts:
  "url_scheme s = (if starts_with (to_lower s) ''http://'' then Some 7
     else if starts_with (to_lower s) ''https://'' then Some 8 else None)"
proof -
  have "starts_with (to_lower s) q \<longleftrightarrow> to_lower (take (length q) s) = q" for q
    by (simp add: starts_with_take to_lower_def take_map)
  from this [of "''http://''"] this [of "''https://''"] show ?thesis
    by (simp add: url_scheme_def eval_nat_numeral)
qed

lemma mask_Nil [simp]: "maskUrlCredentials [] = []"
  by (subst maskUrlCredentials.simps) simp

lemma mask_skip:
  "url_scheme (c # s) = None \<or> url_scheme (c # s) = Some n \<and> credentials (drop n (c # s)) = None \<Longrightarrow>
     maskUrlCredentials (c # s) = c # maskUrlCredentials s"
  by (subst maskUrlCredentials.simps) auto

lemma mask_hit:
  "url_scheme s = Some n \<Longrightarrow> credentials (drop n s) = Some k \<Longrightarrow>
     maskUrlCredentials s = take n s @ ''***@'' @ maskUrlCredentials (drop (n + k + 1) s)"
  by (subst maskUrlCredentials.simps) (auto simp: url_scheme_starts split: if_splits)

lemma mask_cases:
  obtains (hit) n k where "url_scheme s = Some n" "credentials (drop n s) = Some k"
  | (skip) c t where "s = c # t" "maskUrlCredentials s = c # maskUrlCredentials t"
      "\<forall>n. url_scheme s = Some n \<longrightarrow> credentials (drop n s) = None"
  | (empty) "s = []"
proof (cases s)
  case (Cons c t)
  show ?thesis
  proof (cases "\<exists>n k. url_scheme s = Some n \<and> credentials (drop n s) = Some k")
    case False
    then have "\<forall>n. url_scheme s = Some n \<longrightarrow> credentials (drop n s) = None" by auto
    moreover from this have "maskUrlCredentials s = c # maskUrlCredentials t"
      unfolding Cons by (cases "url_scheme (c # t)") (auto intro: mask_skip)
    ultimately show ?thesis using skip Cons by blast
  qed (use hit in blast)
qed (use empty in simp)

text \<open>A scheme is a few known characters, none of them one of the separators.\<close>

lemma lower_char_fixed: "lower_char c = d \<Longrightarrow> \<not> is_lower_az d \<Longrightarrow> (of_char d :: nat) < 128 \<Longrightarrow> c = d"
proof -
  assume l: "lower_char c = d" and d: "\<not> is_lower_az d" "(of_char d :: nat) < 128"
  have "(of_char c :: nat) = of_char d"
    using of_char_lower_char [of c] l d unfolding is_lower_az_def Let_def by (auto split: if_splits)
  then show "c = d" by simp
qed

lemma scheme_chars:
  assumes "url_scheme s = Some n"
  shows "7 \<le> n" and "n \<le> length s" and "s ! (n - 2) = CHR ''/''" and "CHR ''@'' \<notin> set (take n s)"
    and "lower_char (hd s) = CHR ''h''" and "to_lower (take n s) = ''http://'' \<or> to_lower (take n s) = ''https://''"
proof -
  let ?p = "if n = 7 then ''http://'' else ''https://''"
  have sw: "starts_with (to_lower s) ?p" and n: "n = length ?p"
    using assms by (auto simp: url_scheme_starts split: if_splits)
  then have t: "to_lower (take n s) = ?p" by (simp add: starts_with_take to_lower_def take_map)
  then show lower: "to_lower (take n s) = ''http://'' \<or> to_lower (take n s) = ''https://''" by (simp split: if_splits)
  have len: "length (take n s) = n" using arg_cong [OF t, of length] n by simp
  then show le: "n \<le> length s" and seven: "7 \<le> n" using n by (auto split: if_splits)
  have "lower_char (s ! i) = ?p ! i" if "i < n" for i
    using arg_cong [OF t, of "\<lambda>x. x ! i"] that le by (simp add: to_lower_def)
  note nth = this
  have "lower_char (s ! (n - 2)) = CHR ''/''" using nth [of "n - 2"] seven n by (auto split: if_splits)
  then show "s ! (n - 2) = CHR ''/''" by (rule lower_char_fixed) (simp_all add: is_lower_az_def)
  show "lower_char (hd s) = CHR ''h''"
    using nth [of 0] seven le by (cases s) (auto split: if_splits)
  have "CHR ''@'' \<notin> set (to_lower (take n s))" using lower by auto
  moreover have "lower_char CHR ''@'' = CHR ''@''" by (simp add: lower_char_def)
  ultimately show "CHR ''@'' \<notin> set (take n s)" unfolding to_lower_def by (metis image_eqI list.set_map)
qed

lemma scheme_prefix:
  assumes "url_scheme s = Some n" and "take n t = take n s"
  shows "url_scheme t = Some n"
proof -
  have sw: "starts_with (to_lower x) q \<longleftrightarrow> to_lower (take (length q) x) = q" for x q
    by (simp add: starts_with_take to_lower_def take_map)
  have h: "starts_with (to_lower x) ''http://'' \<longleftrightarrow> to_lower (take 7 x) = ''http://''"
    and hs: "starts_with (to_lower x) ''https://'' \<longleftrightarrow> to_lower (take 8 x) = ''https://''" for x
    unfolding sw by (simp_all add: eval_nat_numeral)
  have seven: "take 7 t = take 7 s"
    using arg_cong [OF assms(2), of "take 7"] scheme_chars(1) [OF assms(1)] by (simp add: min_def)
  then show ?thesis
    using assms unfolding url_scheme_starts h hs seven by (auto split: if_splits)
qed

lemma credentials_iff:
  "credentials s = Some k \<longleftrightarrow>
     (\<exists>w r. s = w @ CHR ''@'' # r \<and> w \<noteq> [] \<and> length w = k \<and> (\<forall>c \<in> set w. credential_char c))"
proof
  assume c: "credentials s = Some k"
  let ?w = "takeWhile credential_char s"
  have "?w \<noteq> []" "length ?w = k" "drop k s \<noteq> []" "hd (drop k s) = CHR ''@''"
    using c by (auto simp: credentials_def Let_def split: if_splits)
  moreover from this have "s = ?w @ CHR ''@'' # tl (drop k s)"
    by (metis append_eq_conv_conj list.collapse takeWhile_dropWhile_id)
  ultimately show "\<exists>w r. s = w @ CHR ''@'' # r \<and> w \<noteq> [] \<and> length w = k \<and> (\<forall>c \<in> set w. credential_char c)"
    by (metis set_takeWhileD)
next
  assume "\<exists>w r. s = w @ CHR ''@'' # r \<and> w \<noteq> [] \<and> length w = k \<and> (\<forall>c \<in> set w. credential_char c)"
  then obtain w r where s: "s = w @ CHR ''@'' # r" "w \<noteq> []" "length w = k" "\<forall>c \<in> set w. credential_char c"
    by blast
  have "\<not> credential_char CHR ''@''" by (simp add: credential_char_def)
  with s(4) have "takeWhile credential_char s = w" unfolding s(1) by (simp add: takeWhile_tail)
  then show "credentials s = Some k" using s by (simp add: credentials_def)
qed

text \<open>What masking leaves alone: text without a scheme's first letter, and text a scheme cannot end in.\<close>

lemma mask_plain_prefix:
  "maskUrlCredentials s = p @ q \<Longrightarrow> \<forall>c \<in> set p. lower_char c \<noteq> CHR ''h'' \<Longrightarrow>
     \<exists>t. s = p @ t \<and> maskUrlCredentials t = q"
proof (induction p arbitrary: s)
  case (Cons c p)
  show ?case
  proof (cases s rule: mask_cases)
    case (hit n k)
    then have "hd (p @ q) = hd (p @ q) \<and> c = hd s"
      using Cons.prems(1) scheme_chars(1,2) [OF hit(1)] mask_hit [OF hit] by (cases s; cases n) auto
    then show ?thesis using Cons.prems(2) scheme_chars(5) [OF hit(1)] by simp
  next
    case (skip d t)
    then show ?thesis using Cons by (metis append_Cons list.inject list.set_intros(2))
  qed (use Cons.prems in simp)
qed simp

lemma mask_before_at:
  "maskUrlCredentials s = w @ CHR ''@'' # q \<Longrightarrow> CHR ''/'' \<notin> set w \<Longrightarrow> \<exists>r. s = w @ CHR ''@'' # r"
proof (induction w arbitrary: s)
  case Nil
  show ?case
  proof (cases s rule: mask_cases)
    case (hit n k)
    then show ?thesis
      using Nil scheme_chars(1,2,4) [OF hit(1)] mask_hit [OF hit] by (cases s; cases n) auto
  qed (use Nil in auto)
next
  case (Cons c w)
  show ?case
  proof (cases s rule: mask_cases)
    case (hit n k)
    let ?u = "c # w @ CHR ''@'' # q"
    have n: "7 \<le> n" "n \<le> length s" using scheme_chars(1,2) [OF hit(1)] .
    have "?u = take n s @ ''***@'' @ maskUrlCredentials (drop (n + k + 1) s)"
      using Cons.prems(1) mask_hit [OF hit] by (metis append_Cons)
    then have u: "take n ?u = take n s" using n by (simp only: take_append) simp
    have "?u ! (n - 2) = CHR ''/''"
      using u n scheme_chars(3) [OF hit(1)] by (metis diff_less less_le_trans nth_take zero_less_numeral)
    then have long: "\<not> n - 2 < length (c # w)"
      using Cons.prems(2) by (metis append_Cons nth_append nth_mem)
    then have "length w + 3 \<le> n" using n(1) by simp
    then have "CHR ''@'' \<in> set (take n ?u)" by (simp add: take_Cons')
    then show ?thesis using u scheme_chars(4) [OF hit(1)] by simp
  next
    case (skip d t)
    then have "\<exists>r. t = w @ CHR ''@'' # r" using Cons by simp
    then show ?thesis using skip Cons.prems by auto
  qed (use Cons.prems in simp)
qed

lemma mask_idem [simp]: "maskUrlCredentials (maskUrlCredentials s) = maskUrlCredentials s"
proof (induction "length s" arbitrary: s rule: less_induct)
  case less
  show ?case
  proof (cases s rule: mask_cases)
    case (hit n k)
    let ?r = "drop (n + k + 1) s"
    have n: "7 \<le> n" "n \<le> length s" using scheme_chars(1,2) [OF hit(1)] .
    have "url_scheme (maskUrlCredentials s) = Some n"
      by (rule scheme_prefix [OF hit(1)]) (simp add: mask_hit [OF hit] n)
    moreover have "credentials (drop n (maskUrlCredentials s)) = Some 3"
      using n by (simp add: mask_hit [OF hit] credentials_def credential_char_def is_space_def)
    moreover have "maskUrlCredentials (maskUrlCredentials ?r) = maskUrlCredentials ?r"
      using less n by simp
    ultimately show ?thesis
      using n by (simp add: mask_hit [OF hit] mask_hit)
  next
    case (skip c t)
    have "credentials (drop n (c # maskUrlCredentials t)) = None" if sch: "url_scheme (c # maskUrlCredentials t) = Some n" for n
    proof -
      let ?m = "maskUrlCredentials t"
      let ?p = "take (n - 1) ?m"
      have n: "7 \<le> n" "n \<le> length (c # ?m)" using scheme_chars(1,2) [OF sch] .
      have "to_lower (take n (c # ?m)) = lower_char c # to_lower ?p"
        using n by (simp add: take_Cons' to_lower_def)
      then have "to_lower ?p = ''ttp://'' \<or> to_lower ?p = ''ttps://''" using scheme_chars(6) [OF sch] by auto
      then have "\<forall>d \<in> set (to_lower ?p). d \<noteq> CHR ''h''" by auto
      then have "\<forall>d \<in> set ?p. lower_char d \<noteq> CHR ''h''" by (simp add: to_lower_def)
      then obtain t' where t: "t = ?p @ t'" "maskUrlCredentials t' = drop (n - 1) ?m"
        using mask_plain_prefix [of t ?p "drop (n - 1) ?m"] by (metis append_take_drop_id)
      have len: "length ?p = n - 1" using n by simp
      have "take n (c # t) = take n (c # ?m)" using n(1) len by (subst t(1)) (simp add: take_Cons')
      then have "url_scheme s = Some n" using scheme_prefix [OF sch] skip(1) by simp
      then have none: "credentials (drop n s) = None" using skip(3) by blast
      have d: "drop n s = t'" using n(1) len skip(1) by (subst (asm) t(1)) (simp add: drop_Cons')
      show ?thesis
      proof (rule ccontr)
        assume "credentials (drop n (c # ?m)) \<noteq> None"
        then obtain k where "credentials (maskUrlCredentials t') = Some k"
          using n(1) t(2) by (auto simp: drop_Cons')
        then obtain w r where w: "maskUrlCredentials t' = w @ CHR ''@'' # r" "w \<noteq> []" "\<forall>d \<in> set w. credential_char d"
          unfolding credentials_iff by blast
        then have "CHR ''/'' \<notin> set w" by (auto simp: credential_char_def)
        from mask_before_at [OF w(1) this] have "credentials t' \<noteq> None"
          using w(2,3) credentials_iff by blast
        then show False using none d by simp
      qed
    qed
    then have "maskUrlCredentials (c # maskUrlCredentials t) = c # maskUrlCredentials (maskUrlCredentials t)"
      by (cases "url_scheme (c # maskUrlCredentials t)") (auto intro: mask_skip)
    then show ?thesis using skip less by simp
  qed simp
qed

lemma starts_with_before: "d \<notin> set q \<Longrightarrow> starts_with (u @ d # v) q = starts_with u q"
proof (induction u q rule: starts_with.induct)
  case (2 c p)
  then show ?case by auto
qed auto

section \<open>Masking a list of failures\<close>

lemma credentials_before_space: "is_space c \<Longrightarrow> credentials (s @ c # t) = credentials s"
proof -
  assume c: "is_space c"
  then have n: "\<not> credential_char c" "c \<noteq> CHR ''@''" by (auto simp: credential_char_def is_space_def)
  have "takeWhile credential_char (s @ c # t) = takeWhile credential_char s"
    using n(1) by (induction s) auto
  moreover have "length (takeWhile credential_char s) \<le> length s" by (rule length_takeWhile_le)
  ultimately show ?thesis
    using n(2) by (cases "drop (length (takeWhile credential_char s)) s") (auto simp: credentials_def Let_def)
qed

lemma scheme_before_space:
  assumes "is_space c"
  shows "url_scheme (s @ c # t) = url_scheme s"
proof (cases "url_scheme s")
  case (Some n)
  then show ?thesis
    using scheme_prefix [OF Some, of "s @ c # t"] scheme_chars(2) [OF Some] by simp
next
  case None
  show ?thesis
  proof (rule ccontr)
    assume "url_scheme (s @ c # t) \<noteq> url_scheme s"
    then obtain n where n: "url_scheme (s @ c # t) = Some n" using None by auto
    have "\<not> n \<le> length s"
      using scheme_prefix [OF n, of s] None by (auto simp: take_append)
    then have "c \<in> set (take n (s @ c # t))" by (simp add: take_Cons')
    then have "lower_char c \<in> set (to_lower (take n (s @ c # t)))" by (auto simp: to_lower_def)
    moreover have "set (to_lower (take n (s @ c # t))) \<subseteq> set ''htps:/''"
      using scheme_chars(6) [OF n] by (elim disjE) (erule ssubst, simp)+
    ultimately have "lower_char c \<in> set ''htps:/''" by blast
    moreover have "lower_char c = c" using assms by (auto simp: is_space_def lower_char_def)
    ultimately show False using assms by (auto simp: is_space_def)
  qed
qed

text \<open>Masking works on both sides of a text in which no credentials can continue.\<close>

lemma mask_append:
  assumes cr: "\<And>s. credentials (s @ t) = credentials s" and sch: "\<And>s. url_scheme (s @ t) = url_scheme s"
  shows "maskUrlCredentials (s @ t) = maskUrlCredentials s @ maskUrlCredentials t"
proof (induction "length s" arbitrary: s rule: less_induct)
  case less
  show ?case
  proof (cases s rule: mask_cases)
    case (hit n k)
    have n: "7 \<le> n" "n \<le> length s" using scheme_chars(1,2) [OF hit(1)] .
    have c: "credentials (drop n (s @ t)) = Some k" using hit(2) n(2) cr by simp
    have "n + k + 1 \<le> length s"
      using hit(2) unfolding credentials_iff by (auto dest!: arg_cong [of _ _ length])
    then have "drop (n + k + 1) (s @ t) = drop (n + k + 1) s @ t" by simp
    then have "maskUrlCredentials (s @ t) = take n s @ ''***@'' @ maskUrlCredentials (drop (n + k + 1) s @ t)"
      using mask_hit [of "s @ t", unfolded sch, OF hit(1) c] n(2) by simp
    then show ?thesis using less(1) [of "drop (n + k + 1) s"] n mask_hit [OF hit] by simp
  next
    case (skip d u)
    have "credentials (drop n (s @ t)) = None" if "url_scheme (s @ t) = Some n" for n
      using that skip(3) scheme_chars(2) [of s n] cr by (simp add: sch)
    then have "maskUrlCredentials (d # (u @ t)) = d # maskUrlCredentials (u @ t)"
      using skip(1) by (cases "url_scheme (d # (u @ t))") (auto intro: mask_skip)
    then show ?thesis using less(1) [of u] skip by simp
  qed simp
qed

lemma mask_before_space:
  assumes "is_space c"
  shows "maskUrlCredentials (s @ c # t) = maskUrlCredentials s @ c # maskUrlCredentials t"
proof -
  have "url_scheme (c # t) = None" using scheme_before_space [OF assms, of "[]" t] by (simp add: url_scheme_starts)
  then show ?thesis
    using mask_append [of "c # t" s, OF credentials_before_space [OF assms] scheme_before_space [OF assms]]
    by (simp add: mask_skip)
qed

lemma mask_snoc:
  assumes "c = CHR '';''"
  shows "maskUrlCredentials (s @ [c]) = maskUrlCredentials s @ [c]"
proof -
  have n: "c \<noteq> CHR ''@''" "lower_char c = CHR '';''" using assms by (simp_all add: lower_char_def)
  have cr: "credentials (s @ [c]) = credentials s" for s
  proof -
    have "(\<exists>r. s @ [c] = w @ CHR ''@'' # r) = (\<exists>r. s = w @ CHR ''@'' # r)" for w
    proof
      assume "\<exists>r. s @ [c] = w @ CHR ''@'' # r"
      then obtain r where r: "s @ [c] = w @ CHR ''@'' # r" by blast
      with n(1) have "r \<noteq> []" by auto
      then show "\<exists>r. s = w @ CHR ''@'' # r" using r by (cases r rule: rev_cases) auto
    qed auto
    then show ?thesis by (metis credentials_iff not_Some_eq option.exhaust)
  qed
  have sch: "url_scheme (s @ [c]) = url_scheme s" for s
  proof -
    have "starts_with (to_lower s @ CHR '';'' # []) q = starts_with (to_lower s) q" if "CHR '';'' \<notin> set q" for q
      using that by (rule starts_with_before)
    then show ?thesis using n(2) by (simp add: url_scheme_starts to_lower_def)
  qed
  have "url_scheme [c] = None" using sch [of "[]"] by (simp add: url_scheme_starts)
  then show ?thesis using mask_append [of "[c]" s, OF cr sch] by (simp add: mask_skip)
qed

section \<open>A list of failures is read back\<close>

definition failure_text :: "(FollowThroughStep \<times> string) list \<Rightarrow> string" where
  "failure_text es = join_with ''; '' (map (\<lambda>(step, msg). step_text step @ '': '' @ msg) es)"

lemma step_text_chars: "\<forall>c \<in> set (step_text step @ '': ''). c \<noteq> CHR '';''"
  by (cases step) simp_all

lemma starts_with_step_before: "starts_with_step (u @ CHR '';'' # v) = starts_with_step u"
proof -
  have "starts_with (u @ CHR '';'' # v) (step_text step @ '': '') = starts_with u (step_text step @ '': '')" for step
    using step_text_chars [of step] by (intro starts_with_before) blast
  then show ?thesis by (simp only: starts_with_step_def)
qed

lemma split_failures_Cons:
  "\<not> (c = CHR '';'' \<and> s \<noteq> [] \<and> is_space (hd s) \<and> starts_with_step (dropWhile is_space s)) \<Longrightarrow>
     split_failures (c # s) = (case split_failures s of [] \<Rightarrow> [[c]] | w # ws \<Rightarrow> (c # w) # ws)"
  by (auto simp: Let_def)

lemma split_failures_ne: "split_failures s \<noteq> []"
  by (cases s) (auto simp: Let_def split: list.splits)

declare split_failures.simps(2) [simp del]

lemma split_failures_single:
  assumes "split_failures (c # s) = [c # s]"
  shows "\<not> (c = CHR '';'' \<and> s \<noteq> [] \<and> is_space (hd s) \<and> starts_with_step (dropWhile is_space s)) \<and>
    split_failures s = [s]"
proof -
  have no: "\<not> (c = CHR '';'' \<and> s \<noteq> [] \<and> is_space (hd s) \<and> starts_with_step (dropWhile is_space s))"
    using assms by (auto simp: split_failures.simps(2))
  then show ?thesis using assms split_failures_ne [of s]
    by (auto simp: split_failures_Cons split: list.splits)
qed

lemma starts_with_step_text: "starts_with_step (step_text step @ '': '' @ msg)"
  unfolding starts_with_step_def list_ex_iff
  by (rule bexI [of _ step], metis append_assoc starts_with_append) (cases step; simp add: FOLLOWTHROUGH_STEPS_def)

lemma split_failures_append:
  assumes "split_failures p = [p]" and "starts_with_step rest"
  shows "split_failures (p @ ''; '' @ rest) = p # split_failures rest"
  using assms(1)
proof (induction p)
  case Nil
  have "rest \<noteq> [] \<and> \<not> is_space (hd rest)"
    using assms(2) by (cases rest) (auto simp: starts_with_step_def FOLLOWTHROUGH_STEPS_def is_space_def)
  then have "dropWhile is_space (CHR '' '' # rest) = rest" by (cases rest) (auto simp: is_space_def)
  then show ?case using assms(2) by (simp add: split_failures.simps(2) is_space_def)
next
  case (Cons c p)
  note one = split_failures_single [OF Cons.prems]
  have "\<not> (c = CHR '';'' \<and> p @ ''; '' @ rest \<noteq> [] \<and> is_space (hd (p @ ''; '' @ rest)) \<and>
      starts_with_step (dropWhile is_space (p @ ''; '' @ rest)))"
  proof (cases "\<forall>x \<in> set p. is_space x")
    case True
    have semi: "\<not> is_space CHR '';''" "\<not> starts_with_step (CHR '';'' # v)" for v
      by (simp_all add: is_space_def starts_with_step_def FOLLOWTHROUGH_STEPS_def)
    then show ?thesis using True by (simp add: dropWhile_append2)
  next
    case False
    then have d: "dropWhile is_space (p @ ''; '' @ rest) = dropWhile is_space p @ CHR '';'' # CHR '' '' # rest"
      using dropWhile_append1 [of _ p is_space] by auto
    have "p \<noteq> []" using False by auto
    then show ?thesis using one unfolding d starts_with_step_before by auto
  qed
  then show ?case using Cons.IH one by (simp add: split_failures_Cons)
qed

lemma split_failures_prefix:
  "\<forall>c \<in> set p. c \<noteq> CHR '';'' \<Longrightarrow> split_failures s = w # ws \<Longrightarrow> split_failures (p @ s) = (p @ w) # ws"
  by (induction p) (auto simp: split_failures_Cons)

lemma named_step_text: "named_step (step_text step @ '': '' @ msg) = Some (step, msg)"
  by (cases step) (simp_all add: named_step_def FOLLOWTHROUGH_STEPS_def is_lower_az_def)

lemma split_failure_texts:
  assumes "es \<noteq> []" and "\<forall>(step, msg) \<in> set es. split_failures msg = [msg]"
  shows "split_failures (failure_text es) = map (\<lambda>(step, msg). step_text step @ '': '' @ msg) es"
  using assms
proof (induction es)
  case (Cons e es)
  obtain step msg where e: "e = (step, msg)" by (cases e)
  have one: "split_failures (step_text step @ '': '' @ msg) = [step_text step @ '': '' @ msg]"
    using split_failures_prefix [OF step_text_chars, of msg msg "[]" step] Cons.prems(2) e by simp
  show ?case
  proof (cases es)
    case (Cons f fs)
    obtain step' msg' where f: "f = (step', msg')" by (cases f)
    have "starts_with_step (failure_text es)"
      using starts_with_step_text [of step'] unfolding Cons failure_text_def f by (cases fs) simp_all
    then show ?thesis
      using split_failures_append [OF one] Cons.IH Cons.prems e Cons
      by (simp add: failure_text_def)
  qed (use one e in \<open>simp add: failure_text_def\<close>)
qed simp

lemma mask_failure_text:
  "maskUrlCredentials (failure_text es) = failure_text (map (\<lambda>(step, msg). (step, maskUrlCredentials msg)) es)"
proof (induction es)
  case (Cons e es)
  obtain step msg where e: "e = (step, msg)" by (cases e)
  have sp: "is_space CHR '' ''" by (simp add: is_space_def)
  have name: "maskUrlCredentials (step_text step @ '':'') = step_text step @ '':''"
  proof -
    have "list_all (\<lambda>step. maskUrlCredentials (step_text step @ '':'') = step_text step @ '':'') FOLLOWTHROUGH_STEPS"
      by code_simp
    moreover have "step \<in> set FOLLOWTHROUGH_STEPS" by (cases step) (simp_all add: FOLLOWTHROUGH_STEPS_def)
    ultimately show ?thesis by (simp only: list_all_iff)
  qed
  have part: "maskUrlCredentials (step_text step @ '': '' @ msg) = step_text step @ '': '' @ maskUrlCredentials msg"
    using mask_before_space [OF sp, of "step_text step @ '':''" msg] name by simp
  show ?case
  proof (cases es)
    case (Cons f fs)
    have "failure_text (e # es) = (((step_text step @ '': '' @ msg) @ [CHR '';'']) @ CHR '' '' # failure_text es)"
      unfolding Cons by (simp add: failure_text_def e)
    then have "maskUrlCredentials (failure_text (e # es)) =
        ((step_text step @ '': '' @ maskUrlCredentials msg) @ [CHR '';'']) @ CHR '' '' # maskUrlCredentials (failure_text es)"
      by (simp only: mask_before_space [OF sp] mask_snoc part)
    then show ?thesis using Cons.IH Cons by (simp add: failure_text_def e)
  qed (use part e in \<open>simp add: failure_text_def\<close>)
qed (simp add: failure_text_def)

text \<open>C40: what a surface shows of a failing accept is what failed: of the failures a run recorded, each
  step that has not since succeeded, in order and with its own message, whatever else the messages
  contain short of another step's heading; the credentials of a URL in a message are masked once and
  for all, and a push is reported pending exactly when a step that pushes or fast-forwards is among
  them. Nothing is shown when every step that failed has succeeded.\<close>

theorem failures_shown:
  assumes "ft_lastError r = Some (maskUrlCredentials (failure_text es))"
    and "\<forall>(step, msg) \<in> set es. split_failures (maskUrlCredentials msg) = [maskUrlCredentials msg]"
  shows "failingFollowThrough (Some r) =
    (let shown = filter (\<lambda>(step, msg). step \<notin> set (ft_done r)) es
     in if shown = [] then None
        else Some \<lparr>fs_steps = map (\<lambda>(step, msg). (step, maskUrlCredentials msg)) shown,
               fs_pushPending = (PushParent \<in> fst ` set shown \<or> FastForward \<in> fst ` set shown),
               fs_attempts = ft_attempts r\<rparr>)"
proof (cases "es = []")
  case True
  then show ?thesis using assms(1) by (simp add: failure_text_def failingFollowThrough_def nonempty_def)
next
  case False
  let ?ms = "map (\<lambda>(step, msg). (step, maskUrlCredentials msg)) es"
  let ?f = "\<lambda>part. case named_step part of None \<Rightarrow> None
    | Some (step, msg) \<Rightarrow> if step \<in> set (ft_done r) then None else Some (step, maskUrlCredentials msg)"
  let ?shown = "filter (\<lambda>(step, msg). step \<notin> set (ft_done r)) es"
  have e: "ft_lastError r = Some (failure_text ?ms)" using assms(1) by (simp add: mask_failure_text)
  have split: "split_failures (failure_text ?ms) = map (\<lambda>(step, msg). step_text step @ '': '' @ msg) ?ms"
    using False assms(2) by (intro split_failure_texts) auto
  then have "failure_text ?ms \<noteq> []" using False by (cases es; cases "tl es") (auto simp: failure_text_def)
  then have ne: "nonempty (ft_lastError r) = Some (failure_text ?ms)" by (simp add: e nonempty_def)
  have steps: "List.map_filter ?f (map (\<lambda>(step, msg). step_text step @ '': '' @ msg) ?ms) =
      map (\<lambda>(step, msg). (step, maskUrlCredentials msg)) ?shown"
    by (induction es) (auto simp: map_filter_simps named_step_text [simplified])
  show ?thesis
    unfolding failingFollowThrough_def option.case ne split steps Let_def
    by (auto simp: list_ex_iff image_iff split: prod.splits)
qed

definition failed_record :: AcceptFollowThrough where
  "failed_record = (owed ''main'' False True False None)\<lparr>ft_done := [Cleanup], ft_attempts := 2,
     ft_lastError := Some (maskUrlCredentials (failure_text
       [(PushParent, ''see https://me:pw@host/x; log: no''), (Cleanup, ''busy'')]))\<rparr>"

lemma failures_shown_witness:
  "failingFollowThrough (Some failed_record) =
   Some \<lparr>fs_steps = [(PushParent, ''see https://***@host/x; log: no'')],
     fs_pushPending = True, fs_attempts = 2\<rparr>"
proof -
  let ?es = "[(PushParent, ''see https://me:pw@host/x; log: no''), (Cleanup, ''busy'')]"
  have e: "ft_lastError failed_record = Some (maskUrlCredentials (failure_text ?es))"
    by code_simp
  have m: "\<forall>(step, msg) \<in> set ?es. split_failures (maskUrlCredentials msg) = [maskUrlCredentials msg]"
    by code_simp
  show ?thesis by (rule trans [OF failures_shown [OF e m]]) code_simp
qed

end
