(* ===== verification/AcceptWorld.thy ===== *)
theory AcceptWorld
  imports AcceptIntent
begin

text \<open>
  What the durable half of an accept runs on: the store, the comments and messages written, git and the
  forge, and everything that can go wrong with a write. An action is a function of the world that
  returns or stops. It stops because it threw, which the code can catch, or because the process died,
  which it cannot.

  \<open>aw_faults\<close> says what happens at each coming durable write or git operation: it goes through, it
  fails, or the process dies before it. Past the end of the list everything goes through, so the list
  ranges over all ways of failing and of dying between two writes.

  \<open>git\<close> stands for the repository and the forge, \<open>ae_showFollow\<close> and its siblings for
  \<open>JSON.stringify\<close> and \<open>JSON.parse\<close>. Reads of the store succeed; the turns of the session are \<open>None\<close>
  when they cannot be read.
\<close>

section \<open>Actions\<close>

datatype fault = Goes | Fails | Dies

datatype refusal = AlreadyAccepted | ParentActive | OtherRefusal string

datatype failure =
    StoreThrew store_error
  | WriteFailed
  | GitFailed string
  | AcceptRefused refusal

datatype stop = Killed | Threw failure

record AcceptComment =
  cm_task :: string
  cm_content :: string
  cm_actor :: ActorInput

datatype Notice =
    ResumesExhausted string int
  | FollowThroughFailing string int "string option" "FollowThroughStep list"

record 'g AcceptWorld =
  aw_store :: Store
  aw_comments :: "AcceptComment list"
  aw_messages :: "Notice list"
  aw_turns :: "LedgerTurn list option"
  aw_git :: 'g
  aw_faults :: "fault list"

record AcceptEnv =
  ae_secrets :: "string list"
  ae_now :: int
  ae_showIntent :: "AcceptIntent \<Rightarrow> string"
  ae_readIntent :: "string \<Rightarrow> AcceptIntent option"
  ae_showFollow :: "AcceptFollowThrough \<Rightarrow> string"
  ae_readFollow :: "string \<Rightarrow> AcceptFollowThrough option"
  ae_failureText :: "failure \<Rightarrow> string"

type_synonym ('g, 'a) act = "'g AcceptWorld \<Rightarrow> (stop + 'a) \<times> 'g AcceptWorld"

definition pass :: "'a \<Rightarrow> ('g, 'a) act" where
  "pass x w = (Inr x, w)"

definition throw :: "failure \<Rightarrow> ('g, 'a) act" where
  "throw e w = (Inl (Threw e), w)"

definition and_then :: "('g, 'a) act \<Rightarrow> ('a \<Rightarrow> ('g, 'b) act) \<Rightarrow> ('g, 'b) act" where
  "and_then m f w = (case m w of (Inl e, w') \<Rightarrow> (Inl e, w') | (Inr x, w') \<Rightarrow> f x w')"

definition before :: "('g, unit) act \<Rightarrow> ('g, 'b) act \<Rightarrow> ('g, 'b) act" where
  "before m k = and_then m (\<lambda>_. k)"

definition on_throw :: "('g, 'a) act \<Rightarrow> (failure \<Rightarrow> ('g, 'a) act) \<Rightarrow> ('g, 'a) act" where
  "on_throw m h w =
     (case m w of
        (Inl Killed, w') \<Rightarrow> (Inl Killed, w')
      | (Inl (Threw e), w') \<Rightarrow> h e w'
      | (Inr x, w') \<Rightarrow> (Inr x, w'))"

definition looking :: "('g AcceptWorld \<Rightarrow> 'a) \<Rightarrow> ('a \<Rightarrow> ('g, 'b) act) \<Rightarrow> ('g, 'b) act" where
  "looking f k w = k (f w) w"

text \<open>One durable step: the process may die before it, it may fail, or it does what it does.\<close>

definition durable :: "('g AcceptWorld \<Rightarrow> (failure + 'a) \<times> 'g AcceptWorld) \<Rightarrow> ('g, 'a) act" where
  "durable f w =
     (let w1 = w\<lparr>aw_faults := tl (aw_faults w)\<rparr>
      in case aw_faults w of
           Dies # _ \<Rightarrow> (Inl Killed, w1)
         | Fails # _ \<Rightarrow> (Inl (Threw WriteFailed), w1)
         | _ \<Rightarrow> (case f w1 of (Inl e, w2) \<Rightarrow> (Inl (Threw e), w2) | (Inr x, w2) \<Rightarrow> (Inr x, w2)))"

section \<open>Writes\<close>

definition store_write :: "(Store \<Rightarrow> (store_error, Store) result) \<Rightarrow> ('g, unit) act" where
  "store_write f =
     durable (\<lambda>w. case f (aw_store w) of
                    Inl e \<Rightarrow> (Inl (StoreThrew e), w)
                  | Inr st \<Rightarrow> (Inr (), w\<lparr>aw_store := st\<rparr>))"

definition write_meta :: "string \<Rightarrow> string \<Rightarrow> string \<Rightarrow> ('g, unit) act" where
  "write_meta i key v = store_write (updateTaskMetadata key v i)"

definition write_status :: "AcceptEnv \<Rightarrow> string \<Rightarrow> TaskStatus \<Rightarrow> ActorInput option \<Rightarrow> ('g, unit) act" where
  "write_status env i s actor = store_write (updateTaskStatus (ae_secrets env) (ae_now env) s actor None i)"

definition end_session :: "AcceptEnv \<Rightarrow> string \<Rightarrow> SessionOutcome \<Rightarrow> ('g, unit) act" where
  "end_session env sid outcome = store_write (\<lambda>st. Inr (endSession sid (ae_now env) outcome st))"

text \<open>\<open>createComment\<close> scrubs what it stores.\<close>

definition add_comment :: "AcceptEnv \<Rightarrow> string \<Rightarrow> string \<Rightarrow> ActorInput \<Rightarrow> ('g, unit) act" where
  "add_comment env i content actor =
     durable (\<lambda>w. (Inr (), w\<lparr>aw_comments := aw_comments w @
       [\<lparr>cm_task = i, cm_content = redactSecretValues (ae_secrets env) content, cm_actor = actor\<rparr>]\<rparr>))"

definition file_message :: "Notice \<Rightarrow> ('g, unit) act" where
  "file_message n = durable (\<lambda>w. (Inr (), w\<lparr>aw_messages := aw_messages w @ [n]\<rparr>))"

text \<open>A git or forge operation that reports a result or throws.\<close>

definition at_git :: "('g \<Rightarrow> (string + 'a) \<times> 'g) \<Rightarrow> ('g, 'a) act" where
  "at_git f =
     durable (\<lambda>w. case f (aw_git w) of
                    (Inl e, g) \<Rightarrow> (Inl (GitFailed e), w\<lparr>aw_git := g\<rparr>)
                  | (Inr x, g) \<Rightarrow> (Inr x, w\<lparr>aw_git := g\<rparr>))"

section \<open>Reads\<close>

definition getSessionByTaskId :: "Store \<Rightarrow> string \<Rightarrow> Session option" where
  "getSessionByTaskId st taskId =
     (case findTaskIdByPrefix st taskId of
        (st', None) \<Rightarrow> None
      | (st', Some fullId) \<Rightarrow> (case omap_get (st_dirs st') fullId of None \<Rightarrow> None | Some td \<Rightarrow> d_session td))"

definition getTaskComments :: "'g AcceptWorld \<Rightarrow> string \<Rightarrow> AcceptComment list" where
  "getTaskComments w i = filter (\<lambda>c. cm_task c = i) (aw_comments w)"

text \<open>\<open>(await storage.getTask(taskId))?.x ?? d\<close>.\<close>

definition task_read :: "string \<Rightarrow> (Task \<Rightarrow> 'a) \<Rightarrow> 'a \<Rightarrow> 'g AcceptWorld \<Rightarrow> 'a" where
  "task_read i f d w = (case getTask (aw_store w) i of None \<Rightarrow> d | Some t \<Rightarrow> f t)"

text \<open>\<open>if (sess && sess.ended_at === null) await storage.endSession(sess.id, outcome)\<close>.\<close>

definition end_open_session :: "AcceptEnv \<Rightarrow> string \<Rightarrow> SessionOutcome \<Rightarrow> ('g, unit) act" where
  "end_open_session env i outcome =
     looking (\<lambda>w. getSessionByTaskId (aw_store w) i) (\<lambda>sess.
       case sess of
         None \<Rightarrow> pass ()
       | Some s \<Rightarrow> if s_ended_at s = None then end_session env (s_id s) outcome else pass ())"

section \<open>Reasoning about actions\<close>

text \<open>\<open>wp m Q E w\<close>: run from \<open>w\<close>, \<open>m\<close> returns a result and a world with \<open>Q\<close>, or stops with \<open>E\<close>.\<close>

definition wp :: "('g, 'a) act \<Rightarrow> ('a \<Rightarrow> 'g AcceptWorld \<Rightarrow> bool) \<Rightarrow> (stop \<Rightarrow> 'g AcceptWorld \<Rightarrow> bool) \<Rightarrow>
    'g AcceptWorld \<Rightarrow> bool" where
  "wp m Q E w \<longleftrightarrow> (case m w of (Inr x, w') \<Rightarrow> Q x w' | (Inl e, w') \<Rightarrow> E e w')"

named_theorems wp_simps \<open>weakest preconditions of the combinators\<close>

lemma wp_pass [wp_simps]: "wp (pass x) Q E w = Q x w"
  by (simp add: wp_def pass_def)

lemma wp_throw [wp_simps]: "wp (throw e) Q E w = E (Threw e) w"
  by (simp add: wp_def throw_def)

lemma wp_and_then [wp_simps]: "wp (and_then m f) Q E w = wp m (\<lambda>x. wp (f x) Q E) E w"
  by (auto simp: wp_def and_then_def split: prod.splits sum.splits)

lemma wp_before [wp_simps]: "wp (before m k) Q E w = wp m (\<lambda>_. wp k Q E) E w"
  by (simp add: before_def wp_and_then)

lemma wp_on_throw [wp_simps]:
  "wp (on_throw m h) Q E w = wp m Q (\<lambda>e. case e of Killed \<Rightarrow> E Killed | Threw x \<Rightarrow> wp (h x) Q E) w"
  by (auto simp: wp_def on_throw_def split: prod.splits sum.splits stop.splits)

lemma wp_looking [wp_simps]: "wp (looking f k) Q E w = wp (k (f w)) Q E w"
  by (simp add: wp_def looking_def)

lemma wp_if [wp_simps]: "wp (if b then m else k) Q E w = (if b then wp m Q E w else wp k Q E w)"
  by simp

lemma wp_mono:
  "wp m Q E w \<Longrightarrow> (\<And>x w'. Q x w' \<Longrightarrow> Q' x w') \<Longrightarrow> (\<And>e w'. E e w' \<Longrightarrow> E' e w') \<Longrightarrow> wp m Q' E' w"
  by (auto simp: wp_def split: prod.splits sum.splits)

lemma wp_run: "wp m Q E w \<Longrightarrow> m w = (r, w') \<Longrightarrow> case r of Inr x \<Rightarrow> Q x w' | Inl e \<Rightarrow> E e w'"
  by (auto simp: wp_def split: sum.splits)

lemma wp_durable:
  assumes "aw_faults w \<noteq> [] \<Longrightarrow> E Killed (w\<lparr>aw_faults := tl (aw_faults w)\<rparr>)"
    and "aw_faults w \<noteq> [] \<Longrightarrow> E (Threw WriteFailed) (w\<lparr>aw_faults := tl (aw_faults w)\<rparr>)"
    and "case f (w\<lparr>aw_faults := tl (aw_faults w)\<rparr>) of (Inl e, w') \<Rightarrow> E (Threw e) w' | (Inr x, w') \<Rightarrow> Q x w'"
  shows "wp (durable f) Q E w"
  using assms
  by (auto simp: wp_def durable_def Let_def split: list.splits fault.splits prod.splits sum.splits)

section \<open>One task\<close>

text \<open>What the accept code sees of the task it works on. An absent key and an empty value are the same.\<close>

record 'g Seen =
  sn_status :: TaskStatus
  sn_ended :: "int option"
  sn_outcome :: "SessionOutcome option"
  sn_meta :: "string \<Rightarrow> string"
  sn_comments :: "AcceptComment list"
  sn_messages :: "Notice list"
  sn_turns :: "LedgerTurn list option"
  sn_git :: 'g
  sn_faults :: "fault list"

definition held :: "string \<Rightarrow> 'g AcceptWorld \<Rightarrow> bool" where
  "held i w \<longleftrightarrow> is_uuid i \<and>
     (\<exists>td s. omap_get (st_dirs (aw_store w)) i = Some td \<and> t_id (d_task td) = i \<and> d_session td = Some s \<and>
        omap_get (ix_sessionToTask (st_index (aw_store w))) (s_id s) = Some i)"

definition dir_held :: "string \<Rightarrow> 'g AcceptWorld \<Rightarrow> TaskDir" where
  "dir_held i w = the (omap_get (st_dirs (aw_store w)) i)"

definition metadata_view :: "Task \<Rightarrow> string \<Rightarrow> string" where
  "metadata_view t k = (case omap_get (t_metadata t) k of None \<Rightarrow> [] | Some v \<Rightarrow> v)"

definition seen :: "string \<Rightarrow> 'g AcceptWorld \<Rightarrow> 'g Seen" where
  "seen i w =
     (let td = dir_held i w
      in \<lparr>sn_status = t_status (d_task td),
          sn_ended = s_ended_at (the (d_session td)),
          sn_outcome = s_outcome (the (d_session td)),
          sn_meta = metadata_view (d_task td), sn_comments = getTaskComments w i, sn_messages = aw_messages w,
          sn_turns = aw_turns w, sn_git = aw_git w, sn_faults = aw_faults w\<rparr>)"

definition spec :: "string \<Rightarrow> ('g, 'a) act \<Rightarrow> ('a \<Rightarrow> 'g Seen \<Rightarrow> bool) \<Rightarrow> (stop \<Rightarrow> 'g Seen \<Rightarrow> bool) \<Rightarrow> 'g Seen \<Rightarrow> bool" where
  "spec i m Q E s \<longleftrightarrow>
     (\<forall>w. held i w \<longrightarrow> seen i w = s \<longrightarrow>
        wp m (\<lambda>x w. held i w \<and> Q x (seen i w)) (\<lambda>e w. held i w \<and> E e (seen i w)) w)"

named_theorems spec_rules \<open>rules of the actions on one task\<close>

lemma spec_mono:
  "spec i m Q E s \<Longrightarrow> (\<And>x s'. Q x s' \<Longrightarrow> Q' x s') \<Longrightarrow> (\<And>e s'. E e s' \<Longrightarrow> E' e s') \<Longrightarrow> spec i m Q' E' s"
  unfolding spec_def by (auto elim!: wp_mono)

lemma spec_pass [spec_rules]: "Q x s \<Longrightarrow> spec i (pass x) Q E s"
  by (auto simp: spec_def wp_simps)

lemma spec_throw [spec_rules]: "E (Threw e) s \<Longrightarrow> spec i (throw e) Q E s"
  by (auto simp: spec_def wp_simps)

lemma spec_and_then [spec_rules]: "spec i m (\<lambda>x. spec i (f x) Q E) E s \<Longrightarrow> spec i (and_then m f) Q E s"
  unfolding spec_def wp_and_then by (auto elim!: wp_mono)

lemma spec_before [spec_rules]: "spec i m (\<lambda>_. spec i k Q E) E s \<Longrightarrow> spec i (before m k) Q E s"
  unfolding before_def by (rule spec_and_then)

lemma spec_on_throw [spec_rules]:
  "spec i m Q (\<lambda>e s. case e of Killed \<Rightarrow> E Killed s | Threw x \<Rightarrow> spec i (h x) Q E s) s \<Longrightarrow> spec i (on_throw m h) Q E s"
  unfolding spec_def wp_on_throw by (auto elim!: wp_mono split: stop.splits)

lemma spec_bind:
  "spec i m Q1 E1 s \<Longrightarrow> (\<And>x s'. Q1 x s' \<Longrightarrow> spec i (f x) Q E s') \<Longrightarrow> (\<And>e s'. E1 e s' \<Longrightarrow> E e s') \<Longrightarrow>
     spec i (and_then m f) Q E s"
  by (rule spec_and_then, erule spec_mono)

lemma spec_seq:
  "spec i m Q1 E1 s \<Longrightarrow> (\<And>x s'. Q1 x s' \<Longrightarrow> spec i k Q E s') \<Longrightarrow> (\<And>e s'. E1 e s' \<Longrightarrow> E e s') \<Longrightarrow>
     spec i (before m k) Q E s"
  unfolding before_def by (rule spec_bind)

lemma spec_try:
  "spec i m Q1 E1 s \<Longrightarrow> (\<And>x s'. Q1 x s' \<Longrightarrow> Q x s') \<Longrightarrow> (\<And>s'. E1 Killed s' \<Longrightarrow> E Killed s') \<Longrightarrow>
     (\<And>x s'. E1 (Threw x) s' \<Longrightarrow> spec i (h x) Q E s') \<Longrightarrow> spec i (on_throw m h) Q E s"
  by (rule spec_on_throw, erule spec_mono) (auto split: stop.splits)

lemma spec_result:
  "spec i m Q E s \<Longrightarrow> (\<And>w x w'. m w = (Inr x, w') \<Longrightarrow> P x) \<Longrightarrow> spec i m (\<lambda>x s'. Q x s' \<and> P x) E s"
  unfolding spec_def wp_def by (auto split: prod.splits sum.splits)

lemma spec_looking:
  "(\<And>w. held i w \<Longrightarrow> seen i w = s \<Longrightarrow> f w = x) \<Longrightarrow> spec i (k x) Q E s \<Longrightarrow> spec i (looking f k) Q E s"
  by (auto simp: spec_def wp_simps)

lemma spec_run:
  assumes "spec i m Q E (seen i w)" and "held i w" and "m w = (r, w')"
  shows "held i w' \<and> (case r of Inr x \<Rightarrow> Q x (seen i w') | Inl e \<Rightarrow> E e (seen i w'))"
  using assms by (auto simp: spec_def wp_def split: sum.splits)

text \<open>A durable step, whatever happens to it: it fails or kills only when a fault is due.\<close>

lemma spec_durable:
  assumes "sn_faults s \<noteq> [] \<Longrightarrow> E Killed (s\<lparr>sn_faults := tl (sn_faults s)\<rparr>)"
    and "sn_faults s \<noteq> [] \<Longrightarrow> E (Threw WriteFailed) (s\<lparr>sn_faults := tl (sn_faults s)\<rparr>)"
    and "\<And>w. held i w \<Longrightarrow> seen i w = s\<lparr>sn_faults := tl (sn_faults s)\<rparr> \<Longrightarrow>
      case f w of (Inl e, w') \<Rightarrow> held i w' \<and> E (Threw e) (seen i w') | (Inr x, w') \<Rightarrow> held i w' \<and> Q x (seen i w')"
  shows "spec i (durable f) Q E s"
proof -
  have f: "held i (w\<lparr>aw_faults := fs\<rparr>) = held i w" "seen i (w\<lparr>aw_faults := fs\<rparr>) = (seen i w)\<lparr>sn_faults := fs\<rparr>" for w :: "'a AcceptWorld" and fs
    by (simp_all add: held_def seen_def dir_held_def Let_def getTaskComments_def)
  have fa: "sn_faults (seen i w) = aw_faults w" for w :: "'a AcceptWorld" by (simp add: seen_def Let_def)
  show ?thesis
    unfolding spec_def
  proof (intro allI impI)
    fix w :: "'a AcceptWorld"
    assume w: "held i w" "seen i w = s"
    show "wp (durable f) (\<lambda>x w. held i w \<and> Q x (seen i w)) (\<lambda>e w. held i w \<and> E e (seen i w)) w"
    proof (rule wp_durable)
      have "held i (w\<lparr>aw_faults := tl (aw_faults w)\<rparr>)" "seen i (w\<lparr>aw_faults := tl (aw_faults w)\<rparr>) = s\<lparr>sn_faults := tl (sn_faults s)\<rparr>"
        using w by (auto simp: f fa)
      from assms(3) [OF this]
      show "case f (w\<lparr>aw_faults := tl (aw_faults w)\<rparr>) of
          (Inl e, w') \<Rightarrow> held i w' \<and> E (Threw e) (seen i w') | (Inr x, w') \<Rightarrow> held i w' \<and> Q x (seen i w')" .
    qed (use w assms(1,2) in \<open>auto simp: f fa\<close>)
  qed
qed

text \<open>A write to the store that changes the task, its session or its metadata in the way \<open>g\<close> says.\<close>

lemma held_write:
  assumes h: "held i w" and st: "st_dirs st = omap_set (st_dirs (aw_store w)) i td"
      "ix_sessionToTask (st_index st) = ix_sessionToTask (st_index (aw_store w))"
    and td: "t_id (d_task td) = i" "d_session td = Some s"
      "s_id s = s_id (the (d_session (dir_held i w)))"
  shows "held i (w\<lparr>aw_store := st\<rparr>)"
    and "seen i (w\<lparr>aw_store := st\<rparr>) = (seen i w)\<lparr>sn_status := t_status (d_task td), sn_ended := s_ended_at s,
       sn_outcome := s_outcome s, sn_meta := metadata_view (d_task td)\<rparr>"
  using h st td by (auto simp: held_def seen_def dir_held_def Let_def getTaskComments_def)

lemma dir_held:
  assumes "held i w"
  obtains s where "omap_get (st_dirs (aw_store w)) i = Some (dir_held i w)" "t_id (d_task (dir_held i w)) = i"
    "d_session (dir_held i w) = Some s" "findTaskIdByPrefix (aw_store w) i = (aw_store w, Some i)"
    "omap_get (ix_sessionToTask (st_index (aw_store w))) (s_id s) = Some i"
    "sn_ended (seen i w) = s_ended_at s" "sn_outcome (seen i w) = s_outcome s"
  using assms find_uuid [of i "aw_store w"] by (auto simp: held_def dir_held_def seen_def Let_def)

lemma seen_simps:
  "sn_status (seen i w) = t_status (d_task (dir_held i w))"
  "sn_meta (seen i w) = metadata_view (d_task (dir_held i w))"
  "sn_comments (seen i w) = getTaskComments w i" "sn_messages (seen i w) = aw_messages w"
  "sn_turns (seen i w) = aw_turns w" "sn_git (seen i w) = aw_git w" "sn_faults (seen i w) = aw_faults w"
  by (simp_all add: seen_def Let_def)

lemma metadata_view_set: "metadata_view (t\<lparr>t_metadata := omap_set (t_metadata t) k v\<rparr>) = (metadata_view t)(k := v)"
  by (auto simp: metadata_view_def)

lemma write_meta_effect:
  assumes "held i w"
  shows "\<exists>st. updateTaskMetadata k v i (aw_store w) = Inr st \<and> held i (w\<lparr>aw_store := st\<rparr>) \<and>
    seen i (w\<lparr>aw_store := st\<rparr>) = (seen i w)\<lparr>sn_meta := (sn_meta (seen i w))(k := v)\<rparr>"
proof -
  obtain s where d: "omap_get (st_dirs (aw_store w)) i = Some (dir_held i w)" "t_id (d_task (dir_held i w)) = i"
      "d_session (dir_held i w) = Some s" "findTaskIdByPrefix (aw_store w) i = (aw_store w, Some i)"
      "omap_get (ix_sessionToTask (st_index (aw_store w))) (s_id s) = Some i"
      "sn_ended (seen i w) = s_ended_at s" "sn_outcome (seen i w) = s_outcome s"
    using dir_held [OF assms] by blast
  let ?td = "set_task (t_metadata_update (\<lambda>m. omap_set m k v)) (dir_held i w)"
  let ?st = "(aw_store w)\<lparr>st_dirs := omap_set (st_dirs (aw_store w)) i ?td,
      st_index := metadata_tell k v i ?td (st_index (aw_store w))\<rparr>"
  have "updateTaskMetadata k v i (aw_store w) = Inr ?st"
    using d(1,4) by (simp add: updateTaskMetadata_def update_task_def)
  moreover have "held i (w\<lparr>aw_store := ?st\<rparr>)"
    by (rule held_write(1) [OF assms _ _ _ _ refl, of _ ?td])
       (use d in \<open>auto simp: metadata_tell_def indexSetRef_def\<close>)
  moreover have "seen i (w\<lparr>aw_store := ?st\<rparr>) = (seen i w)\<lparr>sn_meta := (sn_meta (seen i w))(k := v)\<rparr>"
    using d by (simp add: seen_def dir_held_def Let_def getTaskComments_def metadata_view_set [simplified] fun_eq_iff metadata_view_def)
  ultimately show ?thesis by blast
qed

lemma held_dir_write:
  assumes h: "held i w" and td: "t_id (d_task td) = i" "d_session td = Some s'" "s_id s' = s_id (the (d_session (dir_held i w)))"
  shows "held i (w\<lparr>aw_store := (aw_store w)\<lparr>st_dirs := omap_set (st_dirs (aw_store w)) i td\<rparr>\<rparr>)"
    and "seen i (w\<lparr>aw_store := (aw_store w)\<lparr>st_dirs := omap_set (st_dirs (aw_store w)) i td\<rparr>\<rparr>) =
      (seen i w)\<lparr>sn_status := t_status (d_task td), sn_ended := s_ended_at s', sn_outcome := s_outcome s',
        sn_meta := metadata_view (d_task td)\<rparr>"
  by (rule held_write [OF h _ _ td(1,2,3)]; simp)+

text \<open>The transition a status write makes; no accept writes \<open>zombie\<close>.\<close>

lemma write_status_effect:
  assumes h: "held i w" and z: "s \<noteq> Zombie"
  shows "case updateTaskStatus secrets now s actor reason i (aw_store w) of
      Inl e \<Rightarrow> sn_status (seen i w) \<noteq> s \<and> \<not> canTransition (sn_status (seen i w)) s
    | Inr st \<Rightarrow> (sn_status (seen i w) = s \<or> canTransition (sn_status (seen i w)) s) \<and>
        held i (w\<lparr>aw_store := st\<rparr>) \<and> seen i (w\<lparr>aw_store := st\<rparr>) = (seen i w)\<lparr>sn_status := s\<rparr>"
proof -
  obtain ss where d: "omap_get (st_dirs (aw_store w)) i = Some (dir_held i w)" "t_id (d_task (dir_held i w)) = i"
      "d_session (dir_held i w) = Some ss" "findTaskIdByPrefix (aw_store w) i = (aw_store w, Some i)"
      "omap_get (ix_sessionToTask (st_index (aw_store w))) (s_id ss) = Some i"
      "sn_ended (seen i w) = s_ended_at ss" "sn_outcome (seen i w) = s_outcome ss"
    using dir_held [OF h] by blast
  let ?td = "dir_held i w"
  have run: "updateTaskStatus secrets now s actor reason i (aw_store w) =
      bind_result (status_update secrets now s actor reason i ?td)
        (\<lambda>td'. Inr ((aw_store w)\<lparr>st_dirs := omap_set (st_dirs (aw_store w)) i td',
                     st_index := tell_nothing i td' (st_index (aw_store w))\<rparr>))"
    using d(1,4) by (simp add: updateTaskStatus_def update_task_def)
  have put: "held i (w\<lparr>aw_store := (aw_store w)\<lparr>st_dirs := omap_set (st_dirs (aw_store w)) i td,
        st_index := tell_nothing i td (st_index (aw_store w))\<rparr>\<rparr>) \<and>
      seen i (w\<lparr>aw_store := (aw_store w)\<lparr>st_dirs := omap_set (st_dirs (aw_store w)) i td,
        st_index := tell_nothing i td (st_index (aw_store w))\<rparr>\<rparr>) = (seen i w)\<lparr>sn_status := s\<rparr>"
    if td: "t_id (d_task td) = i" "d_session td = Some ss" "t_status (d_task td) = s"
      "t_metadata (d_task td) = t_metadata (d_task ?td)" for td
  proof -
    have "metadata_view (d_task td) = sn_meta (seen i w)"
      using td(4) by (simp add: seen_simps fun_eq_iff metadata_view_def)
    then show ?thesis
      using held_write [OF h _ _ td(1,2), of "(aw_store w)\<lparr>st_dirs := omap_set (st_dirs (aw_store w)) i td,
        st_index := tell_nothing i td (st_index (aw_store w))\<rparr>"] d td by (simp add: tell_nothing_def)
  qed
  show ?thesis
  proof (cases "status_update secrets now s actor reason i ?td")
    case (Inl e)
    then have "t_status (d_task ?td) \<noteq> s \<and> \<not> canTransition (t_status (d_task ?td)) s"
      using z by (auto simp: status_update_def assertValidTransition_def Let_def split: if_splits)
    then show ?thesis by (simp add: run Inl seen_simps)
  next
    case (Inr td)
    then have ok: "t_status (d_task ?td) = s \<or> canTransition (t_status (d_task ?td)) s"
      using z by (auto simp: status_update_def assertValidTransition_def Let_def split: if_splits)
    have "t_id (d_task td) = i \<and> d_session td = Some ss \<and> t_status (d_task td) = s \<and>
        t_metadata (d_task td) = t_metadata (d_task ?td)"
      using Inr d by (auto simp: status_update_def Let_def bind_result_Inr_iff split: if_splits)
    then show ?thesis using put [of td] ok by (simp add: run Inr seen_simps)
  qed
qed

lemma end_session_effect:
  assumes h: "held i w"
  shows "held i (w\<lparr>aw_store := endSession (s_id (the (d_session (dir_held i w)))) now outcome (aw_store w)\<rparr>) \<and>
    seen i (w\<lparr>aw_store := endSession (s_id (the (d_session (dir_held i w)))) now outcome (aw_store w)\<rparr>) =
      (seen i w)\<lparr>sn_ended := Some now, sn_outcome := Some outcome\<rparr>"
proof -
  obtain s where d: "omap_get (st_dirs (aw_store w)) i = Some (dir_held i w)" "t_id (d_task (dir_held i w)) = i"
      "d_session (dir_held i w) = Some s" "findTaskIdByPrefix (aw_store w) i = (aw_store w, Some i)"
      "omap_get (ix_sessionToTask (st_index (aw_store w))) (s_id s) = Some i"
      "sn_ended (seen i w) = s_ended_at s" "sn_outcome (seen i w) = s_outcome s"
    using dir_held [OF h] by blast
  let ?td = "(dir_held i w)\<lparr>d_session := Some (s\<lparr>s_ended_at := Some now, s_outcome := Some outcome\<rparr>)\<rparr>"
  have e: "endSession (s_id (the (d_session (dir_held i w)))) now outcome (aw_store w) =
      (aw_store w)\<lparr>st_dirs := omap_set (st_dirs (aw_store w)) i ?td\<rparr>"
    using d by (simp add: endSession_def)
  show ?thesis
    unfolding e using held_dir_write [OF h, of ?td "s\<lparr>s_ended_at := Some now, s_outcome := Some outcome\<rparr>"] d(2,3)
    by (simp add: seen_simps)
qed

section \<open>Rules of the writes\<close>

lemma spec_write_meta [spec_rules]:
  assumes "sn_faults s \<noteq> [] \<Longrightarrow> E Killed (s\<lparr>sn_faults := tl (sn_faults s)\<rparr>)"
    and "sn_faults s \<noteq> [] \<Longrightarrow> E (Threw WriteFailed) (s\<lparr>sn_faults := tl (sn_faults s)\<rparr>)"
    and "Q () (s\<lparr>sn_faults := tl (sn_faults s), sn_meta := (sn_meta s)(k := v)\<rparr>)"
  shows "spec i (write_meta i k v) Q E s"
  unfolding write_meta_def store_write_def
proof (rule spec_durable, rule assms(1), assumption, rule assms(2), assumption)
  fix w :: "'a AcceptWorld"
  assume h: "held i w" and fs: "seen i w = s\<lparr>sn_faults := tl (sn_faults s)\<rparr>"
  from write_meta_effect [OF h, of k v] assms(3)
  show "case (case updateTaskMetadata k v i (aw_store w) of
        Inl e \<Rightarrow> (Inl (StoreThrew e), w) | Inr st \<Rightarrow> (Inr (), w\<lparr>aw_store := st\<rparr>)) of
      (Inl e, w') \<Rightarrow> held i w' \<and> E (Threw e) (seen i w') | (Inr x, w') \<Rightarrow> held i w' \<and> Q x (seen i w')"
    by (auto simp: fs)
qed

lemma spec_write_status [spec_rules]:
  assumes "sn_faults s \<noteq> [] \<Longrightarrow> E Killed (s\<lparr>sn_faults := tl (sn_faults s)\<rparr>)"
    and "sn_faults s \<noteq> [] \<Longrightarrow> E (Threw WriteFailed) (s\<lparr>sn_faults := tl (sn_faults s)\<rparr>)"
    and "sn_status s = st \<or> canTransition (sn_status s) st \<Longrightarrow> Q () (s\<lparr>sn_faults := tl (sn_faults s), sn_status := st\<rparr>)"
    and "\<And>e. \<not> canTransition (sn_status s) st \<Longrightarrow> sn_status s \<noteq> st \<Longrightarrow> E (Threw (StoreThrew e)) (s\<lparr>sn_faults := tl (sn_faults s)\<rparr>)"
    and z: "st \<noteq> Zombie"
  shows "spec i (write_status env i st actor) Q E s"
  unfolding write_status_def store_write_def
proof (rule spec_durable, rule assms(1), assumption, rule assms(2), assumption)
  fix w :: "'a AcceptWorld"
  assume h: "held i w" and fs: "seen i w = s\<lparr>sn_faults := tl (sn_faults s)\<rparr>"
  from write_status_effect [OF h z, of "ae_secrets env" "ae_now env" actor None] assms(3,4) h
  show "case (case updateTaskStatus (ae_secrets env) (ae_now env) st actor None i (aw_store w) of
        Inl e \<Rightarrow> (Inl (StoreThrew e), w) | Inr st \<Rightarrow> (Inr (), w\<lparr>aw_store := st\<rparr>)) of
      (Inl e, w') \<Rightarrow> held i w' \<and> E (Threw e) (seen i w') | (Inr x, w') \<Rightarrow> held i w' \<and> Q x (seen i w')"
    by (auto simp: fs split: sum.splits)
qed

lemma session_read: "held i w \<Longrightarrow> getSessionByTaskId (aw_store w) i = d_session (dir_held i w) \<and> d_session (dir_held i w) \<noteq> None"
  by (rule dir_held, assumption) (simp add: getSessionByTaskId_def)

lemma seen_session:
  "held i w \<Longrightarrow> d_session (dir_held i w) = Some s \<Longrightarrow> sn_ended (seen i w) = s_ended_at s \<and> sn_outcome (seen i w) = s_outcome s"
  by (simp add: seen_def Let_def)

lemma spec_end_open_session [spec_rules]:
  assumes "sn_faults s \<noteq> [] \<Longrightarrow> sn_ended s = None \<Longrightarrow> E Killed (s\<lparr>sn_faults := tl (sn_faults s)\<rparr>)"
    and "sn_faults s \<noteq> [] \<Longrightarrow> sn_ended s = None \<Longrightarrow> E (Threw WriteFailed) (s\<lparr>sn_faults := tl (sn_faults s)\<rparr>)"
    and "sn_ended s = None \<Longrightarrow> Q () (s\<lparr>sn_faults := tl (sn_faults s), sn_ended := Some (ae_now env), sn_outcome := Some outcome\<rparr>)"
    and "sn_ended s \<noteq> None \<Longrightarrow> Q () s"
  shows "spec i (end_open_session env i outcome) Q E s"
  unfolding spec_def end_open_session_def wp_looking
proof (intro allI impI)
  fix w :: "'a AcceptWorld"
  assume h: "held i w" and w: "seen i w = s"
  obtain ss where ss: "getSessionByTaskId (aw_store w) i = Some ss" "d_session (dir_held i w) = Some ss"
    using session_read [OF h] by auto
  have ended: "sn_ended s = s_ended_at ss" using seen_session [OF h ss(2)] w by simp
  show "wp (case getSessionByTaskId (aw_store w) i of None \<Rightarrow> pass ()
        | Some s \<Rightarrow> if s_ended_at s = None then end_session env (s_id s) outcome else pass ())
      (\<lambda>x w. held i w \<and> Q x (seen i w)) (\<lambda>e w. held i w \<and> E e (seen i w)) w"
  proof (cases "sn_ended s")
    case None
    have "wp (end_session env (s_id ss) outcome) (\<lambda>x w. held i w \<and> Q x (seen i w)) (\<lambda>e w. held i w \<and> E e (seen i w)) w"
      unfolding end_session_def store_write_def
    proof (rule wp_durable)
      let ?w = "w\<lparr>aw_faults := tl (aw_faults w)\<rparr>"
      have hf: "held i ?w" "seen i ?w = s\<lparr>sn_faults := tl (sn_faults s)\<rparr>" "dir_held i ?w = dir_held i w"
        using h w by (auto simp: held_def seen_def dir_held_def Let_def getTaskComments_def)
      have more: "sn_faults s = aw_faults w" using w by (auto simp: seen_simps)
      from hf more show "held i ?w \<and> E Killed (seen i ?w)" "held i ?w \<and> E (Threw WriteFailed) (seen i ?w)" if "aw_faults w \<noteq> []"
        using assms(1,2) [OF _ None] that by simp_all
      from end_session_effect [OF hf(1), of "ae_now env" outcome] assms(3) [OF None]
      show "case (case Inr (endSession (s_id ss) (ae_now env) outcome (aw_store ?w)) of
            Inl e \<Rightarrow> (Inl (StoreThrew e), ?w) | Inr st \<Rightarrow> (Inr (), ?w\<lparr>aw_store := st\<rparr>)) of
          (Inl e, w') \<Rightarrow> held i w' \<and> E (Threw e) (seen i w') | (Inr x, w') \<Rightarrow> held i w' \<and> Q x (seen i w')"
        by (simp add: hf ss(2))
    qed
    then show ?thesis using ended None ss(1) by simp
  next
    case (Some t)
    then show ?thesis using assms(4) ended ss(1) h w by (simp add: wp_simps)
  qed
qed

lemma spec_add_comment [spec_rules]:
  assumes "sn_faults s \<noteq> [] \<Longrightarrow> E Killed (s\<lparr>sn_faults := tl (sn_faults s)\<rparr>)"
    and "sn_faults s \<noteq> [] \<Longrightarrow> E (Threw WriteFailed) (s\<lparr>sn_faults := tl (sn_faults s)\<rparr>)"
    and "Q () (s\<lparr>sn_faults := tl (sn_faults s), sn_comments := sn_comments s @
       [\<lparr>cm_task = i, cm_content = redactSecretValues (ae_secrets env) content, cm_actor = actor\<rparr>]\<rparr>)"
  shows "spec i (add_comment env i content actor) Q E s"
  unfolding add_comment_def
proof (rule spec_durable, rule assms(1), assumption, rule assms(2), assumption)
  fix w :: "'a AcceptWorld"
  let ?c = "\<lparr>cm_task = i, cm_content = redactSecretValues (ae_secrets env) content, cm_actor = actor\<rparr>"
  assume h: "held i w" and w: "seen i w = s\<lparr>sn_faults := tl (sn_faults s)\<rparr>"
  have "held i (w\<lparr>aw_comments := aw_comments w @ [?c]\<rparr>)"
    "seen i (w\<lparr>aw_comments := aw_comments w @ [?c]\<rparr>) = (seen i w)\<lparr>sn_comments := sn_comments (seen i w) @ [?c]\<rparr>"
    using h by (simp_all add: held_def seen_def dir_held_def Let_def getTaskComments_def)
  then show "case (Inr (), w\<lparr>aw_comments := aw_comments w @ [?c]\<rparr>) of
      (Inl e, w') \<Rightarrow> held i w' \<and> E (Threw e) (seen i w') | (Inr x, w') \<Rightarrow> held i w' \<and> Q x (seen i w')"
    using assms(3) w by simp
qed

lemma spec_file_message [spec_rules]:
  assumes "sn_faults s \<noteq> [] \<Longrightarrow> E Killed (s\<lparr>sn_faults := tl (sn_faults s)\<rparr>)"
    and "sn_faults s \<noteq> [] \<Longrightarrow> E (Threw WriteFailed) (s\<lparr>sn_faults := tl (sn_faults s)\<rparr>)"
    and "Q () (s\<lparr>sn_faults := tl (sn_faults s), sn_messages := sn_messages s @ [n]\<rparr>)"
  shows "spec i (file_message n) Q E s"
  unfolding file_message_def
proof (rule spec_durable, rule assms(1), assumption, rule assms(2), assumption)
  fix w :: "'a AcceptWorld"
  assume h: "held i w" and w: "seen i w = s\<lparr>sn_faults := tl (sn_faults s)\<rparr>"
  have "held i (w\<lparr>aw_messages := aw_messages w @ [n]\<rparr>)"
    "seen i (w\<lparr>aw_messages := aw_messages w @ [n]\<rparr>) = (seen i w)\<lparr>sn_messages := sn_messages (seen i w) @ [n]\<rparr>"
    using h by (simp_all add: held_def seen_def dir_held_def Let_def getTaskComments_def)
  then show "case (Inr (), w\<lparr>aw_messages := aw_messages w @ [n]\<rparr>) of
      (Inl e, w') \<Rightarrow> held i w' \<and> E (Threw e) (seen i w') | (Inr x, w') \<Rightarrow> held i w' \<and> Q x (seen i w')"
    using assms(3) w by simp
qed

lemma spec_at_git [spec_rules]:
  assumes "sn_faults s \<noteq> [] \<Longrightarrow> E Killed (s\<lparr>sn_faults := tl (sn_faults s)\<rparr>)"
    and "sn_faults s \<noteq> [] \<Longrightarrow> E (Threw WriteFailed) (s\<lparr>sn_faults := tl (sn_faults s)\<rparr>)"
    and "\<And>e g. f (sn_git s) = (Inl e, g) \<Longrightarrow> E (Threw (GitFailed e)) (s\<lparr>sn_faults := tl (sn_faults s), sn_git := g\<rparr>)"
    and "\<And>x g. f (sn_git s) = (Inr x, g) \<Longrightarrow> Q x (s\<lparr>sn_faults := tl (sn_faults s), sn_git := g\<rparr>)"
  shows "spec i (at_git f) Q E s"
  unfolding at_git_def
proof (rule spec_durable, rule assms(1), assumption, rule assms(2), assumption)
  fix w :: "'a AcceptWorld"
  assume h: "held i w" and w: "seen i w = s\<lparr>sn_faults := tl (sn_faults s)\<rparr>"
  have g: "held i (w\<lparr>aw_git := g\<rparr>)" "seen i (w\<lparr>aw_git := g\<rparr>) = (seen i w)\<lparr>sn_git := g\<rparr>" for g
    using h by (simp_all add: held_def seen_def dir_held_def Let_def getTaskComments_def)
  have "aw_git w = sn_git s" using arg_cong [OF w, of sn_git] by (simp add: seen_simps)
  then show "case (case f (aw_git w) of (Inl e, g) \<Rightarrow> (Inl (GitFailed e), w\<lparr>aw_git := g\<rparr>) | (Inr x, g) \<Rightarrow> (Inr x, w\<lparr>aw_git := g\<rparr>)) of
      (Inl e, w') \<Rightarrow> held i w' \<and> E (Threw e) (seen i w') | (Inr x, w') \<Rightarrow> held i w' \<and> Q x (seen i w')"
    using assms(3,4) w g by (auto split: prod.splits sum.splits)
qed

section \<open>Rules of the reads\<close>

lemma spec_task_read [spec_rules]:
  assumes "\<And>t. t_id t = i \<Longrightarrow> t_status t = sn_status s \<Longrightarrow> metadata_view t = sn_meta s \<Longrightarrow> spec i (k (f t)) Q E s"
  shows "spec i (looking (task_read i f d) k) Q E s"
  unfolding spec_def
proof (intro allI impI)
  fix w :: "'a AcceptWorld"
  assume h: "held i w" and w: "seen i w = s"
  obtain ss where d: "omap_get (st_dirs (aw_store w)) i = Some (dir_held i w)" "t_id (d_task (dir_held i w)) = i"
      "findTaskIdByPrefix (aw_store w) i = (aw_store w, Some i)"
    using dir_held [OF h] by blast
  let ?t = "d_task (dir_held i w)"
  have "task_read i f d w = f ?t" using d by (simp add: task_read_def getTask_def readTask_def)
  moreover have "spec i (k (f ?t)) Q E s"
    by (rule assms) (use d w in \<open>auto simp: seen_simps\<close>)
  ultimately show "wp (looking (task_read i f d) k) (\<lambda>x w. held i w \<and> Q x (seen i w)) (\<lambda>e w. held i w \<and> E e (seen i w)) w"
    using h w by (simp add: wp_looking spec_def)
qed

lemma spec_read_comments [spec_rules]:
  "spec i (k (sn_comments s)) Q E s \<Longrightarrow> spec i (looking (\<lambda>w. getTaskComments w i) k) Q E s"
  by (rule spec_looking) (auto simp: seen_simps)

lemma spec_read_git:
  "spec i (k (f (sn_git s))) Q E s \<Longrightarrow> spec i (looking (\<lambda>w. f (aw_git w)) k) Q E s"
  by (rule spec_looking) (auto simp: seen_simps)

lemma spec_read_turns [spec_rules]:
  "spec i (k (sn_turns s)) Q E s \<Longrightarrow> spec i (looking aw_turns k) Q E s"
  by (rule spec_looking) (auto simp: seen_simps)

lemma spec_read_session [spec_rules]:
  assumes "\<And>ss. s_ended_at ss = sn_ended s \<Longrightarrow> s_outcome ss = sn_outcome s \<Longrightarrow> spec i (k (Some ss)) Q E s"
  shows "spec i (looking (\<lambda>w. getSessionByTaskId (aw_store w) i) k) Q E s"
  unfolding spec_def
proof (intro allI impI)
  fix w :: "'a AcceptWorld"
  assume h: "held i w" and w: "seen i w = s"
  obtain ss where ss: "getSessionByTaskId (aw_store w) i = Some ss" "d_session (dir_held i w) = Some ss"
    using session_read [OF h] by auto
  then have "spec i (k (Some ss)) Q E s" using seen_session [OF h ss(2)] w by (intro assms) auto
  then show "wp (looking (\<lambda>w. getSessionByTaskId (aw_store w) i) k) (\<lambda>x w. held i w \<and> Q x (seen i w))
      (\<lambda>e w. held i w \<and> E e (seen i w)) w"
    using h w ss by (simp add: wp_looking spec_def)
qed

lemma in_flight_view: "accept_in_flight t \<longleftrightarrow> metadata_view t ACCEPT_IN_FLIGHT_KEY \<noteq> []"
  by (auto simp: accept_in_flight_def nonempty_def metadata_view_def split: option.splits)

lemma attempts_view: "readResumeAttempts t = read_number (Some (metadata_view t ACCEPT_RESUME_ATTEMPTS_KEY))"
  by (auto simp: readResumeAttempts_def metadata_view_def read_number_def nonempty_def split: option.splits)

lemma next_at_view: "readResumeNextAt t = read_number (Some (metadata_view t ACCEPT_RESUME_NEXT_AT_KEY))"
  by (auto simp: readResumeNextAt_def metadata_view_def read_number_def nonempty_def split: option.splits)

lemma intent_view: "readAcceptIntent parse t = parseJson parse (Some (metadata_view t ACCEPT_INTENT_KEY))"
  by (auto simp: readAcceptIntent_def metadata_view_def parseJson_def nonempty_def split: option.splits)

lemma follow_view: "readFollowThrough parse t = parseJson parse (Some (metadata_view t ACCEPT_FOLLOWTHROUGH_KEY))"
  by (auto simp: readFollowThrough_def metadata_view_def parseJson_def nonempty_def split: option.splits)

lemmas task_views = in_flight_view attempts_view next_at_view intent_view follow_view

section \<open>A concrete world\<close>

text \<open>\<open>git\<close> is here whether the work of the task is on its target branch.\<close>

lemma held_code [code]:
  "held i w \<longleftrightarrow> is_uuid i \<and>
     (case omap_get (st_dirs (aw_store w)) i of
        None \<Rightarrow> False
      | Some td \<Rightarrow> t_id (d_task td) = i \<and>
          (case d_session td of
             None \<Rightarrow> False
           | Some s \<Rightarrow> omap_get (ix_sessionToTask (st_index (aw_store w))) (s_id s) = Some i))"
  by (auto simp: held_def split: option.splits)

text \<open>One working task with an open session, the index not yet filled in but for the session.\<close>

definition with_session :: Store where
  "with_session =
     \<lparr>st_dirs = [(sample_id,
        \<lparr>d_task = blank_task\<lparr>t_id := sample_id, t_status := Working\<rparr>, d_changes = [], d_versions = [], d_tag_events = [],
         d_session = Some
           \<lparr>s_id = ''s'', s_task_id = sample_id, s_agent_id = ''a'', s_started_at = 6, s_ended_at = None, s_outcome = None,
            s_git_branch = ''b'', s_git_start_sha = ''c'', s_agent_session_id = None\<rparr>\<rparr>)],
      st_index = (st_index empty_store)\<lparr>ix_sessionToTask := [(''s'', sample_id)]\<rparr>,
      st_runs = []\<rparr>"

definition moved :: "TaskStatus \<Rightarrow> Store \<Rightarrow> Store" where
  "moved s st = (case updateTaskStatus [] 7 s None None sample_id st of Inr st' \<Rightarrow> st' | Inl _ \<Rightarrow> st)"

definition marked :: "string \<times> string \<Rightarrow> Store \<Rightarrow> Store" where
  "marked kv st = (case updateTaskMetadata (fst kv) (snd kv) sample_id st of Inr st' \<Rightarrow> st' | Inl _ \<Rightarrow> st)"

definition world_at :: "TaskStatus list \<Rightarrow> (string \<times> string) list \<Rightarrow> bool \<Rightarrow> fault list \<Rightarrow> bool AcceptWorld" where
  "world_at statuses meta landed faults =
     \<lparr>aw_store = fold marked meta (fold moved statuses with_session), aw_comments = [], aw_messages = [],
      aw_turns = Some [], aw_git = landed, aw_faults = faults\<rparr>"

definition sample_intent :: AcceptIntent where
  "sample_intent = \<lparr>ai_reason = ''good'', ai_actor = Role Human, ai_approvedFiles = [], ai_acceptDirtyWorktree = False,
     ai_allowBroken = False, ai_allowReviewIssues = False, ai_recordedAt = ''now''\<rparr>"

definition sample_owed :: AcceptFollowThrough where
  "sample_owed = owed ''main'' False True False None"

fun step_letter :: "FollowThroughStep \<Rightarrow> char" where
  "step_letter Reparent = CHR ''r''"
| "step_letter FastForward = CHR ''f''"
| "step_letter PushParent = CHR ''p''"
| "step_letter CloseReview = CHR ''c''"
| "step_letter AcceptTag = CHR ''a''"
| "step_letter NotifyParent = CHR ''n''"
| "step_letter ParentFidelity = CHR ''s''"
| "step_letter Cleanup = CHR ''e''"

definition sample_env :: AcceptEnv where
  "sample_env = \<lparr>ae_secrets = [], ae_now = 100, ae_showIntent = ai_reason,
     ae_readIntent = (\<lambda>s. Some (sample_intent\<lparr>ai_reason := s\<rparr>)),
     ae_showFollow = (\<lambda>r. CHR '':'' # map step_letter (ft_done r)),
     ae_readFollow = (\<lambda>s. Some (sample_owed\<lparr>ft_done := filter (\<lambda>step. step_letter step \<in> set s) FOLLOWTHROUGH_STEPS\<rparr>)),
     ae_failureText = (\<lambda>_. ''failed'')\<rparr>"

end
