(* ===== verification/FollowThrough.thy ===== *)
theory FollowThrough
  imports AcceptWorld
begin

text \<open>
  The work an accept owes after its merge (\<open>runAcceptFollowThrough\<close> in
  \<open>src/src/daemon/task-lifecycle.ts\<close>) and its retries (\<open>src/src/daemon/stranded-merge.ts\<close>).

  A \<open>FollowDriver\<close> holds what the steps ask of git, the forge and the parts of the program that are not
  modelled: moving the children of the task, telling its parent, rewriting the parent's description and
  removing the task's worktree, container and tokens. A step that throws is caught by the loop, so here
  it returns its failure; a write of the record that throws outside a step ends the run.
\<close>

section \<open>The driver\<close>

datatype PRState = PROpen | PRMerged | PRClosed

datatype step_error =
    FastForwardFailed "string option"
  | OfflinePush
  | TargetDiverged string
  | PushFailed string
  | OfflineReview
  | ReviewStillOpen
  | ReviewUnconfirmed

record 'g FollowDriver =
  fd_offline :: bool
  fd_needsSync :: bool
  fd_mirrors :: bool
  fd_resolve :: "string \<Rightarrow> 'g \<Rightarrow> (string + string) \<times> 'g"
  fd_fastForward :: "string \<Rightarrow> 'g \<Rightarrow> (string + bool \<times> string option) \<times> 'g"
  fd_targetSha :: "string \<Rightarrow> 'g \<Rightarrow> string option"
  fd_pushBranch :: "string \<Rightarrow> 'g \<Rightarrow> (string + unit) \<times> 'g"
  fd_hasBranch :: bool
  fd_prState :: "'g \<Rightarrow> PRState option"
  fd_closeReview :: "'g \<Rightarrow> (string + unit) \<times> 'g"
  fd_tag :: "string \<Rightarrow> 'g \<Rightarrow> (string + unit) \<times> 'g"
  fd_other :: "FollowThroughStep \<Rightarrow> 'g \<Rightarrow> (string + unit) \<times> 'g"
  fd_errorText :: "step_error \<Rightarrow> string"

definition FOLLOWTHROUGH_APPLIES :: "FollowThroughStep \<Rightarrow> AcceptFollowThrough \<Rightarrow> bool" where
  "FOLLOWTHROUGH_APPLIES step r \<longleftrightarrow> (step = CloseReview \<longrightarrow> ft_closeReview r \<and> \<not> ft_viaForge r)"

definition FOLLOWTHROUGH_DEPENDS_ON :: "FollowThroughStep \<Rightarrow> FollowThroughStep list" where
  "FOLLOWTHROUGH_DEPENDS_ON step =
     (case step of AcceptTag \<Rightarrow> [FastForward] | CloseReview \<Rightarrow> [PushParent] | _ \<Rightarrow> [])"

section \<open>The steps\<close>

definition message_of :: "AcceptEnv \<Rightarrow> failure \<Rightarrow> string" where
  "message_of env e = (case e of GitFailed m \<Rightarrow> m | _ \<Rightarrow> ae_failureText env e)"

definition persist :: "AcceptEnv \<Rightarrow> string \<Rightarrow> AcceptFollowThrough \<Rightarrow> ('g, unit) act" where
  "persist env i r = write_meta i ACCEPT_FOLLOWTHROUGH_KEY (ae_showFollow env r)"

definition throw_step :: "'g FollowDriver \<Rightarrow> step_error \<Rightarrow> ('g, 'a) act" where
  "throw_step drv e = throw (GitFailed (fd_errorText drv e))"

text \<open>A step that leaves the record alone, with its failure returned.\<close>

definition plain_step :: "('g, unit) act \<Rightarrow> AcceptFollowThrough \<Rightarrow> ('g, failure option \<times> AcceptFollowThrough) act" where
  "plain_step m r = on_throw (before m (pass (None, r))) (\<lambda>e. pass (Some e, r))"

text \<open>\<open>isNonFastForwardRejection\<close> (\<open>src/src/remote/origin-mirror.ts\<close>).\<close>

definition isNonFastForwardRejection :: "string \<Rightarrow> bool" where
  "isNonFastForwardRejection message \<longleftrightarrow>
     (\<exists>p \<in> set [''[rejected]'', ''non-fast-forward'', ''fetch first'']. str_includes (to_lower message) p)"

definition push_parent :: "'g FollowDriver \<Rightarrow> string \<Rightarrow> AcceptFollowThrough \<Rightarrow> ('g, unit) act" where
  "push_parent drv target r =
     (if \<not> ft_pushParent r then pass ()
      else if fd_offline drv \<or> (\<not> fd_needsSync drv \<and> \<not> fd_mirrors drv) then throw_step drv OfflinePush
      else on_throw (at_git (fd_pushBranch drv target))
        (\<lambda>e. case e of
               GitFailed msg \<Rightarrow>
                 throw_step drv (if isNonFastForwardRejection msg then TargetDiverged msg else PushFailed msg)
             | _ \<Rightarrow> throw e))"

definition close_review :: "'g FollowDriver \<Rightarrow> AcceptFollowThrough \<Rightarrow> ('g, unit) act" where
  "close_review drv r =
     (if \<not> ft_closeReview r \<or> ft_viaForge r then pass ()
      else if fd_offline drv \<or> \<not> fd_needsSync drv then throw_step drv OfflineReview
      else if \<not> fd_hasBranch drv then pass ()
      else looking (\<lambda>w. fd_prState drv (aw_git w)) (\<lambda>state.
        if state = Some PRMerged \<or> state = Some PRClosed then pass ()
        else before (at_git (fd_closeReview drv))
          (looking (\<lambda>w. fd_prState drv (aw_git w)) (\<lambda>after.
             if after \<noteq> Some PRClosed \<and> after \<noteq> Some PRMerged
             then throw_step drv (if after = Some PROpen then ReviewStillOpen else ReviewUnconfirmed)
             else pass ()))))"

text \<open>\<open>fast-forward\<close> pins the forge's merge and stores it at once; the pin stays in memory even when it
  could not be stored.\<close>

definition fast_forward :: "AcceptEnv \<Rightarrow> 'g FollowDriver \<Rightarrow> string \<Rightarrow> string \<Rightarrow> AcceptFollowThrough \<Rightarrow>
    ('g, failure option \<times> AcceptFollowThrough) act" where
  "fast_forward env drv i target r =
     (if \<not> ft_viaForge r then pass (None, r)
      else on_throw
        (and_then (at_git (fd_fastForward drv target)) (\<lambda>(success, warning).
           if \<not> success then throw_step drv (FastForwardFailed (nonempty warning))
           else if nonempty (ft_mergeSha r) \<noteq> None then pass (None, r)
           else looking (\<lambda>w. fd_targetSha drv target (aw_git w)) (\<lambda>sha.
             let r' = r\<lparr>ft_mergeSha := sha\<rparr>
             in on_throw (before (persist env i r') (pass (None, r'))) (\<lambda>e. pass (Some e, r')))))
        (\<lambda>e. pass (Some e, r)))"

definition run_step :: "AcceptEnv \<Rightarrow> 'g FollowDriver \<Rightarrow> string \<Rightarrow> string \<Rightarrow> FollowThroughStep \<Rightarrow> AcceptFollowThrough \<Rightarrow>
    ('g, failure option \<times> AcceptFollowThrough) act" where
  "run_step env drv i target step r =
     (case step of
        FastForward \<Rightarrow> fast_forward env drv i target r
      | PushParent \<Rightarrow> plain_step (push_parent drv target r) r
      | CloseReview \<Rightarrow> plain_step (close_review drv r) r
      | AcceptTag \<Rightarrow> plain_step (at_git (fd_tag drv (case ft_mergeSha r of None \<Rightarrow> target | Some sha \<Rightarrow> sha))) r
      | _ \<Rightarrow> plain_step (at_git (fd_other drv step)) r)"

section \<open>A run\<close>

fun run_steps :: "AcceptEnv \<Rightarrow> 'g FollowDriver \<Rightarrow> string \<Rightarrow> string \<Rightarrow> FollowThroughStep list \<Rightarrow> AcceptFollowThrough \<Rightarrow>
    (FollowThroughStep \<times> string) list \<Rightarrow> ('g, AcceptFollowThrough \<times> (FollowThroughStep \<times> string) list) act" where
  "run_steps env drv i target [] r errors = pass (r, errors)"
| "run_steps env drv i target (step # steps) r errors =
     (if step \<in> set (ft_done r) then run_steps env drv i target steps r errors
      else if \<not> FOLLOWTHROUGH_APPLIES step r then
        (let r' = r\<lparr>ft_done := ft_done r @ [step]\<rparr>
         in before (persist env i r') (run_steps env drv i target steps r' errors))
      else if \<exists>dep \<in> set (FOLLOWTHROUGH_DEPENDS_ON step). dep \<notin> set (ft_done r)
      then run_steps env drv i target steps r errors
      else and_then (run_step env drv i target step r) (\<lambda>(failed, r1).
        case failed of
          Some e \<Rightarrow> run_steps env drv i target steps r1 (errors @ [(step, message_of env e)])
        | None \<Rightarrow>
            (let r' = r1\<lparr>ft_done := ft_done r1 @ [step]\<rparr>
             in before (persist env i r') (run_steps env drv i target steps r' errors))))"

definition pending_steps :: "AcceptFollowThrough \<Rightarrow> FollowThroughStep list" where
  "pending_steps r = filter (\<lambda>s. s \<notin> set (ft_done r)) FOLLOWTHROUGH_STEPS"

definition settle_run :: "AcceptEnv \<Rightarrow> string \<Rightarrow> AcceptFollowThrough \<times> (FollowThroughStep \<times> string) list \<Rightarrow>
    ('g, FollowThroughStep list \<times> string option) act" where
  "settle_run env i = (\<lambda>(r, errors).
     if errors \<noteq> [] then
       (let r' = r\<lparr>ft_attempts := ft_attempts r + 1,
                   ft_lastError := Some (maskUrlCredentials (failure_text errors)),
                   ft_nextAttemptAt := Some (ae_now env + followThroughBackoffMs (ft_attempts r + 1))\<rparr>
        in before (persist env i r') (pass (pending_steps r', ft_lastError r')))
     else before (write_meta i ACCEPT_FOLLOWTHROUGH_KEY []) (pass ([], None)))"

text \<open>\<open>clearMergeInFlight\<close>.\<close>

definition clearMergeInFlight :: "string \<Rightarrow> ('g, unit) act" where
  "clearMergeInFlight i =
     before (write_meta i ACCEPT_IN_FLIGHT_KEY [])
      (before (write_meta i ACCEPT_INTENT_KEY [])
        (before (write_meta i ACCEPT_RESUME_ATTEMPTS_KEY [])
                (write_meta i ACCEPT_RESUME_NEXT_AT_KEY [])))"

text \<open>\<open>given\<close> is the record the transition just wrote; a retry reads it from the task.\<close>

definition runAcceptFollowThrough :: "AcceptEnv \<Rightarrow> 'g FollowDriver \<Rightarrow> string \<Rightarrow> AcceptFollowThrough option \<Rightarrow>
    ('g, FollowThroughStep list \<times> string option) act" where
  "runAcceptFollowThrough env drv i given =
     looking (task_read i Some None) (\<lambda>task.
       case task of
         None \<Rightarrow> pass ([], None)
       | Some t \<Rightarrow>
           before (if t_status t = Complete \<and> accept_in_flight t then clearMergeInFlight i else pass ())
           (case (case given of Some r \<Rightarrow> Some r | None \<Rightarrow> readFollowThrough (ae_readFollow env) t) of
              None \<Rightarrow>
                before (if nonempty (omap_get (t_metadata t) ACCEPT_FOLLOWTHROUGH_KEY) \<noteq> None
                        then write_meta i ACCEPT_FOLLOWTHROUGH_KEY [] else pass ())
                  (pass ([], None))
            | Some r \<Rightarrow>
                and_then (at_git (fd_resolve drv (ft_targetBranch r))) (\<lambda>target.
                  and_then (run_steps env drv i target FOLLOWTHROUGH_STEPS r []) (settle_run env i))))"

section \<open>Retries\<close>

text \<open>One retry of Sweep 9b; \<open>free\<close> says whether the task's lifecycle lock could be taken.\<close>

definition retryFollowThrough :: "AcceptEnv \<Rightarrow> 'g FollowDriver \<Rightarrow> string \<Rightarrow> bool \<Rightarrow> ('g, unit) act" where
  "retryFollowThrough env drv i free =
     (if \<not> free then pass ()
      else on_throw
        (and_then (runAcceptFollowThrough env drv i None) (\<lambda>(pending, err).
           if pending = [] then pass ()
           else looking (task_read i (readFollowThrough (ae_readFollow env)) None) (\<lambda>after.
             case after of
               None \<Rightarrow> pass ()
             | Some r \<Rightarrow>
                 if ft_attempts r \<ge> FOLLOWTHROUGH_MESSAGE_AFTER_ATTEMPTS \<and> \<not> ft_messaged r
                 then before (file_message (FollowThroughFailing i (ft_attempts r) (ft_lastError r) pending))
                        (persist env i (r\<lparr>ft_messaged := True\<rparr>))
                 else pass ())))
        (\<lambda>e. pass ()))"

text \<open>What \<open>sweepAcceptFollowThrough\<close> does about one task; \<open>running\<close> says that a retry of it has not
  settled yet.\<close>

definition sweepAcceptFollowThrough :: "AcceptEnv \<Rightarrow> 'g FollowDriver \<Rightarrow> string \<Rightarrow> bool \<Rightarrow> bool \<Rightarrow> ('g, unit) act" where
  "sweepAcceptFollowThrough env drv i running free =
     looking (task_read i Some None) (\<lambda>task.
       case task of
         None \<Rightarrow> pass ()
       | Some t \<Rightarrow>
           if t_status t \<noteq> Complete \<or> nonempty (omap_get (t_metadata t) ACCEPT_FOLLOWTHROUGH_KEY) = None then pass ()
           else if (case readFollowThrough (ae_readFollow env) t of
                      Some r \<Rightarrow> (case ft_nextAttemptAt r of Some at \<Rightarrow> at > ae_now env | None \<Rightarrow> False)
                    | None \<Rightarrow> False) then pass ()
           else if running then pass ()
           else retryFollowThrough env drv i free)"

section \<open>What a run leaves alone\<close>

text \<open>\<open>s'\<close> differs from \<open>s\<close> in git and the stored follow-through record at most.\<close>

definition follows :: "'g Seen \<Rightarrow> 'g Seen \<Rightarrow> bool" where
  "follows s s' \<longleftrightarrow> sn_status s' = sn_status s \<and> sn_ended s' = sn_ended s \<and> sn_outcome s' = sn_outcome s \<and>
     sn_comments s' = sn_comments s \<and> sn_messages s' = sn_messages s \<and> sn_turns s' = sn_turns s \<and>
     (\<forall>k. k \<noteq> ACCEPT_FOLLOWTHROUGH_KEY \<longrightarrow> sn_meta s' k = sn_meta s k)"

text \<open>The same record with more done, and perhaps the forge's merge pinned.\<close>

definition extends :: "AcceptFollowThrough \<Rightarrow> AcceptFollowThrough \<Rightarrow> bool" where
  "extends r r' \<longleftrightarrow> r' = r\<lparr>ft_mergeSha := ft_mergeSha r', ft_done := ft_done r'\<rparr> \<and> set (ft_done r) \<subseteq> set (ft_done r')"

definition keeps :: "AcceptEnv \<Rightarrow> AcceptFollowThrough \<Rightarrow> 'g Seen \<Rightarrow> 'g Seen \<Rightarrow> bool" where
  "keeps env r s s' \<longleftrightarrow> follows s s' \<and>
     (sn_meta s' ACCEPT_FOLLOWTHROUGH_KEY = sn_meta s ACCEPT_FOLLOWTHROUGH_KEY \<or>
      (\<exists>r'. extends r r' \<and> sn_meta s' ACCEPT_FOLLOWTHROUGH_KEY = ae_showFollow env r'))"

lemma extends_refl [simp]: "extends r r"
  by (simp add: extends_def)

lemma extends_trans: "extends r r1 \<Longrightarrow> extends r1 r2 \<Longrightarrow> extends r r2"
proof -
  assume a: "extends r r1" "extends r1 r2"
  then have "r2 = (r\<lparr>ft_mergeSha := ft_mergeSha r1, ft_done := ft_done r1\<rparr>)\<lparr>ft_mergeSha := ft_mergeSha r2, ft_done := ft_done r2\<rparr>"
    unfolding extends_def by metis
  then have "r2 = r\<lparr>ft_mergeSha := ft_mergeSha r2, ft_done := ft_done r2\<rparr>" by simp
  then show "extends r r2" using a unfolding extends_def by blast
qed

lemma extends_done: "extends r (r\<lparr>ft_done := ft_done r @ steps\<rparr>)" and extends_sha: "extends r (r\<lparr>ft_mergeSha := sha\<rparr>)"
  by (simp_all add: extends_def)

lemma extends_more:
  "extends r r' \<Longrightarrow> extends r (r'\<lparr>ft_done := ft_done r' @ steps\<rparr>)"
  using extends_trans extends_done by blast

lemma keeps_refl: "keeps env r s s"
  by (simp add: keeps_def follows_def)

lemma keeps_same:
  "keeps env r s s' \<Longrightarrow> keeps env r s (s'\<lparr>sn_faults := fs\<rparr>)" "keeps env r s s' \<Longrightarrow> keeps env r s (s'\<lparr>sn_faults := fs, sn_git := g\<rparr>)"
  by (simp_all add: keeps_def follows_def)

lemma keeps_stored:
  "keeps env r s s' \<Longrightarrow> extends r r' \<Longrightarrow>
     keeps env r s (s'\<lparr>sn_faults := fs, sn_meta := (sn_meta s')(ACCEPT_FOLLOWTHROUGH_KEY := ae_showFollow env r')\<rparr>)"
  unfolding keeps_def follows_def by auto

lemma keeps_trans:
  assumes "keeps env r s s1" and "extends r r1" and "keeps env r1 s1 s2"
  shows "keeps env r s s2"
  using assms extends_trans unfolding keeps_def follows_def by metis

lemmas keeps_rules = keeps_refl keeps_same keeps_stored

lemma spec_persist:
  assumes "\<And>s'. keeps env r s s' \<Longrightarrow> Q () s'" and "\<And>e s'. keeps env r s s' \<Longrightarrow> E e s'"
  shows "spec i (persist env i r) Q E s"
  unfolding persist_def by (rule spec_write_meta) (auto intro!: assms keeps_rules)

text \<open>A step ends with its outcome, unless the process dies.\<close>

lemma plain_step_spec:
  assumes "spec i m (\<lambda>_. keeps env r s) (\<lambda>_. keeps env r s) s"
  shows "spec i (plain_step m r) (\<lambda>(failed, r1) s'. keeps env r s s' \<and> r1 = r) (\<lambda>e s'. e = Killed \<and> keeps env r s s') s"
proof -
  have "spec i (before m (pass (None, r))) (\<lambda>(failed, r1) s'. keeps env r s s' \<and> r1 = r) (\<lambda>_. keeps env r s) s"
    by (rule spec_before, rule spec_mono [OF assms]) (auto intro!: spec_pass)
  then show ?thesis
    unfolding plain_step_def by (rule spec_try) (auto intro!: spec_pass)
qed

lemma push_parent_spec: "spec i (push_parent drv target r) (\<lambda>_. keeps env r s) (\<lambda>_. keeps env r s) s"
  unfolding push_parent_def throw_step_def
  by (auto intro!: spec_rules keeps_rules split: failure.splits stop.splits simp del: fun_upd_apply)

lemma close_review_spec: "spec i (close_review drv r) (\<lambda>_. keeps env r s) (\<lambda>_. keeps env r s) s"
  unfolding close_review_def throw_step_def
  by (auto intro!: spec_rules spec_read_git [where f = "fd_prState drv"] keeps_rules)

lemma fast_forward_spec:
  "spec i (fast_forward env drv i target r)
     (\<lambda>(failed, r1) s'. keeps env r s s' \<and> extends r r1 \<and> ft_done r1 = ft_done r)
     (\<lambda>e s'. e = Killed \<and> keeps env r s s') s"
  (is "spec i _ ?Q ?E s")
proof (cases "ft_viaForge r")
  case False
  then show ?thesis by (auto simp: fast_forward_def intro!: spec_pass keeps_refl)
next
  case True
  have sha: "spec i (looking (\<lambda>w. fd_targetSha drv target (aw_git w)) (\<lambda>sha.
      let r' = r\<lparr>ft_mergeSha := sha\<rparr>
      in on_throw (before (persist env i r') (pass (None, r'))) (\<lambda>e. pass (Some e, r')))) ?Q ?E s1"
    if "keeps env r s s1" for s1
  proof (rule spec_read_git [where f = "fd_targetSha drv target"], unfold Let_def)
    let ?r = "r\<lparr>ft_mergeSha := fd_targetSha drv target (sn_git s1)\<rparr>"
    have ext: "extends r ?r" by (rule extends_sha)
    have "spec i (before (persist env i ?r) (pass (None, ?r))) ?Q (\<lambda>_. keeps env r s) s1"
      by (rule spec_before, rule spec_persist)
         (auto intro!: spec_pass keeps_trans [OF that ext] simp: ext)
    then show "spec i (on_throw (before (persist env i ?r) (pass (None, ?r))) (\<lambda>e. pass (Some e, ?r))) ?Q ?E s1"
      by (rule spec_try) (auto intro!: spec_pass simp: ext)
  qed
  have body: "spec i (and_then (at_git (fd_fastForward drv target)) (\<lambda>(success, warning).
      if \<not> success then throw_step drv (FastForwardFailed (nonempty warning))
      else if nonempty (ft_mergeSha r) \<noteq> None then pass (None, r)
      else looking (\<lambda>w. fd_targetSha drv target (aw_git w)) (\<lambda>sha.
        let r' = r\<lparr>ft_mergeSha := sha\<rparr>
        in on_throw (before (persist env i r') (pass (None, r'))) (\<lambda>e. pass (Some e, r'))))) ?Q (\<lambda>_. keeps env r s) s"
    by (rule spec_and_then, rule spec_at_git)
       (auto intro!: keeps_rules spec_pass spec_throw spec_mono [OF sha] simp: throw_step_def)
  show ?thesis
    unfolding fast_forward_def
    by (simp only: True not_True_eq_False if_False, rule spec_try, rule body) (auto intro!: spec_pass)
qed

lemma run_step_spec:
  "spec i (run_step env drv i target step r)
     (\<lambda>(failed, r1) s'. keeps env r s s' \<and> extends r r1 \<and> ft_done r1 = ft_done r)
     (\<lambda>e s'. e = Killed \<and> keeps env r s s') s"
proof -
  have plain: "spec i (plain_step m r)
     (\<lambda>(failed, r1) s'. keeps env r s s' \<and> extends r r1 \<and> ft_done r1 = ft_done r)
     (\<lambda>e s'. e = Killed \<and> keeps env r s s') s"
    if "spec i m (\<lambda>_. keeps env r s) (\<lambda>_. keeps env r s) s" for m
    by (rule spec_mono [OF plain_step_spec [OF that]]) auto
  have git: "spec i (at_git f) (\<lambda>_. keeps env r s) (\<lambda>_. keeps env r s) s" for f :: "'a \<Rightarrow> (string + unit) \<times> 'a"
    by (rule spec_at_git) (auto intro: keeps_rules)
  show ?thesis
    unfolding run_step_def
    by (cases step) (simp_all add: plain git push_parent_spec close_review_spec fast_forward_spec)
qed

section \<open>What a run achieves\<close>

text \<open>Of the steps in \<open>P\<close>, each is done, has failed in this run or waits for one that is not done; what
  failed is not done.\<close>

definition accounted :: "FollowThroughStep list \<Rightarrow> AcceptFollowThrough \<Rightarrow> (FollowThroughStep \<times> string) list \<Rightarrow> bool" where
  "accounted P r errors \<longleftrightarrow>
     (\<forall>s \<in> set P. s \<in> set (ft_done r) \<or> s \<in> fst ` set errors \<or>
        (\<exists>dep \<in> set (FOLLOWTHROUGH_DEPENDS_ON s). dep \<notin> set (ft_done r))) \<and>
     fst ` set errors \<subseteq> set P - set (ft_done r)"

text \<open>Whether a step can succeed at all.\<close>

definition can_succeed :: "AcceptEnv \<Rightarrow> 'g FollowDriver \<Rightarrow> string \<Rightarrow> FollowThroughStep \<Rightarrow> bool" where
  "can_succeed env drv i step \<longleftrightarrow>
     (\<exists>target r w r' w'. run_step env drv i target step r w = (Inr (None, r'), w'))"

definition earned :: "AcceptEnv \<Rightarrow> 'g FollowDriver \<Rightarrow> string \<Rightarrow> AcceptFollowThrough \<Rightarrow> AcceptFollowThrough \<Rightarrow> bool" where
  "earned env drv i r r' \<longleftrightarrow>
     (\<forall>step \<in> set (ft_done r') - set (ft_done r). FOLLOWTHROUGH_APPLIES step r \<longrightarrow> can_succeed env drv i step)"

lemma extends_applies: "extends r r' \<Longrightarrow> FOLLOWTHROUGH_APPLIES step r' = FOLLOWTHROUGH_APPLIES step r"
  unfolding extends_def FOLLOWTHROUGH_APPLIES_def
  by (metis AcceptFollowThrough.select_convs(2,4) AcceptFollowThrough.surjective AcceptFollowThrough.update_convs(6,7))

lemma earned_trans: "earned env drv i r r1 \<Longrightarrow> extends r r1 \<Longrightarrow> earned env drv i r1 r2 \<Longrightarrow> earned env drv i r r2"
  unfolding earned_def using extends_applies by blast

lemma earned_one:
  "ft_done r1 = ft_done r \<Longrightarrow> (FOLLOWTHROUGH_APPLIES step r \<Longrightarrow> can_succeed env drv i step) \<Longrightarrow>
     earned env drv i r (r1\<lparr>ft_done := ft_done r1 @ [step]\<rparr>)"
  by (auto simp: earned_def)

lemma depends_before:
  assumes "FOLLOWTHROUGH_STEPS = P @ step # rest"
  shows "set (FOLLOWTHROUGH_DEPENDS_ON step) \<subseteq> set P"
proof -
  have "distinct (P @ step # rest)"
    unfolding assms [symmetric] by (simp add: FOLLOWTHROUGH_STEPS_def)
  then have "step \<notin> set P" by simp
  then have "takeWhile (\<lambda>x. x \<noteq> step) P = P" by (auto simp: takeWhile_eq_all_conv)
  then have "P = takeWhile (\<lambda>x. x \<noteq> step) FOLLOWTHROUGH_STEPS" unfolding assms by (simp add: takeWhile_tail)
  then show ?thesis by (cases step) (simp_all add: FOLLOWTHROUGH_DEPENDS_ON_def FOLLOWTHROUGH_STEPS_def)
qed

lemma accounted_done:
  assumes acc: "accounted P r errors" and new: "step \<notin> set P"
    and free: "\<And>q. q \<in> set P \<Longrightarrow> step \<notin> set (FOLLOWTHROUGH_DEPENDS_ON q)"
  shows "accounted (P @ [step]) (r\<lparr>ft_done := ft_done r @ [step]\<rparr>) errors"
proof -
  have e: "fst ` set errors \<subseteq> set P - set (ft_done r)" using acc by (simp add: accounted_def)
  have "q \<in> set (ft_done r @ [step]) \<or> q \<in> fst ` set errors \<or>
      (\<exists>dep \<in> set (FOLLOWTHROUGH_DEPENDS_ON q). dep \<notin> set (ft_done r @ [step]))" if "q \<in> set (P @ [step])" for q
  proof (cases "q = step")
    case False
    then have q: "q \<in> set P" using that by simp
    consider "q \<in> set (ft_done r)" | "q \<in> fst ` set errors"
      | dep where "dep \<in> set (FOLLOWTHROUGH_DEPENDS_ON q)" "dep \<notin> set (ft_done r)"
      using acc q unfolding accounted_def by blast
    then show ?thesis
    proof cases
      case 3
      then have "dep \<noteq> step" using free [OF q] by blast
      then show ?thesis using 3 by auto
    qed auto
  qed simp
  moreover have "fst ` set errors \<subseteq> set (P @ [step]) - set (ft_done r @ [step])" using e new by auto
  ultimately show ?thesis by (simp add: accounted_def)
qed

lemma run_steps_spec:
  "FOLLOWTHROUGH_STEPS = P @ steps \<Longrightarrow> accounted P r errors \<Longrightarrow>
   spec i (run_steps env drv i target steps r errors)
     (\<lambda>(r', errors') s'. keeps env r s s' \<and> extends r r' \<and> earned env drv i r r' \<and> accounted FOLLOWTHROUGH_STEPS r' errors')
     (\<lambda>e s'. keeps env r s s') s"
proof (induction steps arbitrary: P r errors s)
  case Nil
  then show ?case by (auto intro!: spec_pass keeps_refl simp: earned_def)
next
  case (Cons step steps)
  let ?Q = "\<lambda>r s0 (r', errors') s'. keeps env r s0 s' \<and> extends r r' \<and> earned env drv i r r' \<and> accounted FOLLOWTHROUGH_STEPS r' errors'"
  have P: "FOLLOWTHROUGH_STEPS = (P @ [step]) @ steps" using Cons.prems(1) by simp
  have "distinct (P @ step # steps)"
    unfolding Cons.prems(1) [symmetric] by (simp add: FOLLOWTHROUGH_STEPS_def)
  then have new: "step \<notin> set P" by simp
  have before: "step \<notin> set (FOLLOWTHROUGH_DEPENDS_ON q)" if "q \<in> set P" for q
  proof -
    from that have "\<exists>P1 P2. P = P1 @ q # P2" by (rule split_list)
    then obtain P1 P2 where "P = P1 @ q # P2" by blast
    then have "set (FOLLOWTHROUGH_DEPENDS_ON q) \<subseteq> set P" using depends_before [of P1 q] Cons.prems(1) by auto
    then show ?thesis using new by blast
  qed
  have earned_same: "earned env drv i r r" by (simp add: earned_def)
  have go_on: "spec i (run_steps env drv i target steps r1 errors1) (?Q r s) (\<lambda>e s'. keeps env r s s') s1"
    if "keeps env r s s1" "extends r r1" "accounted (P @ [step]) r1 errors1" "earned env drv i r r1" for r1 errors1 s1
    using Cons.IH [OF P that(3)]
    by (rule spec_mono) (auto intro: keeps_trans [OF that(1,2)] extends_trans [OF that(2)] earned_trans [OF that(4,2)])
  have store_it: "spec i (before (persist env i (r1\<lparr>ft_done := ft_done r1 @ [step]\<rparr>))
        (run_steps env drv i target steps (r1\<lparr>ft_done := ft_done r1 @ [step]\<rparr>) errors)) (?Q r s) (\<lambda>e s'. keeps env r s s') s1"
    if "keeps env r s s1" "extends r r1" "ft_done r1 = ft_done r"
      "FOLLOWTHROUGH_APPLIES step r \<Longrightarrow> can_succeed env drv i step" for r1 s1
  proof -
    let ?r = "r1\<lparr>ft_done := ft_done r1 @ [step]\<rparr>"
    have ext: "extends r ?r" using extends_more [OF that(2)] .
    have "accounted P r1 errors" using Cons.prems(2) that(3) by (simp add: accounted_def)
    then have acc: "accounted (P @ [step]) ?r errors"
      using new before by (intro accounted_done) auto
    show ?thesis
      by (rule spec_before, rule spec_persist)
         (auto intro!: go_on [OF _ ext acc earned_one [OF that(3,4)]] intro: keeps_trans [OF that(1) ext])
  qed
  show ?case
  proof (cases "step \<in> set (ft_done r)")
    case True
    then have "accounted (P @ [step]) r errors"
      using Cons.prems(2) by (auto simp: accounted_def)
    then show ?thesis using True go_on [OF keeps_refl extends_refl _ earned_same] by simp
  next
    case todo: False
    show ?thesis
    proof (cases "FOLLOWTHROUGH_APPLIES step r")
      case False
      then show ?thesis using todo store_it [OF keeps_refl extends_refl refl] False by (simp add: Let_def)
    next
      case applies: True
      show ?thesis
      proof (cases "\<exists>dep \<in> set (FOLLOWTHROUGH_DEPENDS_ON step). dep \<notin> set (ft_done r)")
        case True
        then have "accounted (P @ [step]) r errors"
          using Cons.prems(2) by (auto simp: accounted_def)
        then show ?thesis using True todo applies go_on [OF keeps_refl extends_refl _ earned_same] by simp
      next
        case False
        have failed: "accounted (P @ [step]) r1 (errors @ [(step, msg)])" if "ft_done r1 = ft_done r" for r1 msg
          using Cons.prems(2) that todo by (auto simp: accounted_def)
        have earned_kept: "ft_done r1 = ft_done r \<Longrightarrow> earned env drv i r r1" for r1 by (simp add: earned_def)
        have "spec i (and_then (run_step env drv i target step r) (\<lambda>(failed, r1). case failed of
            Some e \<Rightarrow> run_steps env drv i target steps r1 (errors @ [(step, message_of env e)])
          | None \<Rightarrow> (let r' = r1\<lparr>ft_done := ft_done r1 @ [step]\<rparr>
                    in before (persist env i r') (run_steps env drv i target steps r' errors))))
            (?Q r s) (\<lambda>e s'. keeps env r s s') s"
        proof (rule spec_bind [OF spec_result [OF run_step_spec]])
          fix w :: "'a AcceptWorld" and x w'
          assume "run_step env drv i target step r w = (Inr x, w')"
          then show "fst x = None \<longrightarrow> can_succeed env drv i step"
            unfolding can_succeed_def by (metis prod.collapse)
        next
          fix x :: "failure option \<times> AcceptFollowThrough" and s1
          assume x: "(\<lambda>(failed, r1) s'. keeps env r s s' \<and> extends r r1 \<and> ft_done r1 = ft_done r) x s1 \<and>
            (fst x = None \<longrightarrow> can_succeed env drv i step)"
          obtain f r1 where fr: "x = (f, r1)" by (cases x)
          show "spec i (case x of (failed, r1) \<Rightarrow> (case failed of
              Some e \<Rightarrow> run_steps env drv i target steps r1 (errors @ [(step, message_of env e)])
            | None \<Rightarrow> (let r' = r1\<lparr>ft_done := ft_done r1 @ [step]\<rparr>
                      in before (persist env i r') (run_steps env drv i target steps r' errors))))
            (?Q r s) (\<lambda>e s'. keeps env r s s') s1"
            using x store_it [of s1 r1] go_on [of s1 r1] failed [of r1] earned_kept [of r1] unfolding fr
            by (cases f) (simp_all add: Let_def)
        qed simp
        then show ?thesis using False todo applies by simp
      qed
    qed
  qed
qed

text \<open>What an unsuccessful run leaves for the next one.\<close>

definition retried :: "AcceptEnv \<Rightarrow> AcceptFollowThrough \<Rightarrow> (FollowThroughStep \<times> string) list \<Rightarrow> AcceptFollowThrough" where
  "retried env r errors =
     r\<lparr>ft_attempts := ft_attempts r + 1, ft_lastError := Some (maskUrlCredentials (failure_text errors)),
       ft_nextAttemptAt := Some (ae_now env + followThroughBackoffMs (ft_attempts r + 1))\<rparr>"

lemma all_done:
  assumes "accounted FOLLOWTHROUGH_STEPS r []"
  shows "pending_steps r = []"
proof -
  have "\<forall>s \<in> set FOLLOWTHROUGH_STEPS. s \<in> set (ft_done r) \<or>
      (\<exists>dep \<in> set (FOLLOWTHROUGH_DEPENDS_ON s). dep \<notin> set (ft_done r))"
    using assms by (simp add: accounted_def)
  then show ?thesis
    by (auto simp: pending_steps_def FOLLOWTHROUGH_STEPS_def FOLLOWTHROUGH_DEPENDS_ON_def filter_empty_conv)
qed

lemma failed_pending:
  "accounted FOLLOWTHROUGH_STEPS r errors \<Longrightarrow> errors \<noteq> [] \<Longrightarrow> pending_steps r \<noteq> []"
  by (cases errors) (auto simp: accounted_def pending_steps_def filter_empty_conv)

text \<open>A status, a session, comments and messages as they were, a marker at most cleared.\<close>

definition settled :: "'g Seen \<Rightarrow> 'g Seen \<Rightarrow> bool" where
  "settled s s' \<longleftrightarrow> sn_status s' = sn_status s \<and> sn_ended s' = sn_ended s \<and> sn_outcome s' = sn_outcome s \<and>
     sn_comments s' = sn_comments s \<and> sn_messages s' = sn_messages s \<and> sn_turns s' = sn_turns s"

lemma follows_settled: "follows s s' \<Longrightarrow> settled s s'"
  by (simp add: follows_def settled_def)

lemma settled_trans: "settled s s1 \<Longrightarrow> settled s1 s2 \<Longrightarrow> settled s s2"
  by (simp add: settled_def)

lemma clearMergeInFlight_spec:
  assumes "\<And>s'. settled s s' \<Longrightarrow> sn_git s' = sn_git s \<Longrightarrow> (sn_faults s = [] \<longrightarrow> sn_faults s' = []) \<Longrightarrow>
      (\<forall>k. k \<notin> {ACCEPT_IN_FLIGHT_KEY, ACCEPT_INTENT_KEY, ACCEPT_RESUME_ATTEMPTS_KEY, ACCEPT_RESUME_NEXT_AT_KEY} \<longrightarrow>
          sn_meta s' k = sn_meta s k) \<Longrightarrow> sn_meta s' ACCEPT_IN_FLIGHT_KEY = [] \<Longrightarrow> sn_meta s' ACCEPT_INTENT_KEY = [] \<Longrightarrow>
      sn_meta s' ACCEPT_RESUME_ATTEMPTS_KEY = [] \<Longrightarrow> sn_meta s' ACCEPT_RESUME_NEXT_AT_KEY = [] \<Longrightarrow> Q () s'"
    and "\<And>e s'. sn_faults s \<noteq> [] \<Longrightarrow> settled s s' \<Longrightarrow> sn_git s' = sn_git s \<Longrightarrow>
      (\<forall>k. k \<notin> {ACCEPT_IN_FLIGHT_KEY, ACCEPT_INTENT_KEY, ACCEPT_RESUME_ATTEMPTS_KEY, ACCEPT_RESUME_NEXT_AT_KEY} \<longrightarrow>
          sn_meta s' k = sn_meta s k) \<Longrightarrow>
      (sn_meta s' ACCEPT_IN_FLIGHT_KEY = sn_meta s ACCEPT_IN_FLIGHT_KEY \<and> sn_meta s' ACCEPT_INTENT_KEY = sn_meta s ACCEPT_INTENT_KEY \<or>
       sn_meta s' ACCEPT_IN_FLIGHT_KEY = []) \<Longrightarrow> E e s'"
  shows "spec i (clearMergeInFlight i) Q E s"
proof -
  have keys: "distinct [ACCEPT_IN_FLIGHT_KEY, ACCEPT_INTENT_KEY, ACCEPT_RESUME_ATTEMPTS_KEY, ACCEPT_RESUME_NEXT_AT_KEY]"
    by code_simp
  show ?thesis
    unfolding clearMergeInFlight_def
    by (intro spec_before spec_write_meta; rule assms; use keys in \<open>auto simp: settled_def\<close>)
qed

lemma ft_key_other:
  "ACCEPT_FOLLOWTHROUGH_KEY \<notin> {ACCEPT_IN_FLIGHT_KEY, ACCEPT_INTENT_KEY, ACCEPT_RESUME_ATTEMPTS_KEY, ACCEPT_RESUME_NEXT_AT_KEY}"
  by code_simp

definition stored_ahead :: "AcceptEnv \<Rightarrow> AcceptFollowThrough \<Rightarrow> 'g Seen \<Rightarrow> 'g Seen \<Rightarrow> bool" where
  "stored_ahead env r s s' \<longleftrightarrow>
     sn_meta s' ACCEPT_FOLLOWTHROUGH_KEY = sn_meta s ACCEPT_FOLLOWTHROUGH_KEY \<or>
     (\<exists>r'. extends r r' \<and> sn_meta s' ACCEPT_FOLLOWTHROUGH_KEY = ae_showFollow env r')"

definition still_owed :: "AcceptEnv \<Rightarrow> 'g FollowDriver \<Rightarrow> string \<Rightarrow> AcceptFollowThrough \<Rightarrow> 'g Seen \<Rightarrow>
    FollowThroughStep list \<Rightarrow> string option \<Rightarrow> bool" where
  "still_owed env drv i r s' pending err \<longleftrightarrow>
     (\<exists>r' errors. extends r r' \<and> earned env drv i r r' \<and> accounted FOLLOWTHROUGH_STEPS r' errors \<and>
        pending = pending_steps r' \<and> err = Some (maskUrlCredentials (failure_text errors)) \<and>
        sn_meta s' ACCEPT_FOLLOWTHROUGH_KEY = ae_showFollow env (retried env r' errors))"

definition run_result :: "AcceptEnv \<Rightarrow> 'g FollowDriver \<Rightarrow> string \<Rightarrow> AcceptFollowThrough \<Rightarrow> 'g Seen \<Rightarrow>
    FollowThroughStep list \<times> string option \<Rightarrow> 'g Seen \<Rightarrow> bool" where
  "run_result env drv i r s = (\<lambda>(pending, err) s'. settled s s' \<and>
     (if pending = []
      then err = None \<and> sn_meta s' ACCEPT_FOLLOWTHROUGH_KEY = [] \<and>
        (\<forall>step. step \<in> set (ft_done r) \<or> \<not> FOLLOWTHROUGH_APPLIES step r \<or> can_succeed env drv i step)
      else still_owed env drv i r s' pending err))"

lemma ahead_same:
  "sn_meta s' ACCEPT_FOLLOWTHROUGH_KEY = sn_meta s ACCEPT_FOLLOWTHROUGH_KEY \<Longrightarrow> stored_ahead env r s s'"
  by (simp add: stored_ahead_def)

lemma settled_refl [simp]: "settled s s"
  by (simp add: settled_def)

lemma settle_run_spec:
  assumes k: "keeps env r s s1" and ext: "extends r r1" and e: "earned env drv i r r1"
    and acc: "accounted FOLLOWTHROUGH_STEPS r1 errors"
  shows "spec i (settle_run env i (r1, errors)) (run_result env drv i r s)
    (\<lambda>e s'. settled s s' \<and> stored_ahead env r s s') s1"
proof -
  have s1: "settled s s1" "stored_ahead env r s s1"
    using k by (auto simp: keeps_def stored_ahead_def intro: follows_settled)
  have same: "settled s (s1\<lparr>sn_faults := fs\<rparr>)" "stored_ahead env r s (s1\<lparr>sn_faults := fs\<rparr>)" for fs
    using s1 by (simp_all add: settled_def stored_ahead_def)
  have put: "settled s (s1\<lparr>sn_faults := fs, sn_meta := m\<rparr>)" for fs m using s1 by (simp add: settled_def)
  show ?thesis
  proof (cases "errors = []")
    case True
    then have none: "pending_steps r1 = []" using all_done acc by simp
    have "step \<in> set (ft_done r) \<or> \<not> FOLLOWTHROUGH_APPLIES step r \<or> can_succeed env drv i step" for step
    proof -
      have "step \<in> set FOLLOWTHROUGH_STEPS" by (cases step) (simp_all add: FOLLOWTHROUGH_STEPS_def)
      then have "step \<in> set (ft_done r1)" using none by (auto simp: pending_steps_def filter_empty_conv)
      then show ?thesis using e by (auto simp: earned_def)
    qed
    then show ?thesis
      using True by (auto simp: settle_run_def run_result_def intro!: spec_rules same put)
  next
    case False
    have "still_owed env drv i r (s1\<lparr>sn_faults := fs,
        sn_meta := (sn_meta s1)(ACCEPT_FOLLOWTHROUGH_KEY := ae_showFollow env (retried env r1 errors))\<rparr>)
        (pending_steps r1) (Some (maskUrlCredentials (failure_text errors)))" for fs
      unfolding still_owed_def using ext e acc by (intro exI [of _ r1] exI [of _ errors]) simp
    moreover have "pending_steps r1 \<noteq> []" using failed_pending acc False by blast
    moreover have "pending_steps (retried env r1 errors) = pending_steps r1" by (simp add: pending_steps_def retried_def)
    ultimately show ?thesis
      using False unfolding settle_run_def
      by (auto simp: Let_def run_result_def persist_def retried_def intro!: spec_rules same put)
  qed
qed

lemma run_follow_through_spec:
  assumes "given = Some r \<or> given = None \<and> parseJson (ae_readFollow env) (Some (sn_meta s ACCEPT_FOLLOWTHROUGH_KEY)) = Some r"
  shows "spec i (runAcceptFollowThrough env drv i given) (run_result env drv i r s)
    (\<lambda>e s'. settled s s' \<and> stored_ahead env r s s') s"
proof -
  have body: "spec i (and_then (at_git (fd_resolve drv (ft_targetBranch r))) (\<lambda>target.
      and_then (run_steps env drv i target FOLLOWTHROUGH_STEPS r []) (settle_run env i)))
      (run_result env drv i r s) (\<lambda>e s'. settled s s' \<and> stored_ahead env r s s') s1"
    if s1: "settled s s1" "sn_meta s1 ACCEPT_FOLLOWTHROUGH_KEY = sn_meta s ACCEPT_FOLLOWTHROUGH_KEY" for s1
  proof -
    have lift: "settled s s' \<and> stored_ahead env r s s'" if "keeps env r s1 s'" for s'
      using that s1 by (auto simp: keeps_def stored_ahead_def intro: settled_trans follows_settled)
    have result: "run_result env drv i r s x s'" if "run_result env drv i r s1 x s'" for x s'
      using that s1 by (auto simp: run_result_def intro: settled_trans split: prod.splits if_splits)
    have steps: "spec i (and_then (run_steps env drv i target FOLLOWTHROUGH_STEPS r []) (settle_run env i))
        (run_result env drv i r s) (\<lambda>e s'. settled s s' \<and> stored_ahead env r s s') s2"
      if k: "keeps env r s1 s2" for target s2
    proof (rule spec_bind [OF run_steps_spec [of "[]"]])
      fix x s3
      assume x: "(\<lambda>(r', errors') s'. keeps env r s2 s' \<and> extends r r' \<and> earned env drv i r r' \<and>
          accounted FOLLOWTHROUGH_STEPS r' errors') x s3"
      obtain r1 errors where x1: "x = (r1, errors)" by (cases x)
      have k3: "keeps env r s1 s3" using x keeps_trans [OF k extends_refl] by (simp add: x1)
      have "spec i (settle_run env i (r1, errors)) (run_result env drv i r s1)
          (\<lambda>e s'. settled s1 s' \<and> stored_ahead env r s1 s') s3"
        by (rule settle_run_spec [OF k3]) (use x in \<open>simp_all add: x1\<close>)
      then show "spec i (settle_run env i x) (run_result env drv i r s) (\<lambda>e s'. settled s s' \<and> stored_ahead env r s s') s3"
        unfolding x1 by (rule spec_mono) (use s1 in \<open>auto intro: result settled_trans simp: stored_ahead_def\<close>)
    qed (auto simp: accounted_def dest: lift [OF keeps_trans [OF k extends_refl]])
    show ?thesis
      by (rule spec_and_then, rule spec_at_git) (auto intro!: lift steps keeps_rules)
  qed
  show ?thesis
    unfolding runAcceptFollowThrough_def
  proof (rule spec_task_read)
    fix t
    assume t: "t_status t = sn_status s" "metadata_view t = sn_meta s"
    have r: "(case given of Some r \<Rightarrow> Some r | None \<Rightarrow> readFollowThrough (ae_readFollow env) t) = Some r"
      using assms t by (auto simp: follow_view split: option.splits)
    show "spec i (case Some t of None \<Rightarrow> pass ([], None) | Some t \<Rightarrow>
        before (if t_status t = Complete \<and> accept_in_flight t then clearMergeInFlight i else pass ())
          (case case given of Some r \<Rightarrow> Some r | None \<Rightarrow> readFollowThrough (ae_readFollow env) t of
            None \<Rightarrow> before (if nonempty (omap_get (t_metadata t) ACCEPT_FOLLOWTHROUGH_KEY) \<noteq> None
                then write_meta i ACCEPT_FOLLOWTHROUGH_KEY [] else pass ()) (pass ([], None))
          | Some r \<Rightarrow> and_then (at_git (fd_resolve drv (ft_targetBranch r))) (\<lambda>target.
              and_then (run_steps env drv i target FOLLOWTHROUGH_STEPS r []) (settle_run env i))))
        (run_result env drv i r s) (\<lambda>e s'. settled s s' \<and> stored_ahead env r s s') s"
      unfolding option.case r using ft_key_other
      by (auto intro!: spec_before clearMergeInFlight_spec spec_pass body intro: ahead_same)
  qed
qed

text \<open>C7: the follow-through of an accept, whatever fails and wherever the process dies: it never moves the
  task out of its status, ends its session or writes a comment. If it does not return, the stored record
  is the one it started from or one with more steps done, so no finished step is forgotten. If it
  returns with nothing pending the record is gone, and every step was done before, did not apply, or is
  one that can succeed. Otherwise the stored record counts one more attempt, names the failures it
  reports, and lists as pending exactly the steps not done: each of them failed in this run or waits for
  a pending step it depends on, so a failing step holds back nothing else.\<close>

theorem follow_through_settles:
  assumes "held i w"
    and "given = Some r \<or> given = None \<and> parseJson (ae_readFollow env) (Some (sn_meta (seen i w) ACCEPT_FOLLOWTHROUGH_KEY)) = Some r"
    and "runAcceptFollowThrough env drv i given w = (result, w')"
  shows "let s = seen i w; s' = seen i w' in
    sn_status s' = sn_status s \<and> sn_ended s' = sn_ended s \<and> sn_outcome s' = sn_outcome s \<and> sn_comments s' = sn_comments s \<and>
    (case result of
       Inl _ \<Rightarrow> sn_meta s' ACCEPT_FOLLOWTHROUGH_KEY = sn_meta s ACCEPT_FOLLOWTHROUGH_KEY \<or>
         (\<exists>r'. extends r r' \<and> sn_meta s' ACCEPT_FOLLOWTHROUGH_KEY = ae_showFollow env r')
     | Inr ([], err) \<Rightarrow> err = None \<and> sn_meta s' ACCEPT_FOLLOWTHROUGH_KEY = [] \<and>
         (\<forall>step. step \<in> set (ft_done r) \<or> \<not> FOLLOWTHROUGH_APPLIES step r \<or> can_succeed env drv i step)
     | Inr (pending, err) \<Rightarrow>
         \<exists>r' errors. extends r r' \<and> pending = filter (\<lambda>step. step \<notin> set (ft_done r')) FOLLOWTHROUGH_STEPS \<and>
           err = Some (maskUrlCredentials (failure_text errors)) \<and> fst ` set errors \<subseteq> set pending \<and>
           (\<forall>step \<in> set pending. step \<in> fst ` set errors \<or>
              (\<exists>dep \<in> set (FOLLOWTHROUGH_DEPENDS_ON step). dep \<notin> set (ft_done r'))) \<and>
           sn_meta s' ACCEPT_FOLLOWTHROUGH_KEY = ae_showFollow env (r'\<lparr>ft_attempts := ft_attempts r + 1, ft_lastError := err,
             ft_nextAttemptAt := Some (ae_now env + followThroughBackoffMs (ft_attempts r + 1))\<rparr>))"
proof -
  have run: "case result of Inr x \<Rightarrow> run_result env drv i r (seen i w) x (seen i w')
    | Inl e \<Rightarrow> settled (seen i w) (seen i w') \<and> stored_ahead env r (seen i w) (seen i w')"
    using spec_run [OF run_follow_through_spec [OF assms(2)] assms(1,3)] by (auto split: sum.splits)
  have owed: "\<exists>r' errors. extends r r' \<and> pending = filter (\<lambda>step. step \<notin> set (ft_done r')) FOLLOWTHROUGH_STEPS \<and>
      err = Some (maskUrlCredentials (failure_text errors)) \<and> fst ` set errors \<subseteq> set pending \<and>
      (\<forall>step \<in> set pending. step \<in> fst ` set errors \<or>
         (\<exists>dep \<in> set (FOLLOWTHROUGH_DEPENDS_ON step). dep \<notin> set (ft_done r'))) \<and>
      sn_meta (seen i w') ACCEPT_FOLLOWTHROUGH_KEY = ae_showFollow env (r'\<lparr>ft_attempts := ft_attempts r + 1, ft_lastError := err,
        ft_nextAttemptAt := Some (ae_now env + followThroughBackoffMs (ft_attempts r + 1))\<rparr>)"
    if "still_owed env drv i r (seen i w') pending err" for pending err
  proof -
    from that [unfolded still_owed_def] obtain r' errors where o: "extends r r'" "accounted FOLLOWTHROUGH_STEPS r' errors" "pending = pending_steps r'"
        "err = Some (maskUrlCredentials (failure_text errors))"
        "sn_meta (seen i w') ACCEPT_FOLLOWTHROUGH_KEY = ae_showFollow env (retried env r' errors)"
      by blast
    have "ft_attempts r' = ft_attempts r"
      using o(1) unfolding extends_def
      by (metis AcceptFollowThrough.select_convs(8) AcceptFollowThrough.surjective AcceptFollowThrough.update_convs(6,7))
    then show ?thesis
      using o(2) by (intro exI [of _ r'] exI [of _ errors])
        (auto simp: o(1,3-5) retried_def pending_steps_def accounted_def)
  qed
  show ?thesis
  proof (cases result)
    case (Inl e)
    then show ?thesis using run by (simp add: settled_def stored_ahead_def)
  next
    case (Inr x)
    obtain pending err where x: "x = (pending, err)" by (cases x)
    show ?thesis
    proof (cases pending)
      case Nil
      then show ?thesis using run unfolding Inr x by (simp add: run_result_def settled_def)
    next
      case (Cons step steps)
      then have "settled (seen i w) (seen i w')" "still_owed env drv i r (seen i w') pending err"
        using run unfolding Inr x by (simp_all add: run_result_def)
      then show ?thesis using owed [of pending err] unfolding Inr x Cons Let_def by (simp add: settled_def)
    qed
  qed
qed

section \<open>A run against a forge that answers\<close>

definition obliging :: "'g FollowDriver \<Rightarrow> bool" where
  "obliging drv \<longleftrightarrow> \<not> fd_offline drv \<and> fd_needsSync drv \<and>
     (\<forall>t g. \<exists>x. fst (fd_resolve drv t g) = Inr x) \<and>
     (\<forall>t g. \<exists>m. fst (fd_fastForward drv t g) = Inr (True, m)) \<and>
     (\<forall>t g. fst (fd_pushBranch drv t g) = Inr ()) \<and> (\<forall>t g. fst (fd_tag drv t g) = Inr ()) \<and>
     (\<forall>step g. fst (fd_other drv step g) = Inr ()) \<and>
     (\<forall>g. fst (fd_closeReview drv g) = Inr () \<and>
        fd_prState drv (snd (fd_closeReview drv g)) \<in> {Some PRClosed, Some PRMerged})"

lemma obligingD:
  assumes "obliging drv"
  shows "\<not> fd_offline drv" "fd_needsSync drv" "fd_resolve drv t g \<noteq> (Inl e, g')"
    "fd_fastForward drv t g \<noteq> (Inl e, g')" "fd_fastForward drv t g \<noteq> (Inr (False, m), g')"
    "fd_pushBranch drv t g \<noteq> (Inl e, g')" "fd_tag drv t g \<noteq> (Inl e, g')" "fd_other drv step g \<noteq> (Inl e, g')"
    "fd_closeReview drv g \<noteq> (Inl e, g')"
    "fd_closeReview drv g = (Inr u, g') \<Longrightarrow> fd_prState drv g' = Some PRClosed \<or> fd_prState drv g' = Some PRMerged"
proof -
  show "fd_resolve drv t g \<noteq> (Inl e, g')" using assms unfolding obliging_def by (metis fst_conv Inl_Inr_False)
  show "fd_fastForward drv t g \<noteq> (Inl e, g')" using assms unfolding obliging_def by (metis fst_conv Inl_Inr_False)
  show "fd_fastForward drv t g \<noteq> (Inr (False, m), g')"
    using assms unfolding obliging_def by (metis fst_conv prod.inject sum.inject(2))
  show "fd_closeReview drv g = (Inr u, g') \<Longrightarrow> fd_prState drv g' = Some PRClosed \<or> fd_prState drv g' = Some PRMerged"
    using assms unfolding obliging_def by (metis insert_iff singletonD snd_conv)
qed (use assms in \<open>unfold obliging_def; metis fst_conv Inl_Inr_False\<close>)+

abbreviation calm :: "'g Seen \<Rightarrow> bool" where
  "calm s \<equiv> sn_faults s = []"

lemma calm_step:
  assumes ob: "obliging drv" and "calm s"
  shows "spec i (run_step env drv i target step r) (\<lambda>(failed, r1) s'. failed = None \<and> calm s' \<and> ft_done r1 = ft_done r)
    (\<lambda>_ _. False) s"
  (is "spec i _ ?Q ?E s")
proof -
  have plain: "spec i (plain_step m r) ?Q ?E s" if "spec i m (\<lambda>_ s'. calm s') (\<lambda>_ _. False) s" for m
    unfolding plain_step_def
    by (rule spec_on_throw, rule spec_before, rule spec_mono [OF that]) (auto intro: spec_pass)
  have git: "spec i (at_git f) (\<lambda>_ s'. calm s') (\<lambda>_ _. False) s" if "\<And>e g. f (sn_git s) \<noteq> (Inl e, g)"
    for f :: "'a \<Rightarrow> (string + unit) \<times> 'a"
    by (rule spec_at_git) (use that assms(2) in auto)
  have push: "spec i (push_parent drv target r) (\<lambda>_ s'. calm s') (\<lambda>_ _. False) s"
    unfolding push_parent_def using assms(2)
    by (auto intro!: spec_rules simp: obligingD [OF ob])
  have close: "spec i (close_review drv r) (\<lambda>_ s'. calm s') (\<lambda>_ _. False) s"
    unfolding close_review_def using assms(2)
    by (auto intro!: spec_rules spec_read_git [where f = "fd_prState drv"] simp: obligingD [OF ob] dest!: obligingD(10) [OF ob])
  have ff: "spec i (fast_forward env drv i target r) ?Q ?E s"
    unfolding fast_forward_def persist_def using assms(2)
    by (auto intro!: spec_rules spec_read_git [where f = "fd_targetSha drv target"] simp: obligingD [OF ob] Let_def split: prod.splits)
  show ?thesis
    unfolding run_step_def
    by (cases step) (simp_all add: ff plain push close git obligingD [OF ob])
qed

lemma calm_persist: "calm s \<Longrightarrow> spec i (persist env i r) (\<lambda>_ s'. calm s') (\<lambda>_ _. False) s"
  unfolding persist_def by (rule spec_write_meta) auto

lemma calm_steps:
  assumes ob: "obliging drv"
  shows "calm s \<Longrightarrow> FOLLOWTHROUGH_STEPS = P @ steps \<Longrightarrow> set P \<subseteq> set (ft_done r) \<Longrightarrow>
    spec i (run_steps env drv i target steps r errors) (\<lambda>(r', errors') s'. errors' = errors \<and> calm s') (\<lambda>_ _. False) s"
proof (induction steps arbitrary: P r s)
  case Nil
  then show ?case by (auto intro!: spec_pass)
next
  case (Cons step steps)
  have P: "FOLLOWTHROUGH_STEPS = (P @ [step]) @ steps" using Cons.prems(2) by simp
  have deps: "\<not> (\<exists>dep \<in> set (FOLLOWTHROUGH_DEPENDS_ON step). dep \<notin> set (ft_done r))"
    using depends_before [OF Cons.prems(2)] Cons.prems(3) by blast
  have step_done: "spec i (before (persist env i (r1\<lparr>ft_done := ft_done r1 @ [step]\<rparr>))
        (run_steps env drv i target steps (r1\<lparr>ft_done := ft_done r1 @ [step]\<rparr>) errors))
      (\<lambda>(r', errors') s'. errors' = errors \<and> calm s') (\<lambda>_ _. False) s1"
    if "calm s1" "ft_done r1 = ft_done r" for r1 s1
  proof (rule spec_seq [OF calm_persist [OF that(1)]])
    fix s' :: "'a Seen"
    assume "calm s'"
    then show "spec i (run_steps env drv i target steps (r1\<lparr>ft_done := ft_done r1 @ [step]\<rparr>) errors)
        (\<lambda>(r', errors') s'. errors' = errors \<and> calm s') (\<lambda>_ _. False) s'"
      using Cons.prems(3) that(2) by (intro Cons.IH [OF _ P]) auto
  qed simp
  show ?case
  proof (cases "step \<in> set (ft_done r)")
    case True
    then show ?thesis using Cons.IH [OF Cons.prems(1) P, of r] Cons.prems(3) by simp
  next
    case todo: False
    show ?thesis
    proof (cases "FOLLOWTHROUGH_APPLIES step r")
      case False
      then show ?thesis using todo step_done [OF Cons.prems(1) refl] by (simp add: Let_def)
    next
      case True
      have "spec i (and_then (run_step env drv i target step r) (\<lambda>(failed, r1). case failed of
          Some e \<Rightarrow> run_steps env drv i target steps r1 (errors @ [(step, message_of env e)])
        | None \<Rightarrow> (let r' = r1\<lparr>ft_done := ft_done r1 @ [step]\<rparr>
                  in before (persist env i r') (run_steps env drv i target steps r' errors))))
          (\<lambda>(r', errors') s'. errors' = errors \<and> calm s') (\<lambda>_ _. False) s"
      proof (rule spec_bind [OF calm_step [OF ob Cons.prems(1)]])
        fix x :: "failure option \<times> AcceptFollowThrough" and s1 :: "'a Seen"
        assume "(\<lambda>(failed, r1) s'. failed = None \<and> calm s' \<and> ft_done r1 = ft_done r) x s1"
        then show "spec i (case x of (failed, r1) \<Rightarrow> (case failed of
            Some e \<Rightarrow> run_steps env drv i target steps r1 (errors @ [(step, message_of env e)])
          | None \<Rightarrow> (let r' = r1\<lparr>ft_done := ft_done r1 @ [step]\<rparr>
                    in before (persist env i r') (run_steps env drv i target steps r' errors))))
            (\<lambda>(r', errors') s'. errors' = errors \<and> calm s') (\<lambda>_ _. False) s1"
          using step_done [of s1 "snd x"] by (cases x) (simp add: Let_def)
      qed
      then show ?thesis using todo True deps by simp
    qed
  qed
qed

lemma calm_clear:
  "calm s \<Longrightarrow> spec i (clearMergeInFlight i) (\<lambda>_ s'. calm s') (\<lambda>_ _. False) s"
  by (rule clearMergeInFlight_spec) auto

lemma calm_run:
  assumes ob: "obliging drv" and "calm s"
    and r: "given = Some r \<or> given = None \<and> parseJson (ae_readFollow env) (Some (sn_meta s ACCEPT_FOLLOWTHROUGH_KEY)) = Some r"
  shows "spec i (runAcceptFollowThrough env drv i given) (\<lambda>x s'. x = ([], None)) (\<lambda>_ _. False) s"
proof -
  have body: "spec i (and_then (at_git (fd_resolve drv (ft_targetBranch r))) (\<lambda>target.
      and_then (run_steps env drv i target FOLLOWTHROUGH_STEPS r []) (settle_run env i)))
      (\<lambda>x s'. x = ([], None)) (\<lambda>_ _. False) s1" if c: "calm s1" for s1
  proof (rule spec_bind [of _ _ "\<lambda>_ s'. calm s'" "\<lambda>_ _. False"])
    show "spec i (at_git (fd_resolve drv (ft_targetBranch r))) (\<lambda>_ s'. calm s') (\<lambda>_ _. False) s1"
      by (rule spec_at_git) (use c obligingD(3) [OF ob] in auto)
  next
    fix target and s2 :: "'a Seen"
    assume c: "calm s2"
    show "spec i (and_then (run_steps env drv i target FOLLOWTHROUGH_STEPS r []) (settle_run env i))
        (\<lambda>x s'. x = ([], None)) (\<lambda>_ _. False) s2"
      by (rule spec_bind [OF calm_steps [OF ob c, of "[]"]])
         (auto simp: settle_run_def intro!: spec_rules)
  qed
  show ?thesis
    unfolding runAcceptFollowThrough_def
  proof (rule spec_task_read)
    fix t
    assume t: "t_status t = sn_status s" "metadata_view t = sn_meta s"
    have r: "(case given of Some r \<Rightarrow> Some r | None \<Rightarrow> readFollowThrough (ae_readFollow env) t) = Some r"
      using r t by (auto simp: follow_view split: option.splits)
    show "spec i (case Some t of None \<Rightarrow> pass ([], None) | Some t \<Rightarrow>
        before (if t_status t = Complete \<and> accept_in_flight t then clearMergeInFlight i else pass ())
          (case case given of Some r \<Rightarrow> Some r | None \<Rightarrow> readFollowThrough (ae_readFollow env) t of
            None \<Rightarrow> before (if nonempty (omap_get (t_metadata t) ACCEPT_FOLLOWTHROUGH_KEY) \<noteq> None
                then write_meta i ACCEPT_FOLLOWTHROUGH_KEY [] else pass ()) (pass ([], None))
          | Some r \<Rightarrow> and_then (at_git (fd_resolve drv (ft_targetBranch r))) (\<lambda>target.
              and_then (run_steps env drv i target FOLLOWTHROUGH_STEPS r []) (settle_run env i))))
        (\<lambda>x s'. x = ([], None)) (\<lambda>_ _. False) s"
      unfolding option.case r
      by (rule spec_seq [of _ _ "\<lambda>_ s'. calm s'" "\<lambda>_ _. False"])
         (use assms(2) body in \<open>auto intro!: calm_clear spec_pass\<close>)
  qed
qed

text \<open>C39: once git, the forge and the store answer, one retry finishes whatever the failed attempts before it
  left: every step is done, nothing is pending and the record is gone from the task.\<close>

theorem follow_through_completes:
  assumes "held i w" and "aw_faults w = []" and "obliging drv"
    and "parseJson (ae_readFollow env) (Some (sn_meta (seen i w) ACCEPT_FOLLOWTHROUGH_KEY)) = Some r"
  shows "\<exists>w'. runAcceptFollowThrough env drv i None w = (Inr ([], None), w') \<and>
    sn_meta (seen i w') ACCEPT_FOLLOWTHROUGH_KEY = [] \<and> sn_status (seen i w') = sn_status (seen i w)"
proof -
  obtain res w' where run: "runAcceptFollowThrough env drv i None w = (res, w')" by force
  have c: "calm (seen i w)" using assms(2) by (simp add: seen_simps)
  have "res = Inr ([], None)"
    using spec_run [OF calm_run [OF assms(3) c disjI2 [OF conjI [OF refl assms(4)]]] assms(1) run] by (auto split: sum.splits)
  moreover have "run_result env drv i r (seen i w) ([], None) (seen i w')"
    using spec_run [OF run_follow_through_spec [OF disjI2 [OF conjI [OF refl assms(4)]]] assms(1) run] calculation
    by simp
  ultimately show ?thesis using run by (auto simp: run_result_def settled_def)
qed

section \<open>Concrete runs\<close>

definition forge_down :: "bool FollowDriver" where
  "forge_down = \<lparr>fd_offline = False, fd_needsSync = True, fd_mirrors = False, fd_resolve = (\<lambda>t g. (Inr t, g)),
     fd_fastForward = (\<lambda>t g. (Inr (True, None), g)), fd_targetSha = (\<lambda>t g. Some ''sha''),
     fd_pushBranch = (\<lambda>t g. (Inl ''no route'', g)), fd_hasBranch = True, fd_prState = (\<lambda>g. Some PRClosed),
     fd_closeReview = (\<lambda>g. (Inr (), g)), fd_tag = (\<lambda>t g. (Inr (), g)), fd_other = (\<lambda>step g. (Inr (), g)),
     fd_errorText = (\<lambda>e. ''push'')\<rparr>"

definition forge_up :: "bool FollowDriver" where
  "forge_up = forge_down\<lparr>fd_pushBranch := (\<lambda>t g. (Inr (), g))\<rparr>"

definition accepted_world :: "bool AcceptWorld" where
  "accepted_world = world_at [Merging, Complete] [(ACCEPT_FOLLOWTHROUGH_KEY, '':'')] True []"

lemma follow_through_settles_witness:
  "let run = runAcceptFollowThrough sample_env forge_down sample_id (Some sample_owed) accepted_world
   in sn_status (seen sample_id (snd run)) = Complete \<and> fst run = Inr ([PushParent], Some ''push-parent: push'')"
proof -
  let ?run = "runAcceptFollowThrough sample_env forge_down sample_id (Some sample_owed) accepted_world"
  have h: "held sample_id accepted_world" by code_simp
  have "sn_status (seen sample_id (snd ?run)) = sn_status (seen sample_id accepted_world)"
    using follow_through_settles [OF h disjI1 [OF refl] prod.collapse [symmetric], of sample_env forge_down sample_owed]
    by (simp add: Let_def)
  moreover have "sn_status (seen sample_id accepted_world) = Complete" by code_simp
  moreover have "fst ?run = Inr ([PushParent], Some ''push-parent: push'')" by code_simp
  ultimately show ?thesis by (simp add: Let_def)
qed

lemma follow_through_completes_witness:
  "\<exists>w'. runAcceptFollowThrough sample_env forge_up sample_id None accepted_world = (Inr ([], None), w') \<and>
     sn_meta (seen sample_id w') ACCEPT_FOLLOWTHROUGH_KEY = [] \<and> sn_status (seen sample_id w') = Complete"
proof -
  have h: "held sample_id accepted_world" and f: "aw_faults accepted_world = []"
    and c: "sn_status (seen sample_id accepted_world) = Complete"
    by code_simp+
  have o: "obliging forge_up" by (simp add: obliging_def forge_up_def forge_down_def)
  have "sn_meta (seen sample_id accepted_world) ACCEPT_FOLLOWTHROUGH_KEY = '':''" by code_simp
  then have r: "parseJson (ae_readFollow sample_env) (Some (sn_meta (seen sample_id accepted_world) ACCEPT_FOLLOWTHROUGH_KEY)) =
      Some (sample_owed\<lparr>ft_done := filter (\<lambda>step. step_letter step \<in> set '':'') FOLLOWTHROUGH_STEPS\<rparr>)"
    by (simp add: parseJson_def nonempty_def sample_env_def)
  show ?thesis using follow_through_completes [OF h f o r] unfolding c .
qed

end
