(* ===== verification/AcceptCommit.thy ===== *)
theory AcceptCommit
  imports FollowThrough AutoReact
begin

text \<open>
  The accept itself, from the start of its merge phase to the task being \<open>complete\<close>
  (\<open>src/src/daemon/task-lifecycle.ts\<close>: \<open>beginMergePhase\<close>, \<open>abortMergePhase\<close>, \<open>commitAcceptTransition\<close>,
  \<open>finishLandedAccept\<close>, \<open>finishInterruptedTransition\<close>, \<open>acceptWorkLanded\<close> and the parts of \<open>acceptTaskRun\<close> that write).

  An \<open>AcceptDriver\<close> holds what the accept asks of git, the forge and the runner. The checks and
  preparations that do not change the status of the task are its \<open>ad_prepare\<close>: the guards on the worktree,
  the policy gates, and the pushes, review and approval before the merge. They may change git, write
  comments and driver metadata, and refuse. The reason arrives composed.
\<close>

section \<open>The driver\<close>

datatype MergeStatus = MergeDone | MergePending | MergeFailed

record MergeResult =
  mr_status :: MergeStatus
  mr_metadata :: "(string \<times> string) list"
  mr_isConflict :: bool
  mr_error :: string

datatype ChecksStatus = ChecksPassed | ChecksPending | ChecksFailed string

datatype LandedWhere = LandedLocal | LandedRemote

text \<open>What the container of the acceptance gate ends with: a verdict, or an abort that says why.\<close>

record AcceptGateResult =
  gr_passed :: bool
  gr_failed_command :: "string option"
  gr_exit_code :: "int option"
  gr_output :: "string option"

datatype GateOutcome = GateVerdict AcceptGateResult | GateAborted string

text \<open>What a stretch of checks and preparations leaves behind: comments, driver metadata and perhaps a refusal.\<close>

record Prepared =
  pp_comments :: "(string \<times> ActorInput) list"
  pp_metadata :: "(string \<times> string) list"
  pp_refusal :: "refusal option"

datatype AcceptStage = WorktreeStage | PolicyStage | PublishStage

datatype AcceptKind = FreshAccept | DeadAccept | ForgeAccept

record 'g AcceptDriver =
  ad_follow :: "'g FollowDriver"
  ad_isProtected :: bool
  ad_prepare :: "AcceptStage \<Rightarrow> AcceptKind \<Rightarrow> 'g \<Rightarrow> (string + Prepared) \<times> 'g"
  ad_acceptCheck :: bool
  ad_preAccept :: bool
  ad_gateSetup :: "'g \<Rightarrow> (string + unit) \<times> 'g"
  ad_gateRun :: "'g \<Rightarrow> (string + GateOutcome) \<times> 'g"
  ad_pushTarget :: "'g \<Rightarrow> (string + unit) \<times> 'g"
  ad_describe :: "'g \<Rightarrow> (string + unit) \<times> 'g"
  ad_merge :: "bool \<Rightarrow> 'g \<Rightarrow> (string + MergeResult) \<times> 'g"
  ad_remoteMerge :: "'g \<Rightarrow> (string + MergeResult) \<times> 'g"
  ad_checks :: "'g \<Rightarrow> ChecksStatus"
  ad_wrongBase :: "'g \<Rightarrow> string + refusal option"
  ad_pushesMirror :: "'g \<Rightarrow> bool"
  ad_closeReviewOwed :: "bool \<Rightarrow> bool"
  ad_followTarget :: string
  ad_acceptTarget :: string
  ad_branchPrefix :: string
  ad_targetProtected :: "string \<Rightarrow> 'g \<Rightarrow> string + bool"
  ad_targetSha :: "'g \<Rightarrow> string option"
  ad_outstanding :: "'g \<Rightarrow> (FileViolation list \<times> bool) option"
  ad_remoteConfigured :: bool
  ad_remoteName :: string
  ad_exists :: "string \<Rightarrow> 'g \<Rightarrow> string + bool"
  ad_netEmpty :: "string \<Rightarrow> string \<Rightarrow> 'g \<Rightarrow> string + bool"
  ad_alreadyIn :: "string \<Rightarrow> string \<Rightarrow> 'g \<Rightarrow> string + bool"
  ad_fetch :: "string \<Rightarrow> 'g \<Rightarrow> (string + bool) \<times> 'g"

record AcceptParams =
  ap_reason :: string
  ap_actor :: ActorInput
  ap_approvedFiles :: "string list"
  ap_acceptDirtyWorktree :: bool
  ap_allowBroken :: bool
  ap_allowReviewIssues :: bool
  ap_recordedAt :: string

text \<open>A read of git that may throw.\<close>

definition asks :: "('g \<Rightarrow> string + 'b) \<Rightarrow> ('b \<Rightarrow> ('g, 'a) act) \<Rightarrow> ('g, 'a) act" where
  "asks f k = looking (\<lambda>w. f (aw_git w)) (\<lambda>r. case r of Inl e \<Rightarrow> throw (GitFailed e) | Inr x \<Rightarrow> k x)"

fun write_metas :: "string \<Rightarrow> (string \<times> string) list \<Rightarrow> ('g, unit) act" where
  "write_metas i [] = pass ()"
| "write_metas i ((k, v) # kvs) = before (write_meta i k v) (write_metas i kvs)"

fun add_comments :: "AcceptEnv \<Rightarrow> string \<Rightarrow> (string \<times> ActorInput) list \<Rightarrow> ('g, unit) act" where
  "add_comments env i [] = pass ()"
| "add_comments env i ((content, actor) # cs) = before (add_comment env i content actor) (add_comments env i cs)"

text \<open>\<open>mergeLandsLocally\<close> (\<open>src/src/remote/upstream-ref.ts\<close>) and the routing of a merge: through the
  forge exactly when the driver has one and the target is protected.\<close>

definition mergeLandsLocally :: "bool \<Rightarrow> bool \<Rightarrow> bool" where
  "mergeLandsLocally needsSync targetIsProtected \<longleftrightarrow> \<not> needsSync \<or> \<not> targetIsProtected"

definition useLocalMerge :: "'g AcceptDriver \<Rightarrow> bool" where
  "useLocalMerge drv \<longleftrightarrow> fd_needsSync (ad_follow drv) \<and> mergeLandsLocally (fd_needsSync (ad_follow drv)) (ad_isProtected drv)"

definition mergeNeedsSync :: "'g AcceptDriver \<Rightarrow> bool" where
  "mergeNeedsSync drv \<longleftrightarrow> fd_needsSync (ad_follow drv) \<and> \<not> useLocalMerge drv"

section \<open>The merge phase begins and is abandoned\<close>

text \<open>A prior status read back from the marker is a text; \<open>updateTaskStatus\<close> refuses one that names no status.\<close>

definition status_of_text :: "string \<Rightarrow> TaskStatus option" where
  "status_of_text s = find (\<lambda>st. status_text st = s) all_statuses"

definition write_prior :: "AcceptEnv \<Rightarrow> string \<Rightarrow> string \<Rightarrow> ActorInput option \<Rightarrow> ('g, unit) act" where
  "write_prior env i prior actor =
     (case status_of_text prior of
        Some s \<Rightarrow> write_status env i s actor
      | None \<Rightarrow> throw (StoreThrew (TaskNotFound prior)))"

definition beginMergePhase :: "AcceptEnv \<Rightarrow> string \<Rightarrow> string \<Rightarrow> ActorInput \<Rightarrow> AcceptIntent \<Rightarrow> bool \<Rightarrow> ('g, unit) act" where
  "beginMergePhase env i prior actor intent fresh =
     before (if fresh then before (write_meta i ACCEPT_RESUME_ATTEMPTS_KEY []) (write_meta i ACCEPT_RESUME_NEXT_AT_KEY [])
             else pass ())
      (before (write_meta i ACCEPT_INTENT_KEY (ae_showIntent env intent))
        (before (write_meta i ACCEPT_IN_FLIGHT_KEY prior)
          (looking (task_read i t_status Blocked) (\<lambda>live.
             if live = Complete \<or> live = Merging then pass () else write_status env i Merging (Some actor)))))"

definition abortMergePhase :: "AcceptEnv \<Rightarrow> string \<Rightarrow> string \<Rightarrow> ActorInput \<Rightarrow> ('g, unit) act" where
  "abortMergePhase env i prior actor =
     on_throw (before (write_prior env i prior (Some actor)) (clearMergeInFlight i)) (\<lambda>e. pass ())"

section \<open>The commit point\<close>

definition ACCEPTED_COMMENT_PREFIX :: string where
  "ACCEPTED_COMMENT_PREFIX = ''[Accepted] ''"

definition PENDING_REVIEW_METADATA_KEY :: string where
  "PENDING_REVIEW_METADATA_KEY = ''pending_accept_review''"

definition CLUSTER_FIX_ROUND_KEY :: string where
  "CLUSTER_FIX_ROUND_KEY = ''loop_fix_round''"

definition clearPendingAcceptReview :: "string \<Rightarrow> ('g, unit) act" where
  "clearPendingAcceptReview i = write_meta i PENDING_REVIEW_METADATA_KEY []"

definition swallow :: "('g, unit) act \<Rightarrow> ('g, unit) act" where
  "swallow m = on_throw m (\<lambda>e. pass ())"

definition resetRoundBudgetsOnAccept :: "string \<Rightarrow> ('g, unit) act" where
  "resetRoundBudgetsOnAccept i =
     before (swallow (write_meta i FINAL_REVIEW_ROUND_KEY [])) (swallow (write_meta i CLUSTER_FIX_ROUND_KEY []))"

record Transition =
  tr_reason :: string
  tr_actor :: ActorInput
  tr_commentActor :: ActorInput
  tr_writeComment :: bool
  tr_dedupeComment :: bool
  tr_followThrough :: AcceptFollowThrough

text \<open>The follow-through record with the person who pays for it.\<close>

definition with_payer :: "Transition \<Rightarrow> AcceptFollowThrough" where
  "with_payer tr =
     (let r = tr_followThrough tr;
          payer = (case ft_payerEmail r of Some p \<Rightarrow> Some p | None \<Rightarrow> actorEmail (Some (tr_actor tr)))
      in if nonempty payer \<noteq> None then r\<lparr>ft_payerEmail := payer\<rparr> else r)"

definition accepted_comment :: "string \<Rightarrow> string" where
  "accepted_comment reason = ACCEPTED_COMMENT_PREFIX @ reason"

definition write_accepted :: "AcceptEnv \<Rightarrow> string \<Rightarrow> Transition \<Rightarrow> ('g, unit) act" where
  "write_accepted env i tr =
     (if \<not> tr_writeComment tr then pass ()
      else looking (\<lambda>w. getTaskComments w i) (\<lambda>comments.
        if tr_dedupeComment tr \<and> accepted_comment (tr_reason tr) \<in> cm_content ` set comments then pass ()
        else add_comment env i (accepted_comment (tr_reason tr)) (tr_commentActor tr)))"

definition commitAcceptTransition :: "AcceptEnv \<Rightarrow> string \<Rightarrow> Transition \<Rightarrow> ('g, unit) act" where
  "commitAcceptTransition env i tr =
     before (write_meta i ACCEPT_FOLLOWTHROUGH_KEY (ae_showFollow env (with_payer tr)))
      (before (write_accepted env i tr)
        (before (end_open_session env i Accepted)
          (before
            (looking (task_read i t_status Blocked) (\<lambda>live.
               if live = Complete then pass ()
               else before (if live \<noteq> Merging then write_status env i Merging (Some (tr_actor tr)) else pass ())
                           (write_status env i Complete (Some (tr_actor tr)))))
            (before (swallow (clearMergeInFlight i))
              (before (swallow (clearPendingAcceptReview i))
                      (swallow (resetRoundBudgetsOnAccept i)))))))"

text \<open>The transition, then the follow-through. Nothing the follow-through throws comes out.\<close>

definition finishLandedAccept :: "AcceptEnv \<Rightarrow> 'g AcceptDriver \<Rightarrow> string \<Rightarrow> Transition \<Rightarrow>
    ('g, FollowThroughStep list \<times> string option) act" where
  "finishLandedAccept env drv i tr =
     before (commitAcceptTransition env i tr)
      (on_throw (runAcceptFollowThrough env (ad_follow drv) i (Some (with_payer tr)))
        (\<lambda>e. pass (pending_steps (tr_followThrough tr), Some (''follow-through: '' @ message_of env e))))"

end
