(* ===== verification/AcceptRun.thy ===== *)
theory AcceptRun
  imports AcceptCommit
begin

text \<open>
  One run of an accept (\<open>acceptTaskRun\<close> in \<open>src/src/daemon/task-lifecycle.ts\<close>): finishing an accept that died
  after its merge, the guards on the session and the status, the acceptance gate, the re-entry of a merge
  the forge owns, and the merge phase.
\<close>

section \<open>Whether the work has landed\<close>

definition isIntermediateBranch :: "string \<Rightarrow> string \<Rightarrow> bool" where
  "isIntermediateBranch prefix branch \<longleftrightarrow> starts_with branch (prefix @ ''/'') \<or> starts_with branch ''lazy/''"

definition only_if :: "bool \<Rightarrow> ('g \<Rightarrow> string + bool) \<Rightarrow> 'g \<Rightarrow> string + bool" where
  "only_if c f g = (if c then f g else Inr False)"

definition remote_ref :: "'g AcceptDriver \<Rightarrow> string \<Rightarrow> string" where
  "remote_ref drv target = ad_remoteName drv @ ''/'' @ target"

definition landed_on_remote :: "'g AcceptDriver \<Rightarrow> string \<Rightarrow> string \<Rightarrow> ('g, (LandedWhere \<times> string) option) act" where
  "landed_on_remote drv branch target =
     (if \<not> ad_remoteConfigured drv then pass None
      else and_then (at_git (ad_fetch drv target)) (\<lambda>fetched.
        asks (ad_exists drv (remote_ref drv target)) (\<lambda>there.
          asks (only_if there (ad_alreadyIn drv branch (remote_ref drv target))) (\<lambda>landed.
            pass (if landed then Some (LandedRemote, target) else None)))))"

definition acceptWorkLanded :: "'g AcceptDriver \<Rightarrow> string \<Rightarrow> ('g, (LandedWhere \<times> string) option) act" where
  "acceptWorkLanded drv i =
     on_throw
       (looking (\<lambda>w. getSessionByTaskId (aw_store w) i) (\<lambda>sess.
          let branch = (case sess of None \<Rightarrow> [] | Some s \<Rightarrow> s_git_branch s)
          in if branch = [] then pass None
             else asks (ad_exists drv branch) (\<lambda>exists.
               if \<not> exists then pass None
               else and_then (at_git (fd_resolve (ad_follow drv) (ad_acceptTarget drv))) (\<lambda>target.
                 asks (ad_exists drv target) (\<lambda>here.
                   asks (only_if here (ad_netEmpty drv branch target)) (\<lambda>empty.
                     if empty then pass None
                     else asks (only_if here (ad_alreadyIn drv branch target)) (\<lambda>landed.
                       if landed then pass (Some (LandedLocal, target))
                       else landed_on_remote drv branch target)))))))
       (\<lambda>e. pass None)"

section \<open>An accept that died after its merge\<close>

definition REASON_NOT_RECORDED :: string where
  "REASON_NOT_RECORDED =
     ''Accept finished by the daemon after the accepting process died (original reason was not recorded).''"

definition finishInterruptedTransition :: "AcceptEnv \<Rightarrow> 'g AcceptDriver \<Rightarrow> string \<Rightarrow> ActorInput \<Rightarrow> AcceptFollowThrough option \<Rightarrow>
    ('g, FollowThroughStep list \<times> string option) act" where
  "finishInterruptedTransition env drv i acceptActor landedRecord =
     looking (task_read i Some None) (\<lambda>task.
       let intent = (case task of None \<Rightarrow> None | Some t \<Rightarrow> readAcceptIntent (ae_readIntent env) t);
           stored = (case task of None \<Rightarrow> None | Some t \<Rightarrow> readFollowThrough (ae_readFollow env) t);
           record = (case landedRecord of
                       Some r \<Rightarrow> r
                     | None \<Rightarrow> (case stored of Some r \<Rightarrow> r | None \<Rightarrow> owed (ad_acceptTarget drv) False False False None))
       in finishLandedAccept env drv i
            \<lparr>tr_reason = (case intent of Some n \<Rightarrow> ai_reason n | None \<Rightarrow> REASON_NOT_RECORDED),
             tr_actor = acceptActor,
             tr_commentActor = (case intent of Some n \<Rightarrow> ai_actor n | None \<Rightarrow> acceptActor),
             tr_writeComment = True, tr_dedupeComment = True, tr_followThrough = record\<rparr>)"

definition landed_pushes_parent :: "'g AcceptDriver \<Rightarrow> LandedWhere \<Rightarrow> string \<Rightarrow> 'g \<Rightarrow> bool" where
  "landed_pushes_parent drv place target g =
     (if place \<noteq> LandedLocal \<or> fd_offline (ad_follow drv) then False
      else if \<not> fd_needsSync (ad_follow drv) then ad_pushesMirror drv g
      else isIntermediateBranch (ad_branchPrefix drv) target \<or> ad_targetProtected drv target g = Inr False)"

text \<open>Step 0: \<open>None\<close> when there is nothing to finish and the accept goes on.\<close>

definition finish_dead_accept :: "AcceptEnv \<Rightarrow> 'g AcceptDriver \<Rightarrow> string \<Rightarrow> ActorInput \<Rightarrow>
    ('g, (FollowThroughStep list \<times> string option) option) act" where
  "finish_dead_accept env drv i actor =
     looking (task_read i (\<lambda>t. t_status t = Merging \<and> accept_in_flight t) False) (\<lambda>dead.
       if \<not> dead then pass None
       else looking (\<lambda>w. getSessionByTaskId (aw_store w) i) (\<lambda>sess.
         if (case sess of None \<Rightarrow> False | Some s \<Rightarrow> s_outcome s = Some Accepted)
         then and_then (finishInterruptedTransition env drv i actor None) (\<lambda>x. pass (Some x))
         else and_then (acceptWorkLanded drv i) (\<lambda>landed.
           case landed of
             None \<Rightarrow> pass None
           | Some (place, target) \<Rightarrow>
               looking (\<lambda>w. landed_pushes_parent drv place target (aw_git w)) (\<lambda>push.
                 and_then (finishInterruptedTransition env drv i actor
                     (Some (owed (ad_acceptTarget drv) (place = LandedRemote) push
                              (ad_closeReviewOwed drv (place = LandedLocal)) None)))
                   (\<lambda>x. pass (Some x))))))"

section \<open>Guards and preparations\<close>

definition session_guard :: "Session option \<Rightarrow> refusal option" where
  "session_guard sess =
     (case sess of
        None \<Rightarrow> Some (OtherRefusal ''no-session'')
      | Some s \<Rightarrow>
          if s_outcome s = Some Accepted then Some AlreadyAccepted
          else if truthy_time (s_ended_at s) then Some (OtherRefusal ''session ended'') else None)"

definition status_guard :: "TaskStatus \<Rightarrow> refusal option" where
  "status_guard s =
     (if s = Pairing then Some (OtherRefusal ''pairing'')
      else if \<not> isBlockedStatus s \<and> s \<noteq> Merging then Some (OtherRefusal (status_text s))
      else None)"

definition refuse :: "refusal option \<Rightarrow> ('g, unit) act" where
  "refuse r = (case r of None \<Rightarrow> pass () | Some x \<Rightarrow> throw (AcceptRefused x))"

definition prepare :: "AcceptEnv \<Rightarrow> 'g AcceptDriver \<Rightarrow> string \<Rightarrow> AcceptStage \<Rightarrow> AcceptKind \<Rightarrow> ('g, unit) act" where
  "prepare env drv i stage kind =
     and_then (at_git (ad_prepare drv stage kind)) (\<lambda>p.
       before (add_comments env i (pp_comments p))
         (before (write_metas i (pp_metadata p)) (refuse (pp_refusal p))))"

text \<open>Which kind of accept this is, from the status and the in-flight marker.\<close>

definition accept_kind :: "TaskStatus \<Rightarrow> string \<Rightarrow> AcceptKind" where
  "accept_kind status inFlightFrom =
     (if status = Merging then (if inFlightFrom = [] then ForgeAccept else DeadAccept) else FreshAccept)"

definition prior_status :: "TaskStatus \<Rightarrow> string \<Rightarrow> string" where
  "prior_status status inFlightFrom = (if inFlightFrom \<noteq> [] then inFlightFrom else status_text status)"

section \<open>The acceptance gate\<close>

text \<open>The status is put back by each exit the code foresees; the \<open>finally\<close> only tears the container down.\<close>

definition runInAcceptGateContainer :: "AcceptEnv \<Rightarrow> 'g AcceptDriver \<Rightarrow> string \<Rightarrow> string \<Rightarrow> ('g, AcceptGateResult) act" where
  "runInAcceptGateContainer env drv i prior =
     before (at_git (ad_gateSetup drv))
      (before (write_status env i Working (Some (Role System)))
        (and_then (at_git (ad_gateRun drv)) (\<lambda>outcome.
           case outcome of
             GateVerdict gate \<Rightarrow> before (write_prior env i prior (Some (Role System))) (pass gate)
           | GateAborted message \<Rightarrow>
               before (write_prior env i prior (Some (Role System)))
                 (before (add_comment env i message (Role System))
                   (throw (AcceptRefused (OtherRefusal message)))))))"

definition quoted :: "string \<Rightarrow> string" where
  "quoted s = ''`'' @ s @ ''`''"

definition gate_failure :: "string \<Rightarrow> AcceptGateResult \<Rightarrow> string" where
  "gate_failure prior gate =
     (let cmdLabel = (case nonempty (gr_failed_command gate) of Some c \<Rightarrow> quoted c | None \<Rightarrow> ''a configured check'');
          exitLabel = (if gr_exit_code gate = Some (- 2) then ''timed out''
                       else ''exited with '' @ (case gr_exit_code gate of Some n \<Rightarrow> show_int n | None \<Rightarrow> ''a non-zero code''))
      in ''Pre-accept checks failed: '' @ cmdLabel @ '' '' @ exitLabel @ ''. Task returned to '' @ prior @
         ''; accept aborted. Fix the issue, then re-accept.'')"

definition gate_output_tail :: "AcceptGateResult \<Rightarrow> string" where
  "gate_output_tail gate =
     (case nonempty (gr_output gate) of
        None \<Rightarrow> []
      | Some out \<Rightarrow> [CHR 0x0A, CHR 0x0A] @ ''```'' @ [CHR 0x0A] @ drop (length out - 1500) out @ [CHR 0x0A] @ ''```'')"

definition launchAcceptanceGate :: "AcceptEnv \<Rightarrow> 'g AcceptDriver \<Rightarrow> string \<Rightarrow> string \<Rightarrow> ('g, unit) act" where
  "launchAcceptanceGate env drv i prior =
     (if \<not> ad_preAccept drv then pass ()
      else and_then (runInAcceptGateContainer env drv i prior) (\<lambda>gate.
        if gr_passed gate then pass ()
        else before (add_comment env i (gate_failure prior gate @ gate_output_tail gate) (Role System))
               (throw (AcceptRefused (OtherRefusal (gate_failure prior gate))))))"

definition check_exit_code :: "AcceptGateResult \<Rightarrow> int" where
  "check_exit_code gate = (if gr_passed gate then 0 else (case gr_exit_code gate of Some n \<Rightarrow> n | None \<Rightarrow> - 1))"

definition enforceAcceptCheck :: "AcceptEnv \<Rightarrow> 'g AcceptDriver \<Rightarrow> string \<Rightarrow> string \<Rightarrow> bool \<Rightarrow> ('g, unit) act" where
  "enforceAcceptCheck env drv i prior allowBroken =
     (if \<not> ad_acceptCheck drv then pass ()
      else and_then (runInAcceptGateContainer env drv i prior) (\<lambda>gate.
        if check_exit_code gate = 0 \<or> allowBroken then pass ()
        else throw (AcceptRefused (OtherRefusal ''check-failed''))))"

section \<open>Parking a task\<close>

definition pausedStatusFor :: "LedgerTurn list \<Rightarrow> FileViolation list option \<Rightarrow> FileViolation list option \<Rightarrow> TaskStatus" where
  "pausedStatusFor turns detected outstanding =
     (case outstanding of
        Some files \<Rightarrow> if files \<noteq> [] \<or> (case detected of Some d \<Rightarrow> d \<noteq> [] | None \<Rightarrow> False) then Conflict else Blocked
      | None \<Rightarrow>
          if (case detected of Some d \<Rightarrow> d \<noteq> [] | None \<Rightarrow> False) then Conflict
          else if outstandingFromRecords turns \<noteq> [] then Conflict else Blocked)"

definition deferred_in :: "string \<Rightarrow> LedgerTurn list \<Rightarrow> 'g AcceptWorld \<Rightarrow> bool" where
  "deferred_in i turns w =
     (case getTask (aw_store w) i of
        None \<Rightarrow> False
      | Some t \<Rightarrow>
          resolveProtectedFileDeferral (\<lambda>p. Some (getTask (aw_store w) p))
            (case omap_get (st_dirs (aw_store w)) i of
               None \<Rightarrow> None | Some td \<Rightarrow> Some (map (fst \<circ> sc_actor) (d_changes td))) t turns \<noteq> None)"

text \<open>\<open>parkTaskPaused\<close> as the re-entry calls it: with the project root, nothing detected, nothing to restore.\<close>

definition parked_status :: "string \<Rightarrow> 'g AcceptDriver \<Rightarrow> 'g AcceptWorld \<Rightarrow> TaskStatus" where
  "parked_status i drv w =
     (case (aw_turns w, ad_outstanding drv (aw_git w)) of
        (Some turns, Some (outstanding, deferred)) \<Rightarrow>
          (let status = pausedStatusFor turns None (Some outstanding)
           in if deferred \<or> status = Conflict \<and> deferred_in i turns w then Blocked else status)
      | _ \<Rightarrow> Blocked)"

definition parkTaskPaused :: "AcceptEnv \<Rightarrow> 'g AcceptDriver \<Rightarrow> string \<Rightarrow> ActorInput \<Rightarrow> ('g, unit) act" where
  "parkTaskPaused env drv i actor =
     looking (parked_status i drv) (\<lambda>status. write_status env i status (Some actor))"

section \<open>A merge the forge owns\<close>

datatype AcceptOutcome = AcceptMerged "FollowThroughStep list" "string option" | AcceptPending

definition merged :: "FollowThroughStep list \<times> string option \<Rightarrow> AcceptOutcome" where
  "merged x = AcceptMerged (fst x) (snd x)"

definition refuseWrongReviewBase :: "'g AcceptDriver \<Rightarrow> ('g, unit) act" where
  "refuseWrongReviewBase drv = asks (ad_wrongBase drv) refuse"

text \<open>The transition of a merge the forge made. Handing it over already wrote \<open>[Accepted]\<close>.\<close>

definition forge_transition :: "'g AcceptDriver \<Rightarrow> string \<Rightarrow> ActorInput \<Rightarrow> Transition" where
  "forge_transition drv reason actor =
     \<lparr>tr_reason = reason, tr_actor = actor, tr_commentActor = actor, tr_writeComment = False, tr_dedupeComment = False,
      tr_followThrough = owed (ad_followTarget drv) True False False None\<rparr>"

definition pipeline_failed :: "string \<Rightarrow> string" where
  "pipeline_failed details = ''Pipeline/checks failed: '' @ details @ ''. Task moved back to blocked.''"

text \<open>Checks passed and the forge has not merged: ask it again.\<close>

definition retry_forge_merge :: "AcceptEnv \<Rightarrow> 'g AcceptDriver \<Rightarrow> string \<Rightarrow> string \<Rightarrow> ActorInput \<Rightarrow> ('g, AcceptOutcome) act" where
  "retry_forge_merge env drv i reason actor =
     before (refuseWrongReviewBase drv)
      (and_then (at_git (ad_remoteMerge drv)) (\<lambda>retry.
        before (write_metas i (mr_metadata retry))
         (case mr_status retry of
            MergeDone \<Rightarrow> and_then (finishLandedAccept env drv i (forge_transition drv reason actor)) (\<lambda>x. pass (merged x))
          | MergePending \<Rightarrow> pass AcceptPending
          | MergeFailed \<Rightarrow> throw (GitFailed (mr_error retry)))))"

definition reenter_forge_merge :: "AcceptEnv \<Rightarrow> 'g AcceptDriver \<Rightarrow> string \<Rightarrow> string \<Rightarrow> ActorInput \<Rightarrow> ('g, AcceptOutcome) act" where
  "reenter_forge_merge env drv i reason actor =
     looking (\<lambda>w. fd_prState (ad_follow drv) (aw_git w)) (\<lambda>prState.
       if prState = Some PRMerged
       then before (refuseWrongReviewBase drv)
              (and_then (finishLandedAccept env drv i (forge_transition drv reason actor)) (\<lambda>x. pass (merged x)))
       else if prState = Some PRClosed then throw (AcceptRefused (OtherRefusal ''mr-closed''))
       else looking (\<lambda>w. ad_checks drv (aw_git w)) (\<lambda>checks.
         case checks of
           ChecksFailed details \<Rightarrow>
             before (parkTaskPaused env drv i actor)
               (before (add_comment env i (pipeline_failed details) actor)
                 (throw (AcceptRefused (OtherRefusal ''checks failed''))))
         | ChecksPending \<Rightarrow> pass AcceptPending
         | ChecksPassed \<Rightarrow> retry_forge_merge env drv i reason actor))"

section \<open>The merge phase\<close>

text \<open>The catch of the merge phase: before its merge landed a live accept puts the task back, a resumed one
  leaves it to the next resume.\<close>

definition bail :: "AcceptEnv \<Rightarrow> string \<Rightarrow> string \<Rightarrow> ActorInput \<Rightarrow> bool \<Rightarrow> failure \<Rightarrow> ('g, 'a) act" where
  "bail env i prior actor isResume e =
     (if isResume then throw e else before (abortMergePhase env i prior actor) (throw e))"

definition merge_failure :: "MergeResult \<Rightarrow> failure" where
  "merge_failure r = (if mr_isConflict r then AcceptRefused (OtherRefusal ''merge-conflict'') else GitFailed (mr_error r))"

definition attempt_merge :: "AcceptEnv \<Rightarrow> 'g AcceptDriver \<Rightarrow> string \<Rightarrow> string \<Rightarrow> ActorInput \<Rightarrow> bool \<Rightarrow> ('g, MergeResult) act" where
  "attempt_merge env drv i prior actor isResume =
     and_then
       (on_throw
          (before (if mergeNeedsSync drv then at_git (ad_pushTarget drv) else pass ())
            (before (at_git (ad_describe drv)) (at_git (ad_merge drv isResume))))
          (bail env i prior actor isResume))
       (\<lambda>result.
          if mr_status result = MergeDone then before (write_metas i (mr_metadata result)) (pass result)
          else on_throw
            (before (write_metas i (mr_metadata result))
              (if mr_status result = MergeFailed then throw (merge_failure result) else pass result))
            (bail env i prior actor isResume))"

definition merge_phase :: "AcceptEnv \<Rightarrow> 'g AcceptDriver \<Rightarrow> string \<Rightarrow> string \<Rightarrow> AcceptIntent \<Rightarrow> ActorInput \<Rightarrow> ActorInput \<Rightarrow> bool \<Rightarrow>
    bool \<Rightarrow> ('g, AcceptOutcome) act" where
  "merge_phase env drv i prior intent actor commentActor isResume mirror =
     before (beginMergePhase env i prior actor intent (\<not> isResume))
      (and_then (attempt_merge env drv i prior actor isResume) (\<lambda>result.
        if mr_status result = MergePending
        then before (clearMergeInFlight i)
               (before (add_comment env i (accepted_comment (ai_reason intent)) actor)
                 (before (clearPendingAcceptReview i) (pass AcceptPending)))
        else looking (\<lambda>w. ad_targetSha drv (aw_git w)) (\<lambda>sha.
          and_then (finishLandedAccept env drv i
              \<lparr>tr_reason = ai_reason intent, tr_actor = actor, tr_commentActor = commentActor, tr_writeComment = True,
               tr_dedupeComment = isResume,
               tr_followThrough = owed (ad_followTarget drv) (mergeNeedsSync drv)
                 (useLocalMerge drv \<or> mirror)
                 (ad_closeReviewOwed drv (\<not> mergeNeedsSync drv)) (if mergeNeedsSync drv then None else sha)\<rparr>)
            (\<lambda>x. pass (merged x)))))"

section \<open>A whole run\<close>

definition fresh_intent :: "AcceptParams \<Rightarrow> AcceptIntent" where
  "fresh_intent ps =
     \<lparr>ai_reason = ap_reason ps, ai_actor = ap_actor ps, ai_approvedFiles = ap_approvedFiles ps,
      ai_acceptDirtyWorktree = ap_acceptDirtyWorktree ps, ai_allowBroken = ap_allowBroken ps,
      ai_allowReviewIssues = ap_allowReviewIssues ps, ai_recordedAt = ap_recordedAt ps\<rparr>"

definition accept_as :: "AcceptEnv \<Rightarrow> 'g AcceptDriver \<Rightarrow> string \<Rightarrow> AcceptParams \<Rightarrow> AcceptKind \<Rightarrow> string \<Rightarrow> ('g, AcceptOutcome) act" where
  "accept_as env drv i ps kind prior =
     before (prepare env drv i PolicyStage kind)
      (looking (task_read i (readAcceptIntent (ae_readIntent env)) None) (\<lambda>stored.
        let persisted = (if kind = DeadAccept then stored else None);
            intent = (case persisted of Some n \<Rightarrow> n | None \<Rightarrow> fresh_intent ps);
            commentActor = (case persisted of Some n \<Rightarrow> ai_actor n | None \<Rightarrow> ap_actor ps)
        in if kind = ForgeAccept then reenter_forge_merge env drv i (ap_reason ps) (ap_actor ps)
           else looking (\<lambda>w. \<not> fd_needsSync (ad_follow drv) \<and> ad_pushesMirror drv (aw_git w)) (\<lambda>mirror.
            before (if kind = FreshAccept then enforceAcceptCheck env drv i prior (ap_allowBroken ps) else pass ())
            (before (if kind = FreshAccept then launchAcceptanceGate env drv i prior else pass ())
              (before (prepare env drv i PublishStage kind)
                (merge_phase env drv i prior intent (ap_actor ps) commentActor (kind = DeadAccept) mirror))))))"

definition acceptTask :: "AcceptEnv \<Rightarrow> 'g AcceptDriver \<Rightarrow> string \<Rightarrow> AcceptParams \<Rightarrow> ('g, AcceptOutcome) act" where
  "acceptTask env drv i ps =
     and_then (finish_dead_accept env drv i (ap_actor ps)) (\<lambda>finished.
       case finished of
         Some x \<Rightarrow> pass (merged x)
       | None \<Rightarrow>
           looking (\<lambda>w. getSessionByTaskId (aw_store w) i) (\<lambda>sess.
             before (refuse (session_guard sess))
              (looking (task_read i (\<lambda>t. Some (t_status t, metadata_view t ACCEPT_IN_FLIGHT_KEY)) None) (\<lambda>seen_now.
                case seen_now of
                  None \<Rightarrow> throw (StoreThrew (TaskNotFound i))
                | Some (status, marker) \<Rightarrow>
                    before (prepare env drv i WorktreeStage (accept_kind status marker))
                     (before (refuse (status_guard status))
                       (accept_as env drv i ps (accept_kind status marker) (prior_status status marker)))))))"

end
