(* ===== verification/AcceptSafe.thy ===== *)
theory AcceptSafe
  imports AcceptRun
begin

text \<open>
  Why an accept never parts the store from git: the invariant between the status of a task and whether its
  work has landed, what is asked of the driver for it, and the proof that a run of \<open>acceptTask\<close> keeps it
  whatever fails and wherever the process dies.
\<close>

section \<open>The invariant\<close>

definition forge_merged :: "'g AcceptDriver \<Rightarrow> 'g \<Rightarrow> bool" where
  "forge_merged drv g \<longleftrightarrow> fd_prState (ad_follow drv) g = Some PRMerged"

definition resting_texts :: "string list" where
  "resting_texts = map status_text [Blocked, Conflict, Submitted]"

text \<open>Landed work belongs to a complete task, or to one that is merging and marked or merged by the forge;
  a complete task and an accepted session have landed work; the marker names a status to rest in.\<close>

definition sound :: "('g \<Rightarrow> bool) \<Rightarrow> 'g AcceptDriver \<Rightarrow> 'g Seen \<Rightarrow> bool" where
  "sound landed drv s \<longleftrightarrow>
     (landed (sn_git s) \<longrightarrow> sn_status s = Complete \<or>
        sn_status s = Merging \<and> (sn_meta s ACCEPT_IN_FLIGHT_KEY \<noteq> [] \<or> forge_merged drv (sn_git s))) \<and>
     (sn_status s = Complete \<or> sn_outcome s = Some Accepted \<longrightarrow> landed (sn_git s)) \<and>
     sn_meta s ACCEPT_IN_FLIGHT_KEY \<in> set ([] # resting_texts)"

text \<open>An operation of git or the forge that neither lands the work nor takes it back.\<close>

definition inert :: "('g \<Rightarrow> bool) \<Rightarrow> 'g AcceptDriver \<Rightarrow> ('g \<Rightarrow> 'a \<times> 'g) \<Rightarrow> bool" where
  "inert landed drv f \<longleftrightarrow>
     (\<forall>g. landed (snd (f g)) = landed g \<and> forge_merged drv (snd (f g)) = forge_merged drv g)"

definition other_keys :: "(string \<times> string) list \<Rightarrow> bool" where
  "other_keys kvs \<longleftrightarrow> ACCEPT_IN_FLIGHT_KEY \<notin> fst ` set kvs"

definition inert_follow :: "('g \<Rightarrow> bool) \<Rightarrow> 'g AcceptDriver \<Rightarrow> bool" where
  "inert_follow landed drv \<longleftrightarrow>
     (\<forall>t. inert landed drv (fd_resolve (ad_follow drv) t)) \<and> (\<forall>t. inert landed drv (fd_fastForward (ad_follow drv) t)) \<and>
     (\<forall>t. inert landed drv (fd_pushBranch (ad_follow drv) t)) \<and> inert landed drv (fd_closeReview (ad_follow drv)) \<and>
     (\<forall>t. inert landed drv (fd_tag (ad_follow drv) t)) \<and> (\<forall>step. inert landed drv (fd_other (ad_follow drv) step))"

definition inert_steps :: "('g \<Rightarrow> bool) \<Rightarrow> 'g AcceptDriver \<Rightarrow> bool" where
  "inert_steps landed drv \<longleftrightarrow>
     (\<forall>stage kind. inert landed drv (ad_prepare drv stage kind)) \<and> inert landed drv (ad_gateSetup drv) \<and>
     inert landed drv (ad_gateRun drv) \<and> inert landed drv (ad_pushTarget drv) \<and> inert landed drv (ad_describe drv) \<and>
     (\<forall>t. inert landed drv (ad_fetch drv t)) \<and>
     (\<forall>stage kind g p g'. ad_prepare drv stage kind g = (Inr p, g') \<longrightarrow> other_keys (pp_metadata p))"

text \<open>A merge never takes landed work back. It reports a merge it made: one it calls pending or failed, or
  throws over, landed nothing, and work that had landed when it says pending was merged by the forge.\<close>

definition honest_merge :: "('g \<Rightarrow> bool) \<Rightarrow> 'g AcceptDriver \<Rightarrow> bool" where
  "honest_merge landed drv \<longleftrightarrow>
     (\<forall>resume g e g'. ad_merge drv resume g = (Inl e, g') \<longrightarrow> landed g' = landed g) \<and>
     (\<forall>resume g r g'. ad_merge drv resume g = (Inr r, g') \<longrightarrow> other_keys (mr_metadata r) \<and> (landed g \<longrightarrow> landed g') \<and>
        (case mr_status r of
           MergeDone \<Rightarrow> landed g'
         | MergePending \<Rightarrow> landed g' = landed g \<and> (landed g' \<longrightarrow> forge_merged drv g')
         | MergeFailed \<Rightarrow> landed g' = landed g))"

definition honest_forge :: "('g \<Rightarrow> bool) \<Rightarrow> 'g AcceptDriver \<Rightarrow> bool" where
  "honest_forge landed drv \<longleftrightarrow>
     (\<forall>g. forge_merged drv g \<longrightarrow> landed g) \<and>
     (\<forall>g r g'. ad_remoteMerge drv g = (r, g') \<longrightarrow>
        (landed g \<longrightarrow> landed g') \<and> (forge_merged drv g \<longrightarrow> forge_merged drv g') \<and>
        (landed g' \<longrightarrow> landed g \<or> forge_merged drv g') \<and>
        (\<forall>x. r = Inr x \<longrightarrow> other_keys (mr_metadata x) \<and> (mr_status x = MergeDone \<longrightarrow> landed g')))"

text \<open>The trees only answer \<open>landed\<close> for work that is there; \<open>acceptWorkLanded\<close> asks about changes only of a
  branch that has some.\<close>

definition honest_trees :: "('g \<Rightarrow> bool) \<Rightarrow> 'g AcceptDriver \<Rightarrow> bool" where
  "honest_trees landed drv \<longleftrightarrow>
     (\<forall>b t g. ad_netEmpty drv b t g = Inr False \<longrightarrow> ad_alreadyIn drv b t g = Inr True \<longrightarrow> landed g) \<and>
     (\<forall>b t g. ad_alreadyIn drv b (remote_ref drv t) g = Inr True \<longrightarrow> landed g)"

definition honest :: "('g \<Rightarrow> bool) \<Rightarrow> 'g AcceptDriver \<Rightarrow> bool" where
  "honest landed drv \<longleftrightarrow>
     inert_follow landed drv \<and> inert_steps landed drv \<and> honest_merge landed drv \<and> honest_forge landed drv \<and> honest_trees landed drv"

section \<open>Quiet actions\<close>

text \<open>All that the invariant looks at, and when the session ended.\<close>

definition alike :: "('g \<Rightarrow> bool) \<Rightarrow> 'g AcceptDriver \<Rightarrow> 'g Seen \<Rightarrow> 'g Seen \<Rightarrow> bool" where
  "alike landed drv s s' \<longleftrightarrow> sn_status s' = sn_status s \<and> sn_ended s' = sn_ended s \<and> sn_outcome s' = sn_outcome s \<and>
     sn_meta s' ACCEPT_IN_FLIGHT_KEY = sn_meta s ACCEPT_IN_FLIGHT_KEY \<and> landed (sn_git s') = landed (sn_git s) \<and>
     forge_merged drv (sn_git s') = forge_merged drv (sn_git s)"

lemma alike_refl [simp]: "alike landed drv s s"
  by (simp add: alike_def)

lemma alike_trans: "alike landed drv s s1 \<Longrightarrow> alike landed drv s1 s2 \<Longrightarrow> alike landed drv s s2"
  by (simp add: alike_def)

lemma sound_alike: "alike landed drv s s' \<Longrightarrow> sound landed drv s' = sound landed drv s"
  by (simp add: alike_def sound_def)

definition quiet :: "('g \<Rightarrow> bool) \<Rightarrow> 'g AcceptDriver \<Rightarrow> string \<Rightarrow> ('g, 'a) act \<Rightarrow> bool" where
  "quiet landed drv i m \<longleftrightarrow> (\<forall>s. spec i m (\<lambda>_. alike landed drv s) (\<lambda>_. alike landed drv s) s)"

named_theorems quiet_rules \<open>actions that the invariant does not see\<close>

lemma quietD: "quiet landed drv i m \<Longrightarrow> spec i m (\<lambda>_. alike landed drv s) (\<lambda>_. alike landed drv s) s"
  by (simp add: quiet_def)

lemma quiet_pass [quiet_rules]: "quiet landed drv i (pass x)"
  by (auto simp: quiet_def intro!: spec_pass)

lemma quiet_throw [quiet_rules]: "quiet landed drv i (throw e)"
  by (auto simp: quiet_def intro!: spec_throw)

lemma quiet_bind:
  assumes "quiet landed drv i m" and "\<And>w x w'. m w = (Inr x, w') \<Longrightarrow> quiet landed drv i (f x)"
  shows "quiet landed drv i (and_then m f)"
  unfolding quiet_def
proof
  fix s
  have "spec i m (\<lambda>x s'. alike landed drv s s' \<and> quiet landed drv i (f x)) (\<lambda>_. alike landed drv s) s"
    by (rule spec_result [OF quietD [OF assms(1)]]) (rule assms(2))
  then show "spec i (and_then m f) (\<lambda>_. alike landed drv s) (\<lambda>_. alike landed drv s) s"
    by (rule spec_bind) (auto elim!: spec_mono [OF quietD] intro: alike_trans)
qed

lemma quiet_and_then [quiet_rules]:
  "quiet landed drv i m \<Longrightarrow> (\<And>x. quiet landed drv i (f x)) \<Longrightarrow> quiet landed drv i (and_then m f)"
  by (rule quiet_bind)

lemma quiet_before [quiet_rules]: "quiet landed drv i m \<Longrightarrow> quiet landed drv i k \<Longrightarrow> quiet landed drv i (before m k)"
  unfolding before_def by (rule quiet_and_then)

lemma quiet_on_throw [quiet_rules]:
  assumes "quiet landed drv i m" and "\<And>e. quiet landed drv i (h e)"
  shows "quiet landed drv i (on_throw m h)"
  unfolding quiet_def
  by (intro allI, rule spec_try, rule quietD [OF assms(1)]) (auto intro: alike_trans spec_mono [OF quietD [OF assms(2)]])

lemma quiet_looking [quiet_rules]: "(\<And>x. quiet landed drv i (k x)) \<Longrightarrow> quiet landed drv i (looking f k)"
  by (auto simp: quiet_def spec_def wp_looking)

lemma quiet_if [quiet_rules]:
  "(b \<Longrightarrow> quiet landed drv i m) \<Longrightarrow> (\<not> b \<Longrightarrow> quiet landed drv i k) \<Longrightarrow> quiet landed drv i (if b then m else k)"
  by simp

lemma quiet_option [quiet_rules]:
  "(x = None \<Longrightarrow> quiet landed drv i m) \<Longrightarrow> (\<And>y. x = Some y \<Longrightarrow> quiet landed drv i (k y)) \<Longrightarrow>
     quiet landed drv i (case x of None \<Rightarrow> m | Some y \<Rightarrow> k y)"
  by (cases x) auto

lemma quiet_prod [quiet_rules]: "(\<And>a b. x = (a, b) \<Longrightarrow> quiet landed drv i (k a b)) \<Longrightarrow> quiet landed drv i (case x of (a, b) \<Rightarrow> k a b)"
  by (cases x) auto

lemma quiet_write_meta [quiet_rules]: "k \<noteq> ACCEPT_IN_FLIGHT_KEY \<Longrightarrow> quiet landed drv i (write_meta i k v)"
  by (auto simp: quiet_def alike_def intro!: spec_write_meta)

lemma quiet_add_comment [quiet_rules]: "quiet landed drv i (add_comment env i content actor)"
  by (auto simp: quiet_def alike_def intro!: spec_add_comment)

lemma quiet_file_message [quiet_rules]: "quiet landed drv i (file_message n)"
  by (auto simp: quiet_def alike_def intro!: spec_file_message)

lemma inertD: "inert landed drv f \<Longrightarrow> f g = (r, g') \<Longrightarrow> landed g' = landed g \<and> forge_merged drv g' = forge_merged drv g"
  unfolding inert_def by (metis snd_conv)

lemma quiet_at_git:
  assumes "inert landed drv f"
  shows "quiet landed drv i (at_git f)"
  unfolding quiet_def by (intro allI spec_at_git) (use inertD [OF assms] in \<open>simp_all add: alike_def\<close>)

lemma quiet_asks [quiet_rules]: "(\<And>x. quiet landed drv i (k x)) \<Longrightarrow> quiet landed drv i (asks f k)"
  unfolding asks_def by (rule quiet_looking) (auto intro: quiet_throw split: sum.split)

lemma at_git_result: "at_git f w = (Inr x, w') \<Longrightarrow> \<exists>g g'. f g = (Inr x, g')"
  by (auto simp: at_git_def durable_def Let_def split: list.splits fault.splits prod.splits sum.splits)

lemma other_key_simps [simp]:
  "ACCEPT_FOLLOWTHROUGH_KEY \<noteq> ACCEPT_IN_FLIGHT_KEY" "ACCEPT_INTENT_KEY \<noteq> ACCEPT_IN_FLIGHT_KEY"
  "ACCEPT_RESUME_ATTEMPTS_KEY \<noteq> ACCEPT_IN_FLIGHT_KEY" "ACCEPT_RESUME_NEXT_AT_KEY \<noteq> ACCEPT_IN_FLIGHT_KEY"
  "PENDING_REVIEW_METADATA_KEY \<noteq> ACCEPT_IN_FLIGHT_KEY" "FINAL_REVIEW_ROUND_KEY \<noteq> ACCEPT_IN_FLIGHT_KEY"
  "CLUSTER_FIX_ROUND_KEY \<noteq> ACCEPT_IN_FLIGHT_KEY"
  by code_simp+

section \<open>What is quiet\<close>

lemma quiet_write_metas: "other_keys kvs \<Longrightarrow> quiet landed drv i (write_metas i kvs)"
proof (induction kvs)
  case (Cons kv kvs)
  then show ?case by (cases kv) (auto simp: other_keys_def intro!: quiet_rules)
qed (simp add: quiet_rules)

lemma quiet_add_comments [quiet_rules]: "quiet landed drv i (add_comments env i cs)"
  by (induction cs) (auto intro!: quiet_rules)

lemma quiet_refuse [quiet_rules]: "quiet landed drv i (refuse r)"
  by (auto simp: refuse_def intro!: quiet_rules)

lemma quiet_swallow [quiet_rules]: "quiet landed drv i m \<Longrightarrow> quiet landed drv i (swallow m)"
  by (auto simp: swallow_def intro!: quiet_rules)

lemma quiet_prepare:
  assumes "inert_steps landed drv"
  shows "quiet landed drv i (prepare env drv i stage kind)"
  unfolding prepare_def
proof (rule quiet_bind)
  show "quiet landed drv i (at_git (ad_prepare drv stage kind))"
    by (rule quiet_at_git) (use assms in \<open>simp add: inert_steps_def\<close>)
next
  fix w :: "'a AcceptWorld" and p w'
  assume run: "at_git (ad_prepare drv stage kind) w = (Inr p, w')"
  from at_git_result [OF run] obtain g g' where "ad_prepare drv stage kind g = (Inr p, g')" by blast
  then have "other_keys (pp_metadata p)" using assms unfolding inert_steps_def by blast
  then show "quiet landed drv i (before (add_comments env i (pp_comments p))
      (before (write_metas i (pp_metadata p)) (refuse (pp_refusal p))))"
    by (intro quiet_rules quiet_write_metas)
qed

lemma quiet_work_landed:
  assumes "inert_follow landed drv" and "inert_steps landed drv"
  shows "quiet landed drv i (acceptWorkLanded drv i)"
proof -
  have "inert landed drv (fd_resolve (ad_follow drv) t)" "inert landed drv (ad_fetch drv t)" for t
    using assms by (simp_all add: inert_follow_def inert_steps_def)
  then show ?thesis
    unfolding acceptWorkLanded_def landed_on_remote_def Let_def
    by (intro quiet_rules quiet_at_git)
qed

lemma quiet_write_accepted [quiet_rules]: "quiet landed drv i (write_accepted env i tr)"
  unfolding write_accepted_def by (intro quiet_rules)

lemma quiet_clear_review [quiet_rules]: "quiet landed drv i (clearPendingAcceptReview i)"
  unfolding clearPendingAcceptReview_def by (intro quiet_rules) simp

lemma quiet_reset_rounds [quiet_rules]: "quiet landed drv i (resetRoundBudgetsOnAccept i)"
  unfolding resetRoundBudgetsOnAccept_def by (intro quiet_rules) simp_all

lemma quiet_persist [quiet_rules]: "quiet landed drv i (persist env i r)"
  unfolding persist_def by (intro quiet_rules) simp

lemma quiet_plain_step [quiet_rules]: "quiet landed drv i m \<Longrightarrow> quiet landed drv i (plain_step m r)"
  unfolding plain_step_def by (intro quiet_rules)

lemma quiet_run_step:
  assumes "inert_follow landed drv"
  shows "quiet landed drv i (run_step env (ad_follow drv) i target step r)"
proof -
  have i: "inert landed drv (fd_fastForward (ad_follow drv) target)" "inert landed drv (fd_pushBranch (ad_follow drv) target)"
      "inert landed drv (fd_closeReview (ad_follow drv))" "inert landed drv (fd_tag (ad_follow drv) t)"
      "inert landed drv (fd_other (ad_follow drv) step)" for t step
    using assms by (simp_all add: inert_follow_def)
  have push: "quiet landed drv i (push_parent (ad_follow drv) target r)"
    unfolding push_parent_def throw_step_def
    by (intro quiet_rules quiet_at_git i) (auto intro!: quiet_rules split: failure.split)
  have close: "quiet landed drv i (close_review (ad_follow drv) r)"
    unfolding close_review_def throw_step_def by (intro quiet_rules quiet_at_git i)
  have ff: "quiet landed drv i (fast_forward env (ad_follow drv) i target r)"
    unfolding fast_forward_def throw_step_def Let_def by (intro quiet_rules quiet_at_git i)
  show ?thesis
    unfolding run_step_def using push close ff
    by (cases step) (auto intro!: quiet_rules quiet_at_git i)
qed

lemma quiet_run_steps:
  assumes "inert_follow landed drv"
  shows "quiet landed drv i (run_steps env (ad_follow drv) i target steps r errors)"
proof (induction steps arbitrary: r errors)
  case Nil
  then show ?case by (simp add: quiet_rules)
next
  case (Cons step steps)
  show ?case
    unfolding run_steps.simps Let_def by (intro quiet_rules Cons.IH quiet_run_step assms)
qed

lemma quiet_settle_run [quiet_rules]: "quiet landed drv i (settle_run env i x)"
  unfolding settle_run_def Let_def by (intro quiet_rules) simp

section \<open>The transition\<close>

text \<open>A complete task whose work has landed.\<close>

definition accepted_ok :: "('g \<Rightarrow> bool) \<Rightarrow> 'g Seen \<Rightarrow> bool" where
  "accepted_ok landed s \<longleftrightarrow> sn_status s = Complete \<and> landed (sn_git s) \<and> sn_meta s ACCEPT_IN_FLIGHT_KEY \<in> set ([] # resting_texts)"

lemma accepted_sound: "accepted_ok landed s \<Longrightarrow> sound landed drv s"
  by (simp add: accepted_ok_def sound_def)

lemma accepted_alike: "alike landed drv s s' \<Longrightarrow> accepted_ok landed s' = accepted_ok landed s"
  by (simp add: alike_def accepted_ok_def)

lemma accepted_quiet:
  "quiet landed drv i m \<Longrightarrow> accepted_ok landed s \<Longrightarrow> spec i m (\<lambda>_. accepted_ok landed) (\<lambda>_. accepted_ok landed) s"
  by (rule spec_mono [OF quietD]) (auto simp: accepted_alike)

lemma accepted_clear:
  "accepted_ok landed s \<Longrightarrow> spec i (clearMergeInFlight i) (\<lambda>_. accepted_ok landed) (\<lambda>_. accepted_ok landed) s"
  by (rule clearMergeInFlight_spec) (auto simp: accepted_ok_def settled_def)

text \<open>What no quiet action touches and clearing the marker keeps, the follow-through keeps.\<close>

lemma follow_through_keeps:
  assumes "inert_follow landed drv" and s: "P s"
    and same: "\<And>s s'. alike landed drv s s' \<Longrightarrow> P s \<Longrightarrow> P s'"
    and cleared: "\<And>s. P s \<Longrightarrow> spec i (clearMergeInFlight i) (\<lambda>_. P) (\<lambda>_. P) s"
  shows "spec i (runAcceptFollowThrough env (ad_follow drv) i given) (\<lambda>_. P) (\<lambda>_. P) s"
  unfolding runAcceptFollowThrough_def
proof (rule spec_task_read)
  fix t
  have i: "inert landed drv (fd_resolve (ad_follow drv) b)" for b using assms(1) by (simp add: inert_follow_def)
  have rest: "quiet landed drv i (case (case given of Some r \<Rightarrow> Some r | None \<Rightarrow> readFollowThrough (ae_readFollow env) t) of
      None \<Rightarrow> before (if nonempty (omap_get (t_metadata t) ACCEPT_FOLLOWTHROUGH_KEY) \<noteq> None
          then write_meta i ACCEPT_FOLLOWTHROUGH_KEY [] else pass ()) (pass ([], None))
    | Some r \<Rightarrow> and_then (at_git (fd_resolve (ad_follow drv) (ft_targetBranch r))) (\<lambda>target.
        and_then (run_steps env (ad_follow drv) i target FOLLOWTHROUGH_STEPS r []) (settle_run env i)))"
    by (intro quiet_rules quiet_at_git quiet_run_steps i assms(1)) simp
  have kept: "spec i m (\<lambda>_. P) (\<lambda>_. P) s1" if "quiet landed drv i m" "P s1" for s1 and m :: "('a, FollowThroughStep list \<times> string option) act"
    by (rule spec_mono [OF quietD [OF that(1)]]) (use that(2) same in blast)+
  show "spec i (case Some t of None \<Rightarrow> pass ([], None) | Some t \<Rightarrow>
      before (if t_status t = Complete \<and> accept_in_flight t then clearMergeInFlight i else pass ())
        (case case given of Some r \<Rightarrow> Some r | None \<Rightarrow> readFollowThrough (ae_readFollow env) t of
          None \<Rightarrow> before (if nonempty (omap_get (t_metadata t) ACCEPT_FOLLOWTHROUGH_KEY) \<noteq> None
              then write_meta i ACCEPT_FOLLOWTHROUGH_KEY [] else pass ()) (pass ([], None))
        | Some r \<Rightarrow> and_then (at_git (fd_resolve (ad_follow drv) (ft_targetBranch r))) (\<lambda>target.
            and_then (run_steps env (ad_follow drv) i target FOLLOWTHROUGH_STEPS r []) (settle_run env i))))
      (\<lambda>_. P) (\<lambda>_. P) s"
    unfolding option.case
  proof (rule spec_seq [of _ _ "\<lambda>_. P" "\<lambda>_. P"])
    show "spec i (if t_status t = Complete \<and> accept_in_flight t then clearMergeInFlight i else pass ()) (\<lambda>_. P) (\<lambda>_. P) s"
      using s by (auto intro: cleared spec_pass)
  qed (rule kept [OF rest], assumption, assumption)
qed

lemma accepted_follow_through:
  assumes "inert_follow landed drv" and "accepted_ok landed s"
  shows "spec i (runAcceptFollowThrough env (ad_follow drv) i given) (\<lambda>_. accepted_ok landed) (\<lambda>_. accepted_ok landed) s"
  by (rule follow_through_keeps [where P = "accepted_ok landed", OF assms]) (auto simp: accepted_alike intro: accepted_clear)

text \<open>A task whose merge has landed, on its way to \<open>complete\<close>.\<close>

definition committing :: "('g \<Rightarrow> bool) \<Rightarrow> 'g AcceptDriver \<Rightarrow> 'g Seen \<Rightarrow> bool" where
  "committing landed drv s \<longleftrightarrow> sound landed drv s \<and> landed (sn_git s)"

lemma committing_alike: "alike landed drv s s' \<Longrightarrow> committing landed drv s' = committing landed drv s"
  using sound_alike [of landed drv s s'] by (auto simp: committing_def alike_def)

lemma swallow_spec:
  assumes "spec i m (\<lambda>_. P) (\<lambda>_. P) s"
  shows "spec i (swallow m) (\<lambda>_. P) (\<lambda>_. P) s"
  unfolding swallow_def by (rule spec_try [OF assms]) (auto intro: spec_pass)

lemma commit_spec:
  assumes "committing landed drv s"
  shows "spec i (commitAcceptTransition env i tr) (\<lambda>_. accepted_ok landed) (\<lambda>_. committing landed drv) s"
proof -
  let ?E = "\<lambda>_ :: stop. committing landed drv"
  have ok: "committing landed drv s'" if "accepted_ok landed s'" for s'
    using that accepted_sound by (auto simp: committing_def accepted_ok_def)
  have quietly: "spec i (before m k) (\<lambda>_. accepted_ok landed) ?E s1"
    if "quiet landed drv i m" "committing landed drv s1" "\<And>s2. committing landed drv s2 \<Longrightarrow> spec i k (\<lambda>_. accepted_ok landed) ?E s2"
    for m :: "('a, unit) act" and k :: "('a, unit) act" and s1
    by (rule spec_seq [OF quietD [OF that(1)]]) (use that(2,3) committing_alike in blast)+
  have tidy: "spec i (before (swallow (clearMergeInFlight i)) (before (swallow (clearPendingAcceptReview i))
      (swallow (resetRoundBudgetsOnAccept i)))) (\<lambda>_. accepted_ok landed) ?E s1" if "accepted_ok landed s1" for s1
    by (rule spec_mono [of _ _ "\<lambda>_. accepted_ok landed" "\<lambda>_. accepted_ok landed"],
        rule spec_seq [OF swallow_spec [OF accepted_clear [OF that]]], rule accepted_quiet, intro quiet_rules)
       (auto intro: ok)
  have status: "spec i (looking (task_read i t_status Blocked) (\<lambda>live. if live = Complete then pass ()
      else before (if live \<noteq> Merging then write_status env i Merging (Some (tr_actor tr)) else pass ())
        (write_status env i Complete (Some (tr_actor tr))))) (\<lambda>_. accepted_ok landed) ?E s1"
    if "committing landed drv s1" for s1
    using that
    by (intro spec_task_read)
       (auto simp: committing_def sound_def accepted_ok_def intro!: spec_rules)
  show ?thesis
    unfolding commitAcceptTransition_def
  proof (rule quietly [OF _ assms], (intro quiet_rules; simp), rule quietly, intro quiet_rules, assumption)
    fix s2 :: "'a Seen"
    assume s2: "committing landed drv s2"
    show "spec i (before (end_open_session env i Accepted) (before (looking (task_read i t_status Blocked) (\<lambda>live.
        if live = Complete then pass () else before (if live \<noteq> Merging then write_status env i Merging (Some (tr_actor tr)) else pass ())
          (write_status env i Complete (Some (tr_actor tr)))))
        (before (swallow (clearMergeInFlight i)) (before (swallow (clearPendingAcceptReview i)) (swallow (resetRoundBudgetsOnAccept i))))))
        (\<lambda>_. accepted_ok landed) ?E s2"
    proof (rule spec_seq [of _ _ "\<lambda>_. committing landed drv" ?E])
      show "spec i (end_open_session env i Accepted) (\<lambda>_. committing landed drv) ?E s2"
        by (rule spec_end_open_session) (use s2 in \<open>auto simp: committing_def sound_def\<close>)
    qed (auto intro: spec_seq [OF status] tidy)
  qed
qed

lemma finish_spec:
  assumes "inert_follow landed drv" and "committing landed drv s"
  shows "spec i (finishLandedAccept env drv i tr) (\<lambda>_. accepted_ok landed) (\<lambda>_. sound landed drv) s"
  unfolding finishLandedAccept_def
proof (rule spec_seq [OF commit_spec [OF assms(2)]])
  fix s1 :: "'a Seen"
  assume s1: "accepted_ok landed s1"
  show "spec i (on_throw (runAcceptFollowThrough env (ad_follow drv) i (Some (with_payer tr)))
      (\<lambda>e. pass (pending_steps (tr_followThrough tr), Some (''follow-through: '' @ message_of env e))))
      (\<lambda>_. accepted_ok landed) (\<lambda>_. sound landed drv) s1"
    by (rule spec_try [OF accepted_follow_through [OF assms(1) s1]])
       (auto intro: spec_pass accepted_sound)
qed (simp add: committing_def)

section \<open>Before the merge\<close>

text \<open>Nothing has landed and nothing is accepted.\<close>

definition idle :: "('g \<Rightarrow> bool) \<Rightarrow> 'g Seen \<Rightarrow> bool" where
  "idle landed s \<longleftrightarrow> \<not> landed (sn_git s) \<and> sn_status s \<noteq> Complete \<and> sn_outcome s \<noteq> Some Accepted \<and>
     sn_meta s ACCEPT_IN_FLIGHT_KEY \<in> set ([] # resting_texts)"

lemma idle_sound: "idle landed s \<Longrightarrow> sound landed drv s"
  by (auto simp: idle_def sound_def)

lemma idle_alike: "alike landed drv s s' \<Longrightarrow> idle landed s' = idle landed s"
  by (simp add: alike_def idle_def)

lemma sound_idle: "sound landed drv s \<Longrightarrow> \<not> landed (sn_git s) \<Longrightarrow> idle landed s"
  by (auto simp: idle_def sound_def)

lemma idle_quiet: "quiet landed drv i m \<Longrightarrow> idle landed s \<Longrightarrow> spec i m (\<lambda>_. idle landed) (\<lambda>_. idle landed) s"
  by (rule spec_mono [OF quietD]) (auto simp: idle_alike)

lemma resting_cases:
  assumes "p \<in> set resting_texts"
  obtains st where "status_of_text p = Some st" "st = Blocked \<or> st = Conflict \<or> st = Submitted" "p \<noteq> []" "p = status_text st"
proof -
  have "p = status_text Blocked \<or> p = status_text Conflict \<or> p = status_text Submitted"
    using assms by (simp add: resting_texts_def)
  moreover have "status_of_text (status_text Blocked) = Some Blocked" "status_of_text (status_text Conflict) = Some Conflict"
    "status_of_text (status_text Submitted) = Some Submitted" by code_simp+
  ultimately show thesis
    using that [of Blocked] that [of Conflict] that [of Submitted] by auto
qed

lemma idle_status:
  "idle landed s \<Longrightarrow> st \<noteq> Complete \<Longrightarrow> st \<noteq> Zombie \<Longrightarrow>
     spec i (write_status env i st actor) (\<lambda>_ s'. idle landed s' \<and> sn_status s' = st \<and>
       sn_meta s' ACCEPT_IN_FLIGHT_KEY = sn_meta s ACCEPT_IN_FLIGHT_KEY) (\<lambda>_. idle landed) s"
  by (rule spec_write_status) (auto simp: idle_def)

lemma idle_prior:
  assumes "idle landed s" and "prior \<in> set resting_texts"
  shows "spec i (write_prior env i prior actor) (\<lambda>_. idle landed) (\<lambda>_. idle landed) s"
proof (rule resting_cases [OF assms(2)])
  fix st
  assume st: "status_of_text prior = Some st" "st = Blocked \<or> st = Conflict \<or> st = Submitted"
  have "spec i (write_status env i st actor) (\<lambda>_. idle landed) (\<lambda>_. idle landed) s"
    by (rule spec_mono [OF idle_status [OF assms(1)]]) (use st(2) in auto)
  then show ?thesis by (simp add: write_prior_def st(1))
qed

lemma idle_clear: "idle landed s \<Longrightarrow> spec i (clearMergeInFlight i) (\<lambda>_. idle landed) (\<lambda>_. idle landed) s"
  by (rule clearMergeInFlight_spec) (auto simp: idle_def settled_def)

lemma idle_container:
  assumes "inert_steps landed drv" and "idle landed s" and p: "prior \<in> set resting_texts"
  shows "spec i (runInAcceptGateContainer env drv i prior) (\<lambda>_. idle landed) (\<lambda>_. idle landed) s"
proof -
  have i: "inert landed drv (ad_gateSetup drv)" "inert landed drv (ad_gateRun drv)" using assms(1) by (simp_all add: inert_steps_def)
  have restore: "spec i (before (write_prior env i prior (Some (Role System))) k) (\<lambda>_. idle landed) (\<lambda>_. idle landed) s1"
    if "quiet landed drv i k" "idle landed s1" for k :: "('a, AcceptGateResult) act" and s1
    by (rule spec_seq [OF idle_prior [OF that(2) p]]) (auto intro: idle_quiet [OF that(1)])
  have outcome: "spec i (case x of GateVerdict gate \<Rightarrow> before (write_prior env i prior (Some (Role System))) (pass gate)
      | GateAborted message \<Rightarrow> before (write_prior env i prior (Some (Role System)))
          (before (add_comment env i message (Role System)) (throw (AcceptRefused (OtherRefusal message)))))
      (\<lambda>_. idle landed) (\<lambda>_. idle landed) s1" if "idle landed s1" for x s1
    using that by (cases x) (auto intro!: restore quiet_rules)
  have gate: "spec i (and_then (at_git (ad_gateRun drv)) (\<lambda>outcome. case outcome of
      GateVerdict gate \<Rightarrow> before (write_prior env i prior (Some (Role System))) (pass gate)
    | GateAborted message \<Rightarrow> before (write_prior env i prior (Some (Role System)))
        (before (add_comment env i message (Role System)) (throw (AcceptRefused (OtherRefusal message))))))
      (\<lambda>_. idle landed) (\<lambda>_. idle landed) s1" if "idle landed s1" for s1
    by (rule spec_bind [OF idle_quiet [OF quiet_at_git [OF i(2)] that]]) (auto intro: outcome)
  have flip: "spec i (write_status env i Working (Some (Role System))) (\<lambda>_. idle landed) (\<lambda>_. idle landed) s1"
    if "idle landed s1" for s1 by (rule spec_mono [OF idle_status [OF that]]) auto
  show ?thesis
    unfolding runInAcceptGateContainer_def
    by (rule spec_seq [OF idle_quiet [OF quiet_at_git [OF i(1)] assms(2)]], rule spec_seq [OF flip])
       (auto intro: gate)
qed

lemma idle_gates:
  assumes "inert_steps landed drv" and "idle landed s" and p: "prior \<in> set resting_texts"
  shows "spec i (launchAcceptanceGate env drv i prior) (\<lambda>_. idle landed) (\<lambda>_. idle landed) s"
    and "spec i (enforceAcceptCheck env drv i prior b) (\<lambda>_. idle landed) (\<lambda>_. idle landed) s"
  unfolding launchAcceptanceGate_def enforceAcceptCheck_def
  by (auto intro!: spec_bind [OF idle_container [OF assms]] spec_pass assms(2) elim!: idle_quiet [rotated] intro!: quiet_rules)

section \<open>The merge phase\<close>

definition in_phase :: "('g \<Rightarrow> bool) \<Rightarrow> bool \<Rightarrow> string \<Rightarrow> 'g Seen \<Rightarrow> bool" where
  "in_phase landed isResume prior s \<longleftrightarrow> sn_status s = Merging \<and> sn_meta s ACCEPT_IN_FLIGHT_KEY = prior \<and>
     prior \<in> set resting_texts \<and> (sn_outcome s = Some Accepted \<longrightarrow> landed (sn_git s)) \<and> (\<not> isResume \<longrightarrow> \<not> landed (sn_git s))"

lemma in_phase_sound: "in_phase landed isResume prior s \<Longrightarrow> sound landed drv s"
  by (auto simp: in_phase_def sound_def resting_texts_def)

lemma in_phase_alike: "alike landed drv s s' \<Longrightarrow> in_phase landed isResume prior s' = in_phase landed isResume prior s"
  by (simp add: alike_def in_phase_def)

lemma in_phase_idle: "in_phase landed False prior s \<Longrightarrow> idle landed s"
  by (auto simp: in_phase_def idle_def)

definition may_begin :: "('g \<Rightarrow> bool) \<Rightarrow> 'g AcceptDriver \<Rightarrow> bool \<Rightarrow> string \<Rightarrow> 'g Seen \<Rightarrow> bool" where
  "may_begin landed drv isResume prior s \<longleftrightarrow> sound landed drv s \<and> prior \<in> set resting_texts \<and>
     (if isResume then sn_status s = Merging \<and> sn_meta s ACCEPT_IN_FLIGHT_KEY = prior else idle landed s)"

lemma may_begin_alike: "alike landed drv s s' \<Longrightarrow> may_begin landed drv isResume prior s' = may_begin landed drv isResume prior s"
  using sound_alike [of landed drv s s'] idle_alike [of landed drv s s'] by (simp add: may_begin_def alike_def)

lemma begin_spec:
  assumes "may_begin landed drv isResume prior s"
  shows "spec i (beginMergePhase env i prior actor intent (\<not> isResume)) (\<lambda>_. in_phase landed isResume prior) (\<lambda>_. sound landed drv) s"
proof -
  have ok: "sound landed drv s'" if "may_begin landed drv isResume prior s'" for s' using that by (simp add: may_begin_def)
  have quietly: "spec i (before m k) Q (\<lambda>_. sound landed drv) s1"
    if "quiet landed drv i m" "may_begin landed drv isResume prior s1"
      "\<And>s2. may_begin landed drv isResume prior s2 \<Longrightarrow> spec i k Q (\<lambda>_. sound landed drv) s2"
    for m :: "('a, unit) act" and k :: "('a, unit) act" and Q s1
    by (rule spec_seq [OF quietD [OF that(1)]]) (use that(2,3) may_begin_alike ok in blast)+
  have status: "spec i (before (write_meta i ACCEPT_IN_FLIGHT_KEY prior) (looking (task_read i t_status Blocked) (\<lambda>live.
      if live = Complete \<or> live = Merging then pass () else write_status env i Merging (Some actor))))
      (\<lambda>_. in_phase landed isResume prior) (\<lambda>_. sound landed drv) s1" if b: "may_begin landed drv isResume prior s1" for s1
  proof (cases isResume)
    case True
    then show ?thesis
      using b by (auto simp: may_begin_def in_phase_def sound_def intro!: spec_rules)
  next
    case False
    have "prior \<in> set resting_texts" "idle landed s1" using b False by (auto simp: may_begin_def)
    then show ?thesis
      using False
      by (auto simp: in_phase_def idle_def intro!: spec_rules idle_sound)
  qed
  show ?thesis
    unfolding beginMergePhase_def
    by (rule quietly [OF _ assms], (intro quiet_rules; simp), rule quietly [OF _ _ status], (intro quiet_rules; simp))
qed

lemma bail_spec:
  assumes "in_phase landed isResume prior s"
  shows "spec i (bail env i prior actor isResume e) Q (\<lambda>_. sound landed drv) s"
proof (cases isResume)
  case True
  then show ?thesis using assms by (auto simp: bail_def intro!: spec_throw in_phase_sound)
next
  case False
  have s: "idle landed s" "prior \<in> set resting_texts" using assms False in_phase_idle by (auto simp: in_phase_def)
  have "spec i (before (write_prior env i prior (Some actor)) (clearMergeInFlight i)) (\<lambda>_. idle landed) (\<lambda>_. idle landed) s"
    by (rule spec_seq [OF idle_prior [OF s]]) (auto intro: idle_clear)
  then have "spec i (abortMergePhase env i prior actor) (\<lambda>_. idle landed) (\<lambda>_. idle landed) s"
    unfolding abortMergePhase_def by (rule spec_try) (auto intro: spec_pass)
  then have "spec i (before (abortMergePhase env i prior actor) (throw e)) Q (\<lambda>_. sound landed drv) s"
    by (rule spec_seq) (auto intro: spec_throw idle_sound)
  then show ?thesis using False by (simp add: bail_def)
qed

text \<open>What is known when the merge has returned.\<close>

definition merge_returned :: "('g \<Rightarrow> bool) \<Rightarrow> 'g AcceptDriver \<Rightarrow> bool \<Rightarrow> string \<Rightarrow> MergeResult \<Rightarrow> 'g Seen \<Rightarrow> bool" where
  "merge_returned landed drv isResume prior result s \<longleftrightarrow> other_keys (mr_metadata result) \<and>
     (case mr_status result of
        MergeDone \<Rightarrow> in_phase landed True prior s \<and> landed (sn_git s)
      | MergePending \<Rightarrow> in_phase landed isResume prior s \<and> (landed (sn_git s) \<longrightarrow> forge_merged drv (sn_git s))
      | MergeFailed \<Rightarrow> in_phase landed isResume prior s)"

lemma merge_returned_alike:
  "alike landed drv s s' \<Longrightarrow> merge_returned landed drv isResume prior result s' = merge_returned landed drv isResume prior result s"
  using in_phase_alike [of landed drv s s'] by (auto simp: merge_returned_def alike_def split: MergeStatus.splits)

lemma in_phase_resume: "in_phase landed isResume prior s \<Longrightarrow> in_phase landed True prior s"
  by (simp add: in_phase_def)

lemma merge_spec:
  assumes "honest_merge landed drv" and "in_phase landed isResume prior s"
  shows "spec i (at_git (ad_merge drv isResume)) (merge_returned landed drv isResume prior)
    (\<lambda>_. in_phase landed isResume prior) s"
proof (rule spec_at_git)
  fix e g
  assume "ad_merge drv isResume (sn_git s) = (Inl e, g)"
  then have "landed g = landed (sn_git s)" using assms(1) unfolding honest_merge_def by blast
  then show "in_phase landed isResume prior (s\<lparr>sn_faults := tl (sn_faults s), sn_git := g\<rparr>)"
    using assms(2) by (simp add: in_phase_def)
next
  fix r g
  assume "ad_merge drv isResume (sn_git s) = (Inr r, g)"
  then have "other_keys (mr_metadata r) \<and> (landed (sn_git s) \<longrightarrow> landed g) \<and> (case mr_status r of
      MergeDone \<Rightarrow> landed g | MergePending \<Rightarrow> landed g = landed (sn_git s) \<and> (landed g \<longrightarrow> forge_merged drv g) | MergeFailed \<Rightarrow> landed g = landed (sn_git s))"
    using assms(1) unfolding honest_merge_def by blast
  then show "merge_returned landed drv isResume prior r (s\<lparr>sn_faults := tl (sn_faults s), sn_git := g\<rparr>)"
    using assms(2) by (auto simp: merge_returned_def in_phase_def split: MergeStatus.splits)
qed (use assms(2) in \<open>simp_all add: in_phase_def\<close>)

definition merge_kept :: "('g \<Rightarrow> bool) \<Rightarrow> 'g AcceptDriver \<Rightarrow> string \<Rightarrow> MergeResult \<Rightarrow> 'g Seen \<Rightarrow> bool" where
  "merge_kept landed drv prior result s \<longleftrightarrow> in_phase landed True prior s \<and>
     (if mr_status result = MergePending then landed (sn_git s) \<longrightarrow> forge_merged drv (sn_git s) else landed (sn_git s))"

lemma attempt_spec:
  assumes h: "honest_merge landed drv" and q: "inert_steps landed drv" and s: "in_phase landed isResume prior s"
  shows "spec i (attempt_merge env drv i prior actor isResume) (merge_kept landed drv prior) (\<lambda>_. sound landed drv) s"
  unfolding attempt_merge_def
proof (rule spec_bind [of _ _ "merge_returned landed drv isResume prior" "\<lambda>_. sound landed drv"])
  let ?P = "\<lambda>_. in_phase landed isResume prior"
  have quietly: "spec i (before m k) (merge_returned landed drv isResume prior) ?P s1"
    if "quiet landed drv i m" "in_phase landed isResume prior s1"
      "\<And>s2. in_phase landed isResume prior s2 \<Longrightarrow> spec i k (merge_returned landed drv isResume prior) ?P s2"
    for m :: "('a, unit) act" and k :: "('a, MergeResult) act" and s1
    by (rule spec_seq [OF quietD [OF that(1)]]) (use that(2,3) in_phase_alike in blast)+
  have i: "inert landed drv (ad_pushTarget drv)" "inert landed drv (ad_describe drv)" using q by (simp_all add: inert_steps_def)
  have "spec i (before (if mergeNeedsSync drv then at_git (ad_pushTarget drv) else pass ())
      (before (at_git (ad_describe drv)) (at_git (ad_merge drv isResume)))) (merge_returned landed drv isResume prior) ?P s"
    by (rule quietly [OF _ s], intro quiet_rules quiet_at_git i, rule quietly [OF quiet_at_git [OF i(2)]])
       (auto intro: merge_spec [OF h])
  then show "spec i (on_throw (before (if mergeNeedsSync drv then at_git (ad_pushTarget drv) else pass ())
      (before (at_git (ad_describe drv)) (at_git (ad_merge drv isResume)))) (bail env i prior actor isResume))
      (merge_returned landed drv isResume prior) (\<lambda>_. sound landed drv) s"
    by (rule spec_try) (auto intro: in_phase_sound bail_spec)
next
  fix result :: MergeResult and s1 :: "'a Seen"
  assume r: "merge_returned landed drv isResume prior result s1"
  have metas: "quiet landed drv i (write_metas i (mr_metadata result))"
    using r by (auto simp: merge_returned_def intro: quiet_write_metas)
  show "spec i (if mr_status result = MergeDone then before (write_metas i (mr_metadata result)) (pass result)
      else on_throw (before (write_metas i (mr_metadata result))
        (if mr_status result = MergeFailed then throw (merge_failure result) else pass result)) (bail env i prior actor isResume))
      (merge_kept landed drv prior) (\<lambda>_. sound landed drv) s1"
  proof (cases "mr_status result")
    case MergeDone
    have kept: "merge_kept landed drv prior result s2" if "alike landed drv s1 s2" for s2
      using r merge_returned_alike [OF that, of isResume prior result] MergeDone by (simp add: merge_kept_def merge_returned_def)
    have "spec i (before (write_metas i (mr_metadata result)) (pass result)) (merge_kept landed drv prior) (\<lambda>_. sound landed drv) s1"
      by (rule spec_seq [OF quietD [OF metas]])
         (use kept in \<open>auto intro!: spec_pass in_phase_sound [of landed True prior] simp: merge_kept_def\<close>)
    then show ?thesis using MergeDone by simp
  next
    case MergePending
    have kept: "merge_kept landed drv prior result s2" and phase: "in_phase landed isResume prior s2" if "alike landed drv s1 s2" for s2
      using r merge_returned_alike [OF that, of isResume prior result] MergePending in_phase_resume
      by (auto simp: merge_kept_def merge_returned_def)
    have "spec i (before (write_metas i (mr_metadata result)) (pass result)) (merge_kept landed drv prior)
        (\<lambda>_. in_phase landed isResume prior) s1"
      by (rule spec_seq [OF quietD [OF metas]]) (auto intro!: spec_pass kept phase)
    then have "spec i (on_throw (before (write_metas i (mr_metadata result)) (pass result)) (bail env i prior actor isResume))
        (merge_kept landed drv prior) (\<lambda>_. sound landed drv) s1"
      by (rule spec_try) (auto intro: in_phase_sound bail_spec)
    then show ?thesis using MergePending by simp
  next
    case MergeFailed
    have kept: "in_phase landed isResume prior s2" if "alike landed drv s1 s2" for s2
      using r merge_returned_alike [OF that, of isResume prior result] MergeFailed by (simp add: merge_returned_def)
    have "spec i (before (write_metas i (mr_metadata result)) (throw (merge_failure result))) (\<lambda>_ _. False)
        (\<lambda>_. in_phase landed isResume prior) s1"
      by (rule spec_seq [OF quietD [OF metas]]) (auto intro!: spec_throw kept)
    then have "spec i (on_throw (before (write_metas i (mr_metadata result)) (throw (merge_failure result))) (bail env i prior actor isResume))
        (merge_kept landed drv prior) (\<lambda>_. sound landed drv) s1"
      by (rule spec_try) (auto intro: in_phase_sound bail_spec)
    then show ?thesis using MergeFailed by simp
  qed
qed simp

lemma clear_committed:
  "in_phase landed True prior s \<Longrightarrow> (landed (sn_git s) \<longrightarrow> forge_merged drv (sn_git s)) \<Longrightarrow>
     spec i (clearMergeInFlight i) (\<lambda>_. sound landed drv) (\<lambda>_. sound landed drv) s"
  by (rule clearMergeInFlight_spec) (auto simp: in_phase_def sound_def settled_def)

lemma sound_quiet: "quiet landed drv i m \<Longrightarrow> sound landed drv s \<Longrightarrow> spec i m (\<lambda>_. sound landed drv) (\<lambda>_. sound landed drv) s"
  by (rule spec_mono [OF quietD]) (auto simp: sound_alike)

lemma finish_sound:
  assumes "inert_follow landed drv" and "committing landed drv s"
  shows "spec i (and_then (finishLandedAccept env drv i tr) (\<lambda>x. pass (f x))) (\<lambda>_. sound landed drv) (\<lambda>_. sound landed drv) s"
  by (rule spec_bind [OF finish_spec [OF assms]]) (auto intro: spec_pass accepted_sound)

lemma merge_phase_spec:
  assumes f: "inert_follow landed drv" and q: "inert_steps landed drv" and h: "honest_merge landed drv"
    and s: "may_begin landed drv isResume prior s"
  shows "spec i (merge_phase env drv i prior intent actor commentActor isResume mirror)
    (\<lambda>_. sound landed drv) (\<lambda>_. sound landed drv) s"
  unfolding merge_phase_def
proof (rule spec_seq [OF begin_spec [OF s]])
  fix s1 :: "'a Seen"
  assume s1: "in_phase landed isResume prior s1"
  show "spec i (and_then (attempt_merge env drv i prior actor isResume) (\<lambda>result.
      if mr_status result = MergePending
      then before (clearMergeInFlight i) (before (add_comment env i (accepted_comment (ai_reason intent)) actor)
             (before (clearPendingAcceptReview i) (pass AcceptPending)))
      else looking (\<lambda>w. ad_targetSha drv (aw_git w)) (\<lambda>sha.
        and_then (finishLandedAccept env drv i
            \<lparr>tr_reason = ai_reason intent, tr_actor = actor, tr_commentActor = commentActor, tr_writeComment = True,
             tr_dedupeComment = isResume,
             tr_followThrough = owed (ad_followTarget drv) (mergeNeedsSync drv) (useLocalMerge drv \<or> mirror)
               (ad_closeReviewOwed drv (\<not> mergeNeedsSync drv)) (if mergeNeedsSync drv then None else sha)\<rparr>)
          (\<lambda>x. pass (merged x))))) (\<lambda>_. sound landed drv) (\<lambda>_. sound landed drv) s1"
  proof (rule spec_bind [OF attempt_spec [OF h q s1]])
    fix result :: MergeResult and s2 :: "'a Seen"
    assume r: "merge_kept landed drv prior result s2"
    have phase: "in_phase landed True prior s2" using r by (simp add: merge_kept_def)
    have pending: "spec i (before (clearMergeInFlight i) (before (add_comment env i (accepted_comment (ai_reason intent)) actor)
        (before (clearPendingAcceptReview i) (pass AcceptPending)))) (\<lambda>_. sound landed drv) (\<lambda>_. sound landed drv) s2"
      if "mr_status result = MergePending"
      by (rule spec_seq [OF clear_committed [OF phase]])
         (use r that in \<open>auto simp: merge_kept_def intro!: sound_quiet quiet_rules\<close>)
    have landed: "committing landed drv s2" if "mr_status result \<noteq> MergePending"
      using r that in_phase_sound [OF phase] by (simp add: merge_kept_def committing_def)
    show "spec i (if mr_status result = MergePending
        then before (clearMergeInFlight i) (before (add_comment env i (accepted_comment (ai_reason intent)) actor)
               (before (clearPendingAcceptReview i) (pass AcceptPending)))
        else looking (\<lambda>w. ad_targetSha drv (aw_git w)) (\<lambda>sha.
          and_then (finishLandedAccept env drv i
              \<lparr>tr_reason = ai_reason intent, tr_actor = actor, tr_commentActor = commentActor, tr_writeComment = True,
               tr_dedupeComment = isResume,
               tr_followThrough = owed (ad_followTarget drv) (mergeNeedsSync drv) (useLocalMerge drv \<or> mirror)
                 (ad_closeReviewOwed drv (\<not> mergeNeedsSync drv)) (if mergeNeedsSync drv then None else sha)\<rparr>)
            (\<lambda>x. pass (merged x)))) (\<lambda>_. sound landed drv) (\<lambda>_. sound landed drv) s2"
      using pending by (auto intro!: spec_read_git [where f = "ad_targetSha drv"] finish_sound [OF f landed])
  qed simp
qed simp

section \<open>A merge the forge owns\<close>

definition forge_owned :: "('g \<Rightarrow> bool) \<Rightarrow> 'g AcceptDriver \<Rightarrow> 'g Seen \<Rightarrow> bool" where
  "forge_owned landed drv s \<longleftrightarrow> sound landed drv s \<and> sn_status s = Merging \<and> sn_meta s ACCEPT_IN_FLIGHT_KEY = []"

lemma parked_resting: "parked_status i drv w \<in> {Blocked, Conflict}"
  by (auto simp: parked_status_def pausedStatusFor_def Let_def split: option.splits)

lemma park_spec:
  assumes "idle landed s"
  shows "spec i (parkTaskPaused env drv i actor) (\<lambda>_. idle landed) (\<lambda>_. idle landed) s"
proof -
  have "spec i (write_status env i st (Some actor)) (\<lambda>_. idle landed) (\<lambda>_. idle landed) s" if "st \<in> {Blocked, Conflict}" for st
    by (rule spec_mono [OF idle_status [OF assms]]) (use that in auto)
  then show ?thesis
    unfolding parkTaskPaused_def spec_def wp_looking using parked_resting [of i drv] by blast
qed

lemma asks_spec:
  assumes "\<And>e. f (sn_git s) = Inl e \<Longrightarrow> E (Threw (GitFailed e)) s" and "\<And>x. f (sn_git s) = Inr x \<Longrightarrow> spec i (k x) Q E s"
  shows "spec i (asks f k) Q E s"
  unfolding asks_def by (rule spec_read_git [where f = f]) (auto split: sum.split intro!: spec_throw assms)

lemma wrong_base_spec:
  "sound landed drv s \<Longrightarrow> (\<And>s'. s' = s \<Longrightarrow> spec i k (\<lambda>_. sound landed drv) (\<lambda>_. sound landed drv) s') \<Longrightarrow>
     spec i (before (refuseWrongReviewBase drv) k) (\<lambda>_. sound landed drv) (\<lambda>_. sound landed drv) s"
  unfolding refuseWrongReviewBase_def refuse_def
  by (rule spec_before, rule asks_spec) (auto intro!: spec_rules split: option.split)

lemma retry_forge_spec:
  assumes f: "inert_follow landed drv" and h: "honest_forge landed drv" and s: "forge_owned landed drv s"
  shows "spec i (retry_forge_merge env drv i reason actor) (\<lambda>_. sound landed drv) (\<lambda>_. sound landed drv) s"
  unfolding retry_forge_merge_def
proof (rule wrong_base_spec)
  show "sound landed drv s" using s by (simp add: forge_owned_def)
  let ?I = "\<lambda>_. sound landed drv"
  let ?R = "\<lambda>r s'. sound landed drv s' \<and> other_keys (mr_metadata r) \<and> (mr_status r = MergeDone \<longrightarrow> landed (sn_git s'))"
  have after: "sound landed drv (s\<lparr>sn_faults := tl (sn_faults s), sn_git := g\<rparr>) \<and>
      (\<forall>x. r = Inr x \<longrightarrow> other_keys (mr_metadata x) \<and> (mr_status x = MergeDone \<longrightarrow> landed g))"
    if "ad_remoteMerge drv (sn_git s) = (r, g)" for r g
  proof -
    have "(landed (sn_git s) \<longrightarrow> landed g) \<and> (forge_merged drv (sn_git s) \<longrightarrow> forge_merged drv g) \<and>
        (landed g \<longrightarrow> landed (sn_git s) \<or> forge_merged drv g) \<and>
        (\<forall>x. r = Inr x \<longrightarrow> other_keys (mr_metadata x) \<and> (mr_status x = MergeDone \<longrightarrow> landed g))"
      using h that unfolding honest_forge_def by blast
    then show ?thesis using s by (auto simp: forge_owned_def sound_def)
  qed
  have merge: "spec i (at_git (ad_remoteMerge drv)) ?R ?I s"
    by (rule spec_at_git) (use s after in \<open>auto simp: forge_owned_def sound_def\<close>)
  fix s' :: "'a Seen"
  assume "s' = s"
  moreover have "spec i (and_then (at_git (ad_remoteMerge drv)) (\<lambda>retry. before (write_metas i (mr_metadata retry))
      (case mr_status retry of
         MergeDone \<Rightarrow> and_then (finishLandedAccept env drv i (forge_transition drv reason actor)) (\<lambda>x. pass (merged x))
       | MergePending \<Rightarrow> pass AcceptPending
       | MergeFailed \<Rightarrow> throw (GitFailed (mr_error retry))))) ?I ?I s"
  proof (rule spec_bind [OF merge])
    fix retry :: MergeResult and s1 :: "'a Seen"
    assume r: "?R retry s1"
    show "spec i (before (write_metas i (mr_metadata retry)) (case mr_status retry of
         MergeDone \<Rightarrow> and_then (finishLandedAccept env drv i (forge_transition drv reason actor)) (\<lambda>x. pass (merged x))
       | MergePending \<Rightarrow> pass AcceptPending
       | MergeFailed \<Rightarrow> throw (GitFailed (mr_error retry)))) ?I ?I s1"
    proof (rule spec_seq [OF quietD [OF quiet_write_metas]])
      fix s2 :: "'a Seen"
      assume a: "alike landed drv s1 s2"
      then have "sound landed drv s2" "mr_status retry = MergeDone \<Longrightarrow> committing landed drv s2"
        using r sound_alike [OF a] by (auto simp: committing_def alike_def)
      then show "spec i (case mr_status retry of
           MergeDone \<Rightarrow> and_then (finishLandedAccept env drv i (forge_transition drv reason actor)) (\<lambda>x. pass (merged x))
         | MergePending \<Rightarrow> pass AcceptPending
         | MergeFailed \<Rightarrow> throw (GitFailed (mr_error retry))) ?I ?I s2"
        by (cases "mr_status retry") (auto intro: finish_sound [OF f] spec_pass spec_throw)
    qed (use r in \<open>auto simp: sound_alike\<close>)
  qed simp
  ultimately show "spec i (and_then (at_git (ad_remoteMerge drv)) (\<lambda>retry. before (write_metas i (mr_metadata retry))
      (case mr_status retry of
         MergeDone \<Rightarrow> and_then (finishLandedAccept env drv i (forge_transition drv reason actor)) (\<lambda>x. pass (merged x))
       | MergePending \<Rightarrow> pass AcceptPending
       | MergeFailed \<Rightarrow> throw (GitFailed (mr_error retry))))) ?I ?I s'"
    by simp
qed

lemma reenter_spec:
  assumes f: "inert_follow landed drv" and h: "honest_forge landed drv" and s: "forge_owned landed drv s"
  shows "spec i (reenter_forge_merge env drv i reason actor) (\<lambda>_. sound landed drv) (\<lambda>_. sound landed drv) s"
proof -
  have landed: "committing landed drv s" if "forge_merged drv (sn_git s)"
    using s h that by (simp add: forge_owned_def committing_def honest_forge_def)
  have idle: "idle landed s" if "\<not> forge_merged drv (sn_git s)"
    using s that by (auto simp: forge_owned_def sound_def idle_def)
  have failed: "spec i (before (parkTaskPaused env drv i actor) (before (add_comment env i words actor)
      (throw e))) (\<lambda>_. sound landed drv) (\<lambda>_. sound landed drv) s"
    if "\<not> forge_merged drv (sn_git s)" for e words
    by (rule spec_seq [OF park_spec [OF idle [OF that]]])
       (auto intro!: sound_quiet quiet_rules idle_sound)
  have sound: "sound landed drv s" using s by (simp add: forge_owned_def)
  show ?thesis
    unfolding reenter_forge_merge_def
    by (rule spec_read_git [where f = "fd_prState (ad_follow drv)"])
       (auto simp: forge_merged_def [symmetric] sound
         intro!: wrong_base_spec finish_sound [OF f landed] spec_throw spec_pass failed retry_forge_spec [OF f h s]
           spec_read_git [where f = "ad_checks drv"] split: ChecksStatus.split)
qed

section \<open>A whole run\<close>

lemma interrupted_spec:
  assumes "inert_follow landed drv" and "committing landed drv s"
  shows "spec i (and_then (finishInterruptedTransition env drv i actor given) (\<lambda>x. pass (Some x)))
    (\<lambda>_. sound landed drv) (\<lambda>_. sound landed drv) s"
  unfolding finishInterruptedTransition_def Let_def
  by (rule spec_and_then, rule spec_task_read)
     (auto intro!: spec_mono [OF finish_spec [OF assms]] spec_pass accepted_sound)

text \<open>\<open>acceptWorkLanded\<close> answers \<open>landed\<close> only for work that is there.\<close>

definition told :: "('g \<Rightarrow> bool) \<Rightarrow> 'g AcceptDriver \<Rightarrow> 'g Seen \<Rightarrow> (LandedWhere \<times> string) option \<Rightarrow> 'g Seen \<Rightarrow> bool" where
  "told landed drv s answer s' \<longleftrightarrow> alike landed drv s s' \<and> (answer = None \<or> landed (sn_git s'))"

lemma told_None: "alike landed drv s s' \<Longrightarrow> told landed drv s None s'"
  and told_landed: "alike landed drv s s' \<Longrightarrow> landed (sn_git s') \<Longrightarrow> told landed drv s answer s'"
  by (simp_all add: told_def)

lemma work_landed_spec:
  assumes q: "inert_follow landed drv" "inert_steps landed drv" and h: "honest_trees landed drv"
  shows "spec i (acceptWorkLanded drv i) (told landed drv s) (\<lambda>e s'. e = Killed \<and> alike landed drv s s') s"
proof -
  have i: "inert landed drv (fd_resolve (ad_follow drv) t)" "inert landed drv (ad_fetch drv t)" for t
    using q by (simp_all add: inert_follow_def inert_steps_def)
  have remote: "spec i (landed_on_remote drv branch target) (told landed drv s) (\<lambda>_. alike landed drv s) s1"
    if a: "alike landed drv s s1" for branch target s1
  proof -
    have answer: "spec i (asks (only_if there (ad_alreadyIn drv branch (remote_ref drv target))) (\<lambda>landed.
        pass (if landed then Some (LandedRemote, target) else None))) (told landed drv s) (\<lambda>_. alike landed drv s) s2"
      if "alike landed drv s s2" for there s2
      using that h by (intro asks_spec spec_pass) (auto simp: only_if_def honest_trees_def intro: told_None told_landed split: if_splits)
    show ?thesis
    proof (cases "ad_remoteConfigured drv")
      case True
      have "spec i (and_then (at_git (ad_fetch drv target)) (\<lambda>fetched. asks (ad_exists drv (remote_ref drv target)) (\<lambda>there.
          asks (only_if there (ad_alreadyIn drv branch (remote_ref drv target))) (\<lambda>landed.
             pass (if landed then Some (LandedRemote, target) else None))))) (told landed drv s) (\<lambda>_. alike landed drv s) s1"
        by (rule spec_bind [OF quietD [OF quiet_at_git [OF i(2)]]])
           (auto intro!: asks_spec [of "ad_exists drv r" for r] answer intro: alike_trans [OF a])
      then show ?thesis using True by (simp add: landed_on_remote_def)
    next
      case False
      then show ?thesis using a by (auto simp: landed_on_remote_def intro: spec_pass told_None)
    qed
  qed
  have local: "spec i (asks (ad_exists drv target) (\<lambda>here. asks (only_if here (ad_netEmpty drv branch target)) (\<lambda>empty.
      if empty then pass None
      else asks (only_if here (ad_alreadyIn drv branch target)) (\<lambda>landed.
        if landed then pass (Some (LandedLocal, target)) else landed_on_remote drv branch target))))
      (told landed drv s) (\<lambda>_. alike landed drv s) s1"
    if a: "alike landed drv s s1" for branch target s1
    using a h by (auto intro!: asks_spec spec_pass remote told_None told_landed simp: only_if_def honest_trees_def split: if_splits)
  have whole: "spec i (looking (\<lambda>w. getSessionByTaskId (aw_store w) i) (\<lambda>sess.
      let branch = (case sess of None \<Rightarrow> [] | Some s \<Rightarrow> s_git_branch s)
      in if branch = [] then pass None
         else asks (ad_exists drv branch) (\<lambda>exists.
           if \<not> exists then pass None
           else and_then (at_git (fd_resolve (ad_follow drv) (ad_acceptTarget drv))) (\<lambda>target.
             asks (ad_exists drv target) (\<lambda>here.
               asks (only_if here (ad_netEmpty drv branch target)) (\<lambda>empty.
                 if empty then pass None
                 else asks (only_if here (ad_alreadyIn drv branch target)) (\<lambda>landed.
                   if landed then pass (Some (LandedLocal, target)) else landed_on_remote drv branch target)))))))
      (told landed drv s) (\<lambda>_. alike landed drv s) s"
    by (rule spec_read_session)
       (auto simp: Let_def intro!: asks_spec [of "ad_exists drv b" for b] spec_pass told_None
          spec_bind [OF quietD [OF quiet_at_git [OF i(1)]] local])
  show ?thesis
    unfolding acceptWorkLanded_def by (rule spec_try [OF whole]) (auto intro: spec_pass told_None)
qed

lemma finish_dead_spec:
  assumes h: "honest landed drv" and s: "sound landed drv s"
  shows "spec i (finish_dead_accept env drv i actor)
    (\<lambda>x s'. sound landed drv s' \<and> (x = None \<longrightarrow> alike landed drv s s')) (\<lambda>_. sound landed drv) s"
proof -
  have p: "inert_follow landed drv" "inert_steps landed drv" "honest_trees landed drv" using h by (simp_all add: honest_def)
  let ?Q = "\<lambda>x s'. sound landed drv s' \<and> (x = None \<longrightarrow> alike landed drv s s')"
  have interrupted: "spec i (and_then (finishInterruptedTransition env drv i actor given) (\<lambda>x. pass (Some x))) ?Q (\<lambda>_. sound landed drv) s1"
    if "committing landed drv s1" for given s1
    unfolding finishInterruptedTransition_def Let_def
    by (rule spec_and_then, rule spec_task_read)
       (auto intro!: spec_mono [OF finish_spec [OF p(1) that]] spec_pass accepted_sound)
  have trees: "spec i (and_then (acceptWorkLanded drv i) (\<lambda>landed. case landed of
        None \<Rightarrow> pass None
      | Some (place, target) \<Rightarrow> looking (\<lambda>w. landed_pushes_parent drv place target (aw_git w)) (\<lambda>push.
          and_then (finishInterruptedTransition env drv i actor
              (Some (owed (ad_acceptTarget drv) (place = LandedRemote) push (ad_closeReviewOwed drv (place = LandedLocal)) None)))
            (\<lambda>x. pass (Some x))))) ?Q (\<lambda>_. sound landed drv) s"
  proof (rule spec_bind [OF work_landed_spec [OF p]])
    fix x :: "(LandedWhere \<times> string) option" and s1 :: "'a Seen"
    assume x: "told landed drv s x s1"
    have a: "alike landed drv s s1" using x by (simp add: told_def)
    have "sound landed drv s1" using sound_alike [OF a] s by simp
    moreover have "committing landed drv s1" if "x = Some p" for p using x that calculation by (simp add: committing_def told_def)
    ultimately show "spec i (case x of None \<Rightarrow> pass None
      | Some (place, target) \<Rightarrow> looking (\<lambda>w. landed_pushes_parent drv place target (aw_git w)) (\<lambda>push.
          and_then (finishInterruptedTransition env drv i actor
              (Some (owed (ad_acceptTarget drv) (place = LandedRemote) push (ad_closeReviewOwed drv (place = LandedLocal)) None)))
            (\<lambda>x. pass (Some x)))) ?Q (\<lambda>_. sound landed drv) s1"
      using a by (auto intro!: spec_pass interrupted spec_read_git [where f = "landed_pushes_parent drv a b" for a b]
        split: option.split)
  qed (use s sound_alike in blast)
  have accepted: "committing landed drv s" if "sn_outcome s = Some Accepted"
    using s that by (simp add: committing_def sound_def)
  have dead: "spec i (looking (\<lambda>w. getSessionByTaskId (aw_store w) i) (\<lambda>sess.
      if (case sess of None \<Rightarrow> False | Some s \<Rightarrow> s_outcome s = Some Accepted)
      then and_then (finishInterruptedTransition env drv i actor None) (\<lambda>x. pass (Some x))
      else and_then (acceptWorkLanded drv i) (\<lambda>landed. case landed of
          None \<Rightarrow> pass None
        | Some (place, target) \<Rightarrow> looking (\<lambda>w. landed_pushes_parent drv place target (aw_git w)) (\<lambda>push.
            and_then (finishInterruptedTransition env drv i actor
                (Some (owed (ad_acceptTarget drv) (place = LandedRemote) push (ad_closeReviewOwed drv (place = LandedLocal)) None)))
              (\<lambda>x. pass (Some x)))))) ?Q (\<lambda>_. sound landed drv) s"
    by (rule spec_read_session) (use interrupted [OF accepted] trees in auto)
  show ?thesis
    unfolding finish_dead_accept_def
  proof (rule spec_task_read)
    fix t :: Task
    show "spec i (if \<not> (t_status t = Merging \<and> accept_in_flight t) then pass None
        else looking (\<lambda>w. getSessionByTaskId (aw_store w) i) (\<lambda>sess.
          if (case sess of None \<Rightarrow> False | Some s \<Rightarrow> s_outcome s = Some Accepted)
          then and_then (finishInterruptedTransition env drv i actor None) (\<lambda>x. pass (Some x))
          else and_then (acceptWorkLanded drv i) (\<lambda>landed. case landed of
              None \<Rightarrow> pass None
            | Some (place, target) \<Rightarrow> looking (\<lambda>w. landed_pushes_parent drv place target (aw_git w)) (\<lambda>push.
                and_then (finishInterruptedTransition env drv i actor
                    (Some (owed (ad_acceptTarget drv) (place = LandedRemote) push (ad_closeReviewOwed drv (place = LandedLocal)) None)))
                  (\<lambda>x. pass (Some x)))))) ?Q (\<lambda>_. sound landed drv) s"
      using dead s by (auto intro: spec_pass)
  qed
qed

lemma accept_kind_simps:
  "accept_kind st m = FreshAccept \<longleftrightarrow> st \<noteq> Merging" "accept_kind st m = DeadAccept \<longleftrightarrow> st = Merging \<and> m \<noteq> []"
  "accept_kind st m = ForgeAccept \<longleftrightarrow> st = Merging \<and> m = []"
  by (auto simp: accept_kind_def)

text \<open>What a run knows of the task it goes on with.\<close>

definition begun_as :: "('g \<Rightarrow> bool) \<Rightarrow> 'g AcceptDriver \<Rightarrow> AcceptKind \<Rightarrow> string \<Rightarrow> 'g Seen \<Rightarrow> bool" where
  "begun_as landed drv kind prior s \<longleftrightarrow>
     (case kind of
        ForgeAccept \<Rightarrow> forge_owned landed drv s
      | DeadAccept \<Rightarrow> may_begin landed drv True prior s
      | FreshAccept \<Rightarrow> idle landed s \<and> prior \<in> set resting_texts)"

lemma begun_alike: "alike landed drv s s' \<Longrightarrow> begun_as landed drv kind prior s' = begun_as landed drv kind prior s"
  using may_begin_alike [of landed drv s s'] idle_alike [of landed drv s s'] sound_alike [of landed drv s s']
  by (auto simp: begun_as_def forge_owned_def alike_def split: AcceptKind.splits)

lemma begun_sound: "begun_as landed drv kind prior s \<Longrightarrow> sound landed drv s"
  by (auto simp: begun_as_def forge_owned_def may_begin_def idle_sound split: AcceptKind.splits)

lemma begun:
  assumes "sound landed drv s" and "status_guard (sn_status s) = None"
  shows "begun_as landed drv (accept_kind (sn_status s) (sn_meta s ACCEPT_IN_FLIGHT_KEY))
    (prior_status (sn_status s) (sn_meta s ACCEPT_IN_FLIGHT_KEY)) s"
proof (cases "sn_status s = Merging")
  case True
  then show ?thesis using assms(1)
    by (auto simp: begun_as_def accept_kind_def prior_status_def forge_owned_def may_begin_def sound_def)
next
  case False
  then have b: "isBlockedStatus (sn_status s)" using assms(2) by (auto simp: status_guard_def split: if_splits)
  have "\<not> landed (sn_git s)" using assms(1) False b by (auto simp: sound_def isBlockedStatus_def)
  moreover have "prior_status (sn_status s) (sn_meta s ACCEPT_IN_FLIGHT_KEY) \<in> set resting_texts"
    using assms(1) b by (auto simp: prior_status_def sound_def resting_texts_def isBlockedStatus_def)
  ultimately show ?thesis
    using False sound_idle [OF assms(1)] by (simp add: begun_as_def accept_kind_def)
qed

lemma refuse_simps: "refuse None = pass ()" "refuse (Some r) = throw (AcceptRefused r)"
  by (simp_all add: refuse_def)

lemma accept_as_spec:
  assumes h: "honest landed drv" and s: "begun_as landed drv kind prior s"
  shows "spec i (accept_as env drv i ps kind prior) (\<lambda>_. sound landed drv) (\<lambda>_. sound landed drv) s"
proof -
  let ?I = "\<lambda>_. sound landed drv"
  have p: "inert_follow landed drv" "inert_steps landed drv" "honest_merge landed drv" "honest_forge landed drv"
    using h by (simp_all add: honest_def)
  have prepared: "spec i (prepare env drv i stage kind) (\<lambda>_. begun_as landed drv kind prior) (\<lambda>_. sound landed drv) s1"
    if b: "begun_as landed drv kind prior s1" for stage s1
    by (rule spec_mono [OF quietD [OF quiet_prepare [OF p(2)]]]) (use b begun_alike begun_sound in blast)+
  have gates: "spec i (if kind = FreshAccept then enforceAcceptCheck env drv i prior b else pass ())
      (\<lambda>_. begun_as landed drv kind prior) (\<lambda>_. sound landed drv) s1"
    "spec i (if kind = FreshAccept then launchAcceptanceGate env drv i prior else pass ())
      (\<lambda>_. begun_as landed drv kind prior) (\<lambda>_. sound landed drv) s1"
    if "begun_as landed drv kind prior s1" for s1 b
    using that by (auto simp: begun_as_def intro: spec_pass spec_mono [OF idle_gates(1) [OF p(2)]] spec_mono [OF idle_gates(2) [OF p(2)]] idle_sound)
  have phase: "spec i (merge_phase env drv i prior intent a c (kind = DeadAccept) mirror) ?I ?I s1"
    if "begun_as landed drv kind prior s1" "kind \<noteq> ForgeAccept" for s1 intent a c mirror
  proof (rule merge_phase_spec [OF p(1-3)])
    show "may_begin landed drv (kind = DeadAccept) prior s1"
      using that by (cases kind) (auto simp: begun_as_def may_begin_def idle_sound)
  qed
  have rest: "spec i (before (if kind = FreshAccept then enforceAcceptCheck env drv i prior (ap_allowBroken ps) else pass ())
      (before (if kind = FreshAccept then launchAcceptanceGate env drv i prior else pass ())
        (before (prepare env drv i PublishStage kind)
          (merge_phase env drv i prior intent a c (kind = DeadAccept) mirror)))) ?I ?I s1"
    if b: "begun_as landed drv kind prior s1" and k: "kind \<noteq> ForgeAccept" for s1 intent a c mirror
    by (rule spec_seq [OF gates(1) [OF b]], rule spec_seq [OF gates(2)], assumption, rule spec_seq [OF prepared], assumption)
       (auto intro: phase [OF _ k])
  have forge: "spec i (reenter_forge_merge env drv i reason a) ?I ?I s1"
    if "begun_as landed drv kind prior s1" "kind = ForgeAccept" for s1 reason a
    by (rule reenter_spec [OF p(1,4)]) (use that in \<open>simp add: begun_as_def\<close>)
  show ?thesis
    unfolding accept_as_def Let_def
  proof (rule spec_seq [OF prepared [OF s]], rule spec_task_read)
    fix s1 :: "'a Seen" and t
    assume b: "begun_as landed drv kind prior s1"
    let ?stored = "readAcceptIntent (ae_readIntent env) t"
    let ?intent = "case if kind = DeadAccept then ?stored else None of None \<Rightarrow> fresh_intent ps | Some n \<Rightarrow> n"
    let ?actor = "case if kind = DeadAccept then ?stored else None of None \<Rightarrow> ap_actor ps | Some n \<Rightarrow> ai_actor n"
    show "spec i (if kind = ForgeAccept then reenter_forge_merge env drv i (ap_reason ps) (ap_actor ps)
        else looking (\<lambda>w. \<not> fd_needsSync (ad_follow drv) \<and> ad_pushesMirror drv (aw_git w)) (\<lambda>mirror.
          before (if kind = FreshAccept then enforceAcceptCheck env drv i prior (ap_allowBroken ps) else pass ())
            (before (if kind = FreshAccept then launchAcceptanceGate env drv i prior else pass ())
              (before (prepare env drv i PublishStage kind)
                (merge_phase env drv i prior ?intent (ap_actor ps) ?actor (kind = DeadAccept) mirror))))) ?I ?I s1"
      using forge [OF b] rest [OF b]
      by (auto intro!: spec_read_git [where f = "\<lambda>g. \<not> fd_needsSync (ad_follow drv) \<and> ad_pushesMirror drv g"])
  qed simp
qed

lemma accept_spec:
  assumes h: "honest landed drv" and s: "sound landed drv s"
  shows "spec i (acceptTask env drv i ps) (\<lambda>_. sound landed drv) (\<lambda>_. sound landed drv) s"
proof -
  let ?I = "\<lambda>_. sound landed drv"
  have q: "inert_steps landed drv" using h by (simp add: honest_def)
  have go_on: "spec i (before (prepare env drv i WorktreeStage (accept_kind (sn_status s1) (sn_meta s1 ACCEPT_IN_FLIGHT_KEY)))
      (before (refuse (status_guard (sn_status s1)))
        (accept_as env drv i ps (accept_kind (sn_status s1) (sn_meta s1 ACCEPT_IN_FLIGHT_KEY))
          (prior_status (sn_status s1) (sn_meta s1 ACCEPT_IN_FLIGHT_KEY))))) ?I ?I s1"
    if s1: "sound landed drv s1" for s1
  proof (rule spec_seq [OF quietD [OF quiet_prepare [OF q]]])
    fix s2 :: "'a Seen"
    assume a: "alike landed drv s1 s2"
    have s2: "sound landed drv s2" using sound_alike [OF a] s1 by simp
    have same: "sn_status s1 = sn_status s2" "sn_meta s1 ACCEPT_IN_FLIGHT_KEY = sn_meta s2 ACCEPT_IN_FLIGHT_KEY"
      using a by (simp_all add: alike_def)
    show "spec i (before (refuse (status_guard (sn_status s1)))
        (accept_as env drv i ps (accept_kind (sn_status s1) (sn_meta s1 ACCEPT_IN_FLIGHT_KEY))
          (prior_status (sn_status s1) (sn_meta s1 ACCEPT_IN_FLIGHT_KEY)))) ?I ?I s2"
      unfolding same refuse_def using s2
      by (cases "status_guard (sn_status s2)") (auto intro!: spec_before spec_pass spec_throw accept_as_spec [OF h] begun)
  qed (use s1 sound_alike in blast)
  have run: "spec i (looking (\<lambda>w. getSessionByTaskId (aw_store w) i) (\<lambda>sess. before (refuse (session_guard sess))
      (looking (task_read i (\<lambda>t. Some (t_status t, metadata_view t ACCEPT_IN_FLIGHT_KEY)) None) (\<lambda>seen_now.
        case seen_now of
          None \<Rightarrow> throw (StoreThrew (TaskNotFound i))
        | Some (status, marker) \<Rightarrow> before (prepare env drv i WorktreeStage (accept_kind status marker))
            (before (refuse (status_guard status)) (accept_as env drv i ps (accept_kind status marker) (prior_status status marker)))))))
      ?I ?I s1" if s1: "sound landed drv s1" for s1
  proof (rule spec_read_session)
    fix ss :: Session
    show "spec i (before (refuse (session_guard (Some ss)))
        (looking (task_read i (\<lambda>t. Some (t_status t, metadata_view t ACCEPT_IN_FLIGHT_KEY)) None) (\<lambda>seen_now.
          case seen_now of
            None \<Rightarrow> throw (StoreThrew (TaskNotFound i))
          | Some (status, marker) \<Rightarrow> before (prepare env drv i WorktreeStage (accept_kind status marker))
              (before (refuse (status_guard status)) (accept_as env drv i ps (accept_kind status marker) (prior_status status marker))))))
        ?I ?I s1"
    proof (cases "session_guard (Some ss)")
      case None
      show ?thesis
        unfolding None refuse_simps
        by (rule spec_before, rule spec_pass, rule spec_task_read) (use go_on [OF s1] in auto)
    next
      case (Some r)
      show ?thesis
        unfolding Some refuse_simps by (rule spec_before, rule spec_throw) (rule s1)
    qed
  qed
  show ?thesis
    unfolding acceptTask_def
    by (rule spec_bind [OF finish_dead_spec [OF h s]]) (auto intro!: spec_pass run split: option.split)
qed

end
