(* ===== verification/AcceptResume.thy ===== *)
theory AcceptResume
  imports AcceptSafe
begin

text \<open>
  Tasks stranded in \<open>merging\<close> (\<open>src/src/daemon/stranded-merge.ts\<close>): the resume of a dead accept with its budget,
  the sweep that launches it, the recovery of a merge nothing can finish, and the escape a person gets. With
  the accept itself and the retries of its follow-through these are the steps of the protocol whose
  reachable states are the subject here.
\<close>

section \<open>The resting status\<close>

text \<open>\<open>recordedPriorStatus\<close> is the value of the marker, empty for none.\<close>

definition strandedMergeRestingStatus :: "LedgerTurn list \<Rightarrow> string \<Rightarrow> bool \<Rightarrow> TaskStatus" where
  "strandedMergeRestingStatus turns recordedPriorStatus protectedFilesDeferred =
     (if pausedStatusFor turns None None = Conflict \<and> \<not> protectedFilesDeferred then Conflict
      else if recordedPriorStatus = ''submitted'' then Submitted else Blocked)"

definition restingStatusOf :: "string \<Rightarrow> 'g AcceptWorld \<Rightarrow> TaskStatus" where
  "restingStatusOf i w =
     (let turns = (case aw_turns w of Some ts \<Rightarrow> ts | None \<Rightarrow> []);
          recorded = task_read i (\<lambda>t. metadata_view t ACCEPT_IN_FLIGHT_KEY) [] w
      in strandedMergeRestingStatus turns recorded
           (pausedStatusFor turns None None = Conflict \<and> deferred_in i turns w))"

text \<open>The marker and the resume keys are cleared in the order of \<open>clearMergeInFlight\<close>, after the status.\<close>

definition recoverStrandedMerge :: "AcceptEnv \<Rightarrow> string \<Rightarrow> ActorInput \<Rightarrow> string \<Rightarrow> ('g, TaskStatus) act" where
  "recoverStrandedMerge env i actor note =
     looking (restingStatusOf i) (\<lambda>status.
       before (write_status env i status (Some actor))
         (before (clearMergeInFlight i) (before (add_comment env i note actor) (pass status))))"

section \<open>Resuming a dead accept\<close>

definition RESUMED_REASON :: string where
  "RESUMED_REASON =
     ''Accept resumed by the daemon after the accepting process died (original reason was not recorded).''"

definition resume_params :: "string \<Rightarrow> AcceptIntent option \<Rightarrow> AcceptParams" where
  "resume_params recordedAt intent =
     (case intent of
        None \<Rightarrow> \<lparr>ap_reason = RESUMED_REASON, ap_actor = Role System, ap_approvedFiles = [],
                 ap_acceptDirtyWorktree = False, ap_allowBroken = False, ap_allowReviewIssues = False, ap_recordedAt = recordedAt\<rparr>
      | Some n \<Rightarrow> \<lparr>ap_reason = ai_reason n, ap_actor = ai_actor n, ap_approvedFiles = ai_approvedFiles n,
                   ap_acceptDirtyWorktree = ai_acceptDirtyWorktree n, ap_allowBroken = ai_allowBroken n,
                   ap_allowReviewIssues = ai_allowReviewIssues n, ap_recordedAt = recordedAt\<rparr>)"

definition in_flight_now :: "string \<Rightarrow> bool \<Rightarrow> 'g AcceptWorld \<Rightarrow> bool" where
  "in_flight_now i absent = task_read i (\<lambda>t. t_status t = Merging \<and> accept_in_flight t) absent"

definition resume_failed_note :: "AcceptEnv \<Rightarrow> int \<Rightarrow> failure \<Rightarrow> string \<Rightarrow> bool \<Rightarrow> string" where
  "resume_failed_note env attempt e status stillMarked =
     ''[Accept resume failed] Attempt '' @ show_int attempt @ ''/'' @ show_int MAX_ACCEPT_RESUME_ATTEMPTS @
     '' to finish this task's accept failed: '' @ message_of env e @
     (if stillMarked then [] else [CHR 0x0A] @ ''The accept stopped before its merge and returned the task to '' @
        [CHR 0x27] @ status @ [CHR 0x27] @ ''.'')"

definition record_failed_resume :: "AcceptEnv \<Rightarrow> string \<Rightarrow> int \<Rightarrow> failure \<Rightarrow> ('g, unit) act" where
  "record_failed_resume env i attempt e =
     before (swallow (write_meta i ACCEPT_RESUME_NEXT_AT_KEY (show_int (ae_now env + followThroughBackoffMs attempt))))
       (swallow (looking (in_flight_now i False) (\<lambda>stillMarked.
         looking (task_read i (\<lambda>t. status_text (t_status t)) ''undefined'') (\<lambda>status.
           before (add_comment env i (resume_failed_note env attempt e status stillMarked) (Role System))
             (if stillMarked \<and> attempt \<ge> MAX_ACCEPT_RESUME_ATTEMPTS then file_message (ResumesExhausted i attempt)
              else pass ())))))"

definition resume_failure :: "AcceptEnv \<Rightarrow> string \<Rightarrow> int \<Rightarrow> failure \<Rightarrow> ('g, unit) act" where
  "resume_failure env i attempt e =
     looking (in_flight_now i True) (\<lambda>still.
       if e = AcceptRefused AlreadyAccepted \<or> \<not> still then pass ()
       else if e = AcceptRefused ParentActive
       then swallow (before (write_meta i ACCEPT_RESUME_ATTEMPTS_KEY (show_int (attempt - 1)))
              (write_meta i ACCEPT_RESUME_NEXT_AT_KEY (show_int (ae_now env + followThroughBackoffMs 1))))
       else record_failed_resume env i attempt e)"

definition resumeDeadAccept :: "AcceptEnv \<Rightarrow> 'g AcceptDriver \<Rightarrow> string \<Rightarrow> string \<Rightarrow> ('g, unit) act" where
  "resumeDeadAccept env drv i recordedAt =
     looking (task_read i (\<lambda>t. readResumeAttempts t + 1) 1) (\<lambda>attempt.
       looking (task_read i (readAcceptIntent (ae_readIntent env)) None) (\<lambda>intent.
         on_throw
           (before (write_meta i ACCEPT_RESUME_ATTEMPTS_KEY (show_int attempt))
             (and_then (acceptTask env drv i (resume_params recordedAt intent)) (\<lambda>result. pass ())))
           (resume_failure env i attempt)))"

section \<open>The sweep\<close>

definition shouldSweepStrandedMerge :: "bool \<Rightarrow> bool \<Rightarrow> bool" where
  "shouldSweepStrandedMerge hasInFlightMarker remoteDriverCanFinishMerge \<longleftrightarrow>
     hasInFlightMarker \<or> \<not> remoteDriverCanFinishMerge"

text \<open>What the sweep does about one task. \<open>ownerLive\<close>: an accept holds the task's lock; \<open>running\<close>: a resume of
  it has not settled; \<open>remote\<close>: a forge may finish merges, or the driver could not be resolved.\<close>

definition sweepStrandedMerging :: "AcceptEnv \<Rightarrow> 'g AcceptDriver \<Rightarrow> string \<Rightarrow> bool \<Rightarrow> bool \<Rightarrow> bool \<Rightarrow> string \<Rightarrow> string \<Rightarrow> ('g, unit) act" where
  "sweepStrandedMerging env drv i ownerLive running remote recordedAt note =
     looking (task_read i Some None) (\<lambda>task.
       case task of
         None \<Rightarrow> pass ()
       | Some t \<Rightarrow>
           if t_status t \<noteq> Merging \<or> ownerLive \<or> \<not> shouldSweepStrandedMerge (accept_in_flight t) remote then pass ()
           else if accept_in_flight t
           then (if readResumeAttempts t \<ge> MAX_ACCEPT_RESUME_ATTEMPTS \<or> running \<or> readResumeNextAt t > ae_now env then pass ()
                 else resumeDeadAccept env drv i recordedAt)
           else on_throw (and_then (recoverStrandedMerge env i (Role System) note) (\<lambda>status. pass ())) (\<lambda>e. pass ()))"

section \<open>The escape\<close>

definition escapeMergingForOperation :: "AcceptEnv \<Rightarrow> 'g AcceptDriver \<Rightarrow> string \<Rightarrow> ActorInput \<Rightarrow> bool \<Rightarrow> string \<Rightarrow> ('g, unit) act" where
  "escapeMergingForOperation env drv i actor free note =
     looking (task_read i Some None) (\<lambda>task.
       case task of
         None \<Rightarrow> pass ()
       | Some t \<Rightarrow>
           if t_status t \<noteq> Merging then pass ()
           else if \<not> free then throw (AcceptRefused (OtherRefusal ''merging right now''))
           else if \<not> accept_in_flight t then and_then (recoverStrandedMerge env i actor note) (\<lambda>status. pass ())
           else if readResumeAttempts t < MAX_ACCEPT_RESUME_ATTEMPTS
           then throw (AcceptRefused (OtherRefusal ''resume in progress''))
           else and_then (acceptWorkLanded drv i) (\<lambda>landed.
             if landed \<noteq> None then throw (AcceptRefused (OtherRefusal ''work landed''))
             else and_then (recoverStrandedMerge env i actor note) (\<lambda>status. pass ())))"

section \<open>Each step keeps the invariant\<close>

lemma resting_resting: "restingStatusOf i w \<in> {Blocked, Conflict, Submitted}"
  by (auto simp: restingStatusOf_def strandedMergeRestingStatus_def Let_def)

lemma recover_spec:
  assumes s: "idle landed s"
  shows "spec i (recoverStrandedMerge env i actor note) (\<lambda>_. idle landed) (\<lambda>_. idle landed) s"
proof -
  have "spec i (before (write_status env i st (Some actor))
      (before (clearMergeInFlight i) (before (add_comment env i note actor) (pass st)))) (\<lambda>_. idle landed) (\<lambda>_. idle landed) s"
    if st: "st \<in> {Blocked, Conflict, Submitted}" for st
  proof (rule spec_seq [of _ _ "\<lambda>_. idle landed" "\<lambda>_. idle landed"])
    show "spec i (write_status env i st (Some actor)) (\<lambda>_. idle landed) (\<lambda>_. idle landed) s"
      by (rule spec_mono [OF idle_status [OF s]]) (use st in auto)
  next
    fix s1 :: "'a Seen"
    assume s1: "idle landed s1"
    show "spec i (before (clearMergeInFlight i) (before (add_comment env i note actor) (pass st))) (\<lambda>_. idle landed) (\<lambda>_. idle landed) s1"
      by (rule spec_seq [OF idle_clear [OF s1]]) (auto simp: idle_def intro!: spec_before spec_add_comment spec_pass)
  qed simp
  then show ?thesis
    unfolding recoverStrandedMerge_def spec_def wp_looking using resting_resting [of i] by blast
qed

lemma quiet_resume_failure [quiet_rules]: "quiet landed drv i (resume_failure env i attempt e)"
  unfolding resume_failure_def record_failed_resume_def by (intro quiet_rules) simp_all

lemma resume_spec:
  assumes h: "honest landed drv" and s: "sound landed drv s"
  shows "spec i (resumeDeadAccept env drv i recordedAt) (\<lambda>_. sound landed drv) (\<lambda>_. sound landed drv) s"
proof -
  let ?I = "\<lambda>_. sound landed drv"
  have body: "spec i (before (write_meta i ACCEPT_RESUME_ATTEMPTS_KEY n)
      (and_then (acceptTask env drv i ps) (\<lambda>result. pass ()))) ?I ?I s" for n ps
  proof (rule spec_seq [OF sound_quiet [OF _ s]])
    show "quiet landed drv i (write_meta i ACCEPT_RESUME_ATTEMPTS_KEY n)" by (rule quiet_write_meta) simp
    fix s1 :: "'a Seen"
    assume "sound landed drv s1"
    then show "spec i (and_then (acceptTask env drv i ps) (\<lambda>result. pass ())) ?I ?I s1"
      by (intro spec_bind [OF accept_spec [OF h]]) (auto intro: spec_pass)
  qed simp
  show ?thesis
    unfolding resumeDeadAccept_def
    by (rule spec_task_read, rule spec_task_read, rule spec_try [OF body])
       (auto intro: sound_quiet [OF quiet_resume_failure])
qed

text \<open>A driver with no forge behind it never reports a merged pull request.\<close>

definition forge_known :: "'g AcceptDriver \<Rightarrow> bool \<Rightarrow> bool" where
  "forge_known drv remote \<longleftrightarrow> (\<not> remote \<longrightarrow> (\<forall>g. \<not> forge_merged drv g))"

lemma stranded_idle:
  "sound landed drv s \<Longrightarrow> sn_status s = Merging \<Longrightarrow> sn_meta s ACCEPT_IN_FLIGHT_KEY = [] \<Longrightarrow> \<not> forge_merged drv (sn_git s) \<Longrightarrow> idle landed s"
  by (auto simp: sound_def idle_def)

lemma sweep_spec:
  assumes h: "honest landed drv" and r: "forge_known drv remote" and s: "sound landed drv s"
  shows "spec i (sweepStrandedMerging env drv i ownerLive running remote recordedAt note)
    (\<lambda>_. sound landed drv) (\<lambda>_. sound landed drv) s"
proof -
  have recover: "spec i (on_throw (and_then (recoverStrandedMerge env i (Role System) note) (\<lambda>status. pass ())) (\<lambda>e. pass ()))
      (\<lambda>_. sound landed drv) (\<lambda>_. sound landed drv) s" if "idle landed s"
    by (rule spec_mono [of _ _ "\<lambda>_. idle landed" "\<lambda>_. idle landed"], rule spec_on_throw,
        rule spec_bind [OF recover_spec [OF that]])
       (auto intro: spec_pass idle_sound split: stop.split)
  show ?thesis
    unfolding sweepStrandedMerging_def
  proof (rule spec_task_read)
    fix t
    assume t: "t_status t = sn_status s" "metadata_view t = sn_meta s"
    have "idle landed s" if "sn_status s = Merging" "\<not> accept_in_flight t" "\<not> remote"
      using stranded_idle [OF s that(1)] that(2,3) r t by (simp add: forge_known_def in_flight_view)
    then show "spec i (case Some t of None \<Rightarrow> pass () | Some t \<Rightarrow>
        if t_status t \<noteq> Merging \<or> ownerLive \<or> \<not> shouldSweepStrandedMerge (accept_in_flight t) remote then pass ()
        else if accept_in_flight t
        then (if readResumeAttempts t \<ge> MAX_ACCEPT_RESUME_ATTEMPTS \<or> running \<or> readResumeNextAt t > ae_now env then pass ()
              else resumeDeadAccept env drv i recordedAt)
        else on_throw (and_then (recoverStrandedMerge env i (Role System) note) (\<lambda>status. pass ())) (\<lambda>e. pass ()))
        (\<lambda>_. sound landed drv) (\<lambda>_. sound landed drv) s"
      using s t recover
      by (auto simp: shouldSweepStrandedMerge_def intro!: spec_pass resume_spec [OF h s])
  qed
qed

lemma complete_accepted: "sound landed drv s \<Longrightarrow> sn_status s = Complete \<Longrightarrow> accepted_ok landed s"
  by (auto simp: sound_def accepted_ok_def)

lemma retry_spec:
  assumes "inert_follow landed drv" and s: "sound landed drv s" "sn_status s = Complete"
  shows "spec i (retryFollowThrough env (ad_follow drv) i free) (\<lambda>_. sound landed drv) (\<lambda>_. sound landed drv) s"
proof -
  let ?tell = "\<lambda>pending. looking (task_read i (readFollowThrough (ae_readFollow env)) None) (\<lambda>after. case after of
      None \<Rightarrow> pass ()
    | Some r \<Rightarrow> if ft_attempts r \<ge> FOLLOWTHROUGH_MESSAGE_AFTER_ATTEMPTS \<and> \<not> ft_messaged r
        then before (file_message (FollowThroughFailing i (ft_attempts r) (ft_lastError r) pending)) (persist env i (r\<lparr>ft_messaged := True\<rparr>))
        else pass ())"
  have tell: "quiet landed drv i (?tell pending)" for pending by (intro quiet_rules)
  have ok: "accepted_ok landed s" using complete_accepted [OF s] .
  have run: "spec i (and_then (runAcceptFollowThrough env (ad_follow drv) i None)
      (\<lambda>(pending, err). if pending = [] then pass () else ?tell pending)) (\<lambda>_. accepted_ok landed) (\<lambda>_. accepted_ok landed) s"
    by (rule spec_bind [OF accepted_follow_through [OF assms(1) ok]])
       (auto intro: spec_pass accepted_quiet [OF tell])
  show ?thesis
    unfolding retryFollowThrough_def
    by (auto intro!: spec_try [OF run] spec_pass s(1) accepted_sound)
qed

lemma follow_sweep_spec:
  assumes "inert_follow landed drv" and s: "sound landed drv s"
  shows "spec i (sweepAcceptFollowThrough env (ad_follow drv) i running free) (\<lambda>_. sound landed drv) (\<lambda>_. sound landed drv) s"
  unfolding sweepAcceptFollowThrough_def
  by (rule spec_task_read) (auto intro!: spec_pass s retry_spec [OF assms])

text \<open>What the escape asks of the trees once resumes are exhausted: they find landed work, and git answers.\<close>

definition trees_tell :: "('g \<Rightarrow> bool) \<Rightarrow> 'g AcceptDriver \<Rightarrow> string \<Rightarrow> bool" where
  "trees_tell landed drv i \<longleftrightarrow>
     (\<forall>w w'. held i w \<longrightarrow> aw_faults w = [] \<longrightarrow> acceptWorkLanded drv i w = (Inr None, w') \<longrightarrow> \<not> landed (aw_git w))"

lemma escape_spec:
  assumes h: "honest landed drv" and s: "sound landed drv s" and t: "trees_tell landed drv i"
    and c: "sn_faults s = []" and m: "sn_meta s ACCEPT_IN_FLIGHT_KEY \<noteq> []"
  shows "spec i (escapeMergingForOperation env drv i actor free note) (\<lambda>_. sound landed drv) (\<lambda>_. sound landed drv) s"
proof -
  have p: "inert_follow landed drv" "inert_steps landed drv" "honest_trees landed drv" using h by (simp_all add: honest_def)
  let ?Q = "\<lambda>x s'. told landed drv s x s' \<and> (x = None \<longrightarrow> \<not> landed (sn_git s'))"
  have told: "spec i (acceptWorkLanded drv i) ?Q (\<lambda>_. alike landed drv s) s"
    unfolding spec_def
  proof (intro allI impI)
    fix w :: "'a AcceptWorld"
    assume w: "held i w" "seen i w = s"
    have git: "aw_git w = sn_git s" and f: "aw_faults w = []" using w c by (auto simp: seen_simps)
    obtain r w' where run: "acceptWorkLanded drv i w = (r, w')" by force
    have "\<not> landed (sn_git s)" if "r = Inr None"
      using t [unfolded trees_tell_def] w(1) f run [unfolded that] git by metis
    moreover have "held i w' \<and> (case r of Inr x \<Rightarrow> told landed drv s x (seen i w') | Inl e \<Rightarrow> e = Killed \<and> alike landed drv s (seen i w'))"
      using spec_run [OF work_landed_spec [OF p] w(1) run] w(2) by (auto split: sum.splits)
    ultimately show "wp (acceptWorkLanded drv i) (\<lambda>x w. held i w \<and> ?Q x (seen i w)) (\<lambda>e w. held i w \<and> alike landed drv s (seen i w)) w"
      by (auto simp: wp_def run told_def alike_def split: sum.splits)
  qed
  have recover: "spec i (and_then (recoverStrandedMerge env i actor note) (\<lambda>status. pass ())) (\<lambda>_. sound landed drv) (\<lambda>_. sound landed drv) s1"
    if "idle landed s1" for s1
    by (rule spec_mono [of _ _ "\<lambda>_. idle landed" "\<lambda>_. idle landed"], rule spec_bind [OF recover_spec [OF that]])
       (auto intro: spec_pass idle_sound)
  have asked: "spec i (and_then (acceptWorkLanded drv i) (\<lambda>landed.
      if landed \<noteq> None then throw (AcceptRefused (OtherRefusal ''work landed''))
      else and_then (recoverStrandedMerge env i actor note) (\<lambda>status. pass ()))) (\<lambda>_. sound landed drv) (\<lambda>_. sound landed drv) s"
  proof (rule spec_bind [OF told])
    fix x :: "(LandedWhere \<times> string) option" and s1 :: "'a Seen"
    assume x: "?Q x s1"
    then have a: "alike landed drv s s1" by (simp add: told_def)
    have s1: "sound landed drv s1" using sound_alike [OF a] s by simp
    show "spec i (if x \<noteq> None then throw (AcceptRefused (OtherRefusal ''work landed''))
        else and_then (recoverStrandedMerge env i actor note) (\<lambda>status. pass ())) (\<lambda>_. sound landed drv) (\<lambda>_. sound landed drv) s1"
    proof (cases x)
      case None
      then show ?thesis using recover [OF sound_idle [OF s1]] x by simp
    next
      case (Some p)
      then show ?thesis using s1 by (auto intro: spec_throw)
    qed
  qed (use s sound_alike in blast)
  show ?thesis
    unfolding escapeMergingForOperation_def
  proof (rule spec_task_read)
    fix t :: Task
    assume "t_status t = sn_status s" "metadata_view t = sn_meta s"
    then have "accept_in_flight t" using m by (simp add: in_flight_view)
    then show "spec i (case Some t of None \<Rightarrow> pass () | Some t \<Rightarrow>
        if t_status t \<noteq> Merging then pass ()
        else if \<not> free then throw (AcceptRefused (OtherRefusal ''merging right now''))
        else if \<not> accept_in_flight t then and_then (recoverStrandedMerge env i actor note) (\<lambda>status. pass ())
        else if readResumeAttempts t < MAX_ACCEPT_RESUME_ATTEMPTS
        then throw (AcceptRefused (OtherRefusal ''resume in progress''))
        else and_then (acceptWorkLanded drv i) (\<lambda>landed.
          if landed \<noteq> None then throw (AcceptRefused (OtherRefusal ''work landed''))
          else and_then (recoverStrandedMerge env i actor note) (\<lambda>status. pass ())))
        (\<lambda>_. sound landed drv) (\<lambda>_. sound landed drv) s"
      using s asked by (auto intro!: spec_pass spec_throw)
  qed
qed

section \<open>The protocol\<close>

text \<open>One step of the protocol on task \<open>i\<close>. Time, the parameters and the faults are fresh at every step. A
  forge may merge what it was handed; a person's escape runs when git answers.\<close>

inductive accept_step :: "('g \<Rightarrow> bool) \<Rightarrow> 'g AcceptDriver \<Rightarrow> string \<Rightarrow> 'g AcceptWorld \<Rightarrow> 'g AcceptWorld \<Rightarrow> bool"
  for landed drv i where
  accepts: "acceptTask env drv i ps (w\<lparr>aw_faults := fs\<rparr>) = (r, w') \<Longrightarrow> accept_step landed drv i w w'"
| sweeps: "forge_known drv remote \<Longrightarrow>
    sweepStrandedMerging env drv i ownerLive running remote recordedAt note (w\<lparr>aw_faults := fs\<rparr>) = (r, w') \<Longrightarrow>
    accept_step landed drv i w w'"
| follows_through: "sweepAcceptFollowThrough env (ad_follow drv) i running free (w\<lparr>aw_faults := fs\<rparr>) = (r, w') \<Longrightarrow>
    accept_step landed drv i w w'"
| escapes: "sn_meta (seen i w) ACCEPT_IN_FLIGHT_KEY \<noteq> [] \<Longrightarrow> trees_tell landed drv i \<Longrightarrow>
    escapeMergingForOperation env drv i actor free note (w\<lparr>aw_faults := []\<rparr>) = (r, w') \<Longrightarrow> accept_step landed drv i w w'"
| forge_merges: "sn_status (seen i w) = Merging \<Longrightarrow> sn_meta (seen i w) ACCEPT_IN_FLIGHT_KEY = [] \<Longrightarrow>
    forge_merged drv g \<Longrightarrow> accept_step landed drv i w (w\<lparr>aw_git := g\<rparr>)"

lemma held_faults: "held i (w\<lparr>aw_faults := fs\<rparr>) = held i w"
  and seen_faults: "seen i (w\<lparr>aw_faults := fs\<rparr>) = (seen i w)\<lparr>sn_faults := fs\<rparr>"
  and held_git: "held i (w\<lparr>aw_git := g\<rparr>) = held i w"
  and seen_git: "seen i (w\<lparr>aw_git := g\<rparr>) = (seen i w)\<lparr>sn_git := g\<rparr>"
  by (simp_all add: held_def seen_def dir_held_def Let_def getTaskComments_def)

lemma sound_faults: "sound landed drv (s\<lparr>sn_faults := fs\<rparr>) = sound landed drv s"
  by (simp add: sound_def)

lemma step_run:
  assumes "held i w" and "sound landed drv (seen i w)" and "m (w\<lparr>aw_faults := fs\<rparr>) = (r, w')"
    and "\<And>s. sound landed drv s \<Longrightarrow> sn_faults s = fs \<Longrightarrow> sn_meta s = sn_meta (seen i w) \<Longrightarrow>
      spec i m (\<lambda>_. sound landed drv) (\<lambda>_. sound landed drv) s"
  shows "held i w' \<and> sound landed drv (seen i w')"
proof -
  have "spec i m (\<lambda>_. sound landed drv) (\<lambda>_. sound landed drv) (seen i (w\<lparr>aw_faults := fs\<rparr>))"
    by (rule assms(4)) (use assms(2) in \<open>simp_all add: seen_faults sound_faults\<close>)
  from spec_run [OF this _ assms(3)] show ?thesis using assms(1) by (auto simp: held_faults split: sum.splits)
qed

lemma step_sound:
  assumes h: "honest landed drv" and w: "held i w" "sound landed drv (seen i w)" and step: "accept_step landed drv i w w'"
  shows "held i w' \<and> sound landed drv (seen i w')"
  using step
proof cases
  case (accepts env ps fs r)
  show ?thesis by (rule step_run [where m = "acceptTask env drv i ps", OF w accepts]) (rule accept_spec [OF h])
next
  case (sweeps remote env ownerLive running recordedAt words fs r)
  show ?thesis by (rule step_run [where m = "sweepStrandedMerging env drv i ownerLive running remote recordedAt words", OF w sweeps(2)]) (rule sweep_spec [OF h sweeps(1)])
next
  case (follows_through env running free fs r)
  show ?thesis by (rule step_run [where m = "sweepAcceptFollowThrough env (ad_follow drv) i running free", OF w follows_through]) (use h in \<open>simp add: honest_def follow_sweep_spec\<close>)
next
  case (escapes env actor free words r)
  show ?thesis by (rule step_run [where m = "escapeMergingForOperation env drv i actor free words", OF w escapes(3)]) (rule escape_spec [OF h _ escapes(2)], simp_all add: escapes(1))
next
  case (forge_merges g)
  have "landed g" using h forge_merges(4) by (simp add: honest_def honest_forge_def)
  then show ?thesis
    using w forge_merges by (auto simp: held_git seen_git sound_def)
qed

lemma reached_sound:
  "(accept_step landed drv i)\<^sup>*\<^sup>* w w' \<Longrightarrow> honest landed drv \<Longrightarrow> held i w \<Longrightarrow> sound landed drv (seen i w) \<Longrightarrow>
     held i w' \<and> sound landed drv (seen i w')"
  by (induction rule: rtranclp_induct) (auto dest: step_sound)


text \<open>C38: the marker of a merge in flight is typed: over any run it is empty or names \<open>blocked\<close>, \<open>conflict\<close> or
  \<open>submitted\<close>, so the status an aborted accept restores always parses, is not terminal, and is one the state
  machine lets a merging task return to.\<close>

theorem marker_names_resting_status:
  assumes "honest landed drv" and "held i w" and "sound landed drv (seen i w)" and "(accept_step landed drv i)\<^sup>*\<^sup>* w w'"
    and "sn_meta (seen i w') ACCEPT_IN_FLIGHT_KEY \<noteq> []"
  shows "\<exists>st. status_of_text (sn_meta (seen i w') ACCEPT_IN_FLIGHT_KEY) = Some st \<and> isBlockedStatus st \<and>
    \<not> isTerminalStatus st \<and> canTransition Merging st"
proof -
  have "sn_meta (seen i w') ACCEPT_IN_FLIGHT_KEY \<in> set resting_texts"
    using reached_sound [OF assms(4,1,2,3)] assms(5) by (simp add: sound_def)
  then show ?thesis
    by (rule resting_cases) (auto simp: isBlockedStatus_def canTransition_def)
qed

end
