(* ===== verification/AcceptLive.thy ===== *)
theory AcceptLive
  imports AcceptResume
begin

text \<open>
  What a resume achieves: against a store and a git that answer, one more run of a dead accept completes the
  task, wherever it died; and the reason a person gave is on the task once.
\<close>

section \<open>Runs without faults\<close>

text \<open>With no fault due, an action neither dies nor leaves one behind.\<close>

definition lives :: "('g, 'a) act \<Rightarrow> bool" where
  "lives m \<longleftrightarrow> (\<forall>w. aw_faults w = [] \<longrightarrow> fst (m w) \<noteq> Inl Killed \<and> aw_faults (snd (m w)) = [])"

named_theorems lives_rules \<open>actions that go on without faults\<close>

lemma livesD: "lives m \<Longrightarrow> aw_faults w = [] \<Longrightarrow> m w = (r, w') \<Longrightarrow> r \<noteq> Inl Killed \<and> aw_faults w' = []"
  unfolding lives_def by (metis fst_conv snd_conv)

lemma lives_pass [lives_rules]: "lives (pass x)" and lives_throw [lives_rules]: "lives (throw e)"
  by (simp_all add: lives_def pass_def throw_def)

lemma lives_and_then [lives_rules]:
  assumes "lives m" and "\<And>x. lives (f x)"
  shows "lives (and_then m f)"
  unfolding lives_def
proof (intro allI impI)
  fix w :: "'a AcceptWorld"
  assume w: "aw_faults w = []"
  obtain r w1 where m: "m w = (r, w1)" by force
  have "r \<noteq> Inl Killed" "aw_faults w1 = []" using livesD [OF assms(1) w m] by simp_all
  then show "fst (and_then m f w) \<noteq> Inl Killed \<and> aw_faults (snd (and_then m f w)) = []"
    using assms(2) by (cases r) (auto simp: and_then_def m lives_def)
qed

lemma lives_before [lives_rules]: "lives m \<Longrightarrow> lives k \<Longrightarrow> lives (before m k)"
  unfolding before_def by (rule lives_and_then)

lemma lives_on_throw [lives_rules]:
  assumes "lives m" and "\<And>e. lives (h e)"
  shows "lives (on_throw m h)"
  unfolding lives_def
proof (intro allI impI)
  fix w :: "'a AcceptWorld"
  assume w: "aw_faults w = []"
  obtain r w1 where m: "m w = (r, w1)" by force
  have "r \<noteq> Inl Killed" "aw_faults w1 = []" using livesD [OF assms(1) w m] by simp_all
  then show "fst (on_throw m h w) \<noteq> Inl Killed \<and> aw_faults (snd (on_throw m h w)) = []"
    using assms(2) by (auto simp: on_throw_def m lives_def split: sum.split stop.split)
qed

lemma lives_looking [lives_rules]: "(\<And>x. lives (k x)) \<Longrightarrow> lives (looking f k)"
  by (simp add: lives_def looking_def)

lemma lives_if [lives_rules]: "lives m \<Longrightarrow> lives k \<Longrightarrow> lives (if b then m else k)"
  by simp

lemma lives_option [lives_rules]: "lives m \<Longrightarrow> (\<And>y. lives (k y)) \<Longrightarrow> lives (case x of None \<Rightarrow> m | Some y \<Rightarrow> k y)"
  by (cases x) auto

lemma lives_prod [lives_rules]: "(\<And>a b. lives (k a b)) \<Longrightarrow> lives (case x of (a, b) \<Rightarrow> k a b)"
  by (cases x) auto

lemma lives_durable:
  assumes "\<And>w. aw_faults w = [] \<Longrightarrow> aw_faults (snd (f w)) = []"
  shows "lives (durable f)"
  unfolding lives_def
proof (intro allI impI)
  fix w :: "'a AcceptWorld"
  assume w: "aw_faults w = []"
  have "aw_faults (snd (f (w\<lparr>aw_faults := []\<rparr>))) = []" by (rule assms) simp
  then show "fst (durable f w) \<noteq> Inl Killed \<and> aw_faults (snd (durable f w)) = []"
    using w by (auto simp: durable_def Let_def split: prod.split sum.split)
qed

lemma lives_write_meta [lives_rules]: "lives (write_meta i k v)"
  unfolding write_meta_def store_write_def by (rule lives_durable) (auto split: sum.split)

lemma lives_at_git [lives_rules]: "lives (at_git f)"
  unfolding at_git_def by (rule lives_durable) (auto split: prod.split sum.split)

lemma lives_persist [lives_rules]: "lives (persist env i r)"
  unfolding persist_def by (intro lives_rules)

lemma lives_plain_step [lives_rules]: "lives m \<Longrightarrow> lives (plain_step m r)"
  unfolding plain_step_def by (intro lives_rules)

lemma lives_push_parent [lives_rules]: "lives (push_parent drv target r)"
  unfolding push_parent_def throw_step_def
  by (intro lives_rules) (auto intro: lives_rules split: failure.split)

lemma lives_close_review [lives_rules]: "lives (close_review drv r)"
  unfolding close_review_def throw_step_def by (intro lives_rules)

lemma lives_fast_forward [lives_rules]: "lives (fast_forward env drv i target r)"
  unfolding fast_forward_def throw_step_def Let_def by (intro lives_rules)

lemma lives_run_step [lives_rules]: "lives (run_step env drv i target step r)"
  unfolding run_step_def by (cases step) (auto intro!: lives_rules)

lemma lives_run_steps [lives_rules]: "lives (run_steps env drv i target steps r errors)"
proof (induction steps arbitrary: r errors)
  case Nil
  then show ?case by (simp add: lives_rules)
next
  case (Cons step steps)
  show ?case unfolding run_steps.simps Let_def by (intro lives_rules Cons.IH)
qed

lemma lives_follow_through [lives_rules]: "lives (runAcceptFollowThrough env drv i given)"
  unfolding runAcceptFollowThrough_def settle_run_def clearMergeInFlight_def Let_def by (intro lives_rules)

lemma spec_lives:
  assumes "spec i m Q E s" and "lives m" and "sn_faults s = []"
  shows "spec i m (\<lambda>x s'. Q x s' \<and> sn_faults s' = []) (\<lambda>e s'. E e s' \<and> e \<noteq> Killed \<and> sn_faults s' = []) s"
  unfolding spec_def
proof (intro allI impI)
  fix w :: "'a AcceptWorld"
  assume w: "held i w" "seen i w = s"
  have f: "aw_faults w = []" using w assms(3) by (auto simp: seen_simps)
  obtain r w' where m: "m w = (r, w')" by force
  have "held i w' \<and> (case r of Inr x \<Rightarrow> Q x (seen i w') | Inl e \<Rightarrow> E e (seen i w'))"
    using spec_run [OF assms(1) [folded w(2)] w(1) m] .
  moreover have "r \<noteq> Inl Killed \<and> aw_faults w' = []" using livesD [OF assms(2) f m] .
  ultimately show "wp m (\<lambda>x w. held i w \<and> Q x (seen i w) \<and> sn_faults (seen i w) = [])
      (\<lambda>e w. held i w \<and> E e (seen i w) \<and> e \<noteq> Killed \<and> sn_faults (seen i w) = []) w"
    by (auto simp: wp_def m seen_simps split: sum.split)
qed

lemma spec_conj:
  assumes "spec i m Q E s" and "spec i m Q' E' s"
  shows "spec i m (\<lambda>x s'. Q x s' \<and> Q' x s') (\<lambda>e s'. E e s' \<and> E' e s') s"
  unfolding spec_def
proof (intro allI impI)
  fix w :: "'a AcceptWorld"
  assume w: "held i w" "seen i w = s"
  obtain r w' where m: "m w = (r, w')" by force
  show "wp m (\<lambda>x w. held i w \<and> Q x (seen i w) \<and> Q' x (seen i w)) (\<lambda>e w. held i w \<and> E e (seen i w) \<and> E' e (seen i w)) w"
    using spec_run [OF assms(1) [folded w(2)] w(1) m] spec_run [OF assms(2) [folded w(2)] w(1) m]
    by (auto simp: wp_def m split: sum.splits)
qed

section \<open>Completing\<close>

text \<open>Merging, with a session that is open or accepted, and no fault due.\<close>

definition ready :: "'g Seen \<Rightarrow> bool" where
  "ready s \<longleftrightarrow> sn_status s = Merging \<and> (sn_ended s = None \<or> sn_outcome s = Some Accepted) \<and> sn_faults s = []"

definition completed :: "'g Seen \<Rightarrow> bool" where
  "completed s \<longleftrightarrow> sn_status s = Complete \<and> sn_outcome s = Some Accepted \<and> sn_meta s ACCEPT_IN_FLIGHT_KEY = []"

lemma calm_write_accepted:
  "ready s \<Longrightarrow> spec i (write_accepted env i tr) (\<lambda>_. ready) (\<lambda>_ _. False) s"
  unfolding write_accepted_def by (auto simp: ready_def intro!: spec_rules)

lemma calm_swallow:
  "spec i m (\<lambda>_. P) (\<lambda>_ _. False) s \<Longrightarrow> spec i (swallow m) (\<lambda>_. P) (\<lambda>_ _. False) s"
  unfolding swallow_def by (rule spec_on_throw, erule spec_mono) simp_all

lemma calm_commit:
  assumes "ready s"
  shows "spec i (commitAcceptTransition env i tr) (\<lambda>_ s'. completed s' \<and> sn_faults s' = []) (\<lambda>_ _. False) s"
proof -
  let ?F = "\<lambda>_ _. False"
  let ?half = "\<lambda>s. sn_status s = Complete \<and> sn_outcome s = Some Accepted \<and> sn_faults s = []"
  let ?full = "\<lambda>s'. completed s' \<and> sn_faults s' = []"
  have tidy: "spec i (before (swallow (clearMergeInFlight i)) (before (swallow (clearPendingAcceptReview i))
      (swallow (resetRoundBudgetsOnAccept i)))) (\<lambda>_. ?full) ?F s1" if h: "?half s1" for s1 :: "'a Seen"
  proof (rule spec_seq [OF calm_swallow])
    show "spec i (clearMergeInFlight i) (\<lambda>_. ?full) ?F s1"
      by (rule clearMergeInFlight_spec) (use h in \<open>auto simp: completed_def settled_def\<close>)
    fix s2 :: "'a Seen"
    assume "?full s2"
    then show "spec i (before (swallow (clearPendingAcceptReview i)) (swallow (resetRoundBudgetsOnAccept i))) (\<lambda>_. ?full) ?F s2"
      unfolding clearPendingAcceptReview_def resetRoundBudgetsOnAccept_def
      by (intro spec_before calm_swallow spec_write_meta) (auto simp: completed_def)
  qed simp
  have status: "spec i (looking (task_read i t_status Blocked) (\<lambda>live. if live = Complete then pass ()
      else before (if live \<noteq> Merging then write_status env i Merging (Some (tr_actor tr)) else pass ())
        (write_status env i Complete (Some (tr_actor tr))))) (\<lambda>_. ?half) ?F s1"
    if "sn_status s1 = Merging" "sn_outcome s1 = Some Accepted" "sn_faults s1 = []" for s1 :: "'a Seen"
    using that by (intro spec_task_read) (auto intro!: spec_rules simp: canTransition_def)
  have closing: "spec i (end_open_session env i Accepted)
      (\<lambda>_ s'. sn_status s' = Merging \<and> sn_outcome s' = Some Accepted \<and> sn_faults s' = []) ?F s1" if "ready s1" for s1 :: "'a Seen"
    by (rule spec_end_open_session) (use that in \<open>auto simp: ready_def\<close>)
  have first: "spec i (write_meta i k v) (\<lambda>_. ready) ?F s" for k v
    by (rule spec_write_meta) (use assms in \<open>auto simp: ready_def\<close>)
  show ?thesis
    unfolding commitAcceptTransition_def
    by (rule spec_seq [OF first], rule spec_seq [OF calm_write_accepted], assumption, rule spec_seq [OF closing], assumption,
        rule spec_seq [OF status]) (auto intro: tidy)
qed

lemma calm_finish:
  assumes f: "inert_follow landed drv" and s: "ready s"
  shows "spec i (finishLandedAccept env drv i tr) (\<lambda>_. completed) (\<lambda>_ _. False) s"
  unfolding finishLandedAccept_def
proof (rule spec_seq [OF calm_commit [OF s]])
  fix s1 :: "'a Seen"
  assume s1: "completed s1 \<and> sn_faults s1 = []"
  have "spec i (runAcceptFollowThrough env (ad_follow drv) i given) (\<lambda>_. completed) (\<lambda>_. completed) s1" for given
  proof (rule follow_through_keeps [OF f])
    show "spec i (clearMergeInFlight i) (\<lambda>_. completed) (\<lambda>_. completed) s2" if "completed s2" for s2 :: "'a Seen"
      by (rule clearMergeInFlight_spec) (use that in \<open>auto simp: completed_def settled_def\<close>)
  qed (use s1 in \<open>auto simp: completed_def alike_def\<close>)
  note run = spec_lives [OF this lives_follow_through]
  show "spec i (on_throw (runAcceptFollowThrough env (ad_follow drv) i (Some (with_payer tr)))
      (\<lambda>e. pass (pending_steps (tr_followThrough tr), Some (''follow-through: '' @ message_of env e)))) (\<lambda>_. completed) (\<lambda>_ _. False) s1"
    by (rule spec_try [OF run]) (use s1 in \<open>auto intro: spec_pass\<close>)
qed simp

section \<open>A driver that answers\<close>

text \<open>Nothing refuses a resume, and its merge reports that the work is merged.\<close>

definition resumable :: "'g AcceptDriver \<Rightarrow> bool" where
  "resumable drv \<longleftrightarrow>
     (\<forall>stage g. \<exists>p g'. ad_prepare drv stage DeadAccept g = (Inr p, g') \<and> pp_refusal p = None) \<and>
     (\<forall>g. \<exists>g'. ad_pushTarget drv g = (Inr (), g')) \<and> (\<forall>g. \<exists>g'. ad_describe drv g = (Inr (), g')) \<and>
     (\<forall>g. \<exists>r g'. ad_merge drv True g = (Inr r, g') \<and> mr_status r = MergeDone)"

text \<open>What stays of a dead accept while a resume works towards its merge.\<close>

definition dead :: "string \<Rightarrow> 'g Seen \<Rightarrow> bool" where
  "dead prior s \<longleftrightarrow> sn_status s = Merging \<and> sn_ended s = None \<and> sn_outcome s \<noteq> Some Accepted \<and>
     sn_meta s ACCEPT_IN_FLIGHT_KEY = prior \<and> prior \<noteq> [] \<and> sn_faults s = []"

lemma dead_ready: "dead prior s \<Longrightarrow> ready s"
  by (simp add: dead_def ready_def)

lemma dead_alike: "alike landed drv s s' \<Longrightarrow> sn_faults s' = [] \<Longrightarrow> dead prior s \<Longrightarrow> dead prior s'"
  by (simp add: dead_def alike_def)

lemma dead_git:
  assumes "dead prior s" and "\<And>e g'. f (sn_git s) \<noteq> (Inl e, g')"
  shows "spec i (at_git f) (\<lambda>_. dead prior) (\<lambda>_ _. False) s"
  by (rule spec_at_git) (use assms in \<open>auto simp: dead_def\<close>)

lemma dead_comments: "dead prior s \<Longrightarrow> spec i (add_comments env i cs) (\<lambda>_. dead prior) (\<lambda>_ _. False) s"
proof (induction cs arbitrary: s)
  case (Cons c cs)
  then show ?case by (cases c) (auto simp: dead_def intro!: spec_before spec_add_comment)
qed (simp add: spec_pass)

lemma dead_metas: "other_keys kvs \<Longrightarrow> dead prior s \<Longrightarrow> spec i (write_metas i kvs) (\<lambda>_. dead prior) (\<lambda>_ _. False) s"
proof (induction kvs arbitrary: s)
  case (Cons kv kvs)
  then show ?case by (cases kv) (auto simp: dead_def other_keys_def intro!: spec_before spec_write_meta)
qed (simp add: spec_pass)

lemma dead_prepare:
  assumes q: "inert_steps landed drv" and r: "resumable drv" and s: "dead prior s"
  shows "spec i (prepare env drv i stage DeadAccept) (\<lambda>_. dead prior) (\<lambda>_ _. False) s"
proof -
  obtain p g' where p: "ad_prepare drv stage DeadAccept (sn_git s) = (Inr p, g')" "pp_refusal p = None"
    using r unfolding resumable_def by blast
  have keys: "other_keys (pp_metadata p)" using q p(1) unfolding inert_steps_def by blast
  let ?s = "s\<lparr>sn_faults := tl (sn_faults s), sn_git := g'\<rparr>"
  have d: "dead prior ?s" using s by (simp add: dead_def)
  have rest: "spec i (before (add_comments env i (pp_comments p)) (before (write_metas i (pp_metadata p)) (refuse (pp_refusal p))))
      (\<lambda>_. dead prior) (\<lambda>_ _. False) ?s"
    by (rule spec_seq [OF dead_comments [OF d]], rule spec_seq [OF dead_metas [OF keys]], assumption)
       (auto simp: p(2) refuse_simps intro: spec_pass)
  show ?thesis
    unfolding prepare_def by (rule spec_and_then, rule spec_at_git) (use s rest p(1) in \<open>auto simp: dead_def\<close>)
qed

lemma dead_begin:
  assumes "dead prior s"
  shows "spec i (beginMergePhase env i prior actor intent False) (\<lambda>_. dead prior) (\<lambda>_ _. False) s"
  unfolding beginMergePhase_def using assms by (auto simp: dead_def intro!: spec_rules)

lemma dead_attempt:
  assumes r: "resumable drv" and m: "honest_merge landed drv" and s: "dead prior s"
  shows "spec i (attempt_merge env drv i prior actor True) (\<lambda>result s'. dead prior s' \<and> mr_status result = MergeDone) (\<lambda>_ _. False) s"
proof -
  let ?Q = "\<lambda>result s'. dead prior s' \<and> mr_status result = MergeDone \<and> other_keys (mr_metadata result)"
  have answers: "ad_pushTarget drv g \<noteq> (Inl e, g')" "ad_describe drv g \<noteq> (Inl e, g')" for g e g'
    using r unfolding resumable_def by (metis prod.inject sum.distinct(1))+
  have merge: "spec i (at_git (ad_merge drv True)) ?Q (\<lambda>_ _. False) s1" if d: "dead prior s1" for s1
  proof -
    obtain res g' where res: "ad_merge drv True (sn_git s1) = (Inr res, g')" "mr_status res = MergeDone"
      using r unfolding resumable_def by blast
    have "other_keys (mr_metadata res)" using m res(1) unfolding honest_merge_def by blast
    then show ?thesis by (intro spec_at_git) (use d res in \<open>auto simp: dead_def\<close>)
  qed
  have push: "spec i (if mergeNeedsSync drv then at_git (ad_pushTarget drv) else pass ()) (\<lambda>_. dead prior) (\<lambda>_ _. False) s"
    using dead_git [OF s answers(1)] s by (auto intro: spec_pass)
  have "spec i (before (if mergeNeedsSync drv then at_git (ad_pushTarget drv) else pass ())
      (before (at_git (ad_describe drv)) (at_git (ad_merge drv True)))) ?Q (\<lambda>_ _. False) s"
    by (rule spec_seq [OF push], rule spec_seq [OF dead_git [OF _ answers(2)]], assumption) (auto intro: merge)
  then have "spec i (on_throw (before (if mergeNeedsSync drv then at_git (ad_pushTarget drv) else pass ())
      (before (at_git (ad_describe drv)) (at_git (ad_merge drv True)))) (bail env i prior actor True)) ?Q (\<lambda>_ _. False) s"
    by (rule spec_try) auto
  then show ?thesis
    unfolding attempt_merge_def
  proof (rule spec_bind)
    fix result :: MergeResult and s1 :: "'a Seen"
    assume x: "?Q result s1"
    then have "spec i (before (write_metas i (mr_metadata result)) (pass result))
        (\<lambda>result s'. dead prior s' \<and> mr_status result = MergeDone) (\<lambda>_ _. False) s1"
      by (intro spec_seq [OF dead_metas]) (auto intro: spec_pass)
    then show "spec i (if mr_status result = MergeDone then before (write_metas i (mr_metadata result)) (pass result)
        else on_throw (before (write_metas i (mr_metadata result))
          (if mr_status result = MergeFailed then throw (merge_failure result) else pass result)) (bail env i prior actor True))
        (\<lambda>result s'. dead prior s' \<and> mr_status result = MergeDone) (\<lambda>_ _. False) s1"
      using x by simp
  qed simp
qed

lemma dead_phase:
  assumes f: "inert_follow landed drv" and r: "resumable drv" and m: "honest_merge landed drv" and s: "dead prior s"
  shows "spec i (merge_phase env drv i prior intent actor commentActor True mirror)
    (\<lambda>out s'. (\<exists>p e. out = AcceptMerged p e) \<and> completed s') (\<lambda>_ _. False) s"
  unfolding merge_phase_def not_True_eq_False
proof (rule spec_seq [OF dead_begin [OF s]], rule spec_bind [OF dead_attempt [OF r m]], assumption)
  fix result :: MergeResult and s1 :: "'a Seen"
  assume x: "dead prior s1 \<and> mr_status result = MergeDone"
  have finish: "spec i (and_then (finishLandedAccept env drv i tr) (\<lambda>x. pass (merged x)))
      (\<lambda>out s'. (\<exists>p e. out = AcceptMerged p e) \<and> completed s') (\<lambda>_ _. False) s1" for tr
    by (rule spec_bind [OF calm_finish [OF f]]) (use x in \<open>auto intro: spec_pass dead_ready simp: merged_def\<close>)
  show "spec i (if mr_status result = MergePending
      then before (clearMergeInFlight i) (before (add_comment env i (accepted_comment (ai_reason intent)) actor)
             (before (clearPendingAcceptReview i) (pass AcceptPending)))
      else looking (\<lambda>w. ad_targetSha drv (aw_git w)) (\<lambda>sha.
        and_then (finishLandedAccept env drv i
            \<lparr>tr_reason = ai_reason intent, tr_actor = actor, tr_commentActor = commentActor, tr_writeComment = True,
             tr_dedupeComment = True,
             tr_followThrough = owed (ad_followTarget drv) (mergeNeedsSync drv) (useLocalMerge drv \<or> mirror)
               (ad_closeReviewOwed drv (\<not> mergeNeedsSync drv)) (if mergeNeedsSync drv then None else sha)\<rparr>)
          (\<lambda>x. pass (merged x))))
      (\<lambda>out s'. (\<exists>p e. out = AcceptMerged p e) \<and> completed s') (\<lambda>_ _. False) s1"
    using x by (auto intro!: spec_read_git [where f = "ad_targetSha drv"] finish)
qed simp_all

lemma lives_work_landed [lives_rules]: "lives (acceptWorkLanded drv i)"
proof -
  have asks: "lives (asks f k)" if "\<And>x. lives (k x)" for f :: "'a \<Rightarrow> string + bool" and k :: "bool \<Rightarrow> ('a, (LandedWhere \<times> string) option) act"
    unfolding asks_def using that by (auto intro!: lives_rules split: sum.split)
  show ?thesis
    unfolding acceptWorkLanded_def landed_on_remote_def Let_def by (intro lives_rules asks)
qed

definition finished_or_dead :: "string \<Rightarrow> 'a option \<Rightarrow> 'g Seen \<Rightarrow> bool" where
  "finished_or_dead prior x s \<longleftrightarrow> (case x of None \<Rightarrow> dead prior s | Some y \<Rightarrow> completed s)"

lemma finished_or_dead_simps [simp]:
  "finished_or_dead prior None s = dead prior s" "finished_or_dead prior (Some y) s = completed s"
  by (simp_all add: finished_or_dead_def)

lemma dead_finish:
  assumes h: "honest landed drv" and s: "dead prior s \<or> ready s \<and> sn_outcome s = Some Accepted \<and> sn_meta s ACCEPT_IN_FLIGHT_KEY \<noteq> []"
  shows "spec i (finish_dead_accept env drv i actor)
    (finished_or_dead prior) (\<lambda>_ _. False) s"
proof -
  have p: "inert_follow landed drv" "inert_steps landed drv" "honest_trees landed drv" using h by (simp_all add: honest_def)
  let ?Q = "finished_or_dead prior"
  have interrupted: "spec i (and_then (finishInterruptedTransition env drv i actor given) (\<lambda>x. pass (Some x))) ?Q (\<lambda>_ _. False) s1"
    if "ready s1" for given s1
    unfolding finishInterruptedTransition_def Let_def
    by (rule spec_and_then, rule spec_task_read) (auto intro!: spec_mono [OF calm_finish [OF p(1) that]] spec_pass)
  have trees: "spec i (and_then (acceptWorkLanded drv i) (\<lambda>landed. case landed of
        None \<Rightarrow> pass None
      | Some (place, target) \<Rightarrow> looking (\<lambda>w. landed_pushes_parent drv place target (aw_git w)) (\<lambda>push.
          and_then (finishInterruptedTransition env drv i actor
              (Some (owed (ad_acceptTarget drv) (place = LandedRemote) push (ad_closeReviewOwed drv (place = LandedLocal)) None)))
            (\<lambda>x. pass (Some x))))) ?Q (\<lambda>_ _. False) s" if d: "dead prior s"
  proof (rule spec_bind [OF spec_lives [OF work_landed_spec [OF p] lives_work_landed]])
    fix x :: "(LandedWhere \<times> string) option" and s1 :: "'a Seen"
    assume "told landed drv s x s1 \<and> sn_faults s1 = []"
    then have s1: "dead prior s1" using dead_alike [OF _ _ d] by (auto simp: told_def)
    then show "spec i (case x of None \<Rightarrow> pass None
      | Some (place, target) \<Rightarrow> looking (\<lambda>w. landed_pushes_parent drv place target (aw_git w)) (\<lambda>push.
          and_then (finishInterruptedTransition env drv i actor
              (Some (owed (ad_acceptTarget drv) (place = LandedRemote) push (ad_closeReviewOwed drv (place = LandedLocal)) None)))
            (\<lambda>x. pass (Some x)))) ?Q (\<lambda>_ _. False) s1"
      by (auto intro!: spec_pass interrupted dead_ready spec_read_git [where f = "landed_pushes_parent drv a b" for a b]
        split: option.split)
  qed (use d in \<open>auto simp: dead_def\<close>)
  show ?thesis
    unfolding finish_dead_accept_def
  proof (rule spec_task_read)
    fix t :: Task
    assume t: "t_status t = sn_status s" "metadata_view t = sn_meta s"
    have d: "t_status t = Merging \<and> accept_in_flight t" using s t by (auto simp: in_flight_view dead_def ready_def)
    show "spec i (if \<not> (t_status t = Merging \<and> accept_in_flight t) then pass None
        else looking (\<lambda>w. getSessionByTaskId (aw_store w) i) (\<lambda>sess.
          if (case sess of None \<Rightarrow> False | Some s \<Rightarrow> s_outcome s = Some Accepted)
          then and_then (finishInterruptedTransition env drv i actor None) (\<lambda>x. pass (Some x))
          else and_then (acceptWorkLanded drv i) (\<lambda>landed. case landed of
              None \<Rightarrow> pass None
            | Some (place, target) \<Rightarrow> looking (\<lambda>w. landed_pushes_parent drv place target (aw_git w)) (\<lambda>push.
                and_then (finishInterruptedTransition env drv i actor
                    (Some (owed (ad_acceptTarget drv) (place = LandedRemote) push (ad_closeReviewOwed drv (place = LandedLocal)) None)))
                  (\<lambda>x. pass (Some x)))))) ?Q (\<lambda>_ _. False) s"
    proof (cases "sn_outcome s = Some Accepted")
      case True
      then have "ready s" using s by (auto intro: dead_ready)
      then show ?thesis
        by (simp only: d simp_thms if_True if_False, intro spec_read_session) (simp add: True interrupted)
    next
      case False
      then have "dead prior s" using s by simp
      from trees [OF this] show ?thesis
        by (simp only: d simp_thms if_True if_False, intro spec_read_session) (simp add: False)
    qed
  qed
qed

lemma dead_accept:
  assumes h: "honest landed drv" and r: "resumable drv"
    and s: "dead prior s \<or> ready s \<and> sn_outcome s = Some Accepted \<and> sn_meta s ACCEPT_IN_FLIGHT_KEY \<noteq> []"
  shows "spec i (acceptTask env drv i ps) (\<lambda>out s'. (\<exists>p e. out = AcceptMerged p e) \<and> completed s') (\<lambda>_ _. False) s"
proof -
  have hs: "inert_follow landed drv" "inert_steps landed drv" "honest_merge landed drv" using h by (simp_all add: honest_def)
  let ?Q = "\<lambda>out s'. (\<exists>p e. out = AcceptMerged p e) \<and> completed s'"
  have as: "spec i (accept_as env drv i ps DeadAccept prior) ?Q (\<lambda>_ _. False) s1" if d: "dead prior s1" for s1
  proof -
    have phase: "spec i (looking (\<lambda>w. \<not> fd_needsSync (ad_follow drv) \<and> ad_pushesMirror drv (aw_git w)) (\<lambda>mirror.
        before (pass ()) (before (pass ()) (before (prepare env drv i PublishStage DeadAccept)
          (merge_phase env drv i prior intent a c True mirror))))) ?Q (\<lambda>_ _. False) s2" if d: "dead prior s2" for s2 intent a c
      by (rule spec_read_git [where f = "\<lambda>g. \<not> fd_needsSync (ad_follow drv) \<and> ad_pushesMirror drv g"],
          rule spec_before, rule spec_pass, rule spec_before, rule spec_pass, rule spec_seq [OF dead_prepare [OF hs(2) r d]])
         (auto intro: dead_phase [OF hs(1) r hs(3)])
    show ?thesis
      unfolding accept_as_def Let_def
      by (rule spec_seq [OF dead_prepare [OF hs(2) r d]], rule spec_task_read) (simp_all add: phase)
  qed
  have run: "spec i (looking (\<lambda>w. getSessionByTaskId (aw_store w) i) (\<lambda>sess. before (refuse (session_guard sess))
      (looking (task_read i (\<lambda>t. Some (t_status t, metadata_view t ACCEPT_IN_FLIGHT_KEY)) None) (\<lambda>seen_now.
        case seen_now of
          None \<Rightarrow> throw (StoreThrew (TaskNotFound i))
        | Some (status, marker) \<Rightarrow> before (prepare env drv i WorktreeStage (accept_kind status marker))
            (before (refuse (status_guard status)) (accept_as env drv i ps (accept_kind status marker) (prior_status status marker)))))))
      ?Q (\<lambda>_ _. False) s1" if d: "dead prior s1" for s1
  proof (rule spec_read_session)
    fix ss :: Session
    assume ss: "s_ended_at ss = sn_ended s1" "s_outcome ss = sn_outcome s1"
    have g: "session_guard (Some ss) = None" using d ss by (simp add: session_guard_def dead_def truthy_time_def)
    have k: "sn_status s1 = Merging" "sn_meta s1 ACCEPT_IN_FLIGHT_KEY = prior" "accept_kind Merging prior = DeadAccept"
        "prior_status Merging prior = prior" "status_guard Merging = None"
      using d by (simp_all add: dead_def accept_kind_def prior_status_def status_guard_def)
    have go_on: "spec i (before (prepare env drv i WorktreeStage DeadAccept) (before (pass ()) (accept_as env drv i ps DeadAccept prior)))
        ?Q (\<lambda>_ _. False) s1"
      by (rule spec_seq [OF dead_prepare [OF hs(2) r d]]) (auto intro!: spec_before spec_pass as)
    show "spec i (before (refuse (session_guard (Some ss)))
        (looking (task_read i (\<lambda>t. Some (t_status t, metadata_view t ACCEPT_IN_FLIGHT_KEY)) None) (\<lambda>seen_now.
          case seen_now of
            None \<Rightarrow> throw (StoreThrew (TaskNotFound i))
          | Some (status, marker) \<Rightarrow> before (prepare env drv i WorktreeStage (accept_kind status marker))
              (before (refuse (status_guard status)) (accept_as env drv i ps (accept_kind status marker) (prior_status status marker))))))
        ?Q (\<lambda>_ _. False) s1"
      unfolding g refuse_simps
      by (rule spec_before, rule spec_pass, rule spec_task_read) (use go_on in \<open>auto simp: k refuse_simps\<close>)
  qed
  show ?thesis
    unfolding acceptTask_def
  proof (rule spec_bind [OF dead_finish [OF h s]])
    fix x :: "(FollowThroughStep list \<times> string option) option" and s1 :: "'a Seen"
    assume x: "finished_or_dead prior x s1"
    then show "spec i (case x of Some x \<Rightarrow> pass (merged x)
      | None \<Rightarrow> looking (\<lambda>w. getSessionByTaskId (aw_store w) i) (\<lambda>sess. before (refuse (session_guard sess))
          (looking (task_read i (\<lambda>t. Some (t_status t, metadata_view t ACCEPT_IN_FLIGHT_KEY)) None) (\<lambda>seen_now.
            case seen_now of
              None \<Rightarrow> throw (StoreThrew (TaskNotFound i))
            | Some (status, marker) \<Rightarrow> before (prepare env drv i WorktreeStage (accept_kind status marker))
                (before (refuse (status_guard status)) (accept_as env drv i ps (accept_kind status marker) (prior_status status marker)))))))
        ?Q (\<lambda>_ _. False) s1"
      by (cases x) (auto intro: run spec_pass simp: merged_def)
  qed simp
qed


section \<open>The reason, once\<close>

definition accepted_by :: "string \<Rightarrow> AcceptIntent \<Rightarrow> AcceptComment" where
  "accepted_by i n = \<lparr>cm_task = i, cm_content = accepted_comment (ai_reason n), cm_actor = ai_actor n\<rparr>"

text \<open>The comments are \<open>c0\<close>, or \<open>c0\<close> and the one comment of the accept.\<close>

definition says :: "AcceptComment list \<Rightarrow> AcceptComment \<Rightarrow> 'g Seen \<Rightarrow> bool" where
  "says c0 c s \<longleftrightarrow> sn_comments s = c0 \<or> sn_comments s = c0 @ [c]"

definition still_merging :: "string \<Rightarrow> AcceptComment list \<Rightarrow> AcceptComment \<Rightarrow> 'g Seen \<Rightarrow> bool" where
  "still_merging v c0 c s \<longleftrightarrow> sn_status s = Merging \<and> sn_meta s ACCEPT_INTENT_KEY = v \<and>
     (sn_ended s = None \<or> sn_outcome s = Some Accepted) \<and> says c0 c s"

definition said :: "AcceptComment list \<Rightarrow> AcceptComment \<Rightarrow> 'g Seen \<Rightarrow> bool" where
  "said c0 c s \<longleftrightarrow> sn_status s = Complete \<and> sn_comments s = c0 @ [c]"

lemma intent_key_other: "ACCEPT_FOLLOWTHROUGH_KEY \<noteq> ACCEPT_INTENT_KEY"
  by code_simp

lemma said_kept:
  "sn_status s = Complete \<Longrightarrow> sn_comments s = c0 @ [c] \<Longrightarrow> spec i (swallow (clearMergeInFlight i)) (\<lambda>_. said c0 c) (\<lambda>_. said c0 c) s"
  by (rule swallow_spec, rule clearMergeInFlight_spec) (auto simp: said_def settled_def)

lemma said_tidy:
  assumes "said c0 c s"
  shows "spec i (before (swallow (clearMergeInFlight i)) (before (swallow (clearPendingAcceptReview i))
      (swallow (resetRoundBudgetsOnAccept i)))) (\<lambda>_. said c0 c) (\<lambda>_. said c0 c) s"
proof (rule spec_seq [OF said_kept])
  fix s1 :: "'a Seen"
  assume "said c0 c s1"
  then show "spec i (before (swallow (clearPendingAcceptReview i)) (swallow (resetRoundBudgetsOnAccept i)))
      (\<lambda>_. said c0 c) (\<lambda>_. said c0 c) s1"
    unfolding clearPendingAcceptReview_def resetRoundBudgetsOnAccept_def
    by (intro spec_seq [of _ _ "\<lambda>_. said c0 c" "\<lambda>_. said c0 c"] swallow_spec spec_before spec_write_meta)
       (auto simp: said_def)
qed (use assms in \<open>simp_all add: said_def\<close>)

lemma commit_says:
  assumes n: "tr_reason tr = ai_reason n" "tr_commentActor tr = ai_actor n" "tr_writeComment tr"
    and plain: "redactSecretValues (ae_secrets env) (accepted_comment (ai_reason n)) = accepted_comment (ai_reason n)"
    and new: "accepted_comment (ai_reason n) \<notin> cm_content ` set c0"
    and s: "still_merging v c0 (accepted_by i n) s" and first: "tr_dedupeComment tr \<or> sn_comments s = c0"
  shows "spec i (commitAcceptTransition env i tr) (\<lambda>_. said c0 (accepted_by i n))
    (\<lambda>_ s'. said c0 (accepted_by i n) s' \<or> still_merging v c0 (accepted_by i n) s') s"
proof -
  let ?c = "accepted_by i n"
  let ?E = "\<lambda>_ :: stop. \<lambda>s'. said c0 ?c s' \<or> still_merging v c0 ?c s'"
  let ?told = "\<lambda>s'. still_merging v c0 ?c s' \<and> sn_comments s' = c0 @ [?c]"
  have wrote: "spec i (write_accepted env i tr) (\<lambda>_. ?told) ?E s1"
    if s1: "still_merging v c0 ?c s1" "tr_dedupeComment tr \<or> sn_comments s1 = c0" for s1 :: "'a Seen"
    unfolding write_accepted_def using s1 new
    by (auto simp: n plain still_merging_def says_def accepted_by_def intro!: spec_rules)
  have closing: "spec i (end_open_session env i Accepted)
      (\<lambda>_ s'. ?told s' \<and> sn_outcome s' = Some Accepted) ?E s1" if "?told s1" for s1 :: "'a Seen"
    by (rule spec_end_open_session) (use that in \<open>auto simp: still_merging_def says_def\<close>)
  have status: "spec i (looking (task_read i t_status Blocked) (\<lambda>live. if live = Complete then pass ()
      else before (if live \<noteq> Merging then write_status env i Merging (Some (tr_actor tr)) else pass ())
        (write_status env i Complete (Some (tr_actor tr))))) (\<lambda>_. said c0 ?c) ?E s1"
    if "?told s1" for s1 :: "'a Seen"
    using that by (intro spec_task_read) (auto intro!: spec_rules simp: still_merging_def says_def said_def canTransition_def)
  have record_first: "spec i (write_meta i ACCEPT_FOLLOWTHROUGH_KEY x)
      (\<lambda>_ s'. still_merging v c0 ?c s' \<and> sn_comments s' = sn_comments s) ?E s" for x
    by (rule spec_write_meta) (use s intent_key_other in \<open>auto simp: still_merging_def says_def\<close>)
  show ?thesis
    unfolding commitAcceptTransition_def
  proof (rule spec_seq [OF record_first])
    fix s1 :: "'a Seen"
    assume s1: "still_merging v c0 ?c s1 \<and> sn_comments s1 = sn_comments s"
    then have f: "tr_dedupeComment tr \<or> sn_comments s1 = c0" using first by simp
    show "spec i (before (write_accepted env i tr) (before (end_open_session env i Accepted)
        (before (looking (task_read i t_status Blocked) (\<lambda>live. if live = Complete then pass ()
          else before (if live \<noteq> Merging then write_status env i Merging (Some (tr_actor tr)) else pass ())
            (write_status env i Complete (Some (tr_actor tr)))))
          (before (swallow (clearMergeInFlight i)) (before (swallow (clearPendingAcceptReview i)) (swallow (resetRoundBudgetsOnAccept i)))))))
        (\<lambda>_. said c0 ?c) ?E s1"
    proof (rule spec_seq [OF wrote [OF conjunct1 [OF s1] f]], rule spec_seq [OF closing], assumption)
      fix s2 :: "'a Seen"
      assume s2: "?told s2 \<and> sn_outcome s2 = Some Accepted"
      show "spec i (before (looking (task_read i t_status Blocked) (\<lambda>live. if live = Complete then pass ()
          else before (if live \<noteq> Merging then write_status env i Merging (Some (tr_actor tr)) else pass ())
            (write_status env i Complete (Some (tr_actor tr)))))
          (before (swallow (clearMergeInFlight i)) (before (swallow (clearPendingAcceptReview i)) (swallow (resetRoundBudgetsOnAccept i)))))
          (\<lambda>_. said c0 ?c) ?E s2"
        by (rule spec_seq [OF status [OF conjunct1 [OF s2]]]) (auto intro: spec_mono [OF said_tidy])
    qed simp_all
  qed simp
qed

lemma said_follow_through:
  assumes "said c0 c s" and "sn_faults s = []"
  shows "spec i (on_throw (runAcceptFollowThrough env drv i (Some r)) (\<lambda>e. pass (f e))) (\<lambda>_. said c0 c) (\<lambda>_ _. False) s"
proof -
  have keep: "said c0 c s'" if "settled s s'" for s' using that assms(1) by (simp add: settled_def said_def)
  have run: "spec i (runAcceptFollowThrough env drv i (Some r)) (\<lambda>_. said c0 c) (\<lambda>_. said c0 c) s"
    by (rule spec_mono [OF run_follow_through_spec [OF disjI1 [OF refl]]])
       (auto simp: run_result_def intro: keep split: prod.splits)
  show ?thesis
    by (rule spec_try [OF spec_lives [OF run lives_follow_through assms(2)]]) (auto intro: spec_pass)
qed

lemma interrupted_says:
  assumes n: "parseJson (ae_readIntent env) (Some v) = Some n"
    and plain: "redactSecretValues (ae_secrets env) (accepted_comment (ai_reason n)) = accepted_comment (ai_reason n)"
    and new: "accepted_comment (ai_reason n) \<notin> cm_content ` set c0"
    and s: "still_merging v c0 (accepted_by i n) s" "sn_faults s = []"
  shows "spec i (finishInterruptedTransition env drv i actor given) (\<lambda>_. said c0 (accepted_by i n)) (\<lambda>_ _. False) s"
  unfolding finishInterruptedTransition_def
proof (rule spec_task_read)
  fix t :: Task
  assume t: "metadata_view t = sn_meta s"
  let ?c = "accepted_by i n"
  have n': "readAcceptIntent (ae_readIntent env) t = Some n" using n s(1) t by (simp add: intent_view still_merging_def)
  have ready: "ready s" using s by (auto simp: still_merging_def ready_def)
  have finish: "spec i (finishLandedAccept env drv i tr) (\<lambda>_. said c0 ?c) (\<lambda>_ _. False) s"
    if tr: "tr_reason tr = ai_reason n" "tr_commentActor tr = ai_actor n" "tr_writeComment tr" "tr_dedupeComment tr" for tr
  proof -
    have "spec i (commitAcceptTransition env i tr) (\<lambda>_ s'. said c0 ?c s' \<and> sn_faults s' = []) (\<lambda>_ _. False) s"
      by (rule spec_mono [OF spec_conj [OF commit_says [OF tr(1-3) plain new s(1)] calm_commit [OF ready]]]) (use tr(4) in auto)
    then show ?thesis
      unfolding finishLandedAccept_def by (rule spec_seq) (simp_all add: said_follow_through)
  qed
  show "spec i (let intent = (case Some t of None \<Rightarrow> None | Some t \<Rightarrow> readAcceptIntent (ae_readIntent env) t);
        stored = (case Some t of None \<Rightarrow> None | Some t \<Rightarrow> readFollowThrough (ae_readFollow env) t);
        record = (case given of Some r \<Rightarrow> r
          | None \<Rightarrow> (case stored of Some r \<Rightarrow> r | None \<Rightarrow> owed (ad_acceptTarget drv) False False False None))
      in finishLandedAccept env drv i
        \<lparr>tr_reason = (case intent of Some n \<Rightarrow> ai_reason n | None \<Rightarrow> REASON_NOT_RECORDED), tr_actor = actor,
         tr_commentActor = (case intent of Some n \<Rightarrow> ai_actor n | None \<Rightarrow> actor),
         tr_writeComment = True, tr_dedupeComment = True, tr_followThrough = record\<rparr>)
      (\<lambda>_. said c0 ?c) (\<lambda>_ _. False) s"
    by (simp add: Let_def n' finish)
qed


section \<open>Concrete accepts\<close>

definition no_prepared :: Prepared where
  "no_prepared = \<lparr>pp_comments = [], pp_metadata = [], pp_refusal = None\<rparr>"

text \<open>A local driver: the merge lands on the spot; \<open>git\<close> is whether the work has landed.\<close>

definition local_driver :: "bool AcceptDriver" where
  "local_driver = \<lparr>ad_follow = forge_up\<lparr>fd_needsSync := False, fd_prState := (\<lambda>g. None)\<rparr>, ad_isProtected = False,
     ad_prepare = (\<lambda>stage kind g. (Inr no_prepared, g)), ad_acceptCheck = False, ad_preAccept = False,
     ad_gateSetup = (\<lambda>g. (Inr (), g)), ad_gateRun = (\<lambda>g. (Inr (GateAborted ''none''), g)),
     ad_pushTarget = (\<lambda>g. (Inr (), g)), ad_describe = (\<lambda>g. (Inr (), g)),
     ad_merge = (\<lambda>resume g. (Inr \<lparr>mr_status = MergeDone, mr_metadata = [], mr_isConflict = False, mr_error = []\<rparr>, True)),
     ad_remoteMerge = (\<lambda>g. (Inl ''none'', g)), ad_checks = (\<lambda>g. ChecksPending), ad_wrongBase = (\<lambda>g. Inr None),
     ad_pushesMirror = (\<lambda>g. False), ad_closeReviewOwed = (\<lambda>b. False), ad_followTarget = ''main'', ad_acceptTarget = ''main'',
     ad_branchPrefix = ''lazy'', ad_targetProtected = (\<lambda>t g. Inr False), ad_targetSha = (\<lambda>g. Some ''sha''),
     ad_outstanding = (\<lambda>g. None), ad_remoteConfigured = False, ad_remoteName = ''origin'',
     ad_exists = (\<lambda>r g. Inr True), ad_netEmpty = (\<lambda>b t g. Inr False), ad_alreadyIn = (\<lambda>b t g. Inr g),
     ad_fetch = (\<lambda>t g. (Inr True, g))\<rparr>"

definition accept_params :: AcceptParams where
  "accept_params = \<lparr>ap_reason = ''good'', ap_actor = Role Human, ap_approvedFiles = [], ap_acceptDirtyWorktree = False,
     ap_allowBroken = False, ap_allowReviewIssues = False, ap_recordedAt = ''now''\<rparr>"

lemma local_honest: "honest (\<lambda>landed. landed) local_driver"
  by (auto simp: honest_def inert_follow_def inert_steps_def honest_merge_def honest_forge_def honest_trees_def inert_def
      forge_merged_def other_keys_def no_prepared_def local_driver_def forge_up_def forge_down_def)

lemma local_resumable: "resumable local_driver"
  by (auto simp: resumable_def local_driver_def no_prepared_def intro: exI [of _ True])

text \<open>An accept killed after its merge, before the first write of its transition.\<close>

definition blocked_world :: "fault list \<Rightarrow> bool AcceptWorld" where
  "blocked_world faults = world_at [Blocked] [] False faults"

definition dead_world :: "bool AcceptWorld" where
  "dead_world = snd (acceptTask sample_env local_driver sample_id accept_params
     (blocked_world [Goes, Goes, Goes, Goes, Goes, Goes, Goes, Goes, Goes, Goes, Goes, Dies]))"

lemma dead_world_is:
  "sn_status (seen sample_id dead_world) = Merging" "sn_meta (seen sample_id dead_world) ACCEPT_IN_FLIGHT_KEY = ''blocked''"
  "sn_git (seen sample_id dead_world)" "sn_ended (seen sample_id dead_world) = None"
  "held sample_id dead_world" "aw_faults dead_world = []"
  by code_simp+


definition reason_transition :: Transition where
  "reason_transition = \<lparr>tr_reason = ''good'', tr_actor = Role Human, tr_commentActor = Role Human, tr_writeComment = True,
     tr_dedupeComment = False, tr_followThrough = sample_owed\<rparr>"

text \<open>The transition dies right after its comment.\<close>

definition merged_world :: "bool AcceptWorld" where
  "merged_world = world_at [Merging] [(ACCEPT_IN_FLIGHT_KEY, ''blocked''), (ACCEPT_INTENT_KEY, ''good'')] True [Goes, Goes, Dies]"

definition half_world :: "bool AcceptWorld" where
  "half_world = snd (commitAcceptTransition sample_env sample_id reason_transition merged_world)"


lemma blocked_world_is:
  "held sample_id (blocked_world [])" "sn_status (seen sample_id (blocked_world [])) = Blocked"
  "sn_outcome (seen sample_id (blocked_world [])) = None" "sn_meta (seen sample_id (blocked_world [])) ACCEPT_IN_FLIGHT_KEY = []"
  "\<not> sn_git (seen sample_id (blocked_world []))"
  by code_simp+

lemma blocked_world_sound: "sound (\<lambda>landed. landed) local_driver (seen sample_id (blocked_world []))"
  by (simp add: sound_def blocked_world_is)

lemma dead_world_reached: "(accept_step (\<lambda>landed. landed) local_driver sample_id)\<^sup>*\<^sup>* (blocked_world []) dead_world"
proof (rule r_into_rtranclp, rule accept_step.accepts)
  let ?fs = "[Goes, Goes, Goes, Goes, Goes, Goes, Goes, Goes, Goes, Goes, Goes, Dies]"
  have "(blocked_world [])\<lparr>aw_faults := ?fs\<rparr> = blocked_world ?fs" by (simp add: blocked_world_def world_at_def)
  then show "acceptTask sample_env local_driver sample_id accept_params ((blocked_world [])\<lparr>aw_faults := ?fs\<rparr>) =
      (fst (acceptTask sample_env local_driver sample_id accept_params (blocked_world ?fs)), dead_world)"
    by (simp add: dead_world_def)
qed


lemma marker_names_resting_status_witness:
  "\<exists>st. status_of_text ''blocked'' = Some st \<and> isBlockedStatus st \<and> \<not> isTerminalStatus st \<and> canTransition Merging st"
proof -
  have m: "sn_meta (seen sample_id dead_world) ACCEPT_IN_FLIGHT_KEY \<noteq> []" by (simp add: dead_world_is(2))
  show ?thesis
    using marker_names_resting_status [OF local_honest blocked_world_is(1) blocked_world_sound dead_world_reached m]
    unfolding dead_world_is(2) .
qed

end
