(* ===== verification/AcceptGaps.thy ===== *)
theory AcceptGaps
  imports AcceptLive
begin

text \<open>
  Concrete runs of the accept in which the code does less than its comments say. Each is an evaluation of
  the model on a task of the sample store.
\<close>

section \<open>The reason of an accept\<close>

text \<open>With a secret in the reason the stored text differs from the one a resume looks for, so it says it twice.\<close>

definition secret_env :: AcceptEnv where
  "secret_env = sample_env\<lparr>ae_secrets := [''good'']\<rparr>"

lemma secret_reason_twice:
  "let w1 = snd (commitAcceptTransition secret_env sample_id reason_transition merged_world)
   in length (getTaskComments (snd (finishInterruptedTransition secret_env local_driver sample_id (Role System) None
        (w1\<lparr>aw_faults := []\<rparr>))) sample_id) = 2"
  by code_simp

text \<open>A merge handed to the forge: killed between clearing the marker and the comment, the reason is lost; the
  re-entry completes the task and writes none.\<close>

definition forge_driver :: "bool AcceptDriver" where
  "forge_driver = local_driver\<lparr>ad_follow := forge_up\<lparr>fd_prState := (\<lambda>g. if g then Some PRMerged else Some PROpen)\<rparr>,
     ad_isProtected := True, ad_merge := (\<lambda>resume g. (Inr \<lparr>mr_status = MergePending, mr_metadata = [], mr_isConflict = False, mr_error = []\<rparr>, g))\<rparr>"

definition handed_over :: "bool AcceptWorld" where
  "handed_over = snd (acceptTask sample_env forge_driver sample_id accept_params
     (blocked_world (replicate 15 Goes @ [Dies])))"

lemma pending_reason_lost:
  "sn_status (seen sample_id handed_over) = Merging \<and> sn_meta (seen sample_id handed_over) ACCEPT_IN_FLIGHT_KEY = [] \<and>
   sn_meta (seen sample_id handed_over) ACCEPT_INTENT_KEY = [] \<and> getTaskComments handed_over sample_id = []"
  by (intro conjI; code_simp)

lemma pending_reason_never_written:
  "let w = snd (acceptTask sample_env forge_driver sample_id accept_params (handed_over\<lparr>aw_git := True\<rparr>))
   in sn_status (seen sample_id w) = Complete \<and> getTaskComments w sample_id = []"
  unfolding Let_def by (intro conjI; code_simp)

section \<open>A marker left behind\<close>

text \<open>An accept of a submitted task dies after writing the marker and before the status \<open>merging\<close>.\<close>

definition submitted_driver :: "bool AcceptDriver" where
  "submitted_driver = local_driver\<lparr>ad_merge := (\<lambda>resume g. (Inl ''no space'', g))\<rparr>"

definition stale_world :: "bool AcceptWorld" where
  "stale_world = snd (acceptTask sample_env submitted_driver sample_id accept_params
     (world_at [Submitted] [] False [Goes, Goes, Goes, Goes, Goes, Goes, Goes, Dies]))"

lemma stale_marker:
  "sn_status (seen sample_id stale_world) = Submitted \<and> sn_meta (seen sample_id stale_world) ACCEPT_IN_FLIGHT_KEY = ''submitted''"
  by (intro conjI; code_simp)

text \<open>A later turn leaves the task in \<open>conflict\<close>; an accept that fails to merge then puts it back to \<open>submitted\<close>.\<close>

lemma stale_marker_erases_conflict:
  "let w = snd (acceptTask sample_env submitted_driver sample_id accept_params
     (world_at [Conflict] [(ACCEPT_IN_FLIGHT_KEY, ''submitted'')] False []))
   in sn_status (seen sample_id w) = Submitted"
  by code_simp

section \<open>An escape over landed work\<close>

text \<open>With its resumes exhausted the escape asks the trees; when git fails to answer it restores the task over
  work that has landed.\<close>

lemma escape_over_landed_work:
  "let w = snd (escapeMergingForOperation sample_env local_driver sample_id (Role Human) True ''note''
     (world_at [Merging] [(ACCEPT_IN_FLIGHT_KEY, ''blocked''), (ACCEPT_RESUME_ATTEMPTS_KEY, ''3'')] True [Fails]))
   in sn_git (seen sample_id w) \<and> sn_status (seen sample_id w) = Blocked"
  unfolding Let_def by (intro conjI; code_simp)

section \<open>The acceptance gate\<close>

text \<open>A failure of the runner that the gate does not foresee leaves the task \<open>working\<close>, with nothing running.\<close>

lemma gate_leaves_working:
  "let w = snd (runInAcceptGateContainer sample_env (local_driver\<lparr>ad_gateRun := (\<lambda>g. (Inl ''no such container'', g))\<rparr>)
     sample_id ''blocked'' (blocked_world []))
   in sn_status (seen sample_id w) = Working"
  by code_simp

section \<open>A pending merge that could not be recorded\<close>

text \<open>The forge took the merge; storing its metadata fails, and the fresh accept puts the task back as if nothing
  had been asked of the forge. \<open>git\<close> is here whether the forge holds the merge.\<close>

definition handing_driver :: "bool AcceptDriver" where
  "handing_driver = forge_driver\<lparr>ad_merge := (\<lambda>resume g. (Inr \<lparr>mr_status = MergePending, mr_metadata = [(''pr_number'', ''7'')],
     mr_isConflict = False, mr_error = []\<rparr>, True))\<rparr>"

lemma pending_merge_put_back:
  "let w = snd (acceptTask sample_env handing_driver sample_id accept_params
     (blocked_world [Goes, Goes, Goes, Goes, Goes, Goes, Goes, Goes, Goes, Goes, Goes, Fails]))
   in sn_git (seen sample_id w) \<and> sn_status (seen sample_id w) = Blocked"
  unfolding Let_def by (intro conjI; code_simp)

end
