(* ===== verification/TurnText.thy ===== *)
theory TurnText
  imports TaskIdentity
begin

text \<open>
  What lazy does to a text before it stores it on a turn or sends it to an agent: control characters are
  escaped (\<open>utils/sanitize-text.ts\<close>), a marker a person typed is made inert and lazy's own spans are marked
  and folded (\<open>task/wrapper-fold.ts\<close>), and prompt templates are filled with \<open>String.prototype.replace\<close>. The
  text of the cluster contract, which is a prompt file, is an argument of the folding of old turns. The em
  dash, which lies outside the code units of the model, is written \<open>--\<close>.
\<close>

definition eol :: string where
  "eol = [CHR 0x0A]"

definition text_lines :: "string \<Rightarrow> string list" where
  "text_lines s = split_on (CHR 0x0A) s"

definition from_lines :: "string list \<Rightarrow> string" where
  "from_lines ls = join_with eol ls"

section \<open>Control characters\<close>

definition NUL_CHAR :: char where
  "NUL_CHAR = CHR 0x00"

definition offending :: "char \<Rightarrow> bool" where
  "offending c \<longleftrightarrow>
     (let n = of_char c :: nat
      in n \<le> 8 \<or> n = 11 \<or> n = 12 \<or> (14 \<le> n \<and> n \<le> 31) \<or> (127 \<le> n \<and> n \<le> 159))"

lemma offending_bits [simp, code]:
  "offending (Char b0 b1 b2 b3 b4 b5 b6 b7) \<longleftrightarrow>
     (if b7 then \<not> b6 \<and> \<not> b5
      else if b6 \<or> b5 then b6 \<and> b5 \<and> b4 \<and> b3 \<and> b2 \<and> b1 \<and> b0
      else b4 \<or> \<not> b3 \<or> (if b2 then b1 \<or> \<not> b0 else b1 = b0))"
  by (cases b0; cases b1; cases b2; cases b3; cases b4; cases b5; cases b6; cases b7)
     (simp_all add: offending_def of_char_def)

definition hex_digit :: "bool \<Rightarrow> nat \<Rightarrow> char" where
  "hex_digit upper d = char_of (if d < 10 then 48 + d else if upper then 55 + d else 87 + d)"

fun to_hex :: "bool \<Rightarrow> nat \<Rightarrow> string" where
  "to_hex upper n =
     (if n < 16 then [hex_digit upper n] else to_hex upper (n div 16) @ [hex_digit upper (n mod 16)])"

declare to_hex.simps [simp del]

definition pad_start :: "nat \<Rightarrow> char \<Rightarrow> string \<Rightarrow> string" where
  "pad_start k c s = replicate (k - length s) c @ s"

definition escapeFor :: "nat \<Rightarrow> string" where
  "escapeFor code = CHR 0x5C # CHR ''u'' # pad_start 4 (CHR ''0'') (to_hex False code)"

definition labelFor :: "nat \<Rightarrow> string" where
  "labelFor code = ''U+'' @ pad_start 4 (CHR ''0'') (to_hex True code)"

record SanitizeResult =
  sz_text :: string
  sz_replaced :: nat
  sz_found :: "string list"
  sz_hadNul :: bool

definition sanitizeControlChars :: "string \<Rightarrow> SanitizeResult" where
  "sanitizeControlChars s =
     (let bad = filter offending s
      in \<lparr>sz_text = concat (map (\<lambda>c. if offending c then escapeFor (of_char c) else [c]) s),
          sz_replaced = length bad,
          sz_found = map labelFor (sort (remdups (map of_char bad))),
          sz_hadNul = (NUL_CHAR \<in> set bad)\<rparr>)"

definition sanitizationNote :: "SanitizeResult \<Rightarrow> string" where
  "sanitizationNote r =
     eol @ eol @ ''---'' @ eol @ ''_[lazy sanitized '' @ show_nat (sz_replaced r) @
     '' non-printable control '' @ (if sz_replaced r = 1 then ''character'' else ''characters'') @
     '' ('' @ join_with '', '' (sz_found r) @ '') in the text above, replacing each with its printable '' @
     ''escape. Raw control bytes cannot be passed to the agent process (NUL is illegal in '' @
     ''argv), so they are escaped rather than dropped -- no content was lost.]_''"

definition sanitizeUserText :: "bool \<Rightarrow> string \<Rightarrow> string" where
  "sanitizeUserText annotate s =
     (let r = sanitizeControlChars s
      in if sz_replaced r = 0 then s
         else if annotate then sz_text r @ sanitizationNote r else sz_text r)"

definition findArgvIllegalIndices :: "string list \<Rightarrow> nat list" where
  "findArgvIllegalIndices args = filter (\<lambda>i. NUL_CHAR \<in> set (args ! i)) [0..<length args]"

definition sanitizePromptForArgv :: "string \<Rightarrow> string" where
  "sanitizePromptForArgv prompt =
     (let r = sanitizeControlChars prompt
      in if sz_replaced r = 0 then prompt else sz_text r @ sanitizationNote r)"

definition assertArgvSafe :: "string list \<Rightarrow> (nat list, unit) result" where
  "assertArgvSafe args = (let bad = findArgvIllegalIndices args in if bad = [] then Inr () else Inl bad)"

abbreviation printable :: "string \<Rightarrow> bool" where
  "printable s \<equiv> \<forall>c \<in> set s. \<not> offending c"

lemma of_char_hex_digit:
  "d < 16 \<Longrightarrow> (of_char (hex_digit upper d) :: nat) = (if d < 10 then 48 + d else if upper then 55 + d else 87 + d)"
  by (simp add: hex_digit_def)

lemma printable_to_hex: "printable (to_hex upper n)"
proof (induction n rule: to_hex.induct [of _ upper])
  case (1 n)
  then show ?case
    by (subst to_hex.simps) (auto simp: offending_def Let_def of_char_hex_digit)
qed

lemma printable_labels [simp]: "printable (escapeFor n)" "printable (labelFor n)"
  using printable_to_hex [of False n] printable_to_hex [of True n]
  by (auto simp: escapeFor_def labelFor_def pad_start_def)

lemma printable_digits [simp]: "printable (show_nat n)"
  using show_nat_digits [of n] by (auto simp: is_digit_def offending_def)

lemma printable_join: "printable d \<Longrightarrow> \<forall>s \<in> set ss. printable s \<Longrightarrow> printable (join_with d ss)"
  by (induction d ss rule: join_with.induct) auto

lemma printable_note [simp]: "set (sz_found r) \<subseteq> range labelFor \<Longrightarrow> printable (sanitizationNote r)"
proof -
  assume "set (sz_found r) \<subseteq> range labelFor"
  then have "\<forall>s \<in> set (sz_found r). printable s" using printable_labels(2) by blast
  then have "printable (join_with '', '' (sz_found r))"
    by (intro printable_join) auto
  then show "printable (sanitizationNote r)"
    by (auto simp: sanitizationNote_def eol_def)
qed

lemma printable_sanitized: "printable (sz_text (sanitizeControlChars s))"
  by (auto simp: sanitizeControlChars_def Let_def)

lemma sanitized_found: "set (sz_found (sanitizeControlChars s)) \<subseteq> range labelFor"
  by (auto simp: sanitizeControlChars_def Let_def)

lemma sanitize_printable:
  assumes "printable s"
  shows "sanitizeControlChars s = \<lparr>sz_text = s, sz_replaced = 0, sz_found = [], sz_hadNul = False\<rparr>"
proof -
  have "filter offending s = []" using assms by (auto simp: filter_empty_conv)
  moreover have "concat (map (\<lambda>c. if offending c then escapeFor (of_char c) else [c]) s) = s"
    using assms by (induction s) auto
  ultimately show ?thesis by (simp add: sanitizeControlChars_def)
qed

lemma sanitized_zero: "sz_replaced (sanitizeControlChars s) = 0 \<longleftrightarrow> printable s"
  by (auto simp: sanitizeControlChars_def Let_def filter_empty_conv)

lemma printable_sanitizeUserText [simp]: "printable (sanitizeUserText annotate s)"
  using printable_sanitized [of s] printable_note [OF sanitized_found [of s]] sanitized_zero [of s]
  by (auto simp: sanitizeUserText_def Let_def)

lemma sanitizeUserText_printable: "printable s \<Longrightarrow> sanitizeUserText annotate s = s"
  by (simp add: sanitizeUserText_def sanitize_printable)

lemma sanitizeUserText_idem: "sanitizeUserText a (sanitizeUserText b s) = sanitizeUserText b s"
  by (rule sanitizeUserText_printable) simp

lemma offending_NUL [simp]: "offending NUL_CHAR"
  by (simp add: offending_def NUL_CHAR_def)

lemma sanitized_argv_safe: "assertArgvSafe (map (sanitizeUserText annotate) args) = Inr ()"
proof -
  have "NUL_CHAR \<notin> set (sanitizeUserText annotate a)" for a
    using printable_sanitizeUserText offending_NUL by metis
  then show ?thesis by (simp add: assertArgvSafe_def findArgvIllegalIndices_def)
qed

section \<open>Markers\<close>

text \<open>\<open>/<!--(\s*\/?\s*)lazy:fold/g\<close>: the gap is white space around at most one slash, and \<open>lazy:fold\<close> starts
  with neither, so the match is the greedy one.\<close>

definition marker_gap :: "string \<Rightarrow> string" where
  "marker_gap s =
     (let a = takeWhile is_space s; r = dropWhile is_space s
      in if r \<noteq> [] \<and> hd r = CHR ''/'' then a @ CHR ''/'' # takeWhile is_space (tl r) else a)"

definition marker_at :: "string \<Rightarrow> bool" where
  "marker_at s \<longleftrightarrow>
     starts_with s ''<!--'' \<and> starts_with (drop (length (marker_gap (drop 4 s))) (drop 4 s)) ''lazy:fold''"

definition escaped_marker :: "string \<Rightarrow> string" where
  "escaped_marker s = ''&lt;!--'' @ marker_gap (drop 4 s) @ ''lazy:fold''"

definition after_marker :: "string \<Rightarrow> string" where
  "after_marker s = drop 9 (drop (length (marker_gap (drop 4 s))) (drop 4 s))"

lemma length_after_marker [termination_simp]: "length (after_marker (c # s)) < Suc (length s)"
  by (simp add: after_marker_def)

fun neutralizeLazyMarkers :: "string \<Rightarrow> string" where
  "neutralizeLazyMarkers [] = []"
| "neutralizeLazyMarkers (c # s) =
     (if marker_at (c # s) then escaped_marker (c # s) @ neutralizeLazyMarkers (after_marker (c # s))
      else c # neutralizeLazyMarkers s)"

text \<open>\<open>/<!--\s*\/?\s*lazy:fold/.test(s)\<close>\<close>

fun spells_marker :: "string \<Rightarrow> bool" where
  "spells_marker [] = False"
| "spells_marker (c # s) = (marker_at (c # s) \<or> spells_marker s)"

definition label_char :: "char \<Rightarrow> bool" where
  "label_char c \<longleftrightarrow> is_lower_az c \<or> is_digit c \<or> c = CHR ''-''"

definition LABEL_RE :: "string \<Rightarrow> bool" where
  "LABEL_RE label \<longleftrightarrow> label \<noteq> [] \<and> hd label \<noteq> CHR ''-'' \<and> (\<forall>c \<in> set label. label_char c)"

definition OPEN_RE :: "string \<Rightarrow> string option" where
  "OPEN_RE line =
     (let r = drop 15 line; label = takeWhile label_char r
      in if starts_with line ''<!-- lazy:fold '' \<and> LABEL_RE label \<and> dropWhile label_char r = '' -->''
         then Some label else None)"

definition CLOSE_LINE :: string where
  "CLOSE_LINE = ''<!-- /lazy:fold -->''"

definition open_line :: "string \<Rightarrow> string" where
  "open_line label = ''<!-- lazy:fold '' @ label @ '' -->''"

definition fold_block :: "string \<Rightarrow> string \<Rightarrow> string" where
  "fold_block label s = open_line label @ eol @ neutralizeLazyMarkers s @ eol @ CLOSE_LINE"

datatype fold_error = InvalidLabel string

definition lazyFold :: "string \<Rightarrow> string \<Rightarrow> (fold_error, string) result" where
  "lazyFold label s = (if LABEL_RE label then Inr (fold_block label s) else Inl (InvalidLabel label))"

subsection \<open>What a neutralized text spells\<close>

definition gap :: "string \<Rightarrow> bool" where
  "gap g \<longleftrightarrow> (\<exists>a b. (\<forall>c \<in> set (a @ b). is_space c) \<and> (g = a @ b \<or> g = a @ CHR ''/'' # b))"

lemma marker_gap_stops:
  assumes "gap g" "\<not> is_space x" "x \<noteq> CHR ''/''"
  shows "marker_gap (g @ x # v) = g"
proof -
  obtain a b where ab: "\<forall>c \<in> set (a @ b). is_space c" "g = a @ b \<or> g = a @ CHR ''/'' # b"
    using assms(1) unfolding gap_def by blast
  have slash: "\<not> is_space (CHR ''/'')" by (simp add: is_space_def)
  from ab(2) show ?thesis
  proof
    assume g: "g = a @ b"
    have "takeWhile is_space (g @ x # v) = g" and "dropWhile is_space (g @ x # v) = x # v"
      using ab(1) assms(2) by (auto simp: g takeWhile_append dropWhile_append)
    with assms(3) show ?thesis by (simp add: marker_gap_def)
  next
    assume g: "g = a @ CHR ''/'' # b"
    have "takeWhile is_space (g @ x # v) = a" and "dropWhile is_space (g @ x # v) = CHR ''/'' # b @ x # v"
      using ab(1) slash by (auto simp: g takeWhile_append dropWhile_append)
    moreover have "takeWhile is_space (b @ x # v) = b" using ab(1) assms(2) by (auto simp: takeWhile_append)
    ultimately show ?thesis by (simp add: marker_gap_def g)
  qed
qed

lemma gap_spaces: "\<forall>c \<in> set a. is_space c \<Longrightarrow> gap a"
  unfolding gap_def by (rule exI [of _ a], rule exI [of _ "[]"]) simp

lemma gap_slash: "\<forall>c \<in> set (a @ b). is_space c \<Longrightarrow> gap (a @ CHR ''/'' # b)"
  unfolding gap_def by (rule exI [of _ a], rule exI [of _ b]) simp

lemma takeWhile_spaces: "\<forall>c \<in> set (takeWhile is_space s). is_space c"
  using set_takeWhileD by fast

lemma gap_marker_gap: "gap (marker_gap s)"
  unfolding marker_gap_def Let_def
  using takeWhile_spaces [of s] takeWhile_spaces [of "tl (dropWhile is_space s)"]
  by (cases "dropWhile is_space s \<noteq> [] \<and> hd (dropWhile is_space s) = CHR ''/''")
     (simp_all only: if_True if_False gap_spaces gap_slash set_append ball_Un not_True_eq_False not_False_eq_True simp_thms)

lemma marker_gap_prefix: "\<exists>v. s = marker_gap s @ v"
proof -
  have s: "takeWhile is_space s @ dropWhile is_space s = s" by simp
  show ?thesis
  proof (cases "dropWhile is_space s")
    case Nil
    have "marker_gap s = takeWhile is_space s" unfolding marker_gap_def Let_def Nil by simp
    then have "s = marker_gap s @ []" using s by (simp only: Nil append_Nil2)
    then show ?thesis by blast
  next
    case (Cons c t)
    have t: "takeWhile is_space t @ dropWhile is_space t = t" by simp
    have "s = marker_gap s @ (if c = CHR ''/'' then dropWhile is_space t else c # t)"
      using s t unfolding marker_gap_def Let_def Cons by auto
    then show ?thesis by blast
  qed
qed

lemma marker_at_iff: "marker_at s \<longleftrightarrow> (\<exists>g v. gap g \<and> s = ''<!--'' @ g @ ''lazy:fold'' @ v)"
proof
  assume m: "marker_at s"
  then obtain t where s: "s = ''<!--'' @ t" by (auto simp: marker_at_def starts_with_iff)
  moreover obtain v where t: "t = marker_gap t @ v" using marker_gap_prefix by blast
  moreover have "drop (length (marker_gap t)) t = v" using t by (metis append_eq_conv_conj)
  then have "starts_with v ''lazy:fold''" using m by (simp add: marker_at_def s)
  then obtain w where "v = ''lazy:fold'' @ w" unfolding starts_with_iff by blast
  ultimately show "\<exists>g v. gap g \<and> s = ''<!--'' @ g @ ''lazy:fold'' @ v"
    using gap_marker_gap [of t] by (metis)
next
  assume "\<exists>g v. gap g \<and> s = ''<!--'' @ g @ ''lazy:fold'' @ v"
  then obtain g v where g: "gap g" and s: "s = ''<!--'' @ g @ ''lazy:fold'' @ v" by blast
  have "marker_gap (g @ CHR ''l'' # ''azy:fold'' @ v) = g"
    by (rule marker_gap_stops [OF g]) (simp_all add: is_space_def)
  then show "marker_at s" by (simp add: s marker_at_def)
qed

text \<open>No marker starts inside another, so the text may be read one character at a time.\<close>

lemma gap_chars: "gap g \<Longrightarrow> c \<in> set g \<Longrightarrow> is_space c \<or> c = CHR ''/''"
  unfolding gap_def by fastforce

lemma gap_no_lt: "gap g \<Longrightarrow> CHR ''<'' \<notin> set g \<and> CHR ''&'' \<notin> set g"
  using gap_chars [of g "CHR ''<''"] gap_chars [of g "CHR ''&''"] by (auto simp: is_space_def)

lemma not_marker_at: "c \<noteq> CHR ''<'' \<Longrightarrow> \<not> marker_at (c # s)"
  by (simp add: marker_at_def)

lemma neutralize_skip: "CHR ''<'' \<notin> set u \<Longrightarrow> neutralizeLazyMarkers (u @ v) = u @ neutralizeLazyMarkers v"
  by (induction u) (auto simp: not_marker_at)

lemma neutralize_Cons:
  "neutralizeLazyMarkers (c # s) =
     (if marker_at (c # s) then ''&lt;'' else [c]) @ neutralizeLazyMarkers s"
proof (cases "marker_at (c # s)")
  case True
  then obtain g v where g: "gap g" and s: "c # s = ''<!--'' @ g @ ''lazy:fold'' @ v"
    unfolding marker_at_iff by blast
  have mg: "marker_gap (g @ CHR ''l'' # ''azy:fold'' @ v) = g"
    by (rule marker_gap_stops [OF g]) (simp_all add: is_space_def)
  have "neutralizeLazyMarkers (c # s) = ''&lt;!--'' @ g @ ''lazy:fold'' @ neutralizeLazyMarkers v"
    using True mg by (simp add: s escaped_marker_def after_marker_def)
  also have "\<dots> = ''&lt;'' @ neutralizeLazyMarkers (''!--'' @ g @ ''lazy:fold'' @ v)"
    using neutralize_skip [of "''!--'' @ g @ ''lazy:fold''" v] gap_no_lt [OF g] by simp
  finally show ?thesis using True s by simp
qed simp

declare neutralizeLazyMarkers.simps(2) [simp del]

lemma neutralize_split: "\<exists>p. neutralizeLazyMarkers (s @ t) = p @ neutralizeLazyMarkers t"
  by (induction s) (auto simp: neutralize_Cons)

lemma neutralize_plain_prefix:
  "neutralizeLazyMarkers s = u @ v \<Longrightarrow> CHR ''&'' \<notin> set u \<Longrightarrow> \<exists>w. s = u @ w"
proof (induction u arbitrary: s)
  case (Cons c u)
  then obtain d s' where s: "s = d # s'" by (cases s) auto
  with Cons.prems have "d = c" and "neutralizeLazyMarkers s' = u @ v"
    by (auto simp: neutralize_Cons split: if_splits)
  with Cons.IH [of s'] Cons.prems s show ?case by auto
qed simp

lemma marker_at_neutralized: "marker_at (c # neutralizeLazyMarkers s) \<Longrightarrow> marker_at (c # s)"
proof -
  assume "marker_at (c # neutralizeLazyMarkers s)"
  then obtain g v where g: "gap g" and eq: "c # neutralizeLazyMarkers s = ''<!--'' @ g @ ''lazy:fold'' @ v"
    unfolding marker_at_iff by blast
  then have "neutralizeLazyMarkers s = (''!--'' @ g @ ''lazy:fold'') @ v" by simp
  then have "\<exists>w. s = (''!--'' @ g @ ''lazy:fold'') @ w"
    by (rule neutralize_plain_prefix) (simp add: gap_no_lt [OF g])
  then obtain w where "c # s = ''<!--'' @ g @ ''lazy:fold'' @ w" using eq by auto
  with g show "marker_at (c # s)" unfolding marker_at_iff by blast
qed

lemma not_spells_skip: "CHR ''<'' \<notin> set u \<Longrightarrow> spells_marker (u @ v) = spells_marker v"
  by (induction u) (auto simp: not_marker_at)

lemma neutralized_inert [simp]: "\<not> spells_marker (neutralizeLazyMarkers s)"
proof (induction s)
  case (Cons c s)
  show ?case
  proof (cases "marker_at (c # s)")
    case True
    with Cons show ?thesis using not_spells_skip [of "''&lt;''" "neutralizeLazyMarkers s"] by (simp add: neutralize_Cons)
  next
    case False
    with Cons show ?thesis using marker_at_neutralized [of c s] by (auto simp: neutralize_Cons)
  qed
qed simp

lemma neutralize_inert: "\<not> spells_marker s \<Longrightarrow> neutralizeLazyMarkers s = s"
  by (induction s) (auto simp: neutralize_Cons)

lemma neutralize_idem [simp]: "neutralizeLazyMarkers (neutralizeLazyMarkers s) = neutralizeLazyMarkers s"
  by (rule neutralize_inert) simp

lemma neutralize_eq_Nil [simp]: "neutralizeLazyMarkers s = [] \<longleftrightarrow> s = []"
  by (cases s) (auto simp: neutralize_Cons)

lemma spells_marker_iff: "spells_marker s \<longleftrightarrow> (\<exists>a b. s = a @ b \<and> marker_at b)"
proof (induction s)
  case (Cons c s)
  show ?case
  proof
    assume "spells_marker (c # s)"
    then show "\<exists>a b. c # s = a @ b \<and> marker_at b"
      using Cons by (auto intro: exI [of _ "[]"]) (metis append_Cons)
  next
    assume "\<exists>a b. c # s = a @ b \<and> marker_at b"
    then show "spells_marker (c # s)" using Cons by (auto simp: Cons_eq_append_conv)
  qed
qed (simp add: marker_at_def)

section \<open>Folding\<close>

datatype StoredRole = HumanRole | AgentRole

datatype TurnType = WorkTurn | AskTurn | NudgeTurn | SyncTurn | PreAcceptTurn | ReviewingTurn | WrapUpTurn

text \<open>\<open>turn_type\<close> is left out of a stored work turn: \<open>None\<close> and \<open>Some WorkTurn\<close> are both work.\<close>

record FoldableTurn =
  fd_role :: StoredRole
  fd_content :: string
  fd_actor :: "Actor option"
  fd_turn_type :: "TurnType option"
  fd_feedback_texts :: "string list"

datatype TurnFoldSegment = TextSegment (segment_text: string) | LazySegment (segment_label: string) (segment_text: string)

fun lazy_segment :: "TurnFoldSegment \<Rightarrow> bool" where
  "lazy_segment (TextSegment t) = False"
| "lazy_segment (LazySegment l t) = True"

datatype FoldSource = FromMarkers | FromLegacy

record TurnFold =
  fo_segments :: "TurnFoldSegment list"
  fo_primary :: string
  fo_lazy_lines :: nat
  fo_source :: FoldSource

definition flush_text :: "string list \<Rightarrow> TurnFoldSegment list" where
  "flush_text ls = (if ls = [] then [] else [TextSegment (from_lines ls)])"

function parse_lines ::
  "string list \<Rightarrow> TurnFoldSegment list \<Rightarrow> string list \<Rightarrow> (string \<times> string list) option \<Rightarrow>
   TurnFoldSegment list option" where
  "parse_lines [] segments pending opened =
     (if opened \<noteq> None then None
      else if \<not> list_ex lazy_segment segments then None
      else Some (segments @ flush_text pending))"
| "parse_lines (line # rest) segments pending opened =
     (case OPEN_RE line of
        Some label \<Rightarrow>
          (case opened of
             Some _ \<Rightarrow> None
           | None \<Rightarrow> parse_lines rest (segments @ flush_text pending) [] (Some (label, [])))
      | None \<Rightarrow>
          if line = CLOSE_LINE then
            (case opened of
               None \<Rightarrow> None
             | Some (label, body) \<Rightarrow>
                 if dropWhile (\<lambda>l. l = []) rest \<noteq> [] \<and> hd (dropWhile (\<lambda>l. l = []) rest) = ''---'' then
                   parse_lines (tl (dropWhile (\<lambda>l. l = []) rest))
                     (segments @ [LazySegment label (from_lines (body @ takeWhile (\<lambda>l. l = []) rest @ [''---'']))])
                     pending None
                 else parse_lines rest (segments @ [LazySegment label (from_lines body)]) pending None)
          else
            (case opened of
               Some (label, body) \<Rightarrow> parse_lines rest segments pending (Some (label, body @ [line]))
             | None \<Rightarrow> parse_lines rest segments (pending @ [line]) None))"
  by pat_completeness auto
termination
proof (relation "measure (\<lambda>(ls, _). length ls)")
qed (auto simp: less_Suc_eq_le intro: le_trans [OF diff_le_self length_dropWhile_le])

definition parseMarkers :: "string \<Rightarrow> TurnFoldSegment list option" where
  "parseMarkers content = parse_lines (text_lines content) [] [] None"

definition LEGACY_CLUSTER_PREFIX :: "string \<Rightarrow> string" where
  "LEGACY_CLUSTER_PREFIX clusterConstraints = clusterConstraints @ eol @ eol @ ''---'' @ eol @ eol"

definition LEGACY_PURE_NUDGE_HEADINGS :: "string list" where
  "LEGACY_PURE_NUDGE_HEADINGS =
     [''## Permission Violation Review'', ''## Uncommitted Work'', ''## Uncommitted Changes Check'',
      ''## Stopped Background Work Check'', ''## Presentation Walkthrough'', ''## Low-High Loop Self-Review'']"

definition legacyFold :: "string \<Rightarrow> FoldableTurn \<Rightarrow> TurnFoldSegment list option" where
  "legacyFold clusterConstraints turn =
     (let content = fd_content turn
      in if fd_actor turn = Some Supervisor \<and> fd_turn_type turn = Some NudgeTurn then
           (if trim (hd (text_lines content)) \<in> set LEGACY_PURE_NUDGE_HEADINGS then
              (case index_of content eol of
                 None \<Rightarrow> None
               | Some i \<Rightarrow> Some [TextSegment (take i content), LazySegment ''wrap-up'' (drop (Suc i) content)])
            else None)
         else if starts_with content (LEGACY_CLUSTER_PREFIX clusterConstraints) then
           (let rest = drop (length (LEGACY_CLUSTER_PREFIX clusterConstraints)) content
            in Some (LazySegment ''cluster-constraints'' (LEGACY_CLUSTER_PREFIX clusterConstraints) #
                     (if trim rest \<noteq> [] then [TextSegment rest] else [])))
         else None)"

definition humanWordsSpellAMarker :: "FoldableTurn \<Rightarrow> bool" where
  "humanWordsSpellAMarker turn = list_ex spells_marker (fd_feedback_texts turn)"

definition strip_newlines :: "string \<Rightarrow> string" where
  "strip_newlines s = rev (dropWhile (\<lambda>c. c = CHR 0x0A) (rev (dropWhile (\<lambda>c. c = CHR 0x0A) s)))"

definition lineCount :: "string \<Rightarrow> nat" where
  "lineCount s = (let trimmed = strip_newlines s in if trimmed \<noteq> [] then length (text_lines trimmed) else 0)"

definition fold_of :: "TurnFoldSegment list \<Rightarrow> FoldSource \<Rightarrow> TurnFold" where
  "fold_of segments source =
     \<lparr>fo_segments = segments,
      fo_primary =
        join_with (eol @ eol)
          (filter (\<lambda>t. trim t \<noteq> [])
             (map (\<lambda>s. strip_newlines (segment_text s)) (filter (\<lambda>s. \<not> lazy_segment s) segments))),
      fo_lazy_lines = sum_list (map (\<lambda>s. lineCount (segment_text s)) (filter lazy_segment segments)),
      fo_source = source\<rparr>"

definition foldTurn :: "string \<Rightarrow> FoldableTurn \<Rightarrow> TurnFold option" where
  "foldTurn clusterConstraints turn =
     (if fd_role turn \<noteq> HumanRole \<or> fd_content turn = [] then None
      else if humanWordsSpellAMarker turn then None
      else
        (case parseMarkers (fd_content turn) of
           Some segments \<Rightarrow> if list_ex lazy_segment segments then Some (fold_of segments FromMarkers) else None
         | None \<Rightarrow>
             (case legacyFold clusterConstraints turn of
                Some segments \<Rightarrow> if list_ex lazy_segment segments then Some (fold_of segments FromLegacy) else None
              | None \<Rightarrow> None)))"

definition foldCaption :: "TurnFold \<Rightarrow> string" where
  "foldCaption f =
     ''lazy's instructions ('' @ show_nat (fo_lazy_lines f) @ '' line'' @
     (if fo_lazy_lines f = 1 then [] else ''s'') @ '')''"

datatype SupervisedKind =
    PermissionPushback | CommitLeftovers | CommitNudge | BackgroundNudge | PresentStep | LowHighReview
  | PendingNotes | OtherSupervised string

definition PURE_SUPERVISED_KINDS :: "SupervisedKind list" where
  "PURE_SUPERVISED_KINDS =
     [PermissionPushback, CommitLeftovers, CommitNudge, BackgroundNudge, PresentStep, LowHighReview]"

definition supervisedTurnContent :: "SupervisedKind \<Rightarrow> string \<Rightarrow> string \<Rightarrow> string" where
  "supervisedTurnContent kind heading prompt =
     heading @ eol @ eol @
     (if kind \<in> set PURE_SUPERVISED_KINDS then fold_block ''wrap-up'' prompt
      else if kind = PendingNotes then prompt else neutralizeLazyMarkers prompt)"

subsection \<open>Lines\<close>

lemma text_lines_append: "text_lines (a @ eol @ b) = text_lines a @ text_lines b"
  unfolding text_lines_def eol_def
proof (induction a)
  case (Cons c a)
  obtain w ws where "split_on (CHR 0x0A) a = w # ws" using split_on_ne by (meson neq_Nil_conv)
  with Cons show ?case by auto
qed simp

lemma text_lines_plain: "CHR 0x0A \<notin> set l \<Longrightarrow> text_lines l = [l]"
  unfolding text_lines_def by (induction l) auto

lemma text_lines_ne [simp]: "text_lines s \<noteq> []"
  by (simp add: text_lines_def)

lemma from_lines_text_lines [simp]: "from_lines (text_lines s) = s"
  by (simp add: from_lines_def text_lines_def eol_def join_split)

lemma line_plain: "l \<in> set (text_lines s) \<Longrightarrow> CHR 0x0A \<notin> set l"
  unfolding text_lines_def
proof (induction s arbitrary: l)
  case (Cons c s)
  obtain w ws where "split_on (CHR 0x0A) s = w # ws" using split_on_ne by (meson neq_Nil_conv)
  with Cons show ?case by (auto split: if_splits)
qed simp

lemma from_lines_append: "a \<noteq> [] \<Longrightarrow> b \<noteq> [] \<Longrightarrow> from_lines (a @ b) = from_lines a @ eol @ from_lines b"
  unfolding from_lines_def by (induction a rule: induct_list012) (auto simp: join_with_Cons)

lemma text_lines_from_lines:
  "\<forall>l \<in> set ls. CHR 0x0A \<notin> set l \<Longrightarrow> ls \<noteq> [] \<Longrightarrow> text_lines (from_lines ls) = ls"
proof (induction ls rule: induct_list012)
  case (3 x y zs)
  then show ?case
    using text_lines_append [of x "from_lines (y # zs)"] text_lines_plain [of x]
    by (simp add: from_lines_def)
qed (simp_all add: from_lines_def text_lines_plain)

lemma lines_of_lines:
  "\<forall>l \<in> set ls. CHR 0x0A \<notin> set l \<Longrightarrow>
   filter (\<lambda>l. l \<noteq> []) (text_lines (from_lines ls)) = filter (\<lambda>l. l \<noteq> []) ls"
  by (cases ls) (simp_all add: text_lines_from_lines, simp add: from_lines_def text_lines_def)

definition marker_line :: "string \<Rightarrow> bool" where
  "marker_line l \<longleftrightarrow> OPEN_RE l \<noteq> None \<or> l = CLOSE_LINE"

lemma marker_line_close [simp]: "marker_line CLOSE_LINE"
  by (simp add: marker_line_def)

lemma OPEN_RE_Some: "OPEN_RE l = Some label \<longleftrightarrow> LABEL_RE label \<and> l = open_line label"
proof
  assume "OPEN_RE l = Some label"
  then have a: "starts_with l ''<!-- lazy:fold ''" "LABEL_RE label" "label = takeWhile label_char (drop 15 l)"
    "dropWhile label_char (drop 15 l) = '' -->''"
    by (auto simp: OPEN_RE_def Let_def split: if_splits)
  from a(1) obtain t where l: "l = ''<!-- lazy:fold '' @ t" unfolding starts_with_iff by blast
  then have "drop 15 l = t" by simp
  with a(3,4) have "t = label @ '' -->''" by (metis takeWhile_dropWhile_id)
  with a(2) l show "LABEL_RE label \<and> l = open_line label" by (simp add: open_line_def)
next
  assume r: "LABEL_RE label \<and> l = open_line label"
  then have "takeWhile label_char (label @ '' -->'') = label" "dropWhile label_char (label @ '' -->'') = '' -->''"
    by (auto simp: LABEL_RE_def takeWhile_append dropWhile_append label_char_def is_lower_az_def is_digit_def)
  with r show "OPEN_RE l = Some label" by (simp add: OPEN_RE_def open_line_def)
qed

lemma OPEN_RE_close [simp]: "OPEN_RE CLOSE_LINE = None"
  by (simp add: OPEN_RE_def CLOSE_LINE_def)

lemma marker_at_append: "marker_at s \<Longrightarrow> marker_at (s @ t)"
  unfolding marker_at_iff by fastforce

lemma spells_marker_sub: "spells_marker s \<Longrightarrow> spells_marker (a @ s @ b)"
  unfolding spells_marker_iff by (metis append.assoc marker_at_append)

lemma line_sub: "l \<in> set (text_lines s) \<Longrightarrow> \<exists>a b. s = a @ l @ b"
proof -
  assume "l \<in> set (text_lines s)"
  then obtain x y where xy: "text_lines s = x @ l # y" by (meson split_list)
  define a where "a = (if x = [] then [] else from_lines x @ eol)"
  define b where "b = (if y = [] then [] else eol @ from_lines y)"
  have "s = from_lines (x @ l # y)" using xy from_lines_text_lines by metis
  also have "\<dots> = a @ from_lines (l # y)" using from_lines_append [of x "l # y"] by (simp add: a_def)
  also have "from_lines (l # y) = l @ b"
    using from_lines_append [of "[l]" y] by (simp add: b_def from_lines_def)
  finally show ?thesis by blast
qed

lemma marker_line_spells: "marker_line l \<Longrightarrow> spells_marker l"
proof -
  assume "marker_line l"
  then consider label where "l = open_line label" | "l = CLOSE_LINE"
    unfolding marker_line_def using OPEN_RE_Some by blast
  then have "marker_at l"
    by cases (simp_all add: open_line_def CLOSE_LINE_def marker_at_def marker_gap_def is_space_def)
  then show ?thesis by (cases l) (auto simp: marker_at_def)
qed

lemma inert_lines: "\<not> spells_marker s \<Longrightarrow> l \<in> set (text_lines s) \<Longrightarrow> \<not> marker_line l"
  using marker_line_spells line_sub spells_marker_sub by metis

subsection \<open>No line of a turn is lost by folding it\<close>

abbreviation nonblank :: "string list \<Rightarrow> string list" where
  "nonblank ls \<equiv> filter (\<lambda>l. l \<noteq> []) ls"

definition segment_lines :: "TurnFoldSegment list \<Rightarrow> string list" where
  "segment_lines segments = nonblank (concat (map (\<lambda>s. text_lines (segment_text s)) segments))"

lemma segment_lines_simps [simp]:
  "segment_lines [] = []" "segment_lines (s # ss) = nonblank (text_lines (segment_text s)) @ segment_lines ss"
  "segment_lines (ss @ ss') = segment_lines ss @ segment_lines ss'"
  by (simp_all add: segment_lines_def)

abbreviation newline_free :: "string list \<Rightarrow> bool" where
  "newline_free ls \<equiv> \<forall>l \<in> set ls. CHR 0x0A \<notin> set l"

lemma segment_lines_flush: "newline_free ls \<Longrightarrow> segment_lines (flush_text ls) = nonblank ls"
  by (simp add: flush_text_def lines_of_lines)

lemma nonblank_dropWhile: "nonblank (dropWhile (\<lambda>l. l = []) ls) = nonblank ls"
  by (induction ls) auto

lemma nonblank_takeWhile: "nonblank (takeWhile (\<lambda>l. l = []) ls) = []"
  by (induction ls) auto

abbreviation opened_lines :: "(string \<times> string list) option \<Rightarrow> string list" where
  "opened_lines opened \<equiv> (case opened of None \<Rightarrow> [] | Some (label, body) \<Rightarrow> body)"

lemma in_dropWhile: "x \<in> set (tl (dropWhile P xs)) \<Longrightarrow> x \<in> set xs"
  by (metis list.set_sel(2) set_dropWhileD tl_Nil)

lemma parse_lines_keeps:
  assumes "parse_lines ls segments pending opened = Some out"
    and "newline_free ls" "newline_free pending" "newline_free (opened_lines opened)"
    and "opened \<noteq> None \<Longrightarrow> pending = []"
  shows "segment_lines out =
    segment_lines segments @ nonblank (pending @ opened_lines opened) @ nonblank (filter (\<lambda>l. \<not> marker_line l) ls)"
  using assms
proof (induction ls segments pending opened rule: parse_lines.induct)
  case (1 segments pending opened)
  then show ?case by (cases opened) (auto simp: segment_lines_flush split: if_splits)
next
  case (2 line rest segments pending opened)
  show ?case
  proof (cases "OPEN_RE line")
    case (Some label)
    with 2 show ?thesis
      by (auto simp: marker_line_def segment_lines_flush split: option.splits)
  next
    case line: None
    show ?thesis
    proof (cases "line = CLOSE_LINE")
      case True
      with 2 obtain label body where o: "opened = Some (label, body)" by (auto split: option.splits)
      define after where "after = dropWhile (\<lambda>l. l = []) rest"
      define blanks where "blanks = takeWhile (\<lambda>l. l = []) rest"
      have blank: "nonblank blanks = []" "newline_free blanks"
        unfolding blanks_def using nonblank_takeWhile by (auto dest: set_takeWhileD)
      have pend: "pending = []" using 2(10) o by simp
      show ?thesis
      proof (cases "after \<noteq> [] \<and> hd after = ''---''")
        case True
        then have rest: "nonblank rest = ''---'' # nonblank (tl after)"
          using nonblank_dropWhile [of rest] by (cases after) (auto simp: after_def)
        have "\<not> marker_line ''---''" by (simp add: marker_line_def OPEN_RE_def CLOSE_LINE_def)
        then have rest': "nonblank (filter (\<lambda>l. \<not> marker_line l) rest) =
            ''---'' # nonblank (filter (\<lambda>l. \<not> marker_line l) (tl after))"
          using arg_cong [OF rest, of "filter (\<lambda>l. \<not> marker_line l)"] by (simp add: filter_filter conj_commute)
        have "newline_free (tl after)" using 2(7) by (auto simp: after_def dest: in_dropWhile)
        moreover have "parse_lines (tl after) (segments @ [LazySegment label (from_lines (body @ blanks @ [''---'']))])
            pending None = Some out"
          using 2(6) True line \<open>line = CLOSE_LINE\<close> by (simp add: o after_def blanks_def)
        moreover have "newline_free (body @ blanks @ [''---''])" using 2(9) blank(2) by (auto simp: o)
        ultimately show ?thesis
          using "2.IH"(1)[OF line \<open>line = CLOSE_LINE\<close> o refl] True pend blank(1) \<open>line = CLOSE_LINE\<close>
          by (simp add: after_def blanks_def o rest'[unfolded after_def filter_filter] lines_of_lines)
      next
        case False
        then have "parse_lines rest (segments @ [LazySegment label (from_lines body)]) pending None = Some out"
          using 2(6) line \<open>line = CLOSE_LINE\<close> by (auto simp: o after_def)
        then show ?thesis
          using "2.IH"(2)[OF line \<open>line = CLOSE_LINE\<close> o refl] False pend 2(7,9) \<open>line = CLOSE_LINE\<close>
          by (simp add: after_def o lines_of_lines)
      qed
    next
      case False
      with line have "\<not> marker_line line" by (simp add: marker_line_def)
      with 2 line False show ?thesis by (cases opened) auto
    qed
  qed
qed

lemma parseMarkers_keeps:
  "parseMarkers content = Some out \<Longrightarrow>
   segment_lines out = nonblank (filter (\<lambda>l. \<not> marker_line l) (text_lines content))"
  unfolding parseMarkers_def by (drule parse_lines_keeps) (auto dest: line_plain)

subsection \<open>What lazy composes is folded as it was composed\<close>

text \<open>A turn lazy writes is a list of pieces on lines of their own: words that spell no marker, and blocks of
  lazy's text, each with the separator lazy may put after it.\<close>

datatype TurnPiece = Words string | Block string string "nat option"

definition separator :: "nat option \<Rightarrow> string list" where
  "separator sep = (case sep of None \<Rightarrow> [] | Some k \<Rightarrow> replicate k [] @ [''---''])"

fun piece_lines :: "TurnPiece \<Rightarrow> string list" where
  "piece_lines (Words w) = text_lines w"
| "piece_lines (Block label body sep) = text_lines (fold_block label body) @ separator sep"

definition composed :: "TurnPiece list \<Rightarrow> string" where
  "composed ps = from_lines (concat (map piece_lines ps))"

fun piece_segment :: "TurnPiece \<Rightarrow> TurnFoldSegment" where
  "piece_segment (Words w) = TextSegment w"
| "piece_segment (Block label body sep) =
     LazySegment label (from_lines (text_lines (neutralizeLazyMarkers body) @ separator sep))"

definition separator_first :: "string list \<Rightarrow> bool" where
  "separator_first ls \<longleftrightarrow>
     (let after = dropWhile (\<lambda>l. l = []) ls in after \<noteq> [] \<and> hd after = ''---'')"

fun piece_ok :: "TurnPiece \<Rightarrow> bool" where
  "piece_ok (Words w) = (\<not> spells_marker w)"
| "piece_ok (Block label body sep) = LABEL_RE label"

fun joint_ok :: "TurnPiece \<Rightarrow> TurnPiece \<Rightarrow> bool" where
  "joint_ok (Words v) (Words w) = False"
| "joint_ok (Block label body None) (Words w) = (\<not> separator_first (text_lines w))"
| "joint_ok p q = True"

fun well_composed :: "TurnPiece list \<Rightarrow> bool" where
  "well_composed [] = True"
| "well_composed [p] = piece_ok p"
| "well_composed (p # q # ps) = (piece_ok p \<and> joint_ok p q \<and> well_composed (q # ps))"

definition opens_block :: "TurnPiece list \<Rightarrow> bool" where
  "opens_block ps \<longleftrightarrow> (case ps of Words w # _ \<Rightarrow> False | _ \<Rightarrow> True)"

lemma parse_words:
  "\<forall>l \<in> set ls. \<not> marker_line l \<Longrightarrow>
   parse_lines (ls @ rest) segs pending None = parse_lines rest segs (pending @ ls) None"
  by (induction ls arbitrary: pending) (auto simp: marker_line_def)

lemma parse_body:
  "\<forall>l \<in> set ls. \<not> marker_line l \<Longrightarrow>
   parse_lines (ls @ rest) segs pending (Some (label, body)) = parse_lines rest segs pending (Some (label, body @ ls))"
  by (induction ls arbitrary: body) (auto simp: marker_line_def)

lemma open_line_ne [simp]: "open_line label \<noteq> []" "open_line label \<noteq> ''---''"
  by (simp_all add: open_line_def)

lemma label_line: "LABEL_RE label \<Longrightarrow> CHR 0x0A \<notin> set (open_line label)"
  by (auto simp: LABEL_RE_def open_line_def label_char_def is_lower_az_def is_digit_def)

lemma fold_block_lines:
  "LABEL_RE label \<Longrightarrow>
   text_lines (fold_block label body) =
     open_line label # text_lines (neutralizeLazyMarkers body) @ [CLOSE_LINE]"
  unfolding fold_block_def text_lines_append
  by (simp add: text_lines_plain label_line CLOSE_LINE_def)

lemma parse_block:
  assumes "LABEL_RE label"
    and "\<not> separator_first rest \<or> sep \<noteq> None"
  shows "parse_lines (piece_lines (Block label body sep) @ rest) segs pending None =
    parse_lines rest (segs @ flush_text pending @ [piece_segment (Block label body sep)]) [] None"
proof -
  have b: "\<forall>l \<in> set (text_lines (neutralizeLazyMarkers body)). \<not> marker_line l"
    using inert_lines neutralized_inert by blast
  have o: "OPEN_RE (open_line label) = Some label" using assms(1) OPEN_RE_Some by blast
  have seps: "takeWhile (\<lambda>l. l = []) (replicate k [] @ ''---'' # rest) = replicate k []"
      "dropWhile (\<lambda>l. l = []) (replicate k [] @ ''---'' # rest) = ''---'' # rest" for k
    by (induction k) auto
  show ?thesis
  proof (cases sep)
    case None
    with assms(2) have "\<not> separator_first rest" by simp
    then show ?thesis
      by (simp add: None fold_block_lines [OF assms(1)] parse_body [OF b] o separator_def separator_first_def Let_def) blast
  next
    case (Some k)
    then show ?thesis
      by (simp add: fold_block_lines [OF assms(1)] parse_body [OF b] o separator_def seps)
  qed
qed

lemma separator_first_blank:
  "\<not> separator_first ls \<Longrightarrow> \<not> separator_first rest \<Longrightarrow> \<not> separator_first (ls @ rest)"
  unfolding separator_first_def Let_def
  by (cases "dropWhile (\<lambda>l. l = []) ls") (simp_all add: dropWhile_append)

lemma opens_block_no_separator:
  "well_composed ps \<Longrightarrow> opens_block ps \<Longrightarrow> \<not> separator_first (concat (map piece_lines ps))"
  by (cases ps rule: well_composed.cases)
     (auto simp: opens_block_def separator_first_def fold_block_lines split: TurnPiece.splits)

lemma well_composed_Cons:
  "well_composed (p # ps) \<Longrightarrow> piece_ok p \<and> well_composed ps \<and> (ps \<noteq> [] \<longrightarrow> joint_ok p (hd ps))"
  by (cases ps) auto

lemma words_then_block: "well_composed (Words w # ps) \<Longrightarrow> opens_block ps"
  by (cases ps) (auto simp: opens_block_def split: TurnPiece.splits)

lemma block_then_no_separator:
  assumes "well_composed (Block label body None # ps)"
  shows "\<not> separator_first (concat (map piece_lines ps))"
proof (cases "opens_block ps")
  case True
  with assms show ?thesis using opens_block_no_separator well_composed_Cons by blast
next
  case False
  then obtain w qs where ps: "ps = Words w # qs" by (auto simp: opens_block_def split: list.splits TurnPiece.splits)
  then have "well_composed (Words w # qs)" and w: "\<not> separator_first (text_lines w)"
    using well_composed_Cons [OF assms] by auto
  then have "opens_block qs" and "well_composed qs" using words_then_block well_composed_Cons by blast+
  then show ?thesis using separator_first_blank [OF w] opens_block_no_separator by (simp add: ps)
qed

lemma parse_pieces:
  assumes "well_composed ps" and "pending = [] \<or> opens_block ps"
  shows "parse_lines (concat (map piece_lines ps)) segs pending None =
    (if list_ex lazy_segment (segs @ map piece_segment ps)
     then Some (segs @ flush_text pending @ map piece_segment ps) else None)"
  using assms
proof (induction ps arbitrary: segs pending)
  case (Cons p ps)
  note wc = well_composed_Cons [OF Cons.prems(1)]
  show ?case
  proof (cases p)
    case (Words w)
    with Cons.prems have pending: "pending = []" by (simp add: opens_block_def)
    have "\<forall>l \<in> set (text_lines w). \<not> marker_line l" using wc Words inert_lines by auto
    moreover have "flush_text (text_lines w) = [TextSegment w]" by (simp add: flush_text_def)
    moreover have "opens_block ps" using Cons.prems(1) words_then_block unfolding Words by blast
    ultimately show ?thesis using Cons.IH [of "text_lines w" segs] wc
      by (simp add: Words pending parse_words) (simp add: flush_text_def)
  next
    case (Block label body sep)
    have "\<not> separator_first (concat (map piece_lines ps)) \<or> sep \<noteq> None"
      using Cons.prems(1) block_then_no_separator unfolding Block by (cases sep) auto
    moreover have "LABEL_RE label" using wc Block by simp
    ultimately show ?thesis
      using Cons.IH [of "[]" "segs @ flush_text pending @ [piece_segment p]"] wc
      by (simp add: Block parse_block flush_text_def del: piece_lines.simps)
  qed
qed (simp add: flush_text_def)

lemma newline_free_pieces: "well_composed ps \<Longrightarrow> newline_free (concat (map piece_lines ps))"
proof (induction ps)
  case (Cons p ps)
  have "newline_free (piece_lines p)"
    by (cases p) (auto simp: separator_def dest: line_plain split: option.splits)
  with Cons show ?case using well_composed_Cons [OF Cons.prems] by auto
qed simp

lemma piece_lines_ne [simp]: "piece_lines p \<noteq> []"
  by (cases p) auto

lemma parse_composed:
  assumes "well_composed ps" "\<exists>p \<in> set ps. lazy_segment (piece_segment p)"
  shows "parseMarkers (composed ps) = Some (map piece_segment ps)"
proof -
  have "ps \<noteq> []" using assms(2) by auto
  then have "concat (map piece_lines ps) \<noteq> []" by (cases ps) auto
  then have "text_lines (composed ps) = concat (map piece_lines ps)"
    unfolding composed_def using newline_free_pieces [OF assms(1)] text_lines_from_lines by blast
  moreover have "list_ex lazy_segment (map piece_segment ps)" using assms(2) by (auto simp: list_ex_iff)
  ultimately show ?thesis using parse_pieces [OF assms(1), of "[]" "[]"]
    by (simp add: parseMarkers_def flush_text_def)
qed

lemma fold_composed:
  assumes "fd_role turn = HumanRole" "fd_content turn = composed ps" "well_composed ps"
    and "\<exists>p \<in> set ps. lazy_segment (piece_segment p)" "\<not> humanWordsSpellAMarker turn"
  shows "foldTurn cc turn = Some (fold_of (map piece_segment ps) FromMarkers)"
proof -
  have "parseMarkers [] = None"
    by (simp add: parseMarkers_def text_lines_def OPEN_RE_def CLOSE_LINE_def starts_with.simps)
  with parse_composed [OF assms(3,4)] have "composed ps \<noteq> []" by (metis option.distinct(1))
  moreover have "list_ex lazy_segment (map piece_segment ps)" using assms(4) by (auto simp: list_ex_iff)
  ultimately show ?thesis using assms parse_composed [OF assms(3,4)] by (simp add: foldTurn_def)
qed

lemma composed_Block_words:
  "composed [Block label body (Some k), Words w] = fold_block label body @ concat (replicate k eol) @ eol @ ''---'' @ eol @ w"
proof -
  have w: "join_with eol (text_lines w) = w" using from_lines_text_lines [of w] by (simp add: from_lines_def)
  have r: "from_lines (replicate k [] @ ''---'' # text_lines w) = concat (replicate k eol) @ ''---'' @ eol @ w" for k
  proof (induction k)
    case 0
    show ?case using from_lines_append [of "[''---'']" "text_lines w"] w by (simp add: from_lines_def)
  next
    case (Suc k)
    then show ?case
      using from_lines_append [of "[[]]" "replicate k [] @ ''---'' # text_lines w"] by (simp add: from_lines_def)
  qed
  have "replicate (Suc k) eol = replicate k eol @ [eol]" by (simp add: replicate_append_same)
  then have c: "eol @ concat (replicate k eol) = concat (replicate k eol) @ eol"
    using arg_cong [of _ _ concat] by (metis concat.simps concat_append append_Nil2 replicate_Suc)
  have "composed [Block label body (Some k), Words w] =
      from_lines (text_lines (fold_block label body) @ replicate k [] @ ''---'' # text_lines w)"
    by (simp add: composed_def separator_def)
  also have "\<dots> = fold_block label body @ eol @ concat (replicate k eol) @ ''---'' @ eol @ w"
    by (subst from_lines_append) (simp_all add: r)
  finally show ?thesis using c by (metis append.assoc)
qed

lemma composed_words_block:
  "composed [Words w, Block label body None] = w @ eol @ fold_block label body"
  using from_lines_append [of "text_lines w" "text_lines (fold_block label body)"]
  by (simp add: composed_def separator_def)

definition visible_lines :: "string list \<Rightarrow> string list" where
  "visible_lines ls = filter (\<lambda>l. trim l \<noteq> []) ls"

lemma trim_Nil [simp]: "trim [] = []"
  by (simp add: trim_def trim_start_def)

lemma visible_nonblank: "visible_lines (nonblank ls) = visible_lines ls"
  unfolding visible_lines_def filter_filter by (rule filter_cong) auto

lemma visible_simps [simp]:
  "visible_lines [] = []" "visible_lines (a @ b) = visible_lines a @ visible_lines b" "visible_lines ([] # a) = visible_lines a"
  by (simp_all add: visible_lines_def)

lemma trim_blank: "trim s = [] \<longleftrightarrow> (\<forall>c \<in> set s. is_space c)"
proof
  assume "trim s = []"
  then have "dropWhile is_space (rev (dropWhile is_space s)) = []"
    by (simp add: trim_def trim_end_def trim_start_def)
  then have "\<forall>c \<in> set (dropWhile is_space s). is_space c" by (simp add: dropWhile_eq_Nil_conv)
  then have "dropWhile is_space s = []" by (metis hd_dropWhile list.set_sel(1))
  then show "\<forall>c \<in> set s. is_space c" by simp
next
  assume "\<forall>c \<in> set s. is_space c"
  then have "dropWhile is_space s = []" by simp
  then show "trim s = []" by (simp only: trim_def trim_start_def trim_end_Nil)
qed

lemma blank_lines: "trim s = [] \<Longrightarrow> visible_lines (text_lines s) = []"
proof -
  assume "trim s = []"
  then have "trim l = []" if "l \<in> set (text_lines s)" for l
    using line_sub [OF that] unfolding trim_blank by auto
  then show ?thesis by (auto simp: visible_lines_def filter_empty_conv)
qed

lemma legacy_keeps:
  assumes "legacyFold cc turn = Some segments"
  shows "visible_lines (concat (map (\<lambda>s. text_lines (segment_text s)) segments)) = visible_lines (text_lines (fd_content turn))"
proof (cases "fd_actor turn = Some Supervisor \<and> fd_turn_type turn = Some NudgeTurn")
  case True
  with assms obtain i where i: "index_of (fd_content turn) eol = Some i"
    and segs: "segments = [TextSegment (take i (fd_content turn)), LazySegment ''wrap-up'' (drop (Suc i) (fd_content turn))]"
    by (auto simp: legacyFold_def Let_def split: if_splits option.splits)
  from index_of_Some [OF i] have "i < length (fd_content turn)" "fd_content turn ! i = CHR 0x0A"
    by (auto simp: eol_def) (metis Cons_nth_drop_Suc Suc_le_eq list.inject take_Suc_Cons)
  then have "fd_content turn = take i (fd_content turn) @ eol @ drop (Suc i) (fd_content turn)"
    using id_take_nth_drop [of i "fd_content turn"] by (simp add: eol_def)
  then have "text_lines (fd_content turn) = text_lines (take i (fd_content turn)) @ text_lines (drop (Suc i) (fd_content turn))"
    by (metis text_lines_append)
  then show ?thesis by (simp add: segs)
next
  case False
  define rest where "rest = drop (length (LEGACY_CLUSTER_PREFIX cc)) (fd_content turn)"
  from False assms have s: "starts_with (fd_content turn) (LEGACY_CLUSTER_PREFIX cc)"
    and segs: "segments = LazySegment ''cluster-constraints'' (LEGACY_CLUSTER_PREFIX cc) #
      (if trim rest \<noteq> [] then [TextSegment rest] else [])"
    by (auto simp: legacyFold_def Let_def rest_def split: if_splits)
  have p: "LEGACY_CLUSTER_PREFIX cc = (cc @ eol @ eol @ ''---'' @ eol) @ eol" by (simp add: LEGACY_CLUSTER_PREFIX_def)
  have "fd_content turn = LEGACY_CLUSTER_PREFIX cc @ rest"
    using s by (metis starts_with_take append_take_drop_id rest_def)
  then have "fd_content turn = (cc @ eol @ eol @ ''---'' @ eol) @ eol @ rest" unfolding p by simp
  then have "text_lines (fd_content turn) = text_lines (cc @ eol @ eol @ ''---'' @ eol) @ text_lines rest"
    by (metis text_lines_append)
  moreover have "text_lines (LEGACY_CLUSTER_PREFIX cc) = text_lines (cc @ eol @ eol @ ''---'' @ eol) @ [[]]"
    using text_lines_append [of "cc @ eol @ eol @ ''---'' @ eol" "[]"] by (simp add: p text_lines_def)
  ultimately show ?thesis using blank_lines [of rest] by (simp add: segs)
qed

text \<open>C27: Folding a turn hides no line of it: every line with something on it is in exactly one segment, in
  order, except the marker lines, and no turn is folded whose recorded words spell a marker.\<close>

theorem folding_loses_nothing:
  assumes "foldTurn cc turn = Some f"
  shows "visible_lines (concat (map (\<lambda>s. text_lines (segment_text s)) (fo_segments f))) =
      visible_lines (filter (\<lambda>l. fo_source f = FromMarkers \<longrightarrow> \<not> marker_line l) (text_lines (fd_content turn)))
    \<and> list_all (\<lambda>w. \<not> spells_marker w) (fd_feedback_texts turn)"
proof
  show "list_all (\<lambda>w. \<not> spells_marker w) (fd_feedback_texts turn)"
    using assms by (auto simp: foldTurn_def humanWordsSpellAMarker_def list_ex_iff list_all_iff split: if_splits)
  consider segments where "parseMarkers (fd_content turn) = Some segments" "f = fold_of segments FromMarkers"
    | segments where "legacyFold cc turn = Some segments" "f = fold_of segments FromLegacy"
    using assms by (auto simp: foldTurn_def split: if_splits option.splits)
  then show "visible_lines (concat (map (\<lambda>s. text_lines (segment_text s)) (fo_segments f))) =
      visible_lines (filter (\<lambda>l. fo_source f = FromMarkers \<longrightarrow> \<not> marker_line l) (text_lines (fd_content turn)))"
  proof cases
    case 1
    from parseMarkers_keeps [OF 1(1)] show ?thesis
      unfolding segment_lines_def 1(2) fold_of_def by (simp, metis visible_nonblank)
  next
    case 2
    then show ?thesis by (simp add: fold_of_def legacy_keeps)
  qed
qed

definition folded_turn :: FoldableTurn where
  "folded_turn =
     \<lparr>fd_role = HumanRole, fd_content = fold_block ''rules'' ''obey'' @ eol @ eol @ ''fix it'',
      fd_actor = None, fd_turn_type = None, fd_feedback_texts = [''fix it'']\<rparr>"

definition sample_fold :: TurnFold where
  "sample_fold = fold_of [LazySegment ''rules'' ''obey'', TextSegment (eol @ ''fix it'')] FromMarkers"

lemma sample_folds: "foldTurn [] folded_turn = Some sample_fold" by code_simp

lemma folding_loses_nothing_witness:
  "visible_lines (concat (map (\<lambda>s. text_lines (segment_text s)) (fo_segments sample_fold))) = [''obey'', ''fix it'']"
proof -
  have "visible_lines (filter (\<lambda>l. fo_source sample_fold = FromMarkers \<longrightarrow> \<not> marker_line l) (text_lines (fd_content folded_turn)))
      = [''obey'', ''fix it'']" by code_simp
  with folding_loses_nothing [OF sample_folds] show ?thesis by simp
qed


definition sample_pieces :: "TurnPiece list" where
  "sample_pieces = [Block ''rules'' ''obey'' None, Words (eol @ ''fix it'')]"


end
