(* ===== verification/TurnPrompt.thy ===== *)
theory TurnPrompt
  imports TurnText
begin

text \<open>
  How the prompt of a turn is put together: the filling of the prompt files (\<open>src/prompts/\<close>, given here as
  their lines) by \<open>String.prototype.replace\<close>, the batch of review comments of an unblock
  (\<open>review/unblock-prompt.ts\<close>), the notes and the layers of \<open>task/turn-context.ts\<close>, the constraints of a task's
  type (\<open>task/type-constraints.ts\<close>) and the redelivery of feedback (\<open>utils/feedback-redelivery.ts\<close>). The
  rendering of dates and the text of the cluster contract are arguments.
\<close>

section \<open>Filling a template\<close>

text \<open>\<open>GetSubstitution\<close> of ECMAScript for a match without groups.\<close>

fun expand_dollars :: "string \<Rightarrow> string \<Rightarrow> string \<Rightarrow> string \<Rightarrow> string" where
  "expand_dollars before matched after (c # d # s) =
     (if c = CHR ''$'' then
        (if d = CHR ''$'' then CHR ''$'' # expand_dollars before matched after s
         else if d = CHR ''&'' then matched @ expand_dollars before matched after s
         else if d = CHR 0x60 then before @ expand_dollars before matched after s
         else if d = CHR 0x27 then after @ expand_dollars before matched after s
         else c # expand_dollars before matched after (d # s))
      else c # expand_dollars before matched after (d # s))"
| "expand_dollars before matched after s = s"

text \<open>\<open>s.replace(p, r)\<close> with strings, and \<open>s.replace(p, () => r)\<close>\<close>

definition replace_first :: "string \<Rightarrow> string \<Rightarrow> string \<Rightarrow> string" where
  "replace_first s p r =
     (case index_of s p of
        None \<Rightarrow> s
      | Some i \<Rightarrow> take i s @ expand_dollars (take i s) p (drop (i + length p) s) r @ drop (i + length p) s)"

definition replace_literal :: "string \<Rightarrow> string \<Rightarrow> string \<Rightarrow> string" where
  "replace_literal s p r =
     (case index_of s p of None \<Rightarrow> s | Some i \<Rightarrow> take i s @ r @ drop (i + length p) s)"

text \<open>\<open>s.replace(/p/g, r)\<close> for a literal pattern that is not empty\<close>

function replace_global_from :: "string \<Rightarrow> string \<Rightarrow> string \<Rightarrow> string \<Rightarrow> string" where
  "replace_global_from seen s p r =
     (case index_of s p of
        None \<Rightarrow> s
      | Some i \<Rightarrow>
          if p = [] then s
          else take i s @ expand_dollars (seen @ take i s) p (drop (i + length p) s) r @
               replace_global_from (seen @ take (i + length p) s) (drop (i + length p) s) p r)"
  by pat_completeness auto
termination
proof (relation "measure (\<lambda>(seen, s, p, r). length s)")
  fix seen s p r :: string and i
  assume "index_of s p = Some i" "p \<noteq> []"
  then show "((seen @ take (i + length p) s, drop (i + length p) s, p, r), seen, s, p, r)
      \<in> measure (\<lambda>(seen, s, p, r). length s)"
    using index_of_Some [of s p i] by (cases p) auto
qed simp

declare replace_global_from.simps [simp del]

definition replace_global :: "string \<Rightarrow> string \<Rightarrow> string \<Rightarrow> string" where
  "replace_global s p r = replace_global_from [] s p r"

lemma expand_dollars_plain: "CHR ''$'' \<notin> set r \<Longrightarrow> expand_dollars b m a r = r"
  by (induction b m a r rule: expand_dollars.induct) auto

lemma replace_first_plain: "CHR ''$'' \<notin> set r \<Longrightarrow> replace_first s p r = replace_literal s p r"
  by (simp add: replace_first_def replace_literal_def expand_dollars_plain split: option.split)

lemma index_of_decomp: "index_of s p = Some i \<Longrightarrow> s = take i s @ p @ drop (i + length p) s"
  using index_of_Some [of s p i] by (metis append_take_drop_id drop_drop add.commute)

lemma index_of_first: "\<exists>i \<le> length u. index_of (u @ p @ v) p = Some i"
proof (induction u)
  case Nil
  then show ?case by (simp add: index_of.simps)
next
  case (Cons c u)
  then show ?case by (cases "starts_with (c # u @ p @ v) p") (auto simp: index_of.simps [of "c # _"])
qed

lemma replace_first_suffix: "\<exists>y. replace_first (u @ p @ v) p r = y @ v"
proof -
  obtain i where "i \<le> length u" "index_of (u @ p @ v) p = Some i" using index_of_first by blast
  then show ?thesis by (simp add: replace_first_def)
qed

lemma replace_first_verbatim:
  assumes "str_includes s p" "CHR ''$'' \<notin> set r"
  shows "str_includes (replace_first s p r) r"
proof -
  obtain i where "index_of s p = Some i" using assms(1) by (auto simp: str_includes_def)
  then have "replace_first s p r = take i s @ r @ drop (i + length p) s"
    by (simp add: replace_first_plain [OF assms(2)] replace_literal_def)
  then show ?thesis unfolding str_includes_iff by blast
qed

lemma str_includes_append: "str_includes s w \<Longrightarrow> str_includes (a @ s @ b) w"
  unfolding str_includes_iff by (metis append.assoc)

section \<open>Review comments of an unblock\<close>

record PromptComment =
  pm_id :: string
  pm_thread_id :: string
  pm_by_agent :: bool
  pm_file :: string
  pm_line :: int
  pm_old_side :: bool
  pm_content :: string
  pm_anchor_snippet :: "string option"
  pm_created_at :: int

definition unblockPromptTemplate :: string where
  "unblockPromptTemplate = from_lines
     [''The reviewer left {{count}} inline comment(s) on your diff, then unblocked you to'',
      ''act on them. Each one is anchored to a specific line, except two kinds: a comment'',
      ''on your own words (your report or a raised item) quotes the line it'',
      ''points at instead of naming a file, and a reply on the task-level conversation is'',
      ''anchored to the thread quoted under it.'',
      '''',
      ''{{comments}}'',
      '''',
      ''---'',
      '''',
      ''**The reviewer's overall message:**'',
      '''',
      ''{{message}}'',
      '''',
      ''---'',
      '''',
      ''Work through every comment above. They are change requests and notes, not'',
      ''questions -- this is a normal work turn, so edit the code, run whatever checks the'',
      ''project expects, and commit.'',
      '''',
      ''If a comment asks for something you disagree with or cannot do, do the rest and'',
      ''say so explicitly in your summary with the reason -- do not silently skip it. If a'',
      ''comment is already addressed by work you have since done, say that too rather'',
      ''than changing the code again.'',
      '''']"

definition quote_lines :: "string \<Rightarrow> string" where
  "quote_lines s = join_with (eol @ ''> '') (text_lines s)"

definition quotedProse :: "string option \<Rightarrow> string" where
  "quotedProse snippet =
     (let t = trim (case snippet of Some s \<Rightarrow> s | None \<Rightarrow> [])
      in if t = [] then ''> (the quoted text is no longer available)'' else ''> '' @ quote_lines t)"

definition PROSE_FILE_RE :: "string \<Rightarrow> bool" where
  "PROSE_FILE_RE f \<longleftrightarrow>
     (let inner = butlast (tl f);
          id_ok = (\<lambda>s. s \<noteq> [] \<and> (\<forall>c \<in> set s. c \<noteq> CHR ''('' \<and> c \<noteq> CHR '')'' \<and> \<not> is_space c))
      in length f \<ge> 2 \<and> hd f = CHR ''('' \<and> last f = CHR '')'' \<and>
         (inner = ''report'' \<or>
          (starts_with inner ''followup:'' \<and> id_ok (drop 9 inner)) \<or>
          (starts_with inner ''raised:'' \<and> id_ok (drop 7 inner))))"

definition proseAnchorAgentWhere :: "string \<Rightarrow> string" where
  "proseAnchorAgentWhere f =
     (if starts_with f ''(followup:'' then ''an item you raised''
      else if starts_with f ''(raised:'' then ''an item you raised''
      else ''your report'')"

definition TASK_LEVEL_REVIEW_FILE :: string where
  "TASK_LEVEL_REVIEW_FILE = ''(task)''"

definition isTaskLevelReviewAnchor :: "string \<Rightarrow> int \<Rightarrow> bool" where
  "isTaskLevelReviewAnchor f line \<longleftrightarrow> f = TASK_LEVEL_REVIEW_FILE \<and> line = 0"

definition code_fence :: string where
  "code_fence = [CHR 0x60, CHR 0x60, CHR 0x60]"

definition thread_context :: "PromptComment list \<Rightarrow> PromptComment \<Rightarrow> string" where
  "thread_context comments c =
     (let prior = filter (\<lambda>o1. pm_thread_id o1 = pm_thread_id c \<and> pm_id o1 \<noteq> pm_id c \<and> pm_created_at o1 \<le> pm_created_at c) comments
      in if prior = [] then []
         else eol @ eol @ ''Earlier on this thread:'' @ eol @
              join_with (eol @ ''>'' @ eol)
                (map (\<lambda>o1. ''> **'' @ (if pm_by_agent o1 then ''You'' else ''Reviewer'') @ '':** '' @ quote_lines (pm_content o1)) prior))"

definition comment_block :: "PromptComment list \<Rightarrow> nat \<Rightarrow> PromptComment \<Rightarrow> string" where
  "comment_block comments i c =
     (let context = thread_context comments c;
          anchor = (case pm_anchor_snippet c of
                      Some s \<Rightarrow> if s = [] then [] else eol @ eol @ code_fence @ eol @ s @ eol @ code_fence
                    | None \<Rightarrow> []);
          heading = ''### '' @ show_nat (i + 1) @ ''. ''
      in if PROSE_FILE_RE (pm_file c) then
           (let snippet = (case pm_anchor_snippet c of
                  Some s \<Rightarrow> Some s
                | None \<Rightarrow>
                    (case find (\<lambda>o1. pm_thread_id o1 = pm_thread_id c \<and> pm_anchor_snippet o1 \<notin> {None, Some []}) comments of
                       Some o1 \<Rightarrow> pm_anchor_snippet o1
                     | None \<Rightarrow> None))
            in heading @ ''On '' @ proseAnchorAgentWhere (pm_file c) @ '', the line:'' @ eol @ eol @ quotedProse snippet @
               eol @ eol @ pm_content c @ context)
         else if isTaskLevelReviewAnchor (pm_file c) (pm_line c) then
           heading @ ''Reply on the task-level conversation'' @ eol @ eol @ pm_content c @ context
         else
           heading @ [CHR 0x60] @ pm_file c @ [CHR 0x60] @ '' line '' @ show_int (pm_line c) @ '' ('' @
           (if pm_old_side c then ''removed/original'' else ''added/new'') @ '' side)'' @ anchor @
           eol @ eol @ pm_content c @ context)"

definition comment_blocks :: "PromptComment list \<Rightarrow> PromptComment list \<Rightarrow> string" where
  "comment_blocks pending comments =
     join_with (eol @ eol) (map (\<lambda>(i, c). comment_block comments i c) (enumerate 0 pending))"

definition buildUnblockPrompt :: "PromptComment list \<Rightarrow> PromptComment list \<Rightarrow> string \<Rightarrow> string" where
  "buildUnblockPrompt pending comments message =
     replace_first
       (replace_first
         (replace_first unblockPromptTemplate ''{{count}}'' (show_nat (length pending)))
         ''{{comments}}'' (comment_blocks pending comments))
       ''{{message}}'' message"

lemma template_slots:
  "\<exists>a b c. unblockPromptTemplate = a @ ''{{count}}'' @ b @ ''{{comments}}'' @ c \<and> str_includes c ''{{message}}''"
proof -
  define t where "t = unblockPromptTemplate"
  define b where "b = drop (18 + 9) t"
  define i where "i = (case index_of b ''{{comments}}'' of Some i \<Rightarrow> i | None \<Rightarrow> 0)"
  have "index_of t ''{{count}}'' = Some 18" unfolding t_def by code_simp
  from index_of_decomp [OF this] have t: "t = take 18 t @ ''{{count}}'' @ b" by (simp add: b_def)
  have "index_of b ''{{comments}}'' \<noteq> None" unfolding b_def t_def by code_simp
  then have "index_of b ''{{comments}}'' = Some i" by (auto simp: i_def)
  from index_of_decomp [OF this] have b: "b = take i b @ ''{{comments}}'' @ drop (i + length ''{{comments}}'') b" .
  have "str_includes (drop (i + length ''{{comments}}'') b) ''{{message}}''" unfolding i_def b_def t_def by code_simp
  with t b show ?thesis unfolding t_def by metis
qed

lemma unblock_prompt_verbatim:
  assumes "CHR ''$'' \<notin> set message"
  shows "str_includes (buildUnblockPrompt pending comments message) message"
proof -
  obtain a b c where t: "unblockPromptTemplate = a @ ''{{count}}'' @ b @ ''{{comments}}'' @ c"
    and c: "str_includes c ''{{message}}''" using template_slots by blast
  obtain y where y: "replace_first unblockPromptTemplate ''{{count}}'' (show_nat (length pending)) =
      y @ b @ ''{{comments}}'' @ c"
    using replace_first_suffix [of a "''{{count}}''" "b @ ''{{comments}}'' @ c"] unfolding t by blast
  obtain z where "replace_first (y @ b @ ''{{comments}}'' @ c) ''{{comments}}'' (comment_blocks pending comments) = z @ c"
    using replace_first_suffix [of "y @ b" "''{{comments}}''" c] by auto
  moreover have "str_includes (z @ c) ''{{message}}''" using str_includes_append [OF c, of z "[]"] by simp
  ultimately show ?thesis
    unfolding buildUnblockPrompt_def y by (simp add: replace_first_verbatim [OF _ assms])
qed

section \<open>The layers of a prompt\<close>

definition typeConstraintsSection :: "string \<Rightarrow> bool \<Rightarrow> string" where
  "typeConstraintsSection clusterConstraints isCluster =
     (if isCluster \<and> clusterConstraints \<noteq> []
      then fold_block ''cluster-constraints'' clusterConstraints @ eol @ eol @ ''---'' @ eol @ eol else [])"

record Note =
  no_content :: string
  no_created_at :: nat

definition getNewNotesSince :: "Note list \<Rightarrow> nat \<Rightarrow> Note list" where
  "getNewNotesSince notes cutoff = filter (\<lambda>n. cutoff < no_created_at n) notes"

definition resolveNotesCutoff :: "nat option \<Rightarrow> nat list \<Rightarrow> nat option" where
  "resolveNotesCutoff deliveredThrough agentTurnTimestamps =
     (case deliveredThrough of
        Some d \<Rightarrow> Some d
      | None \<Rightarrow> if agentTurnTimestamps = [] then None else Some (last agentTurnTimestamps))"

definition selectNotesForDelivery :: "Note list \<Rightarrow> nat option \<Rightarrow> Note list \<times> nat option" where
  "selectNotesForDelivery notes cutoff =
     (let newNotes = (case cutoff of None \<Rightarrow> notes | Some c \<Rightarrow> getNewNotesSince notes c)
      in (newNotes, if newNotes = [] then None else Some (Max (set (map no_created_at newNotes)))))"

definition notes_header :: string where
  "notes_header = from_lines
     [''NOTES ADDED SINCE YOUR LAST TURN:'',
      ''The following notes were added to this task while you were idle. They may contain'',
      ''guidance, corrections, context, or decisions from the builder, other agents,'',
      ''or human reviewers. Read them carefully and incorporate the guidance into your work.'']"

definition buildNotesContext :: "(nat \<Rightarrow> string) \<Rightarrow> Note list \<Rightarrow> string" where
  "buildNotesContext showDate notes =
     (if notes = [] then []
      else fold_block ''notes-header'' notes_header @ eol @ eol @
           join_with (eol @ eol)
             (map (\<lambda>n. ''['' @ showDate (no_created_at n) @ ''] '' @ neutralizeLazyMarkers (no_content n)) notes) @
           eol @ eol @ fold_block ''notes-footer'' ''--- END OF NOTES ---'' @ eol @ eol)"

definition goalContextContinueText :: string where
  "goalContextContinueText = from_lines
     [''You are continuing to work on a task with an explicit goal of: {{goal}}'']"

definition goalContextResumeText :: string where
  "goalContextResumeText = from_lines
     [''You are resuming work on a task after an interruption. The goal is: {{goal}}'']"

definition resumeContextText :: string where
  "resumeContextText = from_lines
     [''Your previous session was interrupted (the container stopped or the machine went down).'',
      ''Review the current state of the branch, check what has been committed, and continue working towards the goal.'',
      ''If your previous work was partially completed, pick up where you left off.'',
      '''',
      ''---'',
      '''']"

record PromptLayers =
  pl_turnHistory :: string
  pl_notes :: string
  pl_remoteComments :: string
  pl_journal :: string
  pl_artifacts :: string

definition buildPromptWithInstructions :: "string \<Rightarrow> string \<Rightarrow> PromptLayers \<Rightarrow> string" where
  "buildPromptWithInstructions userPrompt goal layers =
     (replace_global goalContextContinueText ''{{goal}}'' goal @ eol @ eol) @
     pl_turnHistory layers @ pl_notes layers @ pl_remoteComments layers @ pl_journal layers @ pl_artifacts layers @
     userPrompt"

section \<open>Redelivery\<close>

definition feedbackRedeliveryText :: string where
  "feedbackRedeliveryText = from_lines
     [''## Re-delivered feedback -- your previous turn was interrupted'',
      '''',
      ''Your last turn crashed before you acted on the feedback below, so it is being'',
      ''re-delivered. It is reproduced verbatim; treat it as the instruction for this'',
      ''turn.{{older_note}}'',
      '''',
      ''Before you start, check the current state of the branch and worktree -- some of'',
      ''this work may already be partially done by the interrupted turn.'',
      '''',
      ''---'',
      '''',
      ''{{feedback}}'',
      '''',
      ''---'',
      '''']"

text \<open>\<open>s.split(p)\<close>, of which the callers read the first two parts.\<close>

definition split_first :: "string \<Rightarrow> string \<Rightarrow> string \<times> string" where
  "split_first s p =
     (case index_of s p of
        None \<Rightarrow> (s, [])
      | Some i \<Rightarrow>
          (let after = drop (i + length p) s
           in (take i s, case index_of after p of None \<Rightarrow> after | Some j \<Rightarrow> take j after)))"

definition older_note :: "nat \<Rightarrow> string" where
  "older_note olderPendingCount =
     (if olderPendingCount > 0 then
        '' '' @ show_nat olderPendingCount @ '' older piece'' @ (if olderPendingCount = 1 then [] else ''s'') @
        '' of feedback also went unanswered -- read this task's turn history and address those too if they still apply.''
      else [])"

definition buildFeedbackRedeliveryPrompt :: "string \<Rightarrow> nat \<Rightarrow> string" where
  "buildFeedbackRedeliveryPrompt turnText olderPendingCount =
     (let (before, after) = split_first feedbackRedeliveryText ''{{feedback}}'';
          framing = trim_end (replace_literal before ''{{older_note}}'' (older_note olderPendingCount));
          closing = trim after
      in fold_block ''redelivery'' framing @ eol @ eol @ turnText @
         (if closing \<noteq> [] then eol @ eol @ fold_block ''redelivery'' closing @ eol else eol))"

definition buildResumePrompt :: "string \<Rightarrow> string option \<Rightarrow> string" where
  "buildResumePrompt goal redeliveredFeedback =
     (replace_global goalContextResumeText ''{{goal}}'' goal @ eol @ eol) @
     ((case redeliveredFeedback of Some t \<Rightarrow> t | None \<Rightarrow> resumeContextText) @ eol)"

lemma redelivery_verbatim: "str_includes (buildFeedbackRedeliveryPrompt t n) t"
proof -
  have "str_includes ((a @ eol @ eol) @ t @ b) t" for a b
    unfolding str_includes_iff by blast
  then show ?thesis
    unfolding buildFeedbackRedeliveryPrompt_def Let_def by (simp add: case_prod_beta)
qed

lemma resume_prompt_carries: "str_includes t w \<Longrightarrow> str_includes (buildResumePrompt goal (Some (buildFeedbackRedeliveryPrompt t n))) w"
proof -
  assume "str_includes t w"
  then have "str_includes (buildFeedbackRedeliveryPrompt t n) w" using redelivery_verbatim str_includes_trans by blast
  then show ?thesis unfolding buildResumePrompt_def option.case by (rule str_includes_append)
qed

lemma turn_prompt_carries: "str_includes t w \<Longrightarrow> str_includes (buildPromptWithInstructions t goal layers) w"
  using str_includes_append [of t w _ "[]"] unfolding buildPromptWithInstructions_def by (metis append.assoc append_Nil2)

text \<open>A dollar sign in a message is read as a pattern when review comments are queued beside it.\<close>

lemma unblock_prompt_expands:
  "\<exists>z v. buildUnblockPrompt pending comments message = z @ expand_dollars z ''{{message}}'' v message @ v"
proof -
  obtain a b c where t: "unblockPromptTemplate = a @ ''{{count}}'' @ b @ ''{{comments}}'' @ c"
    and c: "str_includes c ''{{message}}''" using template_slots by blast
  obtain y where y: "replace_first unblockPromptTemplate ''{{count}}'' (show_nat (length pending)) =
      y @ b @ ''{{comments}}'' @ c"
    using replace_first_suffix [of a "''{{count}}''" "b @ ''{{comments}}'' @ c"] unfolding t by blast
  obtain z where z: "replace_first (y @ b @ ''{{comments}}'' @ c) ''{{comments}}'' (comment_blocks pending comments) = z @ c"
    using replace_first_suffix [of "y @ b" "''{{comments}}''" c] by auto
  obtain i where i: "index_of (z @ c) ''{{message}}'' = Some i"
    using str_includes_append [OF c, of z "[]"] by (auto simp: str_includes_def)
  have "buildUnblockPrompt pending comments message = replace_first (z @ c) ''{{message}}'' message"
    unfolding buildUnblockPrompt_def y z ..
  then show ?thesis unfolding replace_first_def i option.case by blast
qed

lemma dollars_altered: "\<exists>z v. buildUnblockPrompt pending comments ''pay $$5'' = z @ ''pay $5'' @ v"
  using unblock_prompt_expands [of pending comments "''pay $$5''"] by simp

end
