(* ===== verification/TurnLedger.thy ===== *)
theory TurnLedger
  imports TurnPrompt ReviewGate
begin

text \<open>
  The turns of a task and the facts of its session that live beside them (\<open>storage/file-storage.ts\<close>,
  \<open>task/turn-failure.ts\<close>, \<open>daemon/in-flight-turn.ts\<close>, \<open>utils/turns.ts\<close>). The state is one task directory:
  \<open>task.json\<close> as far as turns read it, \<open>session.json\<close>, \<open>turns.json\<close> and the session ids by which the index
  finds the directory. The clock, fresh ids, the secret values and what the JSON of two metadata entries
  holds are arguments. The latency statistics a turn closes are left out: they are read by nothing here.
\<close>

section \<open>Turns\<close>

record FeedbackItem =
  fi_text :: string
  fi_actor_email :: "string option"
  fi_actor_name :: "string option"

datatype FeedbackDelivery = DeliveryPending | DeliveryConsumed

record TurnFailure =
  fl_class :: string
  fl_reason :: string
  fl_remedy :: string
  fl_agent :: "string option"

record FinalClaim =
  fc_sha :: string
  fc_actor :: Actor
  fc_actor_user_id :: "string option"
  fc_at :: nat
  fc_note :: "string option"
  fc_wrap_up_steps :: "string list"

record TokenUsage =
  us_inputTokens :: nat
  us_outputTokens :: nat
  us_cacheCreationTokens :: nat
  us_cacheReadTokens :: nat

record MergeConflict =
  mc_path :: string
  mc_content :: string
  mc_merge_source :: string

record RunImage =
  ri_image :: string
  ri_kind :: string
  ri_at :: nat

record TierServed =
  ts_index :: nat
  ts_endpoint :: string
  ts_model :: string
  ts_upstream :: string

record StoredTurn =
  tn_id :: string
  tn_session_id :: string
  tn_sequence :: nat
  tn_role :: StoredRole
  tn_content :: string
  tn_timestamp :: nat
  tn_usage :: "TokenUsage option"
  tn_start_sha :: "string option"
  tn_start_sha_work :: "string option"
  tn_end_sha_work :: "string option"
  tn_end_sha :: "string option"
  tn_merge_conflicts :: "MergeConflict list"
  tn_violations :: "FileViolation list option"
  tn_uncommitted :: "string list"
  tn_agent :: "string option"
  tn_model :: "string option"
  tn_model_id :: "string option"
  tn_effort :: "string option"
  tn_mcp_tools :: "string option"
  tn_prompt :: "string option"
  tn_actor :: "Actor option \<times> string option \<times> string option"
  tn_check_exit_code :: "int option"
  tn_check_output :: "string option"
  tn_pre_turn_exit_code :: "int option"
  tn_pre_turn_output :: "string option"
  tn_auto_triggered :: bool
  tn_turn_type :: "TurnType option"
  tn_feedback_delivery :: "FeedbackDelivery option"
  tn_feedback_withheld :: bool
  tn_feedback_items :: "FeedbackItem list"
  tn_agent_had_no_effect :: "bool option"
  tn_review :: "ReviewReport option"
  tn_review_dispatch :: "ReviewDispatch option"
  tn_review_addressed :: bool
  tn_final :: "FinalClaim option"
  tn_failure :: "TurnFailure option"
  tn_runner_image :: "(string \<times> string) option"
  tn_tiers_served :: "TierServed list"

text \<open>A turn's own fields as the caller gives them: \<open>CreateTurnOptions\<close>. A content that is not a string is
  \<open>None\<close>, and a text that may be left out is empty or \<open>None\<close> alike.\<close>

record CreateTurnOptions =
  co_sessionId :: string
  co_sequence :: nat
  co_role :: StoredRole
  co_content :: "string option"
  co_usage :: "TokenUsage option"
  co_startSha :: "string option"
  co_endSha :: "string option"
  co_startShaWork :: "string option"
  co_endShaWork :: "string option"
  co_mergeConflicts :: "MergeConflict list"
  co_violations :: "FileViolation list option"
  co_uncommitted :: "string list"
  co_agent :: "string option"
  co_model :: "string option"
  co_modelId :: "string option"
  co_effort :: "string option"
  co_mcpTools :: "string option"
  co_prompt :: "string option"
  co_actor :: "ActorInput option"
  co_checkExitCode :: "int option"
  co_checkOutput :: "string option"
  co_preTurnExitCode :: "int option"
  co_preTurnOutput :: "string option"
  co_autoTriggered :: bool
  co_turnType :: "TurnType option"
  co_carriesFeedback :: bool
  co_feedbackWithheld :: bool
  co_feedbackItems :: "FeedbackItem list"
  co_agentHadNoEffect :: "bool option"
  co_review :: "ReviewReport option"
  co_reviewDispatch :: "ReviewDispatch option"
  co_reviewAddressed :: bool
  co_final :: "FinalClaim option"
  co_failure :: "TurnFailure option"
  co_noRunnerImage :: bool

section \<open>The files of a task\<close>

record SessionFailure =
  sf_failure :: TurnFailure
  sf_at :: nat
  sf_turn_sequence :: nat

record TurnSession =
  ss_id :: string
  ss_agent_id :: string
  ss_started_at :: nat
  ss_agent_session_id :: "string option"
  ss_last_interaction_at :: "nat option"
  ss_total_duration_ms :: nat
  ss_total_usage :: "TokenUsage option"
  ss_container_name :: "string option"
  ss_container_agent_id :: "string option"
  ss_interrupt_reason :: "string option"
  ss_interrupt_exit_code :: "int option"
  ss_interrupt_at :: "nat option"
  ss_interrupt_logs :: "string option"
  ss_last_turn_failure :: "SessionFailure option"
  ss_consecutive_interruptions :: nat
  ss_auto_resumed :: bool
  ss_user_stopped :: bool
  ss_reserved_turn_sequence :: nat
  ss_notes_delivered_through :: "nat option"
  ss_turn_owner :: "(string \<times> string option) option"
  ss_turn_system_initiated :: bool

datatype InFlightTurnOwner = AskOwner | PreAcceptOwner | ReviewOwner | WrapUpOwner

datatype OutcomeKind = OutcomeCompleted | OutcomeError | OutcomeForeign

record InFlightTurnOutcome =
  io_kind :: OutcomeKind
  io_turn_sequence :: "nat option"
  io_result :: "string option"
  io_message :: "string option"
  io_settled_at :: nat

record InFlightTurn =
  if_session_id :: string
  if_owner :: InFlightTurnOwner
  if_turn_type :: TurnType
  if_command_id :: "string option"
  if_turn_sequence :: nat
  if_turn_owner :: "(string \<times> string option) option"
  if_human_turn_sequence :: nat
  if_restore_status :: TaskStatus
  if_started_at :: nat
  if_expires_at :: nat
  if_run_name :: "string option"
  if_runner_type :: "string option"
  if_claimed_by_process :: "string option"
  if_outcome :: "InFlightTurnOutcome option"

text \<open>The usage, the timing and the legacy gate verdict of an outcome and the follow-up of a review ride along
  unread and are left out.\<close>

text \<open>What turns read of \<open>task.json\<close>: the claim on its protocol slot, and the launches and tiers its metadata
  records.\<close>

record LedgerTask =
  lt_in_flight :: "InFlightTurn option"
  lt_run_images :: "(string \<times> RunImage) list"
  lt_last_launch :: "RunImage option"
  lt_tiers_served :: "TierServed list"

record TaskFiles =
  tf_sessions :: "string list"
  tf_task :: "LedgerTask option"
  tf_session :: "TurnSession option"
  tf_turns :: "StoredTurn list"

datatype ledger_error =
  SessionNotFound string | TurnNotFound string | BadCount nat | NoTaskForSession string | SessionMissing string

section \<open>Creating a turn\<close>

definition normalizeTurnContent :: "string list \<Rightarrow> string option \<Rightarrow> string" where
  "normalizeTurnContent secrets content =
     (case content of Some s \<Rightarrow> redactSecretValues secrets s | None \<Rightarrow> [])"

definition work_type :: "TurnType option \<Rightarrow> bool" where
  "work_type ty \<longleftrightarrow> ty = None \<or> ty = Some WorkTurn"

definition scrub_failure :: "string list \<Rightarrow> TurnFailure \<Rightarrow> TurnFailure" where
  "scrub_failure secrets f =
     f\<lparr>fl_reason := redactSecretValues secrets (fl_reason f), fl_remedy := redactSecretValues secrets (fl_remedy f)\<rparr>"

definition turn_of_options :: "string list \<Rightarrow> string \<Rightarrow> nat \<Rightarrow> CreateTurnOptions \<Rightarrow> StoredTurn" where
  "turn_of_options secrets newId now opts =
     \<lparr>tn_id = newId,
      tn_session_id = co_sessionId opts,
      tn_sequence = co_sequence opts,
      tn_role = co_role opts,
      tn_content = normalizeTurnContent secrets (co_content opts),
      tn_timestamp = now,
      tn_usage = co_usage opts,
      tn_start_sha = co_startSha opts,
      tn_start_sha_work = co_startShaWork opts,
      tn_end_sha_work = co_endShaWork opts,
      tn_end_sha = co_endSha opts,
      tn_merge_conflicts = co_mergeConflicts opts,
      tn_violations = co_violations opts,
      tn_uncommitted = co_uncommitted opts,
      tn_agent = nonempty (co_agent opts),
      tn_model = nonempty (co_model opts),
      tn_model_id = nonempty (co_modelId opts),
      tn_effort = nonempty (co_effort opts),
      tn_mcp_tools = nonempty (co_mcpTools opts),
      tn_prompt = map_option (redactSecretValues secrets) (nonempty (co_prompt opts)),
      tn_actor = actorFields (co_actor opts),
      tn_check_exit_code = co_checkExitCode opts,
      tn_check_output = map_option (redactSecretValues secrets) (co_checkOutput opts),
      tn_pre_turn_exit_code = co_preTurnExitCode opts,
      tn_pre_turn_output = map_option (redactSecretValues secrets) (co_preTurnOutput opts),
      tn_auto_triggered = co_autoTriggered opts,
      tn_turn_type = (if co_turnType opts = Some WorkTurn then None else co_turnType opts),
      tn_feedback_delivery =
        (if co_carriesFeedback opts \<or> co_feedbackWithheld opts then Some DeliveryPending else None),
      tn_feedback_withheld = co_feedbackWithheld opts,
      tn_feedback_items = co_feedbackItems opts,
      tn_agent_had_no_effect = co_agentHadNoEffect opts,
      tn_review = co_review opts,
      tn_review_dispatch = co_reviewDispatch opts,
      tn_review_addressed = co_reviewAddressed opts,
      tn_final = co_final opts,
      tn_failure = map_option (scrub_failure secrets) (co_failure opts),
      tn_runner_image = None,
      tn_tiers_served = []\<rparr>"

text \<open>\<open>[...].sort((a, b) => b.at.localeCompare(a.at))[0]\<close>: the newest, the earliest recorded of equals.\<close>

fun newest_image :: "RunImage list \<Rightarrow> RunImage option" where
  "newest_image [] = None"
| "newest_image (r # rs) =
     (case newest_image rs of None \<Rightarrow> Some r | Some q \<Rightarrow> if ri_at r < ri_at q then Some q else Some r)"

definition isWorkRunName :: "string \<Rightarrow> bool" where
  "isWorkRunName containerName \<longleftrightarrow>
     \<not> starts_with containerName ''lazy-review-'' \<and> \<not> starts_with containerName ''lazy-gate-''"

definition turnRunImage :: "LedgerTask \<Rightarrow> TurnType option \<Rightarrow> ReviewDispatch option \<Rightarrow> RunImage option" where
  "turnRunImage task turnType reviewDispatch =
     (let newest = (\<lambda>pred. newest_image (map snd (filter (\<lambda>e. pred (fst e)) (lt_run_images task))))
      in if turnType = Some ReviewingTurn \<and> reviewDispatch \<noteq> Some DispatchSelf then
           newest (\<lambda>name. starts_with name ''lazy-review-'')
         else
           (case newest isWorkRunName of Some r \<Rightarrow> Some r | None \<Rightarrow> lt_last_launch task))"

definition stamp_image :: "LedgerTask option \<Rightarrow> CreateTurnOptions \<Rightarrow> StoredTurn \<Rightarrow> StoredTurn" where
  "stamp_image owner opts turn =
     (if co_role opts = AgentRole \<and> \<not> co_noRunnerImage opts then
        (case owner of
           None \<Rightarrow> turn
         | Some task \<Rightarrow>
             turn\<lparr>tn_runner_image :=
               map_option (\<lambda>r. (ri_image r, ri_kind r)) (turnRunImage task (co_turnType opts) (co_reviewDispatch opts))\<rparr>)
      else turn)"

definition closes_work :: "CreateTurnOptions \<Rightarrow> bool" where
  "closes_work opts \<longleftrightarrow> co_role opts = AgentRole \<and> work_type (co_turnType opts)"

definition session_after :: "nat \<Rightarrow> CreateTurnOptions \<Rightarrow> StoredTurn \<Rightarrow> TurnSession \<Rightarrow> TurnSession" where
  "session_after now opts turn s =
     (let anchor = (case ss_last_interaction_at s of Some a \<Rightarrow> a | None \<Rightarrow> ss_started_at s);
          s1 = (if co_role opts = AgentRole \<and> anchor \<noteq> 0 \<and> anchor < now
                then s\<lparr>ss_total_duration_ms := ss_total_duration_ms s + (now - anchor)\<rparr> else s);
          s2 = s1\<lparr>ss_last_interaction_at := Some now\<rparr>
      in if work_type (co_turnType opts) \<and> \<not> co_feedbackWithheld opts then
           s2\<lparr>ss_last_turn_failure :=
             map_option (\<lambda>f. \<lparr>sf_failure = f, sf_at = now, sf_turn_sequence = co_sequence opts\<rparr>) (tn_failure turn)\<rparr>
         else s2)"

definition LEGACY_MODEL_MAP :: "string \<Rightarrow> string option" where
  "LEGACY_MODEL_MAP m =
     (if m = ''apprentice'' then Some ''haiku'' else if m = ''journeyman'' then Some ''sonnet''
      else if m = ''master'' then Some ''opus'' else None)"

definition migrate_model :: "StoredTurn \<Rightarrow> StoredTurn" where
  "migrate_model turn =
     (case Option.bind (tn_model turn) LEGACY_MODEL_MAP of Some m \<Rightarrow> turn\<lparr>tn_model := Some m\<rparr> | None \<Rightarrow> turn)"

definition createTurn ::
  "string list \<Rightarrow> string \<Rightarrow> nat \<Rightarrow> CreateTurnOptions \<Rightarrow> TaskFiles \<Rightarrow> (ledger_error, TaskFiles \<times> StoredTurn) result" where
  "createTurn secrets newId now opts fs =
     (if co_sessionId opts \<notin> set (tf_sessions fs) then Inl (SessionNotFound (co_sessionId opts))
      else
        let turn = stamp_image (tf_task fs) opts (turn_of_options secrets newId now opts);
            served = (case tf_task fs of Some t \<Rightarrow> if closes_work opts then lt_tiers_served t else [] | None \<Rightarrow> []);
            turn' = turn\<lparr>tn_tiers_served := served\<rparr>
        in Inr (fs\<lparr>tf_turns := map migrate_model (tf_turns fs) @ [turn'],
                  tf_session := map_option (session_after now opts turn') (tf_session fs),
                  tf_task := (if served = [] then tf_task fs
                              else map_option (\<lambda>t. t\<lparr>lt_tiers_served := []\<rparr>) (tf_task fs))\<rparr>, turn'))"

section \<open>Sequences\<close>

definition getSessionTurns :: "string \<Rightarrow> TaskFiles \<Rightarrow> StoredTurn list" where
  "getSessionTurns sessionId fs =
     (if sessionId \<in> set (tf_sessions fs) then sort_key tn_sequence (map migrate_model (tf_turns fs)) else [])"

definition readReservedTurnSequence :: "string \<Rightarrow> TaskFiles \<Rightarrow> nat" where
  "readReservedTurnSequence sessionId fs =
     (if sessionId \<in> set (tf_sessions fs) then (case tf_session fs of Some s \<Rightarrow> ss_reserved_turn_sequence s | None \<Rightarrow> 0)
      else 0)"

definition getNextTurnSequence :: "string \<Rightarrow> TaskFiles \<Rightarrow> nat" where
  "getNextTurnSequence sessionId fs =
     (let maxSeq = foldl (\<lambda>m t. max m (tn_sequence t)) 0 (getSessionTurns sessionId fs)
      in max maxSeq (readReservedTurnSequence sessionId fs) + 1)"

definition reserveTurnSequences :: "string \<Rightarrow> nat \<Rightarrow> TaskFiles \<Rightarrow> (ledger_error, TaskFiles \<times> nat) result" where
  "reserveTurnSequences sessionId k fs =
     (if k < 1 then Inl (BadCount k)
      else if sessionId \<notin> set (tf_sessions fs) then Inl (NoTaskForSession sessionId)
      else
        (case tf_session fs of
           None \<Rightarrow> Inl (SessionMissing sessionId)
         | Some s \<Rightarrow>
             let maxSeq = foldl (\<lambda>m t. max m (tn_sequence t)) 0 (filter (\<lambda>t. tn_session_id t = ss_id s) (tf_turns fs));
                 first = max maxSeq (ss_reserved_turn_sequence s) + 1
             in Inr (fs\<lparr>tf_session := Some (s\<lparr>ss_reserved_turn_sequence := first + k - 1\<rparr>)\<rparr>, first)))"

section \<open>The claim on the protocol slot\<close>

definition IN_FLIGHT_SETTLED_GRACE_MS :: nat where
  "IN_FLIGHT_SETTLED_GRACE_MS = 60000"

definition IN_FLIGHT_ASYNC_BACKSTOP_MS :: nat where
  "IN_FLIGHT_ASYNC_BACKSTOP_MS = 24 * 60 * 60 * 1000"

definition isInFlightLive :: "nat \<Rightarrow> InFlightTurn option \<Rightarrow> bool" where
  "isInFlightLive now turn =
     (case turn of
        None \<Rightarrow> False
      | Some t \<Rightarrow>
          if if_expires_at t \<le> now then False
          else (case if_outcome t of
                  Some out \<Rightarrow> now < io_settled_at out + IN_FLIGHT_SETTLED_GRACE_MS
                | None \<Rightarrow> True))"

definition expiredSyncRestore :: "nat \<Rightarrow> InFlightTurn option \<Rightarrow> InFlightTurn option" where
  "expiredSyncRestore now turn =
     (case turn of
        None \<Rightarrow> None
      | Some t \<Rightarrow>
          if isInFlightLive now turn then None
          else if if_outcome t \<noteq> None then None
          else if if_owner t \<noteq> AskOwner \<and> if_owner t \<noteq> ReviewOwner \<and> if_owner t \<noteq> PreAcceptOwner then None
          else Some t)"

definition stoppableClaimOf :: "nat \<Rightarrow> LedgerTask \<Rightarrow> InFlightTurn option" where
  "stoppableClaimOf now task =
     (case lt_in_flight task of
        None \<Rightarrow> None
      | Some t \<Rightarrow>
          if \<not> isInFlightLive now (Some t) \<or> if_outcome t \<noteq> None then None
          else if if_owner t \<noteq> AskOwner \<and> if_owner t \<noteq> ReviewOwner then None
          else Some t)"

definition set_in_flight :: "InFlightTurn option \<Rightarrow> TaskFiles \<Rightarrow> TaskFiles" where
  "set_in_flight turn fs = fs\<lparr>tf_task := map_option (\<lambda>t. t\<lparr>lt_in_flight := turn\<rparr>) (tf_task fs)\<rparr>"

definition beginInFlightTurn :: "nat \<Rightarrow> InFlightTurn \<Rightarrow> TaskFiles \<Rightarrow> TaskFiles \<times> bool" where
  "beginInFlightTurn now turn fs =
     (case tf_task fs of
        None \<Rightarrow> (fs, False)
      | Some task \<Rightarrow>
          (case lt_in_flight task of
             Some existing \<Rightarrow> if now < if_expires_at existing then (fs, False) else (set_in_flight (Some turn) fs, True)
           | None \<Rightarrow> (set_in_flight (Some turn) fs, True)))"

definition held_claim :: "nat \<Rightarrow> TaskFiles \<Rightarrow> InFlightTurn option" where
  "held_claim turnSequence fs =
     (case Option.bind (tf_task fs) lt_in_flight of
        Some t \<Rightarrow> if if_turn_sequence t = turnSequence then Some t else None
      | None \<Rightarrow> None)"

definition stampInFlightTurnRun :: "nat \<Rightarrow> string \<Rightarrow> string option \<Rightarrow> TaskFiles \<Rightarrow> TaskFiles \<times> bool" where
  "stampInFlightTurnRun turnSequence runName runnerType fs =
     (case held_claim turnSequence fs of
        None \<Rightarrow> (fs, False)
      | Some t \<Rightarrow>
          (set_in_flight
             (Some (t\<lparr>if_run_name := Some runName,
                      if_runner_type := (case nonempty runnerType of Some r \<Rightarrow> Some r | None \<Rightarrow> if_runner_type t)\<rparr>)) fs,
           True))"

definition settleInFlightTurn :: "nat \<Rightarrow> InFlightTurnOutcome \<Rightarrow> TaskFiles \<Rightarrow> TaskFiles \<times> bool" where
  "settleInFlightTurn turnSequence out fs =
     (case held_claim turnSequence fs of
        None \<Rightarrow> (fs, False)
      | Some t \<Rightarrow> (set_in_flight (Some (t\<lparr>if_outcome := Some out\<rparr>)) fs, True))"

definition clearInFlightTurn :: "nat option \<Rightarrow> TaskFiles \<Rightarrow> TaskFiles" where
  "clearInFlightTurn turnSequence fs =
     (case turnSequence of
        None \<Rightarrow> set_in_flight None fs
      | Some n \<Rightarrow> if held_claim n fs = None then fs else set_in_flight None fs)"

section \<open>What later steps write on turns and sessions\<close>

definition update_turn :: "string \<Rightarrow> (StoredTurn \<Rightarrow> StoredTurn) \<Rightarrow> TaskFiles \<Rightarrow> (ledger_error, TaskFiles) result" where
  "update_turn turnId f fs =
     (case find (\<lambda>t. tn_id t = turnId) (tf_turns fs) of
        None \<Rightarrow> Inl (TurnNotFound turnId)
      | Some t \<Rightarrow>
          let i = length (takeWhile (\<lambda>t. tn_id t \<noteq> turnId) (tf_turns fs))
          in Inr (fs\<lparr>tf_turns := (tf_turns fs)[i := f t]\<rparr>))"

definition updateTurnWrapUpSteps :: "string \<Rightarrow> string list \<Rightarrow> TaskFiles \<Rightarrow> (ledger_error, TaskFiles) result" where
  "updateTurnWrapUpSteps turnId steps =
     update_turn turnId (\<lambda>t. t\<lparr>tn_final := map_option (\<lambda>c. c\<lparr>fc_wrap_up_steps := steps\<rparr>) (tn_final t)\<rparr>)"

definition updateTurnReview :: "string \<Rightarrow> ReviewReport \<Rightarrow> TaskFiles \<Rightarrow> (ledger_error, TaskFiles) result" where
  "updateTurnReview turnId review = update_turn turnId (\<lambda>t. t\<lparr>tn_review := Some review\<rparr>)"

definition consume_turn :: "string \<Rightarrow> StoredTurn \<Rightarrow> StoredTurn" where
  "consume_turn sessionId t =
     (if tn_session_id t = sessionId \<and> tn_feedback_delivery t = Some DeliveryPending \<and> \<not> tn_feedback_withheld t
      then t\<lparr>tn_feedback_delivery := Some DeliveryConsumed\<rparr> else t)"

definition markFeedbackConsumed :: "string \<Rightarrow> TaskFiles \<Rightarrow> TaskFiles" where
  "markFeedbackConsumed sessionId fs =
     (if sessionId \<in> set (tf_sessions fs) then fs\<lparr>tf_turns := map (consume_turn sessionId) (tf_turns fs)\<rparr> else fs)"

definition subsume_turn :: "string \<Rightarrow> string list \<Rightarrow> StoredTurn \<Rightarrow> StoredTurn" where
  "subsume_turn sessionId turnIds t =
     (if tn_session_id t = sessionId \<and> tn_id t \<in> set turnIds \<and>
         (tn_feedback_delivery t = Some DeliveryPending \<or> tn_feedback_withheld t)
      then t\<lparr>tn_feedback_delivery := Some DeliveryConsumed, tn_feedback_withheld := False\<rparr> else t)"

definition markFeedbackSubsumed :: "string \<Rightarrow> string list \<Rightarrow> TaskFiles \<Rightarrow> TaskFiles" where
  "markFeedbackSubsumed sessionId turnIds fs =
     (if sessionId \<in> set (tf_sessions fs) then fs\<lparr>tf_turns := map (subsume_turn sessionId turnIds) (tf_turns fs)\<rparr> else fs)"

definition on_session :: "string \<Rightarrow> (TurnSession \<Rightarrow> TurnSession) \<Rightarrow> TaskFiles \<Rightarrow> TaskFiles" where
  "on_session sessionId f fs =
     (if sessionId \<in> set (tf_sessions fs) then fs\<lparr>tf_session := map_option f (tf_session fs)\<rparr> else fs)"

definition updateSessionClaudeId :: "string \<Rightarrow> string \<Rightarrow> TaskFiles \<Rightarrow> TaskFiles" where
  "updateSessionClaudeId sessionId claudeSessionId =
     on_session sessionId (\<lambda>s. s\<lparr>ss_agent_session_id := Some claudeSessionId\<rparr>)"

definition updateSessionContainerName :: "string \<Rightarrow> string option \<Rightarrow> string option option \<Rightarrow> TaskFiles \<Rightarrow> TaskFiles" where
  "updateSessionContainerName sessionId containerName containerAgentId =
     on_session sessionId
       (\<lambda>s. s\<lparr>ss_container_name := containerName,
              ss_container_agent_id :=
                (if containerName = None then None
                 else case containerAgentId of Some a \<Rightarrow> a | None \<Rightarrow> ss_container_agent_id s)\<rparr>)"

definition updateSessionAgent :: "string \<Rightarrow> string \<Rightarrow> bool \<Rightarrow> TaskFiles \<Rightarrow> TaskFiles" where
  "updateSessionAgent sessionId agentId resetAgentSession =
     on_session sessionId
       (\<lambda>s. s\<lparr>ss_agent_id := agentId,
              ss_agent_session_id := (if resetAgentSession then None else ss_agent_session_id s),
              ss_container_agent_id :=
                (if ss_agent_id s \<noteq> agentId \<and> ss_container_agent_id s = None then Some (ss_agent_id s)
                 else ss_container_agent_id s)\<rparr>)"

definition updateSessionInteraction :: "string \<Rightarrow> nat \<Rightarrow> nat \<Rightarrow> TaskFiles \<Rightarrow> TaskFiles" where
  "updateSessionInteraction sessionId now durationMs =
     on_session sessionId
       (\<lambda>s. s\<lparr>ss_last_interaction_at := Some now, ss_total_duration_ms := ss_total_duration_ms s + durationMs\<rparr>)"

definition add_usage :: "TokenUsage \<Rightarrow> TokenUsage \<Rightarrow> TokenUsage" where
  "add_usage a b =
     \<lparr>us_inputTokens = us_inputTokens a + us_inputTokens b,
      us_outputTokens = us_outputTokens a + us_outputTokens b,
      us_cacheCreationTokens = us_cacheCreationTokens a + us_cacheCreationTokens b,
      us_cacheReadTokens = us_cacheReadTokens a + us_cacheReadTokens b\<rparr>"

definition no_usage :: TokenUsage where
  "no_usage = \<lparr>us_inputTokens = 0, us_outputTokens = 0, us_cacheCreationTokens = 0, us_cacheReadTokens = 0\<rparr>"

definition updateSessionUsage :: "string \<Rightarrow> TokenUsage \<Rightarrow> TaskFiles \<Rightarrow> TaskFiles" where
  "updateSessionUsage sessionId usage =
     on_session sessionId
       (\<lambda>s. s\<lparr>ss_total_usage :=
              Some (add_usage (case ss_total_usage s of Some u \<Rightarrow> u | None \<Rightarrow> no_usage) usage)\<rparr>)"

definition markNotesDelivered :: "string \<Rightarrow> nat \<Rightarrow> TaskFiles \<Rightarrow> TaskFiles" where
  "markNotesDelivered sessionId timestamp =
     on_session sessionId
       (\<lambda>s. if timestamp \<le> (case ss_notes_delivered_through s of Some n \<Rightarrow> n | None \<Rightarrow> 0) then s
            else s\<lparr>ss_notes_delivered_through := Some timestamp\<rparr>)"

definition setSessionTurnOwner :: "string \<Rightarrow> (string \<times> string option) option \<Rightarrow> bool \<Rightarrow> TaskFiles \<Rightarrow> TaskFiles" where
  "setSessionTurnOwner sessionId owner systemInitiated =
     on_session sessionId (\<lambda>s. s\<lparr>ss_turn_owner := owner, ss_turn_system_initiated := systemInitiated\<rparr>)"

definition recordInterrupt :: "string \<Rightarrow> nat \<Rightarrow> string \<Rightarrow> int option \<Rightarrow> string option \<Rightarrow> TaskFiles \<Rightarrow> TaskFiles" where
  "recordInterrupt sessionId now reason exitCode logs =
     on_session sessionId
       (\<lambda>s. s\<lparr>ss_interrupt_reason := Some reason, ss_interrupt_exit_code := exitCode, ss_interrupt_at := Some now,
              ss_interrupt_logs := logs, ss_consecutive_interruptions := ss_consecutive_interruptions s + 1\<rparr>)"

definition resetConsecutiveInterruptions :: "string \<Rightarrow> TaskFiles \<Rightarrow> TaskFiles" where
  "resetConsecutiveInterruptions sessionId =
     on_session sessionId
       (\<lambda>s. s\<lparr>ss_consecutive_interruptions := 0, ss_auto_resumed := False, ss_user_stopped := False\<rparr>)"

definition setAutoResumed :: "string \<Rightarrow> bool \<Rightarrow> TaskFiles \<Rightarrow> TaskFiles" where
  "setAutoResumed sessionId autoResumed = on_session sessionId (\<lambda>s. s\<lparr>ss_auto_resumed := autoResumed\<rparr>)"

definition setUserStopped :: "string \<Rightarrow> bool \<Rightarrow> TaskFiles \<Rightarrow> TaskFiles" where
  "setUserStopped sessionId userStopped = on_session sessionId (\<lambda>s. s\<lparr>ss_user_stopped := userStopped\<rparr>)"

section \<open>What surfaces read\<close>

definition statusCanShowFailure :: "TaskStatus \<Rightarrow> bool" where
  "statusCanShowFailure status \<longleftrightarrow> status \<in> set [Blocked, Conflict, Interrupted, Submitted]"

definition taskTurnFailure :: "TaskStatus \<Rightarrow> TurnSession option \<Rightarrow> SessionFailure option" where
  "taskTurnFailure status session =
     (if \<not> statusCanShowFailure status then None else Option.bind session ss_last_turn_failure)"

definition turnFailureLabel :: "TurnFailure \<Rightarrow> string" where
  "turnFailureLabel failure = ''failed:'' @ fl_class failure"

definition isWorkAgentTurn :: "StoredTurn \<Rightarrow> bool" where
  "isWorkAgentTurn turn \<longleftrightarrow> tn_role turn = AgentRole \<and> work_type (tn_turn_type turn)"

definition latestWorkAgentTurn :: "StoredTurn list \<Rightarrow> StoredTurn option" where
  "latestWorkAgentTurn turns = find isWorkAgentTurn (rev turns)"

section \<open>What stays true of a ledger\<close>

text \<open>A turn is either created at the next sequence, asked for under the task's lifecycle lock, or at one that
  was reserved for it. \<open>promised\<close> holds the reserved sequences no turn has taken yet.\<close>

record Ledger =
  ld_files :: TaskFiles
  ld_promised :: "nat set"

definition session_field :: "(TurnSession \<Rightarrow> TurnSession) \<Rightarrow> bool" where
  "session_field f \<longleftrightarrow>
     (\<forall>s. ss_id (f s) = ss_id s \<and> ss_reserved_turn_sequence (f s) = ss_reserved_turn_sequence s \<and>
          ss_last_turn_failure (f s) = ss_last_turn_failure s)"

definition turn_field :: "(StoredTurn \<Rightarrow> StoredTurn) \<Rightarrow> bool" where
  "turn_field f \<longleftrightarrow>
     (\<forall>t. tn_id (f t) = tn_id t \<and> tn_session_id (f t) = tn_session_id t \<and> tn_sequence (f t) = tn_sequence t \<and>
          tn_timestamp (f t) = tn_timestamp t \<and> tn_turn_type (f t) = tn_turn_type t \<and>
          tn_feedback_withheld (f t) = tn_feedback_withheld t \<and> tn_failure (f t) = tn_failure t)"

definition ran_work :: "StoredTurn \<Rightarrow> bool" where
  "ran_work t \<longleftrightarrow> work_type (tn_turn_type t) \<and> \<not> tn_feedback_withheld t"

inductive ledger_step :: "string \<Rightarrow> Ledger \<Rightarrow> Ledger \<Rightarrow> bool" for sid where
  create_next:
    "createTurn secrets newId now opts (ld_files l) = Inr (fs, t) \<Longrightarrow> co_sessionId opts = sid \<Longrightarrow>
     newId \<notin> tn_id ` set (tf_turns (ld_files l)) \<Longrightarrow>
     co_sequence opts = getNextTurnSequence sid (ld_files l) \<Longrightarrow> ledger_step sid l (l\<lparr>ld_files := fs\<rparr>)"
| reserve:
    "reserveTurnSequences sid n (ld_files l) = Inr (fs, first) \<Longrightarrow>
     ledger_step sid l (l\<lparr>ld_files := fs, ld_promised := ld_promised l \<union> {first..<first + n}\<rparr>)"
| create_reserved:
    "createTurn secrets newId now opts (ld_files l) = Inr (fs, t) \<Longrightarrow> co_sessionId opts = sid \<Longrightarrow>
     newId \<notin> tn_id ` set (tf_turns (ld_files l)) \<Longrightarrow>
     co_sequence opts \<in> ld_promised l \<Longrightarrow>
     ledger_step sid l (l\<lparr>ld_files := fs, ld_promised := ld_promised l - {co_sequence opts}\<rparr>)"
| consumed: "ledger_step sid l (l\<lparr>ld_files := markFeedbackConsumed sid (ld_files l)\<rparr>)"
| subsumed:
    "tf_turns (ld_files l) \<noteq> [] \<Longrightarrow> ran_work (last (tf_turns (ld_files l))) \<Longrightarrow>
     ledger_step sid l (l\<lparr>ld_files := markFeedbackSubsumed sid ids (ld_files l)\<rparr>)"
| edited:
    "turn_field f \<Longrightarrow> update_turn turnId f (ld_files l) = Inr fs \<Longrightarrow> ledger_step sid l (l\<lparr>ld_files := fs\<rparr>)"
| session: "session_field f \<Longrightarrow> ledger_step sid l (l\<lparr>ld_files := on_session sid f (ld_files l)\<rparr>)"
| slot: "ledger_step sid l (l\<lparr>ld_files := set_in_flight claim (ld_files l)\<rparr>)"

definition new_ledger :: "string \<Rightarrow> Ledger \<Rightarrow> bool" where
  "new_ledger sid l \<longleftrightarrow>
     tf_turns (ld_files l) = [] \<and> ld_promised l = {} \<and> sid \<in> set (tf_sessions (ld_files l)) \<and>
     (\<exists>s. tf_session (ld_files l) = Some s \<and> ss_id s = sid \<and> ss_last_turn_failure s = None)"

definition ledger_reach :: "string \<Rightarrow> Ledger \<Rightarrow> bool" where
  "ledger_reach sid l \<longleftrightarrow> (\<exists>l0. new_ledger sid l0 \<and> (ledger_step sid)\<^sup>*\<^sup>* l0 l)"

definition last_ran :: "StoredTurn list \<Rightarrow> StoredTurn option" where
  "last_ran turns = find ran_work (rev turns)"

definition failure_of :: "StoredTurn option \<Rightarrow> SessionFailure option" where
  "failure_of turn =
     Option.bind turn
       (\<lambda>t. map_option (\<lambda>f. \<lparr>sf_failure = f, sf_at = tn_timestamp t, sf_turn_sequence = tn_sequence t\<rparr>) (tn_failure t))"

definition ledger_inv :: "string \<Rightarrow> Ledger \<Rightarrow> bool" where
  "ledger_inv sid l \<longleftrightarrow>
     sid \<in> set (tf_sessions (ld_files l)) \<and>
     distinct (map tn_sequence (tf_turns (ld_files l))) \<and>
     distinct (map tn_id (tf_turns (ld_files l))) \<and>
     (\<forall>t \<in> set (tf_turns (ld_files l)). tn_session_id t = sid) \<and>
     tn_sequence ` set (tf_turns (ld_files l)) \<inter> ld_promised l = {} \<and>
     (\<exists>s. tf_session (ld_files l) = Some s \<and> ss_id s = sid \<and>
          (\<forall>n \<in> ld_promised l. n \<le> ss_reserved_turn_sequence s) \<and>
          ss_last_turn_failure s = failure_of (last_ran (tf_turns (ld_files l))))"

lemma migrate_fields [simp]:
  "tn_id (migrate_model t) = tn_id t" "tn_session_id (migrate_model t) = tn_session_id t"
  "tn_sequence (migrate_model t) = tn_sequence t" "tn_timestamp (migrate_model t) = tn_timestamp t"
  "tn_turn_type (migrate_model t) = tn_turn_type t" "tn_failure (migrate_model t) = tn_failure t"
  "tn_feedback_withheld (migrate_model t) = tn_feedback_withheld t" "tn_role (migrate_model t) = tn_role t"
  "tn_feedback_delivery (migrate_model t) = tn_feedback_delivery t" "tn_content (migrate_model t) = tn_content t"
  "tn_feedback_items (migrate_model t) = tn_feedback_items t"
  by (auto simp: migrate_model_def split: option.splits)

lemma last_ran_cong:
  assumes "\<And>t. t \<in> set ts \<Longrightarrow> ran_work (f t) = ran_work t \<and> tn_failure (f t) = tn_failure t \<and>
      tn_timestamp (f t) = tn_timestamp t \<and> tn_sequence (f t) = tn_sequence t"
  shows "failure_of (last_ran (map f ts)) = failure_of (last_ran ts)"
  using assms
proof (induction ts rule: rev_induct)
  case (snoc t ts)
  then show ?case by (auto simp: last_ran_def failure_of_def)
qed simp

lemma last_ran_snoc: "last_ran (ts @ [t]) = (if ran_work t then Some t else last_ran ts)"
  by (simp add: last_ran_def)

lemma foldl_max_ge: "a \<le> foldl (\<lambda>m x. max m (f x)) a xs" for a :: nat
proof (induction xs arbitrary: a)
  case (Cons x xs)
  from Cons [of "max a (f x)"] show ?case by simp
qed simp

lemma foldl_max_le: "x \<in> set xs \<Longrightarrow> f x \<le> foldl (\<lambda>m x. max m (f x)) a xs" for a :: nat
proof (induction xs arbitrary: a)
  case (Cons y xs)
  then show ?case using foldl_max_ge [of "max a (f y)" f xs] by auto
qed simp

lemma next_is_new:
  assumes "sid \<in> set (tf_sessions fs)" "t \<in> set (tf_turns fs)"
  shows "tn_sequence t < getNextTurnSequence sid fs"
proof -
  have "migrate_model t \<in> set (getSessionTurns sid fs)"
    using assms by (auto simp: getSessionTurns_def)
  from foldl_max_le [OF this, of tn_sequence 0] show ?thesis
    by (simp add: getNextTurnSequence_def Let_def less_Suc_eq_le le_max_iff_disj)
qed

lemma next_is_unreserved:
  assumes "sid \<in> set (tf_sessions fs)" "tf_session fs = Some s"
  shows "ss_reserved_turn_sequence s < getNextTurnSequence sid fs"
  using assms by (simp add: getNextTurnSequence_def readReservedTurnSequence_def Let_def less_Suc_eq_le)

lemma created_fields:
  "tn_sequence (stamp_image own opts (turn_of_options secrets i now opts)) = co_sequence opts"
  "tn_session_id (stamp_image own opts (turn_of_options secrets i now opts)) = co_sessionId opts"
  "tn_id (stamp_image own opts (turn_of_options secrets i now opts)) = i"
  "tn_timestamp (stamp_image own opts (turn_of_options secrets i now opts)) = now"
  "tn_feedback_withheld (stamp_image own opts (turn_of_options secrets i now opts)) = co_feedbackWithheld opts"
  "work_type (tn_turn_type (stamp_image own opts (turn_of_options secrets i now opts))) = work_type (co_turnType opts)"
  "tn_role (stamp_image own opts (turn_of_options secrets i now opts)) = co_role opts"
  "tn_content (stamp_image own opts (turn_of_options secrets i now opts)) = normalizeTurnContent secrets (co_content opts)"
  "tn_feedback_items (stamp_image own opts (turn_of_options secrets i now opts)) = co_feedbackItems opts"
  "tn_feedback_delivery (stamp_image own opts (turn_of_options secrets i now opts)) =
     (if co_carriesFeedback opts \<or> co_feedbackWithheld opts then Some DeliveryPending else None)"
  by (auto simp: stamp_image_def turn_of_options_def work_type_def split: option.splits)

lemma created_turn:
  assumes "createTurn secrets newId now opts fs = Inr (fs', t)"
  shows "co_sessionId opts \<in> set (tf_sessions fs)" "tf_sessions fs' = tf_sessions fs"
    "tf_turns fs' = map migrate_model (tf_turns fs) @ [t]"
    "tf_session fs' = map_option (session_after now opts t) (tf_session fs)"
    "tn_sequence t = co_sequence opts" "tn_session_id t = co_sessionId opts" "tn_id t = newId"
    "tn_timestamp t = now" "tn_feedback_withheld t = co_feedbackWithheld opts"
    "work_type (tn_turn_type t) = work_type (co_turnType opts)" "tn_role t = co_role opts"
    "tn_content t = normalizeTurnContent secrets (co_content opts)" "tn_feedback_items t = co_feedbackItems opts"
    "tn_feedback_delivery t = (if co_carriesFeedback opts \<or> co_feedbackWithheld opts then Some DeliveryPending else None)"
  using assms by (auto simp: createTurn_def created_fields Let_def split: if_splits)

lemma session_after_fields:
  "ss_id (session_after now opts t s) = ss_id s"
  "ss_reserved_turn_sequence (session_after now opts t s) = ss_reserved_turn_sequence s"
  "ss_last_turn_failure (session_after now opts t s) =
     (if work_type (co_turnType opts) \<and> \<not> co_feedbackWithheld opts
      then map_option (\<lambda>f. \<lparr>sf_failure = f, sf_at = now, sf_turn_sequence = co_sequence opts\<rparr>) (tn_failure t)
      else ss_last_turn_failure s)"
  by (simp_all add: session_after_def Let_def)

lemma create_keeps:
  assumes ok: "ledger_inv sid l" and c: "createTurn secrets newId now opts (ld_files l) = Inr (fs, t)"
    and sid: "co_sessionId opts = sid" and new: "newId \<notin> tn_id ` set (tf_turns (ld_files l))"
    and fresh: "co_sequence opts \<notin> tn_sequence ` set (tf_turns (ld_files l))"
    and p: "P \<subseteq> ld_promised l" "co_sequence opts \<notin> P"
  shows "ledger_inv sid (l\<lparr>ld_files := fs, ld_promised := P\<rparr>)"
proof -
  obtain s where s: "tf_session (ld_files l) = Some s" "ss_id s = sid"
      "\<forall>n \<in> ld_promised l. n \<le> ss_reserved_turn_sequence s"
      "ss_last_turn_failure s = failure_of (last_ran (tf_turns (ld_files l)))"
    using ok by (auto simp: ledger_inv_def)
  note t = created_turn [OF c]
  have "failure_of (last_ran (map migrate_model (tf_turns (ld_files l)))) = failure_of (last_ran (tf_turns (ld_files l)))"
    by (rule last_ran_cong) (simp add: ran_work_def)
  then have "ss_last_turn_failure (session_after now opts t s) = failure_of (last_ran (tf_turns fs))"
    using s(4) t by (auto simp: session_after_fields last_ran_snoc ran_work_def failure_of_def)
  then have "\<exists>s. tf_session fs = Some s \<and> ss_id s = sid \<and> (\<forall>n \<in> P. n \<le> ss_reserved_turn_sequence s) \<and>
      ss_last_turn_failure s = failure_of (last_ran (tf_turns fs))"
    using s p(1) t(4) by (auto simp: session_after_fields)
  moreover have "distinct (map tn_sequence (tf_turns fs))" "distinct (map tn_id (tf_turns fs))"
    using ok new fresh t by (auto simp: ledger_inv_def comp_def)
  moreover have "\<forall>t \<in> set (tf_turns fs). tn_session_id t = sid" using ok sid t by (auto simp: ledger_inv_def)
  moreover have "tn_sequence ` set (tf_turns fs) \<inter> P = {}"
    using ok p t by (auto simp: ledger_inv_def image_image)
  ultimately show ?thesis using ok t(2) by (simp add: ledger_inv_def)
qed

lemma turns_mapped_keeps:
  assumes ok: "ledger_inv sid l" and t: "tf_turns fs = map g (tf_turns (ld_files l))"
    and fs: "tf_sessions fs = tf_sessions (ld_files l)" "tf_session fs = tf_session (ld_files l)"
    and g: "\<And>t. tn_id (g t) = tn_id t \<and> tn_session_id (g t) = tn_session_id t \<and> tn_sequence (g t) = tn_sequence t"
    and last: "failure_of (last_ran (map g (tf_turns (ld_files l)))) = failure_of (last_ran (tf_turns (ld_files l)))"
  shows "ledger_inv sid (l\<lparr>ld_files := fs\<rparr>)"
proof -
  have "map tn_sequence (tf_turns fs) = map tn_sequence (tf_turns (ld_files l))"
    and "map tn_id (tf_turns fs) = map tn_id (tf_turns (ld_files l))"
    and "tn_sequence ` set (tf_turns fs) = tn_sequence ` set (tf_turns (ld_files l))"
    using g by (simp_all add: t image_image)
  with ok show ?thesis unfolding ledger_inv_def using fs last g by (simp add: t comp_def)
qed

lemma update_turn_map:
  assumes "update_turn i f fs = Inr fs'" "distinct (map tn_id (tf_turns fs))"
  shows "fs' = fs\<lparr>tf_turns := map (\<lambda>t. if tn_id t = i then f t else t) (tf_turns fs)\<rparr>"
proof -
  have "find (\<lambda>t. tn_id t = i) ts = Some t \<Longrightarrow> distinct (map tn_id ts) \<Longrightarrow>
      ts[length (takeWhile (\<lambda>t. tn_id t \<noteq> i) ts) := f t] = map (\<lambda>t. if tn_id t = i then f t else t) ts" for ts t
  proof (induction ts)
    case (Cons a ts)
    then show ?case
      by (cases "tn_id a = i") (auto intro!: map_idI [symmetric] simp: rev_image_eqI)
  qed simp
  with assms show ?thesis by (auto simp: update_turn_def Let_def split: option.splits)
qed

lemma ledger_step_keeps:
  assumes "ledger_step sid l l'" "ledger_inv sid l"
  shows "ledger_inv sid l'"
  using assms
proof (induction rule: ledger_step.induct)
  case (create_next secrets newId now opts l fs t)
  have "sid \<in> set (tf_sessions (ld_files l))" using create_next.prems by (simp add: ledger_inv_def)
  moreover obtain s where "tf_session (ld_files l) = Some s" "\<forall>n \<in> ld_promised l. n \<le> ss_reserved_turn_sequence s"
    using create_next.prems by (auto simp: ledger_inv_def)
  ultimately have "co_sequence opts \<notin> tn_sequence ` set (tf_turns (ld_files l))" "co_sequence opts \<notin> ld_promised l"
    using next_is_new [of sid "ld_files l"] next_is_unreserved [of sid "ld_files l" s] create_next.hyps(4)
    by (force, force)
  then have "ledger_inv sid (l\<lparr>ld_files := fs, ld_promised := ld_promised l\<rparr>)"
    by (intro create_keeps [OF create_next.prems create_next.hyps(1-3)]) auto
  then show ?case by simp
next
  case (reserve n l fs first)
  obtain s where s: "tf_session (ld_files l) = Some s" "ss_id s = sid"
      "\<forall>n \<in> ld_promised l. n \<le> ss_reserved_turn_sequence s"
      "ss_last_turn_failure s = failure_of (last_ran (tf_turns (ld_files l)))"
    using reserve.prems by (auto simp: ledger_inv_def)
  have own: "filter (\<lambda>t. tn_session_id t = ss_id s) (tf_turns (ld_files l)) = tf_turns (ld_files l)"
    using reserve.prems s(2) by (simp add: ledger_inv_def filter_id_conv)
  have fs: "fs = ld_files l\<lparr>tf_session := Some (s\<lparr>ss_reserved_turn_sequence := first + n - 1\<rparr>)\<rparr>"
    and first: "first = max (foldl (\<lambda>m t. max m (tn_sequence t)) 0 (tf_turns (ld_files l))) (ss_reserved_turn_sequence s) + 1"
    using reserve.hyps s(1) own by (auto simp: reserveTurnSequences_def Let_def split: if_splits)
  have "tn_sequence t < first" if "t \<in> set (tf_turns (ld_files l))" for t
    using foldl_max_le [OF that, of tn_sequence 0] by (simp add: first less_Suc_eq_le le_max_iff_disj)
  moreover have "k \<le> first + n - 1" if "k \<in> ld_promised l" for k
    using s(3) that first by (force simp: less_Suc_eq_le)
  ultimately show ?case using reserve.prems s unfolding ledger_inv_def fs by (auto simp: fs) (metis leD)
next
  case (create_reserved secrets newId now opts l fs t)
  have "co_sequence opts \<notin> tn_sequence ` set (tf_turns (ld_files l))"
    using create_reserved.prems create_reserved.hyps(4) by (auto simp: ledger_inv_def)
  then show ?case
    by (intro create_keeps [OF create_reserved.prems create_reserved.hyps(1-3)]) auto
next
  case (consumed l)
  then have "sid \<in> set (tf_sessions (ld_files l))" by (simp add: ledger_inv_def)
  then show ?case
    by (intro turns_mapped_keeps [OF consumed, where g = "consume_turn sid"] last_ran_cong)
       (auto simp: markFeedbackConsumed_def consume_turn_def ran_work_def)
next
  case (subsumed l ids)
  then have "sid \<in> set (tf_sessions (ld_files l))" by (simp add: ledger_inv_def)
  obtain ts t where ts: "tf_turns (ld_files l) = ts @ [t]" using subsumed.hyps(1) by (cases "tf_turns (ld_files l)" rule: rev_cases) auto
  then have "ran_work t" using subsumed.hyps(2) by simp
  then have "ran_work (subsume_turn sid ids t)" "failure_of (Some (subsume_turn sid ids t)) = failure_of (Some t)"
    by (auto simp: subsume_turn_def ran_work_def failure_of_def)
  then have "failure_of (last_ran (map (subsume_turn sid ids) (tf_turns (ld_files l)))) = failure_of (last_ran (tf_turns (ld_files l)))"
    using \<open>ran_work t\<close> by (simp add: ts last_ran_snoc)
  then show ?case using \<open>sid \<in> _\<close>
    by (intro turns_mapped_keeps [OF subsumed.prems, where g = "subsume_turn sid ids"])
       (auto simp: markFeedbackSubsumed_def subsume_turn_def)
next
  case (edited f turnId l fs)
  have "distinct (map tn_id (tf_turns (ld_files l)))" using edited.prems by (simp add: ledger_inv_def)
  note fs = update_turn_map [OF edited.hyps(2) this]
  show ?case using edited.hyps(1)
    by (intro turns_mapped_keeps [OF edited.prems, where g = "\<lambda>t. if tn_id t = turnId then f t else t"] last_ran_cong)
       (auto simp: fs turn_field_def ran_work_def)
next
  case (session f l)
  then show ?case by (auto simp: ledger_inv_def on_session_def session_field_def)
next
  case (slot l claim)
  then show ?case by (simp add: ledger_inv_def set_in_flight_def)
qed

lemma ledger_reach_ok: "ledger_reach sid l \<Longrightarrow> ledger_inv sid l"
proof -
  assume "ledger_reach sid l"
  then obtain l0 where "new_ledger sid l0" "(ledger_step sid)\<^sup>*\<^sup>* l0 l" by (auto simp: ledger_reach_def)
  from this(2,1) show ?thesis
  proof (induction rule: rtranclp_induct)
    case base
    then show ?case by (auto simp: new_ledger_def ledger_inv_def last_ran_def failure_of_def)
  next
    case (step l l')
    then show ?case using ledger_step_keeps by blast
  qed
qed


definition sample_options :: CreateTurnOptions where
  "sample_options =
     \<lparr>co_sessionId = ''s'', co_sequence = 1, co_role = HumanRole, co_content = Some ''hi'', co_usage = None,
      co_startSha = None, co_endSha = None, co_startShaWork = None, co_endShaWork = None, co_mergeConflicts = [],
      co_violations = None, co_uncommitted = [], co_agent = None, co_model = None, co_modelId = None,
      co_effort = None, co_mcpTools = None, co_prompt = None, co_actor = None, co_checkExitCode = None,
      co_checkOutput = None, co_preTurnExitCode = None, co_preTurnOutput = None, co_autoTriggered = False,
      co_turnType = None, co_carriesFeedback = False, co_feedbackWithheld = False, co_feedbackItems = [],
      co_agentHadNoEffect = None, co_review = None, co_reviewDispatch = None, co_reviewAddressed = False,
      co_final = None, co_failure = None, co_noRunnerImage = False\<rparr>"

definition sample_failure :: TurnFailure where
  "sample_failure = \<lparr>fl_class = ''fatal_auth'', fl_reason = ''r'', fl_remedy = ''m'', fl_agent = None\<rparr>"

definition sample_session :: TurnSession where
  "sample_session =
     \<lparr>ss_id = ''s'', ss_agent_id = ''a'', ss_started_at = 1, ss_agent_session_id = None, ss_last_interaction_at = None,
      ss_total_duration_ms = 0, ss_total_usage = None, ss_container_name = None, ss_container_agent_id = None,
      ss_interrupt_reason = None, ss_interrupt_exit_code = None, ss_interrupt_at = None, ss_interrupt_logs = None,
      ss_last_turn_failure = None, ss_consecutive_interruptions = 0, ss_auto_resumed = False,
      ss_user_stopped = False, ss_reserved_turn_sequence = 0, ss_notes_delivered_through = None,
      ss_turn_owner = None, ss_turn_system_initiated = False\<rparr>"

definition sample_files :: TaskFiles where
  "sample_files = \<lparr>tf_sessions = [''s''], tf_task = None, tf_session = Some sample_session, tf_turns = []\<rparr>"

text \<open>An answer is reserved at 1, a notice takes 2 and fails, and the answer is recorded last.\<close>

definition reserved_files :: TaskFiles where
  "reserved_files = sample_files\<lparr>tf_session := Some (sample_session\<lparr>ss_reserved_turn_sequence := 1\<rparr>)\<rparr>"

definition failing_options :: CreateTurnOptions where
  "failing_options = sample_options\<lparr>co_sequence := 2, co_role := AgentRole, co_failure := Some sample_failure\<rparr>"

definition created :: "string \<Rightarrow> nat \<Rightarrow> CreateTurnOptions \<Rightarrow> TaskFiles \<Rightarrow> TaskFiles" where
  "created i now opts fs = (case createTurn [] i now opts fs of Inr (fs', t) \<Rightarrow> fs' | Inl e \<Rightarrow> fs)"

definition sample_ledger :: Ledger where
  "sample_ledger =
     \<lparr>ld_files = created ''b'' 9 (sample_options\<lparr>co_role := AgentRole, co_turnType := Some AskTurn\<rparr>)
        (created ''a'' 5 failing_options reserved_files), ld_promised = {}\<rparr>"

lemma created_Inr: "co_sessionId opts \<in> set (tf_sessions fs) \<Longrightarrow> \<exists>t. createTurn [] i now opts fs = Inr (created i now opts fs, t)"
  by (auto simp: created_def createTurn_def Let_def)

lemma sample_ledger_reach: "ledger_reach ''s'' sample_ledger"
proof -
  let ?ask = "sample_options\<lparr>co_role := AgentRole, co_turnType := Some AskTurn\<rparr>"
  define l0 where "l0 = \<lparr>ld_files = sample_files, ld_promised = {}\<rparr>"
  define l1 where "l1 = \<lparr>ld_files = reserved_files, ld_promised = {Suc 0}\<rparr>"
  define l2 where "l2 = \<lparr>ld_files = created ''a'' 5 failing_options reserved_files, ld_promised = {Suc 0}\<rparr>"
  have "reserveTurnSequences ''s'' 1 sample_files = Inr (reserved_files, 1)" by code_simp
  then have "ledger_step ''s'' l0 l1"
    using ledger_step.reserve [of "''s''" 1 l0 reserved_files 1] by (simp add: l0_def l1_def)
  moreover have "ledger_step ''s'' l1 l2"
  proof -
    have "co_sequence failing_options = getNextTurnSequence ''s'' reserved_files" by code_simp
    moreover obtain t where "createTurn [] ''a'' 5 failing_options reserved_files =
        Inr (created ''a'' 5 failing_options reserved_files, t)"
      using created_Inr [of failing_options reserved_files "''a''" 5]
      by (auto simp: failing_options_def sample_options_def reserved_files_def sample_files_def)
    moreover have "co_sessionId failing_options = ''s''" by (simp add: failing_options_def sample_options_def)
    moreover have "tf_turns reserved_files = []" by (simp add: reserved_files_def sample_files_def)
    ultimately show ?thesis
      using ledger_step.create_next [of "[]" "''a''" 5 failing_options l1 _ t "''s''"] by (simp add: l1_def l2_def)
  qed
  moreover have "ledger_step ''s'' l2 sample_ledger"
  proof -
    have "''s'' \<in> set (tf_sessions (ld_files l2))" "tn_id ` set (tf_turns (ld_files l2)) = {''a''}"
      unfolding l2_def by code_simp+
    moreover from this obtain t where "createTurn [] ''b'' 9 ?ask (ld_files l2) = Inr (created ''b'' 9 ?ask (ld_files l2), t)"
      using created_Inr [of ?ask "ld_files l2" "''b''" 9] by (auto simp: sample_options_def)
    ultimately show ?thesis
      using ledger_step.create_reserved [of "[]" "''b''" 9 ?ask l2 _ t "''s''"]
      by (simp add: sample_options_def) (simp add: l2_def sample_ledger_def sample_options_def)
  qed
  moreover have "new_ledger ''s'' l0"
    by (simp add: new_ledger_def l0_def sample_files_def sample_session_def)
  ultimately show ?thesis unfolding ledger_reach_def by (meson converse_rtranclp_into_rtranclp rtranclp.rtrancl_refl)
qed


text \<open>C28: The failure a paused task shows is the failure of the last work turn that ran: a turn beside the work
  (an ask, a review, a sync) and feedback whose launch was refused leave it standing, and any other work turn
  clears it.\<close>

theorem failure_shown_is_of_last_run:
  assumes "ledger_reach sid l"
  shows "taskTurnFailure status (tf_session (ld_files l)) =
    (if statusCanShowFailure status then failure_of (last_ran (tf_turns (ld_files l))) else None)"
  using ledger_reach_ok [OF assms] by (auto simp: ledger_inv_def taskTurnFailure_def)

lemma failure_shown_is_of_last_run_witness:
  "taskTurnFailure Blocked (tf_session (ld_files sample_ledger)) =
     Some \<lparr>sf_failure = sample_failure, sf_at = 5, sf_turn_sequence = 2\<rparr>"
proof -
  have "failure_of (last_ran (tf_turns (ld_files sample_ledger))) =
      Some \<lparr>sf_failure = sample_failure, sf_at = 5, sf_turn_sequence = 2\<rparr>" by code_simp
  with failure_shown_is_of_last_run [OF sample_ledger_reach, of Blocked] show ?thesis
    by (simp add: statusCanShowFailure_def)
qed

text \<open>The words of a turn are scrubbed in its content and kept as they are in its items.\<close>

lemma items_not_scrubbed:
  "(case createTurn [''k3y''] ''a'' 5
          (sample_options\<lparr>co_content := Some ''use k3y'',
             co_feedbackItems := [\<lparr>fi_text = ''use k3y'', fi_actor_email = None, fi_actor_name = None\<rparr>]\<rparr>) sample_files of
      Inr (fs, t) \<Rightarrow> (tn_content t, map fi_text (tn_feedback_items t)) | Inl e \<Rightarrow> ([], [])) =
   (''use <redacted>'', [''use k3y''])"
  by code_simp

end
